(* ===== verification/MNN_Prelude.thy ===== *)
theory MNN_Prelude
  imports Main "HOL-Library.Signed_Division"
begin

text \<open>
  Shared vocabulary of the development: the integer macros of
  \<^verbatim>\<open>source/core/Macro.h\<close> over \<^typ>\<open>nat\<close> (for \<^verbatim>\<open>size_t\<close>) and over \<^typ>\<open>int\<close>
  (for \<^verbatim>\<open>int\<close>, whose division truncates: \<open>sdiv\<close> and \<open>smod\<close> of
  \<open>HOL-Library.Signed_Division\<close>), the error codes the components return, and the
  lemmas on them that the component theories share.
\<close>

named_theorems mnn_arith \<open>arithmetic of UP_DIV and ROUND_UP\<close>
named_theorems seg_simps \<open>doubly linked segments\<close>

section \<open>Error codes\<close>

text \<open>The values of \<^verbatim>\<open>MNN::ErrorCode\<close> (\<^verbatim>\<open>include/MNN/ErrorCode.hpp\<close>) the modelled code returns.\<close>

datatype ErrorCode =
    NO_ERROR | OUT_OF_MEMORY | NOT_SUPPORT | COMPUTE_SIZE_ERROR | NO_EXECUTION | INVALID_VALUE
  | INPUT_DATA_ERROR | CALL_BACK_STOP | TENSOR_NOT_SUPPORT | TENSOR_NEED_DIVIDE
  | FILE_CREATE_FAILED | FILE_REMOVE_FAILED | FILE_OPEN_FAILED | FILE_CLOSE_FAILED
  | FILE_RESIZE_FAILED | FILE_SEEK_FAILED | FILE_NOT_EXIST | FILE_UNMAP_FAILED

section \<open>Sizes: UP_DIV on size_t\<close>

definition UP_DIV_sz :: "nat \<Rightarrow> nat \<Rightarrow> nat" where
  "UP_DIV_sz x y = (x + y - 1) div y"

definition align_up :: "nat \<Rightarrow> nat \<Rightarrow> nat" where
  "align_up x y = UP_DIV_sz x y * y"

lemma align_up_ge [mnn_arith]: "0 < y \<Longrightarrow> x \<le> align_up x y"
proof -
  assume y: "0 < y"
  have "x + y - 1 = (x + y - 1) div y * y + (x + y - 1) mod y" by simp
  moreover have "(x + y - 1) mod y < y" using y by simp
  ultimately show "x \<le> align_up x y"
    unfolding align_up_def UP_DIV_sz_def using y by linarith
qed

lemma align_up_less [mnn_arith]: "0 < y \<Longrightarrow> align_up x y < x + y"
  unfolding align_up_def UP_DIV_sz_def
  by (metis add_gr_0 diff_less div_mult_mod_eq le_add1 less_one linorder_not_le nat_less_le
      order_le_less_trans)

lemma align_up_dvd [mnn_arith]: "y dvd align_up x y"
  by (simp add: align_up_def)

lemma align_up_id [mnn_arith]: "0 < y \<Longrightarrow> y dvd x \<Longrightarrow> align_up x y = x"
  using align_up_ge [of y x] align_up_less [of y x] align_up_dvd [of y x]
  by (metis add_diff_cancel_left' dvd_diff_nat le_add_diff_inverse less_add_eq_less
      nat_add_left_cancel_less nat_dvd_not_less zero_less_diff order_le_less)

lemma align_up_pos [mnn_arith]: "0 < y \<Longrightarrow> 0 < x \<Longrightarrow> 0 < align_up x y"
  using align_up_ge [of y x] by linarith

section \<open>Optional pointers into lists\<close>

text \<open>
  A null or non-null pointer is an \<^typ>\<open>'a option\<close>. \<open>first_of xs n\<close> is the first element of
  \<open>xs\<close>, or \<open>n\<close> when there is none; \<open>last_of xs p\<close> is the last element, or \<open>p\<close>.
\<close>

fun first_of :: "'a list \<Rightarrow> 'a option \<Rightarrow> 'a option" where
  "first_of [] n = n"
| "first_of (x # xs) n = Some x"

definition last_of :: "'a list \<Rightarrow> 'a option \<Rightarrow> 'a option" where
  "last_of xs p = (if xs = [] then p else Some (last xs))"

lemma last_of_simps [simp]:
  "last_of [] p = p"
  "last_of (xs @ [x]) p = Some x"
  "last_of (xs @ x # ys) p = last_of ys (Some x)"
  "last_of (x # xs) p = last_of xs (Some x)"
  by (auto simp: last_of_def)

lemma first_of_append [simp]: "first_of (xs @ ys) n = first_of xs (first_of ys n)"
  by (cases xs) auto

lemma first_of_None [simp]: "first_of xs None = None \<longleftrightarrow> xs = []"
  by (cases xs) auto

lemma last_of_None [simp]: "last_of xs None = None \<longleftrightarrow> xs = []"
  by (auto simp: last_of_def)

lemma first_of_SomeD: "first_of xs None = Some y \<Longrightarrow> \<exists>ys. xs = y # ys"
  by (cases xs) auto

lemma last_of_SomeD: "last_of xs None = Some y \<Longrightarrow> \<exists>ys. xs = ys @ [y]"
  by (auto simp: last_of_def split: if_splits) (metis append_butlast_last_id)

lemma last_of_inD: "last_of xs (Some a) = Some p \<Longrightarrow> p = a \<or> p \<in> set xs"
  by (auto simp: last_of_def split: if_splits)

section \<open>Loops that may return early\<close>

text \<open>A \<^verbatim>\<open>for\<close> loop whose body can leave the function: \<^const>\<open>None\<close> is the early return.\<close>

fun fold_opt :: "('s \<Rightarrow> 'x \<Rightarrow> 's option) \<Rightarrow> 's \<Rightarrow> 'x list \<Rightarrow> 's option" where
  "fold_opt f s [] = Some s"
| "fold_opt f s (x # xs) = (case f s x of None \<Rightarrow> None | Some t \<Rightarrow> fold_opt f t xs)"

lemma fold_opt_append:
  "fold_opt f s (xs @ ys) = (case fold_opt f s xs of None \<Rightarrow> None | Some t \<Rightarrow> fold_opt f t ys)"
  by (induction xs arbitrary: s) (auto split: option.split)

lemma fold_opt_inv:
  assumes "fold_opt f s xs = Some t" "P s" "\<And>s x t. x \<in> set xs \<Longrightarrow> P s \<Longrightarrow> f s x = Some t \<Longrightarrow> P t"
  shows "P t"
  using assms
proof (induction xs arbitrary: s)
  case (Cons x xs)
  then obtain u where u: "f s x = Some u" "fold_opt f u xs = Some t" by (auto split: option.splits)
  then have "P u" using Cons.prems(3) [of x s u] Cons.prems(2) by simp
  then show ?case using Cons.IH [OF u(2)] Cons.prems(3) by (meson list.set_intros(2))
qed simp

section \<open>Integer macros\<close>

text \<open>C division and remainder on \<^verbatim>\<open>int\<close> truncate towards zero; on non-negative arguments they
  are \<open>div\<close> and \<open>mod\<close>.\<close>

lemma sdiv_nonneg [mnn_arith]: "0 \<le> a \<Longrightarrow> 0 \<le> b \<Longrightarrow> (a :: int) sdiv b = a div b"
  by (cases "a = 0"; cases "b = 0") (auto simp: signed_divide_int_def)

lemma smod_nonneg [mnn_arith]: "0 \<le> a \<Longrightarrow> 0 \<le> b \<Longrightarrow> (a :: int) smod b = a mod b"
  by (cases "a = 0") (auto simp: signed_modulo_int_def)

lemma sdiv_mult_cancel [simp]: "0 < b \<Longrightarrow> ((a :: int) * b) sdiv b = a"
  by (simp add: signed_divide_int_def sgn_mult abs_mult mult_sgn_abs)

lemma sdiv_1 [simp]: "(a :: int) sdiv 1 = a"
  by (simp add: signed_divide_int_def mult_sgn_abs)

lemma sdiv_nonneg_nonneg [mnn_arith]: "0 \<le> a \<Longrightarrow> 0 \<le> b \<Longrightarrow> 0 \<le> (a :: int) sdiv b"
  by (cases "b = 0") (simp_all add: sdiv_nonneg pos_imp_zdiv_nonneg_iff)

definition UP_DIV :: "int \<Rightarrow> int \<Rightarrow> int" where
  "UP_DIV x y = (x + y - 1) sdiv y"

definition ROUND_UP :: "int \<Rightarrow> int \<Rightarrow> int" where
  "ROUND_UP x y = (x + y - 1) sdiv y * y"

definition ALIGN_UP4 :: "int \<Rightarrow> int" where
  "ALIGN_UP4 x = ROUND_UP x 4"

lemma ROUND_UP_bounds [mnn_arith]:
  assumes "0 \<le> x" "0 < y"
  shows "x \<le> ROUND_UP x y" "ROUND_UP x y < x + y" "y dvd ROUND_UP x y"
proof -
  have e: "ROUND_UP x y = (x + y - 1) div y * y" using assms by (simp add: ROUND_UP_def sdiv_nonneg)
  have "(x + y - 1) div y * y + (x + y - 1) mod y = x + y - 1" by simp
  moreover have "0 \<le> (x + y - 1) mod y" "(x + y - 1) mod y < y" using assms by simp_all
  ultimately show "x \<le> ROUND_UP x y" "ROUND_UP x y < x + y" unfolding e by linarith+
  show "y dvd ROUND_UP x y" by (simp add: e)
qed

section \<open>Lists sorted by a key\<close>

text \<open>
  A \<^verbatim>\<open>std::multiset\<close> or \<^verbatim>\<open>std::multimap\<close> is a list sorted by its key: insertion goes to the
  end of the range of equal keys, and a range is found by its key.
\<close>

lemma set_insert_range: "set (takeWhile P xs @ y # dropWhile P xs) = insert y (set xs)"
  by (induction xs) auto

lemma distinct_insert_range:
  "distinct (takeWhile P xs @ y # dropWhile P xs) \<longleftrightarrow> y \<notin> set xs \<and> distinct xs"
proof -
  have "distinct (A @ y # B) \<longleftrightarrow> y \<notin> set (A @ B) \<and> distinct (A @ B)" for A B by auto
  from this [of "takeWhile P xs" "dropWhile P xs"] show ?thesis
    by (simp only: takeWhile_dropWhile_id)
qed

lemma sorted_insert_range:
  fixes f :: "'a \<Rightarrow> nat"
  shows "sorted (map f xs) \<Longrightarrow>
    sorted (map f (takeWhile (\<lambda>c. f c \<le> f y) xs @ y # dropWhile (\<lambda>c. f c \<le> f y) xs))"
  by (induction xs) (auto dest!: set_takeWhileD set_dropWhileD)

lemma remove_equal_range:
  fixes f :: "'a \<Rightarrow> nat"
  assumes "sorted (map f xs)" "c \<in> set xs"
  shows "takeWhile (\<lambda>d. f d < f c) xs @
      remove1 c (takeWhile (\<lambda>d. f d \<le> f c) (dropWhile (\<lambda>d. f d < f c) xs)) @
      dropWhile (\<lambda>d. f d \<le> f c) (dropWhile (\<lambda>d. f d < f c) xs) = remove1 c xs"
  using assms
proof (induction xs)
  case (Cons x xs)
  have rm: "remove1 c (takeWhile (\<lambda>d. f d \<le> f c) ys) @ dropWhile (\<lambda>d. f d \<le> f c) ys = remove1 c ys"
    if "c \<in> set ys" "sorted (map f ys)" for ys
    using that
  proof (induction ys)
    case (Cons y ys)
    then show ?case by (cases "c = y") auto
  qed simp
  show ?case using Cons rm [of "x # xs"] by (auto simp: not_less)
qed simp

section \<open>Splitting at the first occurrence\<close>

text \<open>The part of a list before the first occurrence of an element; all of it when absent.\<close>

definition before :: "'a \<Rightarrow> 'a list \<Rightarrow> 'a list" where
  "before x xs = takeWhile (\<lambda>y. y \<noteq> x) xs"

lemma before_split [simp]: "x \<notin> set us \<Longrightarrow> before x (us @ x # vs) = us"
  by (induction us) (auto simp: before_def)

lemma before_notin: "x \<notin> set xs \<Longrightarrow> before x xs = xs"
  by (induction xs) (auto simp: before_def)

lemma before_append_in [simp]: "x \<in> set us \<Longrightarrow> before x (us @ vs) = before x us"
  by (induction us) (auto simp: before_def)

lemma before_append_notin [simp]: "x \<notin> set us \<Longrightarrow> before x (us @ vs) = us @ before x vs"
  by (induction us) (auto simp: before_def)

lemma before_Cons [simp]: "before x (y # ys) = (if x = y then [] else y # before x ys)"
  by (auto simp: before_def)

lemma before_Nil [simp]: "before x [] = []"
  by (simp add: before_def)

lemma set_before_subset: "set (before x xs) \<subseteq> set xs"
  by (auto simp: before_def dest: set_takeWhileD)

end
