(* ===== verification/Defer_Layout.thy ===== *)
theory Defer_Layout
  imports MNN_Prelude
begin

text \<open>
  The abstract specification of the deferred memory planner
  (\<^verbatim>\<open>DeferBufferAllocator\<close>, \<^verbatim>\<open>source/core/BufferAllocator.cpp\<close>): what the doubly linked list
  of chunks, their sizes and the trees of fused chunks mean for the addresses that
  \<^verbatim>\<open>compute\<close> hands out at the end. A layout is the list of the current blocks; a block is its
  size and its members, every chunk that was ever fused into it with the offset relative to
  the block. Four steps change a layout: a block is appended, split, grown in place or fused
  with its left neighbour. The locale \<open>planner\<close> states what a client relies on: no step ever
  brings two chunks closer together than they once were.
\<close>

section \<open>The client's view of a planner\<close>

text \<open>
  \<open>apart s x y d\<close> says that chunk \<open>y\<close> is placed at least \<open>d\<close> above chunk \<open>x\<close>;
  \<open>fits s x d\<close> that \<open>d\<close> bytes from chunk \<open>x\<close> on lie inside the buffer.
\<close>

locale planner =
  fixes step :: "'s \<Rightarrow> 's \<Rightarrow> bool"
    and good :: "'s \<Rightarrow> bool"
    and blocks :: "'s \<Rightarrow> 'n set"
    and extent :: "'s \<Rightarrow> 'n \<Rightarrow> nat"
    and place :: "'s \<Rightarrow> 'n \<Rightarrow> nat option"
    and apart :: "'s \<Rightarrow> 'n \<Rightarrow> 'n \<Rightarrow> nat \<Rightarrow> bool"
    and total :: "'s \<Rightarrow> nat"
    and fits :: "'s \<Rightarrow> 'n \<Rightarrow> nat \<Rightarrow> bool"
  assumes step_good: "good s \<Longrightarrow> step s t \<Longrightarrow> good t"
    and step_apart: "good s \<Longrightarrow> step s t \<Longrightarrow> apart s x y d \<Longrightarrow> apart t x y d"
    and step_fits: "good s \<Longrightarrow> step s t \<Longrightarrow> fits s x d \<Longrightarrow> fits t x d"
    and blocks_apart: "good s \<Longrightarrow> x \<in> blocks s \<Longrightarrow> y \<in> blocks s \<Longrightarrow> x \<noteq> y \<Longrightarrow>
        apart s x y (extent s x) \<or> apart s y x (extent s y)"
    and blocks_fit: "good s \<Longrightarrow> x \<in> blocks s \<Longrightarrow> fits s x (extent s x)"
    and apart_place: "good s \<Longrightarrow> apart s x y d \<Longrightarrow>
        \<exists>p q. place s x = Some p \<and> place s y = Some q \<and> p + d \<le> q"
    and fits_place: "good s \<Longrightarrow> fits s x d \<Longrightarrow> \<exists>p. place s x = Some p \<and> p + d \<le> total s"
begin

lemma run_good: "step\<^sup>*\<^sup>* s t \<Longrightarrow> good s \<Longrightarrow> good t"
  by (induction rule: rtranclp_induct) (auto intro: step_good)

lemma run_apart: "step\<^sup>*\<^sup>* s t \<Longrightarrow> good s \<Longrightarrow> apart s x y d \<Longrightarrow> apart t x y d"
  by (induction rule: rtranclp_induct) (auto intro: step_apart run_good)

lemma run_fits: "step\<^sup>*\<^sup>* s t \<Longrightarrow> good s \<Longrightarrow> fits s x d \<Longrightarrow> fits t x d"
  by (induction rule: rtranclp_induct) (auto intro: step_fits run_good)

lemma run_disjoint:
  assumes "step\<^sup>*\<^sup>* s t" "good s" "x \<in> blocks s" "y \<in> blocks s" "x \<noteq> y"
  shows "\<exists>p q. place t x = Some p \<and> place t y = Some q \<and>
           (p + extent s x \<le> q \<or> q + extent s y \<le> p)"
proof -
  have t: "good t" using assms(1,2) by (rule run_good)
  consider "apart t x y (extent s x)" | "apart t y x (extent s y)"
    using blocks_apart [OF assms(2-5)] run_apart [OF assms(1,2)] by blast
  then show ?thesis
    by cases (use apart_place [OF t] in blast)+
qed

lemma run_inside:
  assumes "step\<^sup>*\<^sup>* s t" "good s" "x \<in> blocks s"
  shows "\<exists>p. place t x = Some p \<and> p + extent s x \<le> total t"
  using assms run_fits blocks_fit fits_place run_good by blast

end

section \<open>Layouts\<close>

type_synonym block = "nat \<times> (nat \<times> nat) list"
type_synonym layout = "block list"

primrec shift :: "nat \<Rightarrow> (nat \<times> nat) list \<Rightarrow> (nat \<times> nat) list" where
  "shift b [] = []"
| "shift b (m # ms) = (fst m, b + snd m) # shift b ms"

fun places :: "nat \<Rightarrow> layout \<Rightarrow> (nat \<times> nat) list" where
  "places b [] = []"
| "places b ((k, ms) # L) = shift b ms @ places (b + k) L"

definition ltotal :: "layout \<Rightarrow> nat" where
  "ltotal L = sum_list (map fst L)"

definition head_of :: "block \<Rightarrow> nat" where
  "head_of B = fst (hd (snd B))"

definition ids :: "layout \<Rightarrow> nat list" where
  "ids L = map fst (concat (map snd L))"

text \<open>Well-formed: no chunk occurs twice, and every block starts with its head at offset 0.\<close>

definition lgood :: "layout \<Rightarrow> bool" where
  "lgood L \<longleftrightarrow> distinct (ids L) \<and> (\<forall>(k, ms) \<in> set L. ms \<noteq> [] \<and> snd (hd ms) = 0)"

inductive lstep :: "layout \<Rightarrow> layout \<Rightarrow> bool" where
  append: "n \<notin> set (ids L) \<Longrightarrow> lstep L (L @ [(k, [(n, 0)])])"
| split: "k \<le> k0 \<Longrightarrow> n \<notin> set (ids (us @ (k0, ms) # vs)) \<Longrightarrow>
    lstep (us @ (k0, ms) # vs) (us @ (k, ms) # (k0 - k, [(n, 0)]) # vs)"
| grow: "k0 \<le> k \<Longrightarrow> lstep (us @ (k0, ms) # vs) (us @ (k, ms) # vs)"
| fuse: "lstep (us @ (k1, ms1) # (k2, ms2) # vs)
           (us @ (k1 + k2, ms1 @ shift k1 ms2) # vs)"

definition lapart :: "layout \<Rightarrow> nat \<Rightarrow> nat \<Rightarrow> nat \<Rightarrow> bool" where
  "lapart L x y d \<longleftrightarrow> (\<exists>A p B q C. places 0 L = A @ (x, p) # B @ (y, q) # C \<and> p + d \<le> q)"

definition lfits :: "layout \<Rightarrow> nat \<Rightarrow> nat \<Rightarrow> bool" where
  "lfits L x d \<longleftrightarrow> (\<exists>p. (x, p) \<in> set (places 0 L) \<and> p + d \<le> ltotal L)"

definition lplace :: "layout \<Rightarrow> nat \<Rightarrow> nat option" where
  "lplace L x = map_of (places 0 L) x"

definition lblocks :: "layout \<Rightarrow> nat set" where
  "lblocks L = set (map head_of L)"

fun lextent :: "layout \<Rightarrow> nat \<Rightarrow> nat" where
  "lextent [] x = 0"
| "lextent (B # L) x = (if head_of B = x then fst B else lextent L x)"

subsection \<open>Placing the members\<close>

lemma shift_append [simp]: "shift b (ms @ ns) = shift b ms @ shift b ns"
  by (induction ms) auto

lemma shift_shift [simp]: "shift b (shift c ms) = shift (b + c) ms"
  by (induction ms) auto

lemma shift_0 [simp]: "shift 0 ms = ms"
  by (induction ms) auto

lemma map_fst_shift [simp]: "map fst (shift b ms) = map fst ms"
  by (induction ms) auto

lemma fst_shift [simp]: "fst ` set (shift b ms) = fst ` set ms"
  by (induction ms) auto

lemma length_shift [simp]: "length (shift b ms) = length ms"
  by (induction ms) auto

lemma shift_Nil_iff [simp]: "shift b ms = [] \<longleftrightarrow> ms = []"
  by (cases ms) auto

lemma set_shift: "set (shift b ms) = (\<lambda>(x, p). (x, b + p)) ` set ms"
  by (induction ms) auto

lemma in_shift_fst: "(x, p) \<in> set (shift b ms) \<Longrightarrow> x \<in> fst ` set ms"
  by (metis fst_conv fst_shift image_eqI)

lemma places_append [simp]: "places b (L @ M) = places b L @ places (b + ltotal L) M"
  by (induction L arbitrary: b) (auto simp: ltotal_def add.assoc)

lemma ltotal_simps [simp]:
  "ltotal [] = 0" "ltotal (B # L) = fst B + ltotal L" "ltotal (L @ M) = ltotal L + ltotal M"
  by (auto simp: ltotal_def)

lemma places_shift: "places (b + d) L = shift d (places b L)"
proof (induction L arbitrary: b)
  case (Cons B L)
  obtain k ms where B: "B = (k, ms)" by force
  have "places (b + d + k) L = places ((b + k) + d) L" by (simp add: ac_simps)
  then show ?case using Cons.IH [of "b + k"] by (simp add: B add.commute)
qed simp

lemma ids_simps [simp]:
  "ids [] = []" "ids ((k, ms) # L) = map fst ms @ ids L" "ids (L @ M) = ids L @ ids M"
  by (auto simp: ids_def)

lemma map_fst_places [simp]: "map fst (places b L) = ids L"
  by (induction b L rule: places.induct) (auto simp: ids_def)

lemma lgood_simps [simp]:
  "lgood (us @ vs) \<longleftrightarrow> lgood us \<and> lgood vs \<and> set (ids us) \<inter> set (ids vs) = {}"
  "lgood ((k, ms) # vs) \<longleftrightarrow> lgood vs \<and> distinct (map fst ms) \<and> ms \<noteq> [] \<and> snd (hd ms) = 0 \<and>
     fst ` set ms \<inter> set (ids vs) = {}"
  "lgood []"
  by (auto simp: lgood_def)

lemma lstep_good: "lstep L M \<Longrightarrow> lgood L \<Longrightarrow> lgood M"
  by (induction rule: lstep.induct) (auto 0 3 simp: disjoint_iff dest: in_shift_fst)

subsection \<open>No step brings two chunks closer\<close>

text \<open>
  A step either leaves every place as it is, or inserts one fresh chunk, or moves everything
  from some point of the list on up by the same amount.
\<close>

lemma apart_mono:
  assumes "A @ (x, p) # B @ (y, q) # C = P @ Q" "p + d \<le> q"
  shows "\<exists>A' p' B' q' C'. P @ N @ shift e Q = A' @ (x, p') # B' @ (y, q') # C' \<and> p' + d \<le> q'"
proof -
  consider us where "P = A @ (x, p) # B @ (y, q) # us" "C = us @ Q"
    | us vs where "P = A @ (x, p) # us" "Q = vs @ (y, q) # C" "B = us @ vs"
    | us where "A = P @ us" "Q = us @ (x, p) # B @ (y, q) # C"
    using assms(1) by (fastforce simp: append_eq_append_conv2 append_eq_Cons_conv Cons_eq_append_conv)
  then show ?thesis
  proof cases
    case 1
    then have "P @ N @ shift e Q = A @ (x, p) # B @ (y, q) # (us @ N @ shift e Q)" by simp
    then show ?thesis using assms(2) by blast
  next
    case 2
    then have "P @ N @ shift e Q = A @ (x, p) # (us @ N @ shift e vs) @ (y, e + q) # shift e C"
      by simp
    then show ?thesis using assms(2) by (metis trans_le_add2)
  next
    case 3
    then have "P @ N @ shift e Q =
      (P @ N @ shift e us) @ (x, e + p) # shift e B @ (y, e + q) # shift e C"
      by simp
    then show ?thesis using assms(2) by (metis add.assoc add_le_cancel_left)
  qed
qed

text \<open>The common shape of all four steps on the list of places.\<close>

lemma lstep_places:
  assumes "lstep L M"
  obtains P Q N e where "places 0 L = P @ Q" "places 0 M = P @ N @ shift e Q"
    "ltotal L + e \<le> ltotal M"
  using assms
proof cases
  case (append n k)
  then show ?thesis using that [of "places 0 L" "[]" "[(n, ltotal L)]" 0] by simp
next
  case (split k k0 n us ms vs)
  then show ?thesis
    using that [of "places 0 us @ shift (ltotal us) ms" "places (ltotal us + k0) vs"
        "[(n, ltotal us + k)]" 0] by (simp add: add.assoc)
next
  case (grow k0 k us ms vs)
  have "places (ltotal us + k) vs = shift (k - k0) (places (ltotal us + k0) vs)"
    using places_shift [of "ltotal us + k0" "k - k0" vs] grow(3) by (simp add: add.assoc)
  then show ?thesis
    using that [of "places 0 us @ shift (ltotal us) ms" "places (ltotal us + k0) vs" "[]" "k - k0"]
      grow by simp
next
  case (fuse us k1 ms1 k2 ms2 vs)
  then show ?thesis using that [of "places 0 L" "[]" "[]" 0] by (simp add: add.assoc)
qed

lemma lstep_apart: "lstep L M \<Longrightarrow> lapart L x y d \<Longrightarrow> lapart M x y d"
proof (erule lstep_places)
  fix P Q N e
  assume "lapart L x y d" "places 0 L = P @ Q" and M: "places 0 M = P @ N @ shift e Q"
  then obtain A p B q C where "A @ (x, p) # B @ (y, q) # C = P @ Q" "p + d \<le> q"
    by (auto simp: lapart_def)
  from apart_mono [OF this] show "lapart M x y d" unfolding lapart_def M by blast
qed

lemma lstep_fits: "lstep L M \<Longrightarrow> lfits L x d \<Longrightarrow> lfits M x d"
  by (erule lstep_places) (fastforce simp: lfits_def set_shift)

subsection \<open>Blocks of one layout\<close>

lemma lapart_place:
  assumes "lgood L" "lapart L x y d"
  shows "\<exists>p q. lplace L x = Some p \<and> lplace L y = Some q \<and> p + d \<le> q"
proof -
  obtain A p B q C where L: "places 0 L = A @ (x, p) # B @ (y, q) # C" "p + d \<le> q"
    using assms(2) by (auto simp: lapart_def)
  have "distinct (map fst (places 0 L))" using assms(1) by (simp add: lgood_def)
  then have "(x, p) \<in> set (places 0 L) \<Longrightarrow> lplace L x = Some p"
    "(y, q) \<in> set (places 0 L) \<Longrightarrow> lplace L y = Some q"
    by (simp_all add: lplace_def)
  then show ?thesis using L by auto
qed

lemma lfits_place:
  "lgood L \<Longrightarrow> lfits L x d \<Longrightarrow> \<exists>p. lplace L x = Some p \<and> p + d \<le> ltotal L"
  by (auto simp: lfits_def lplace_def lgood_def)

lemma head_in_ids: "lgood L \<Longrightarrow> B \<in> set L \<Longrightarrow> head_of B \<in> set (ids L)"
proof -
  assume "lgood L" "B \<in> set L"
  then have "hd (snd B) \<in> set (concat (map snd L))" by (force simp: lgood_def)
  then show ?thesis by (simp add: ids_def head_of_def)
qed

lemma lextent_split:
  assumes "lgood (us @ (k, ms) # vs)"
  shows "lextent (us @ (k, ms) # vs) (head_of (k, ms)) = k"
proof -
  have "head_of (k, ms) \<notin> set (map head_of us)"
    using assms head_in_ids [of us] head_in_ids [of "(k, ms) # vs" "(k, ms)"]
    by (auto simp del: lgood_simps(2) ids_simps(2) simp: disjoint_iff)
  then show ?thesis by (induction us) auto
qed

lemma block_places:
  assumes "lgood (us @ (k, ms) # vs)"
  shows "\<exists>A B. places 0 (us @ (k, ms) # vs) = places 0 us @ (head_of (k, ms), ltotal us) # B @
           places (ltotal us + k) vs"
  using assms by (cases ms) (auto simp: head_of_def)

lemma lblocks_apart:
  assumes L: "lgood L" and "x \<in> lblocks L" "y \<in> lblocks L" "x \<noteq> y"
  shows "lapart L x y (lextent L x) \<or> lapart L y x (lextent L y)"
proof -
  have *: "lapart (us @ (k, ms) # vs @ (k', ms') # ws) (head_of (k, ms)) (head_of (k', ms')) k"
    if "lgood (us @ (k, ms) # vs @ (k', ms') # ws)" for us k ms vs k' ms' ws
  proof -
    have "\<exists>m1. shift (ltotal us) ms = (head_of (k, ms), ltotal us) # m1"
      using that by (cases ms) (auto simp: head_of_def)
    moreover have "\<exists>m2. shift (ltotal us + k + ltotal vs) ms' =
        (head_of (k', ms'), ltotal us + k + ltotal vs) # m2"
      using that by (cases ms') (auto simp: head_of_def)
    ultimately obtain m1 m2 where 1: "shift (ltotal us) ms = (head_of (k, ms), ltotal us) # m1"
      and 2: "shift (ltotal us + k + ltotal vs) ms' =
        (head_of (k', ms'), ltotal us + k + ltotal vs) # m2" by blast
    show ?thesis unfolding lapart_def
      by (rule exI [of _ "places 0 us"], rule exI [of _ "ltotal us"],
          rule exI [of _ "m1 @ places (ltotal us + k) vs"],
          rule exI [of _ "ltotal us + k + ltotal vs"]) (simp add: 1 2)
  qed
  obtain B C where BC: "B \<in> set L" "x = head_of B" "C \<in> set L" "y = head_of C" "B \<noteq> C"
    using assms(2-4) by (auto simp: lblocks_def)
  obtain us vs where us: "L = us @ B # vs" using BC(1) by (meson split_list)
  then consider "C \<in> set us" | "C \<in> set vs" using BC by auto
  then show ?thesis
  proof cases
    case 1
    then obtain u1 u2 where "us = u1 @ C # u2" by (meson split_list)
    then have L': "L = u1 @ C # (u2 @ B # vs)" using us by simp
    show ?thesis
      using * [of u1 "fst C" "snd C" u2 "fst B" "snd B" vs] lextent_split [of u1 "fst C" "snd C"] L
      by (simp add: L' BC)
  next
    case 2
    then obtain v1 v2 where "vs = v1 @ C # v2" by (meson split_list)
    then have L': "L = us @ B # (v1 @ C # v2)" using us by simp
    show ?thesis
      using * [of us "fst B" "snd B" v1 "fst C" "snd C" v2] lextent_split [of us "fst B" "snd B"] L
      by (simp add: L' BC)
  qed
qed

lemma lblocks_fit:
  assumes L: "lgood L" and "x \<in> lblocks L"
  shows "lfits L x (lextent L x)"
proof -
  obtain us k ms vs where s: "L = us @ (k, ms) # vs" "x = head_of (k, ms)"
    using assms(2) unfolding lblocks_def by (metis (no_types, lifting) imageE list.set_map split_list surj_pair)
  then show ?thesis
    using block_places [of us k ms vs] lextent_split [of us k ms vs] L
    by (auto simp: lfits_def)
qed

interpretation layout: planner lstep lgood lblocks lextent lplace lapart ltotal lfits
  by unfold_locales
    (erule lstep_good lstep_apart lstep_fits lblocks_apart lblocks_fit lapart_place lfits_place;
      assumption)+

end
