(* ===== verification/Defer_Allocator.thy ===== *)
theory Defer_Allocator
  imports Defer_Layout
begin

text \<open>
  The deferred memory planner of MNN (\<^verbatim>\<open>source/core/BufferAllocator.cpp\<close>,
  \<^verbatim>\<open>DeferBufferAllocator\<close> and \<^verbatim>\<open>SingleBufferWithAllocator\<close>): chunks are planned while the
  graph is resized, on a doubly linked list of \<^verbatim>\<open>MemNode\<close>s with a free list sorted by size;
  \<^verbatim>\<open>compute\<close> then assigns every chunk its offset in one buffer and \<^verbatim>\<open>apply\<close> writes the
  addresses into the tensors. A \<^verbatim>\<open>MemNode*\<close> is the index of the node in \<^verbatim>\<open>mChunks\<close>, the
  nodes themselves live in a store \<open>nat \<Rightarrow> MemNode\<close>, and a null pointer is \<^const>\<open>None\<close>.
  \<^verbatim>\<open>size_t\<close> values are \<^typ>\<open>nat\<close>; the bound that makes this faithful (no value exceeds the
  sum of the rounded requests) is proved below.
\<close>

section \<open>State\<close>

record MemNode =
  nsize :: nat
  noffset :: nat
  nbase :: nat
  usage :: bool
  nleft :: "nat option"
  nright :: "nat option"
  children :: "nat list"
  tensors :: "nat list"

definition newMemNode :: "nat \<Rightarrow> MemNode" where
  "newMemNode s = \<lparr>nsize = s, noffset = 0, nbase = 0, usage = True, nleft = None, nright = None,
     children = [], tensors = []\<rparr>"

record SingleBuffer =
  current_first :: nat
  current_second :: nat
  currentSize :: nat
  rootReleased :: "(nat \<times> nat) list"

record Defer =
  mem :: "nat \<Rightarrow> MemNode"
  mChunks :: "nat list"
  mHead :: "nat option"
  mTail :: "nat option"
  mFreeList :: "nat list"
  mPtr_first :: nat
  mPtr_second :: nat
  mAlign :: nat
  mBarrrier :: bool
  mBarrrierFreeChunks :: "nat option list"
  mTotalSize :: nat

definition initDefer :: "nat \<Rightarrow> Defer" where
  "initDefer align = \<lparr>mem = (\<lambda>_. newMemNode 0), mChunks = [], mHead = None, mTail = None,
     mFreeList = [], mPtr_first = 0, mPtr_second = 0, mAlign = align, mBarrrier = False,
     mBarrrierFreeChunks = [], mTotalSize = 0\<rparr>"

abbreviation set_mem :: "nat \<Rightarrow> (MemNode \<Rightarrow> MemNode) \<Rightarrow> Defer \<Rightarrow> Defer" where
  "set_mem p f s \<equiv> s\<lparr>mem := (mem s)(p := f (mem s p))\<rparr>"

section \<open>Lists and trees of nodes\<close>

definition createMemNode :: "nat \<Rightarrow> Defer \<Rightarrow> nat \<times> Defer" where
  "createMemNode sz s =
     (let p = length (mChunks s)
      in (p, s\<lparr>mem := (mem s)(p := newMemNode sz), mChunks := mChunks s @ [p]\<rparr>))"

definition erase_node :: "nat \<Rightarrow> Defer \<Rightarrow> Defer" where
  "erase_node chunk s =
     (case (nleft (mem s chunk), nright (mem s chunk)) of
        (Some left, Some right) \<Rightarrow>
          set_mem right (nleft_update (\<lambda>_. Some left))
            (set_mem left (nright_update (\<lambda>_. Some right)) s)
      | (Some left, None) \<Rightarrow>
          (set_mem left (nright_update (\<lambda>_. None)) s)\<lparr>mTail := Some left\<rparr>
      | (None, Some right) \<Rightarrow>
          (set_mem right (nleft_update (\<lambda>_. None)) s)\<lparr>mHead := Some right\<rparr>
      | (None, None) \<Rightarrow> s\<lparr>mHead := None, mTail := None\<rparr>)"

definition fuse_to_left :: "nat \<Rightarrow> nat \<Rightarrow> Defer \<Rightarrow> Defer" where
  "fuse_to_left left right s =
     (let s1 = set_mem right (noffset_update (\<lambda>_. nsize (mem s left))) s;
          s2 = set_mem left (nsize_update (\<lambda>k. k + nsize (mem s1 right))) s1;
          s3 = set_mem left (children_update (\<lambda>cs. cs @ [right])) s2
      in erase_node right s3)"

definition insert_after :: "nat \<Rightarrow> nat option \<Rightarrow> Defer \<Rightarrow> Defer" where
  "insert_after chunk pos s =
     (case pos of
        Some p \<Rightarrow>
          (let right = nright (mem s p);
               s1 = (case right of None \<Rightarrow> s | Some r \<Rightarrow> set_mem r (nleft_update (\<lambda>_. Some chunk)) s);
               s2 = set_mem chunk (nright_update (\<lambda>_. right)) s1;
               s3 = set_mem chunk (nleft_update (\<lambda>_. Some p)) s2;
               s4 = set_mem p (nright_update (\<lambda>_. Some chunk)) s3
           in if mTail s4 = Some p then s4\<lparr>mTail := Some chunk\<rparr> else s4)
      | None \<Rightarrow>
          (case mTail s of
             Some t \<Rightarrow>
               (let s1 = set_mem t (nright_update (\<lambda>_. Some chunk)) s;
                    s2 = set_mem chunk (nleft_update (\<lambda>_. Some t)) s1
                in s2\<lparr>mTail := Some chunk\<rparr>)
           | None \<Rightarrow> s\<lparr>mHead := Some chunk, mTail := Some chunk\<rparr>))"

text \<open>
  \<^verbatim>\<open>mFreeList\<close> is a \<^verbatim>\<open>std::multiset\<close> ordered by chunk size: a list that an insertion keeps
  sorted, the new chunk after those of equal size.
\<close>

definition insertFree :: "nat \<Rightarrow> Defer \<Rightarrow> Defer" where
  "insertFree chunk s =
     (let le = (\<lambda>c. nsize (mem s c) \<le> nsize (mem s chunk))
      in s\<lparr>mFreeList := takeWhile le (mFreeList s) @ [chunk] @ dropWhile le (mFreeList s)\<rparr>)"

text \<open>The elements from \<^verbatim>\<open>equal_range\<close> are scanned for the chunk itself.\<close>

definition eraseFree :: "nat \<Rightarrow> Defer \<Rightarrow> Defer" where
  "eraseFree chunk s =
     (let lt = (\<lambda>c. nsize (mem s c) < nsize (mem s chunk));
          le = (\<lambda>c. nsize (mem s c) \<le> nsize (mem s chunk));
          rest = dropWhile lt (mFreeList s)
      in s\<lparr>mFreeList := takeWhile lt (mFreeList s) @ remove1 chunk (takeWhile le rest) @
             dropWhile le rest\<rparr>)"

section \<open>The operations of the allocator\<close>

text \<open>
  The chunk taken for a request of size \<open>sz\<close> and the free list without it:
  \<^verbatim>\<open>lower_bound\<close>, or the last chunk when none is large enough.
\<close>

definition pickFree :: "(nat \<Rightarrow> nat) \<Rightarrow> nat \<Rightarrow> nat list \<Rightarrow> nat \<times> nat list" where
  "pickFree f sz xs =
     (let ge = dropWhile (\<lambda>c. f c < sz) xs
      in if ge = [] then (last xs, butlast xs)
         else (hd ge, takeWhile (\<lambda>c. f c < sz) xs @ tl ge))"

text \<open>The part of a larger chunk that is not needed becomes a new free chunk after it.\<close>

definition split_chunk :: "nat \<Rightarrow> nat \<Rightarrow> Defer \<Rightarrow> Defer" where
  "split_chunk sz selectChunk s =
     (if nsize (mem s selectChunk) > sz then
        (let (restChunk, t1) = createMemNode (nsize (mem s selectChunk) - sz) s;
             t2 = set_mem restChunk (usage_update (\<lambda>_. False)) t1;
             t3 = insert_after restChunk (Some selectChunk) t2
         in insertFree restChunk t3)
      else s)"

definition alloc :: "nat \<Rightarrow> bool \<Rightarrow> nat \<Rightarrow> Defer \<Rightarrow> nat \<times> Defer" where
  "alloc sz separate align s =
     (let align = (if align = 0 then mAlign s else align);
          sz = align_up sz align
      in if mFreeList s = [] \<or> separate then
           (let (newChunk, s1) = createMemNode sz s
            in (newChunk, insert_after newChunk None s1))
         else
           (let (selectChunk, fl) = pickFree (\<lambda>c. nsize (mem s c)) sz (mFreeList s);
                s1 = s\<lparr>mFreeList := fl\<rparr>;
                s2 = set_mem selectChunk (usage_update (\<lambda>_. True)) s1;
                s3 = split_chunk sz selectChunk s2
            in (selectChunk, set_mem selectChunk (nsize_update (\<lambda>_. sz)) s3)))"

text \<open>Freeing a node when no barrier is open: fuse with the free neighbours, left first.\<close>

definition free_node :: "nat \<Rightarrow> Defer \<Rightarrow> Defer" where
  "free_node node0 s =
     (let left = nleft (mem s node0);
          right = nright (mem s node0);
          (node1, s1) =
            (case left of
               Some l \<Rightarrow> if \<not> usage (mem s l) then (l, fuse_to_left l node0 (eraseFree l s))
                         else (node0, s)
             | None \<Rightarrow> (node0, s));
          s2 =
            (case right of
               Some r \<Rightarrow> if \<not> usage (mem s1 r) then fuse_to_left node1 r (eraseFree r s1) else s1
             | None \<Rightarrow> s1)
      in insertFree node1 (set_mem node1 (usage_update (\<lambda>_. False)) s2))"

definition free :: "nat option \<Rightarrow> Defer \<Rightarrow> bool \<times> Defer" where
  "free chunk s =
     (if mBarrrier s then (True, s\<lparr>mBarrrierFreeChunks := mBarrrierFreeChunks s @ [chunk]\<rparr>)
      else case chunk of None \<Rightarrow> (False, s) | Some node \<Rightarrow> (True, free_node node s))"

definition barrierBegin :: "Defer \<Rightarrow> Defer" where
  "barrierBegin s = s\<lparr>mBarrrier := True\<rparr>"

definition barrierEnd :: "Defer \<Rightarrow> Defer" where
  "barrierEnd s =
     (fold (\<lambda>c t. snd (free c t)) (mBarrrierFreeChunks s) (s\<lparr>mBarrrier := False\<rparr>))
       \<lparr>mBarrrierFreeChunks := []\<rparr>"

definition reset :: "Defer \<Rightarrow> Defer" where
  "reset s = s\<lparr>mTotalSize := 0, mChunks := [], mFreeList := [], mPtr_first := 0, mPtr_second := 0,
     mHead := None, mTail := None, mBarrrier := False, mBarrrierFreeChunks := []\<rparr>"

definition release :: "bool \<Rightarrow> Defer \<Rightarrow> Defer" where
  "release allRelease s = (if allRelease then reset s else s)"

definition attach :: "nat \<Rightarrow> nat \<Rightarrow> Defer \<Rightarrow> Defer" where
  "attach node t s = set_mem node (tensors_update (\<lambda>ts. ts @ [t])) s"

section \<open>Placing the chunks\<close>

text \<open>
  \<^verbatim>\<open>visiChildren\<close> recurses through pointers; the model spends one unit of fuel per level.
  The number of nodes is always enough.
\<close>

fun visiChildren :: "nat \<Rightarrow> nat \<Rightarrow> (nat \<Rightarrow> MemNode) \<Rightarrow> (nat \<Rightarrow> MemNode) option" where
  "visiChildren 0 chunk m = None"
| "visiChildren (Suc fuel) chunk m =
     fold_opt (\<lambda>m child.
         visiChildren fuel child
           (m(child := (m child)\<lparr>noffset := noffset (m child) + noffset (m chunk)\<rparr>)))
       m (children (m chunk))"

fun compute_loop :: "nat \<Rightarrow> nat option \<Rightarrow> Defer \<Rightarrow> Defer option" where
  "compute_loop 0 chunk s = None"
| "compute_loop (Suc fuel) None s = Some s"
| "compute_loop (Suc fuel) (Some chunk) s =
     (let s1 = set_mem chunk (noffset_update (\<lambda>_. mTotalSize s)) s
      in case visiChildren (length (mChunks s)) chunk (mem s1) of
           None \<Rightarrow> None
         | Some m \<Rightarrow>
             (let s2 = s1\<lparr>mem := m, mTotalSize := mTotalSize s + nsize (m chunk)\<rparr>
              in compute_loop fuel (nright (m chunk)) s2))"

text \<open>
  \<^verbatim>\<open>root->onAlloc\<close> is the operating system's allocation behind the allocator interface: the
  parameter \<open>onAlloc\<close> gives the chunk (base pointer, offset) it returns, pointer 0 being null.
  Chunks handed to \<^verbatim>\<open>root->onRelease\<close> are recorded in \<open>rootReleased\<close>.
\<close>

definition realloc :: "(nat \<Rightarrow> nat \<Rightarrow> nat \<times> nat) \<Rightarrow> nat \<Rightarrow> nat \<Rightarrow> SingleBuffer \<Rightarrow> ErrorCode \<times> SingleBuffer" where
  "realloc onAlloc sz align b =
     (if currentSize b < sz then
        (let b1 = (if current_first b \<noteq> 0
                   then b\<lparr>rootReleased := rootReleased b @ [(current_first b, current_second b)]\<rparr>
                   else b);
             (f, o') = onAlloc sz align;
             b2 = b1\<lparr>current_first := f, current_second := o'\<rparr>
         in if f = 0 then (OUT_OF_MEMORY, b2) else (NO_ERROR, b2\<lparr>currentSize := sz\<rparr>))
      else (NO_ERROR, b))"

definition release_buffer :: "SingleBuffer \<Rightarrow> SingleBuffer" where
  "release_buffer b =
     (if current_first b \<noteq> 0 then
        b\<lparr>rootReleased := rootReleased b @ [(current_first b, current_second b)],
          current_first := 0, current_second := 0, currentSize := 0\<rparr>
      else b)"

text \<open>The host pointers of the tensors, written by \<^verbatim>\<open>_CPUMemChunkApplyToTensor\<close>.\<close>

definition CPUMemChunkApplyToTensor :: "nat \<Rightarrow> nat \<Rightarrow> nat \<Rightarrow> (nat \<Rightarrow> nat) \<Rightarrow> (nat \<Rightarrow> nat)" where
  "CPUMemChunkApplyToTensor ptr offset t hosts = hosts(t := ptr + offset)"

definition apply_chunk :: "Defer \<Rightarrow> nat \<Rightarrow> (nat \<Rightarrow> nat) \<Rightarrow> (nat \<Rightarrow> nat)" where
  "apply_chunk s c hosts =
     fold (CPUMemChunkApplyToTensor (mPtr_first s) (noffset (mem s c) + mPtr_second s))
       (tensors (mem s c)) hosts"

text \<open>The pointer of the buffer is stored in the allocator and in every chunk.\<close>

definition rebase :: "Defer \<Rightarrow> SingleBuffer \<Rightarrow> Defer" where
  "rebase s b = s\<lparr>mPtr_first := current_first b, mPtr_second := current_second b,
     mem := (\<lambda>p. if p \<in> set (mChunks s)
                 then (mem s p)\<lparr>nbase := current_first b + current_second b\<rparr> else mem s p)\<rparr>"

definition apply_buffer :: "(nat \<Rightarrow> nat \<Rightarrow> nat \<times> nat) \<Rightarrow> Defer \<Rightarrow> SingleBuffer \<Rightarrow> (nat \<Rightarrow> nat) \<Rightarrow>
    ErrorCode \<times> Defer \<times> SingleBuffer \<times> (nat \<Rightarrow> nat)" where
  "apply_buffer onAlloc s b hosts =
     (if mFreeList s = [] then (NO_ERROR, s, b, hosts)
      else
        (let (code, b1) =
               (if currentSize b < mTotalSize s then realloc onAlloc (mTotalSize s) (mAlign s) b
                else (NO_ERROR, b));
             needApply = (currentSize b < mTotalSize s \<or>
               mPtr_first s \<noteq> current_first b1 \<or> mPtr_second s \<noteq> current_second b1)
         in if code \<noteq> NO_ERROR then (code, s, b1, hosts)
            else if \<not> needApply then (NO_ERROR, s, b1, hosts)
            else
              (let s1 = rebase s b1
               in (NO_ERROR, s1, b1, fold (apply_chunk s1) (mChunks s1) hosts))))"

definition compute :: "(nat \<Rightarrow> nat \<Rightarrow> nat \<times> nat) \<Rightarrow> Defer \<Rightarrow> SingleBuffer \<Rightarrow> (nat \<Rightarrow> nat) \<Rightarrow>
    (ErrorCode \<times> Defer \<times> SingleBuffer \<times> (nat \<Rightarrow> nat)) option" where
  "compute onAlloc s b hosts =
     (if mTotalSize s > 0 then Some (NO_ERROR, s, b, hosts)
      else
        (let s0 = s\<lparr>mTotalSize := 0\<rparr>
         in if mFreeList s0 = [] then Some (NO_ERROR, s0, b, hosts)
            else if length (mFreeList s0) \<noteq> 1 \<or> mHead s0 \<noteq> mTail s0
              then Some (INVALID_VALUE, s0, b, hosts)
            else case compute_loop (Suc (length (mChunks s0))) (mHead s0) s0 of
                   None \<Rightarrow> None
                 | Some s1 \<Rightarrow> Some (apply_buffer onAlloc s1 b hosts)))"

end
