(* ===== verification/Defer_Refine.thy ===== *)
theory Defer_Refine
  imports Defer_Allocator
begin

text \<open>
  The deferred planner refines the layouts of \<^verbatim>\<open>Defer_Layout\<close>: the doubly linked list is the
  list of blocks, the tree of fused nodes under a list node is the block's member list, and
  every operation of the allocator is a sequence of layout steps. The safety of the plan
  follows from the locale \<open>planner\<close>.
\<close>

section \<open>Doubly linked segments\<close>

fun seg :: "(nat \<Rightarrow> MemNode) \<Rightarrow> nat option \<Rightarrow> nat list \<Rightarrow> nat option \<Rightarrow> bool" where
  "seg m p [] n \<longleftrightarrow> True"
| "seg m p (x # xs) n \<longleftrightarrow> nleft (m x) = p \<and> nright (m x) = first_of xs n \<and> seg m (Some x) xs n"

lemma seg_append [simp]:
  "seg m p (us @ vs) n \<longleftrightarrow> seg m p us (first_of vs n) \<and> seg m (last_of us p) vs n"
  by (induction us arbitrary: p) auto

lemma seg_cong:
  "(\<And>x. x \<in> set xs \<Longrightarrow> nleft (m' x) = nleft (m x) \<and> nright (m' x) = nright (m x)) \<Longrightarrow>
   seg m' p xs n = seg m p xs n"
  by (induction xs arbitrary: p) auto

lemma seg_upd [simp]: "x \<notin> set xs \<Longrightarrow> seg (m(x := v)) p xs n = seg m p xs n"
  by (rule seg_cong) auto

definition linked :: "Defer \<Rightarrow> nat list \<Rightarrow> bool" where
  "linked s xs \<longleftrightarrow> distinct xs \<and> seg (mem s) None xs None \<and>
     mHead s = first_of xs None \<and> mTail s = last_of xs None"

text \<open>The fields that list surgery leaves alone.\<close>

definition body :: "MemNode \<Rightarrow> nat \<times> nat \<times> nat \<times> bool \<times> nat list \<times> nat list" where
  "body d = (nsize d, noffset d, nbase d, usage d, children d, tensors d)"

lemma body_eqD:
  "body d = body d' \<Longrightarrow> nsize d = nsize d' \<and> noffset d = noffset d' \<and> usage d = usage d' \<and>
     children d = children d' \<and> tensors d = tensors d'"
  by (simp add: body_def)

definition same_rest :: "Defer \<Rightarrow> Defer \<Rightarrow> bool" where
  "same_rest s t \<longleftrightarrow> (\<forall>x. body (mem t x) = body (mem s x)) \<and> mChunks t = mChunks s \<and>
     mFreeList t = mFreeList s \<and> mBarrrier t = mBarrrier s \<and> mAlign t = mAlign s \<and>
     mBarrrierFreeChunks t = mBarrrierFreeChunks s \<and> mTotalSize t = mTotalSize s"

lemma insert_after_rest: "same_rest s (insert_after c p s)"
  by (auto simp: same_rest_def insert_after_def body_def Let_def split: option.splits)

lemma erase_node_rest: "same_rest s (erase_node c s)"
  by (auto simp: same_rest_def erase_node_def body_def split: option.splits)

lemma insert_after_linked:
  assumes "linked s (us @ p # vs)" "c \<notin> set (us @ p # vs)"
  shows "linked (insert_after c (Some p) s) (us @ p # c # vs)"
  using assms by (cases vs) (auto simp: linked_def insert_after_def Let_def dest: last_of_inD)

lemma insert_last_linked:
  assumes "linked s xs" "c \<notin> set xs" "nleft (mem s c) = None" "nright (mem s c) = None"
  shows "linked (insert_after c None s) (xs @ [c])"
  using assms by (cases xs rule: rev_cases) (auto simp: linked_def insert_after_def Let_def)

lemma erase_node_linked:
  assumes "linked s (us @ x # vs)"
  shows "linked (erase_node x s) (us @ vs)"
proof (cases us rule: rev_cases)
  case Nil
  then show ?thesis using assms
    by (cases vs) (auto simp: linked_def erase_node_def last_of_def)
next
  case (snoc us' l)
  then show ?thesis using assms
    by (cases vs) (auto simp: linked_def erase_node_def last_of_def)
qed

section \<open>Trees of fused nodes\<close>

inductive tree :: "(nat \<Rightarrow> MemNode) \<Rightarrow> nat \<Rightarrow> (nat \<times> nat) list \<Rightarrow> bool"
  and kids :: "(nat \<Rightarrow> MemNode) \<Rightarrow> nat list \<Rightarrow> (nat \<times> nat) list \<Rightarrow> bool" where
  tree: "kids m (children (m x)) ms \<Longrightarrow> tree m x ((x, 0) # ms)"
| kids_Nil: "kids m [] []"
| kids_Cons: "tree m c mc \<Longrightarrow> kids m cs ms \<Longrightarrow> kids m (c # cs) (shift (noffset (m c)) mc @ ms)"

inductive_cases treeE: "tree m x ms"
inductive_cases kids_NilE: "kids m [] ms"
inductive_cases kids_ConsE: "kids m (c # cs) ms"

lemma tree_leaf: "children (m x) = [] \<Longrightarrow> tree m x [(x, 0)]"
  using tree [of m x "[]"] kids_Nil by simp

lemma kids_snoc:
  "kids m cs ms \<Longrightarrow> tree m c mc \<Longrightarrow> kids m (cs @ [c]) (ms @ shift (noffset (m c)) mc)"
proof (induction cs arbitrary: ms)
  case Nil
  then show ?case using kids_Cons [OF Nil(2) kids_Nil] by (auto elim: kids_NilE)
next
  case (Cons d cs)
  from Cons.prems(1) obtain md ms' where d: "ms = shift (noffset (m d)) md @ ms'"
    "tree m d md" "kids m cs ms'" by (auto elim: kids_ConsE)
  then have "kids m (cs @ [c]) (ms' @ shift (noffset (m c)) mc)" using Cons by blast
  then show ?case using kids_Cons [OF d(2)] d by fastforce
qed

text \<open>
  A tree only depends on the children of its members and the offsets of its proper members.
\<close>

lemma tree_frame:
  "tree m x ms \<Longrightarrow> (\<forall>y\<in>fst ` set ms. children (m' y) = children (m y)) \<Longrightarrow>
     (\<forall>y\<in>fst ` set (tl ms). noffset (m' y) = noffset (m y)) \<Longrightarrow> tree m' x ms"
  "kids m cs ms \<Longrightarrow> (\<forall>y\<in>fst ` set ms. children (m' y) = children (m y)) \<Longrightarrow>
     (\<forall>y\<in>fst ` set ms. noffset (m' y) = noffset (m y)) \<Longrightarrow> kids m' cs ms"
proof (induction rule: tree_kids.inducts)
  case (tree m x ms)
  then show ?case by (auto intro!: tree_kids.tree)
next
  case (kids_Nil m)
  then show ?case by (simp add: tree_kids.kids_Nil)
next
  case (kids_Cons m c mc cs ms)
  have "c \<in> fst ` set mc" using kids_Cons.hyps(1) by (auto elim: treeE)
  moreover have "set (tl mc) \<subseteq> set mc" by (cases mc) auto
  ultimately have "tree m' c mc" "kids m' cs ms" "noffset (m' c) = noffset (m c)"
    using kids_Cons by (auto simp: image_Un)
  then show ?case using tree_kids.kids_Cons by metis
qed

lemma tree_hd: "tree m x ms \<Longrightarrow> ms \<noteq> [] \<and> hd ms = (x, 0)"
  by (auto elim: treeE)

section \<open>The free list\<close>

definition flist :: "Defer \<Rightarrow> nat set \<Rightarrow> bool" where
  "flist s F \<longleftrightarrow> sorted (map (\<lambda>c. nsize (mem s c)) (mFreeList s)) \<and> distinct (mFreeList s) \<and>
     set (mFreeList s) = F"

lemma flist_frame:
  "flist s F \<Longrightarrow> mFreeList t = mFreeList s \<Longrightarrow> (\<And>c. c \<in> F \<Longrightarrow> nsize (mem t c) = nsize (mem s c)) \<Longrightarrow>
   flist t F"
  by (auto simp: flist_def cong: map_cong)

lemma insertFree_flist:
  assumes "flist s F" "c \<notin> F"
  shows "flist (insertFree c s) (insert c F)"
  using assms sorted_insert_range [of "\<lambda>d. nsize (mem s d)" "mFreeList s" c]
  unfolding flist_def insertFree_def Let_def
  by (simp add: set_insert_range distinct_insert_range del: distinct_append set_append map_append
      list.map sorted_append)

lemma eraseFree_flist:
  assumes "flist s F" "c \<in> F"
  shows "flist (eraseFree c s) (F - {c})"
proof -
  have "mFreeList (eraseFree c s) = remove1 c (mFreeList s)"
    using assms remove_equal_range [of "\<lambda>d. nsize (mem s d)" "mFreeList s" c]
    by (simp add: eraseFree_def Let_def flist_def)
  moreover have "mem (eraseFree c s) = mem s" by (simp add: eraseFree_def Let_def)
  ultimately show ?thesis
    using assms by (auto simp: flist_def intro: sorted_map_remove1)
qed

section \<open>The refinement relation\<close>

definition okb :: "(nat \<Rightarrow> MemNode) \<Rightarrow> block \<Rightarrow> bool" where
  "okb m B \<longleftrightarrow> nsize (m (head_of B)) = fst B \<and> tree m (head_of B) (snd B)"

definition agree :: "(nat \<Rightarrow> MemNode) \<Rightarrow> (nat \<Rightarrow> MemNode) \<Rightarrow> nat \<Rightarrow> bool" where
  "agree m m' x \<longleftrightarrow> nsize (m' x) = nsize (m x) \<and> noffset (m' x) = noffset (m x) \<and>
     children (m' x) = children (m x)"

definition rel0 :: "Defer \<Rightarrow> layout \<Rightarrow> bool" where
  "rel0 s L \<longleftrightarrow> linked s (map head_of L) \<and> lgood L \<and>
     mChunks s = [0..<length (mChunks s)] \<and> set (ids L) = set (mChunks s) \<and>
     (\<forall>B \<in> set L. okb (mem s) B)"

definition frees :: "Defer \<Rightarrow> layout \<Rightarrow> nat set" where
  "frees s L = {x \<in> lblocks L. \<not> usage (mem s x)}"

definition rel :: "Defer \<Rightarrow> layout \<Rightarrow> bool" where
  "rel s L \<longleftrightarrow> rel0 s L \<and> flist s (frees s L)"

lemma linked_frame:
  "linked s xs \<Longrightarrow> mHead t = mHead s \<Longrightarrow> mTail t = mTail s \<Longrightarrow>
   (\<And>x. x \<in> set xs \<Longrightarrow> nleft (mem t x) = nleft (mem s x) \<and> nright (mem t x) = nright (mem s x)) \<Longrightarrow>
   linked t xs"
  using seg_cong [of xs "mem t" "mem s"] by (auto simp: linked_def)

lemma agree_body: "body (m' x) = body (m x) \<Longrightarrow> agree m m' x"
  by (auto simp: agree_def dest: body_eqD)

lemma agree_upd [simp]: "x \<noteq> p \<Longrightarrow> agree m (m(p := d)) x"
  by (simp add: agree_def)

lemma members_in_ids: "B \<in> set L \<Longrightarrow> fst ` set (snd B) \<subseteq> set (ids L)"
  by (force simp: ids_def)

lemma okb_frame:
  assumes "okb m B" "B \<in> set L" "\<And>x. x \<in> set (ids L) \<Longrightarrow> agree m m' x"
  shows "okb m' B"
proof -
  have t: "tree m (head_of B) (snd B)" and k: "nsize (m (head_of B)) = fst B"
    using assms(1) by (simp_all add: okb_def)
  have a: "agree m m' y" if "y \<in> fst ` set (snd B)" for y
    using members_in_ids [OF assms(2)] that assms(3) by blast
  have tl: "y \<in> fst ` set (snd B)" if "y \<in> fst ` set (tl (snd B))" for y
    using that by (cases "snd B") auto
  have "tree m' (head_of B) (snd B)"
    by (rule tree_frame(1) [OF t]) (use a tl in \<open>simp_all add: agree_def\<close>)
  moreover have "head_of B \<in> fst ` set (snd B)" using tree_hd [OF t] by (simp add: head_of_def)
  ultimately show ?thesis using k a by (simp add: okb_def agree_def)
qed

lemma rel0_okb: "rel0 s L \<Longrightarrow> B \<in> set L \<Longrightarrow> okb (mem s) B"
  by (simp add: rel0_def)

lemma rel0_frame:
  assumes "rel0 s L" "mHead t = mHead s" "mTail t = mTail s" "mChunks t = mChunks s"
    and links: "\<And>x. nleft (mem t x) = nleft (mem s x) \<and> nright (mem t x) = nright (mem s x)"
    and flds: "\<And>x. agree (mem s) (mem t) x"
  shows "rel0 t L"
  unfolding rel0_def
proof (intro conjI ballI, goal_cases)
  case 1
  show ?case using assms by (auto simp: rel0_def intro: linked_frame)
next
  case (5 B)
  then show ?case using okb_frame [of "mem s" B L "mem t"] rel0_okb [OF assms(1)] flds by blast
qed (use assms in \<open>auto simp: rel0_def\<close>)

lemma rel0_next:
  assumes "rel0 s L"
  shows "length (mChunks s) \<notin> set (ids L)" "lblocks L \<subseteq> set (ids L)"
    "length (mChunks s) \<notin> lblocks L"
proof -
  have "set (ids L) = {0..<length (mChunks s)}" using assms
    by (metis atLeastLessThan_upt rel0_def)
  then show "length (mChunks s) \<notin> set (ids L)" by simp
  moreover show "lblocks L \<subseteq> set (ids L)"
    using assms head_in_ids by (auto simp: rel0_def lblocks_def)
  ultimately show "length (mChunks s) \<notin> lblocks L" by blast
qed

lemma head_of_single [simp]: "head_of (k, [(n, z)]) = n"
  by (simp add: head_of_def)

text \<open>A fresh node entered into the list, after a given node or at the end.\<close>

lemma rel0_insert:
  assumes r: "rel0 s (us @ vs)" and n: "n = length (mChunks s)"
    and t: "same_rest (s\<lparr>mem := (mem s)(n := d), mChunks := mChunks s @ [n]\<rparr>) t"
    and d: "nsize d = k" "children d = []"
    and lk: "linked t (map head_of us @ n # map head_of vs)"
  shows "rel0 t (us @ (k, [(n, 0)]) # vs)"
  unfolding rel0_def
proof (intro conjI ballI, goal_cases)
  case 2
  show ?case using r rel0_next(1) [OF r] n by (auto simp: rel0_def)
next
  case 4
  show ?case using r t n by (auto simp: rel0_def same_rest_def)
next
  case (5 B)
  have b: "body (mem t x) = body (if x = n then d else mem s x)" for x
    using t by (simp add: same_rest_def)
  show ?case
  proof (cases "B = (k, [(n, 0)])")
    case True
    then show ?thesis using body_eqD [OF b [of n]] d by (auto simp: okb_def intro: tree_leaf)
  next
    case False
    then have "B \<in> set (us @ vs)" using 5 by auto
    moreover have "agree (mem s) (mem t) x" if "x \<in> set (ids (us @ vs))" for x
      using that rel0_next(1) [OF r] n b [of x] by (intro agree_body) auto
    ultimately show ?thesis using okb_frame rel0_okb [OF r] by blast
  qed
qed (use r t lk n in \<open>auto simp: rel0_def same_rest_def\<close>)

lemma rel0_resize:
  assumes r: "rel0 s (us @ (k0, ms) # vs)" and p: "p = head_of (k0, ms)"
  shows "rel0 (set_mem p (nsize_update (\<lambda>_. k)) s) (us @ (k, ms) # vs)"
  unfolding rel0_def
proof (intro conjI ballI, goal_cases)
  case 1
  then show ?case using r
    by (auto simp: rel0_def head_of_def intro: linked_frame)
next
  case (5 B)
  let ?m = "mem (set_mem p (nsize_update (\<lambda>_. k)) s)"
  have lg: "lgood (us @ (k0, ms) # vs)" using r by (simp add: rel0_def)
  show ?case
  proof (cases "B = (k, ms)")
    case True
    then show ?thesis using rel0_okb [OF r, of "(k0, ms)"] p
      by (auto simp: okb_def head_of_def intro: tree_frame(1) [of "mem s"])
  next
    case False
    then have B: "B \<in> set (us @ vs)" using 5 by auto
    have "p \<in> fst ` set ms" using lg by (auto simp: p head_of_def)
    then have "p \<notin> set (ids (us @ vs))" using lg by auto
    then have "agree (mem s) ?m x" if "x \<in> set (ids (us @ vs))" for x
      using that by (simp, intro agree_upd) auto
    then show ?thesis using okb_frame [OF _ B] rel0_okb [OF r, of B] B by auto
  qed
qed (use r in \<open>auto simp: rel0_def\<close>)

lemma rel0_fuse:
  assumes r: "rel0 s (us @ (k1, ms1) # (k2, ms2) # vs)"
    and h: "l = head_of (k1, ms1)" "r = head_of (k2, ms2)"
  shows "rel0 (fuse_to_left l r s) (us @ (k1 + k2, ms1 @ shift k1 ms2) # vs)"
proof -
  let ?L = "us @ (k1, ms1) # (k2, ms2) # vs"
  have lg: "lgood ?L" using r by (simp add: rel0_def)
  have in1: "l \<in> fst ` set ms1" and in2: "r \<in> fst ` set ms2"
    using lg by (auto simp: h head_of_def)
  have lr: "l \<noteq> r" using in1 in2 lg by auto
  have b1: "nsize (mem s l) = k1" "tree (mem s) l ms1" and b2: "nsize (mem s r) = k2" "tree (mem s) r ms2"
    using rel0_okb [OF r, of "(k1, ms1)"] rel0_okb [OF r, of "(k2, ms2)"] h by (auto simp: okb_def)
  define m3 where "m3 = (mem s)(r := (mem s r)\<lparr>noffset := k1\<rparr>,
    l := children_update (\<lambda>cs. cs @ [r]) (nsize_update (\<lambda>k. k + k2) (mem s l)))"
  define s3 where "s3 = s\<lparr>mem := m3\<rparr>"
  have fu: "fuse_to_left l r s = erase_node r s3"
    using lr b1 b2 by (simp add: fuse_to_left_def Let_def s3_def m3_def fun_upd_twist)
  have "linked s3 (map head_of ?L)"
    using r by (auto simp: rel0_def s3_def m3_def intro: linked_frame)
  then have lk: "linked (fuse_to_left l r s) ((map head_of us @ [l]) @ map head_of vs)"
    unfolding fu using erase_node_linked [of s3 "map head_of us @ [l]" r "map head_of vs"] h
    by simp
  have b: "body (mem (fuse_to_left l r s) x) = body (m3 x)" for x
    using erase_node_rest [of s3 r] unfolding fu by (simp add: same_rest_def s3_def)
  note bd = body_eqD [OF b]
  obtain ms1' where ms1: "ms1 = (l, 0) # ms1'" and k1: "kids (mem s) (children (mem s l)) ms1'"
    using b1(2) by (auto elim: treeE)
  obtain ms2' where ms2: "ms2 = (r, 0) # ms2'" using b2(2) by (auto elim: treeE)
  have nin: "l \<notin> fst ` set ms1'" "l \<notin> fst ` set ms2" "r \<notin> fst ` set ms1'" "r \<notin> fst ` set ms2'"
    using lg in1 in2 unfolding ms1 ms2 by auto
  have ch: "children (m3 y) = children (mem s y)" if "y \<noteq> l" for y using that by (simp add: m3_def)
  have of': "noffset (m3 y) = noffset (mem s y)" if "y \<noteq> r" for y using that by (simp add: m3_def)
  have t2: "tree m3 r ms2"
  proof (rule tree_frame(1) [OF b2(2)])
    show "\<forall>y\<in>fst ` set ms2. children (m3 y) = children (mem s y)" using ch nin(2) by metis
    show "\<forall>y\<in>fst ` set (tl ms2). noffset (m3 y) = noffset (mem s y)"
      using of' nin(4) by (metis list.sel(3) ms2)
  qed
  have t1: "kids m3 (children (mem s l)) ms1'"
  proof (rule tree_frame(2) [OF k1])
    show "\<forall>y\<in>fst ` set ms1'. children (m3 y) = children (mem s y)" using ch nin(1) by metis
    show "\<forall>y\<in>fst ` set ms1'. noffset (m3 y) = noffset (mem s y)" using of' nin(3) by metis
  qed
  have "noffset (m3 r) = k1" using lr by (simp add: m3_def)
  then have "kids m3 (children (mem s l) @ [r]) (ms1' @ shift k1 ms2)"
    using kids_snoc [OF t1 t2] by simp
  then have "tree m3 l (ms1 @ shift k1 ms2)"
    using tree [of m3 l] by (simp add: m3_def ms1)
  then have tl: "tree (mem (fuse_to_left l r s)) l (ms1 @ shift k1 ms2)"
    using bd by (auto intro: tree_frame(1))
  have hd: "head_of (k1 + k2, ms1 @ shift k1 ms2) = l" by (simp add: ms1 head_of_def)
  show ?thesis unfolding rel0_def
  proof (intro conjI ballI, goal_cases)
    case 1
    then show ?case using lk hd by simp
  next
    case 2
    show ?case using lstep_good [OF lstep.fuse lg] .
  next
    case (5 B)
    show ?case
    proof (cases "B = (k1 + k2, ms1 @ shift k1 ms2)")
      case True
      then show ?thesis using tl hd bd [of l] b1 b2 by (simp add: okb_def m3_def)
    next
      case False
      then have B: "B \<in> set (us @ vs)" using 5 by auto
      have "l \<notin> set (ids (us @ vs))" "r \<notin> set (ids (us @ vs))" using lg in1 in2 by auto
      then have "agree (mem s) (mem (fuse_to_left l r s)) x" if "x \<in> set (ids (us @ vs))" for x
        using that b [of x] by (intro agree_body) (auto simp: m3_def)
      then show ?thesis using okb_frame [OF _ B] rel0_okb [OF r, of B] B by auto
    qed
  qed (use r erase_node_rest [of s3 r] in \<open>auto simp: rel0_def fu same_rest_def s3_def\<close>)
qed

end
