(* ===== verification/Defer_Correct.thy ===== *)
theory Defer_Correct
  imports Defer_Refine
begin

text \<open>
  Every operation of the deferred planner is simulated by steps of the layout, and
  \<^verbatim>\<open>compute\<close> assigns each chunk the place the layout gives it. Together with the locale
  \<open>planner\<close> this is the safety of the memory plan.
\<close>

section \<open>Blocks in use\<close>

definition used :: "Defer \<Rightarrow> layout \<Rightarrow> nat set" where
  "used s L = {x \<in> lblocks L. usage (mem s x)}"

text \<open>The fields the planning operations do not write.\<close>

definition same_plan :: "Defer \<Rightarrow> Defer \<Rightarrow> bool" where
  "same_plan s t \<longleftrightarrow> mBarrrier t = mBarrrier s \<and> mBarrrierFreeChunks t = mBarrrierFreeChunks s \<and>
     mAlign t = mAlign s \<and> mTotalSize t = mTotalSize s"

text \<open>
  No two neighbours are both free; all sizes and offsets are multiples of an alignment.
\<close>

abbreviation heads :: "layout \<Rightarrow> nat list" where
  "heads L \<equiv> map head_of L"

definition sp :: "(nat \<Rightarrow> bool) \<Rightarrow> nat list \<Rightarrow> bool" where
  "sp u xs = successively (\<lambda>x y. u x \<or> u y) xs"

definition sparse :: "Defer \<Rightarrow> layout \<Rightarrow> bool" where
  "sparse s L = sp (\<lambda>x. usage (mem s x)) (heads L)"

definition lalign :: "nat \<Rightarrow> layout \<Rightarrow> bool" where
  "lalign d L \<longleftrightarrow> (\<forall>(k, ms) \<in> set L. d dvd k \<and> (\<forall>(x, p) \<in> set ms. d dvd p))"

lemma sp_append [simp]:
  "sp u (xs @ ys) \<longleftrightarrow> sp u xs \<and> sp u ys \<and> (xs = [] \<or> ys = [] \<or> u (last xs) \<or> u (hd ys))"
  by (auto simp: sp_def successively_append_iff)

lemma sp_Cons [simp]: "sp u (x # ys) \<longleftrightarrow> sp u ys \<and> (ys = [] \<or> u x \<or> u (hd ys))"
  using sp_append [of u "[x]" ys] by (simp add: sp_def)

lemma sp_Nil [simp]: "sp u []"
  by (simp add: sp_def)

lemma sp_cong: "(\<And>x. x \<in> set xs \<Longrightarrow> u x = v x) \<Longrightarrow> sp u xs = sp v xs"
  unfolding sp_def by (rule successively_cong) auto

lemma sp_mono: "sp u xs \<Longrightarrow> (\<And>x. x \<in> set xs \<Longrightarrow> u x \<Longrightarrow> v x) \<Longrightarrow> sp v xs"
  unfolding sp_def by (erule successively_mono) auto

lemma lalign_simps [simp]:
  "lalign d (us @ vs) \<longleftrightarrow> lalign d us \<and> lalign d vs"
  "lalign d ((k, ms) # vs) \<longleftrightarrow> d dvd k \<and> (\<forall>(x, p) \<in> set ms. d dvd p) \<and> lalign d vs"
  "lalign d []"
  by (simp_all add: lalign_def ball_Un conj_ac)

lemma lalign_fuse:
  "lalign d (us @ (k1, ms1) # (k2, ms2) # vs) \<Longrightarrow>
   lalign d (us @ (k1 + k2, ms1 @ shift k1 ms2) # vs)"
  by (auto simp: set_shift)

text \<open>What one allocation of \<open>k\<close> bytes does to a layout.\<close>

definition alloc_post :: "Defer \<Rightarrow> layout \<Rightarrow> nat \<Rightarrow> nat \<Rightarrow> Defer \<Rightarrow> layout \<Rightarrow> bool" where
  "alloc_post s L k c s' L' \<longleftrightarrow> lstep L L' \<and> rel s' L' \<and> used s' L' = insert c (used s L) \<and>
     c \<notin> used s L \<and> same_plan s s' \<and> (sparse s L \<longrightarrow> sparse s' L') \<and> ltotal L' \<le> ltotal L + k \<and>
     (\<forall>d. d dvd k \<longrightarrow> lalign d L \<longrightarrow> lalign d L') \<and> lextent L' c = k"

lemma lblocks_simps [simp]:
  "lblocks (us @ vs) = lblocks us \<union> lblocks vs"
  "lblocks (B # vs) = insert (head_of B) (lblocks vs)"
  "lblocks [] = {}"
  by (auto simp: lblocks_def)

lemma lblocks_split: "x \<in> lblocks L \<Longrightarrow> \<exists>us k ms vs. L = us @ (k, ms) # vs \<and> head_of (k, ms) = x"
  unfolding lblocks_def by (metis (no_types, lifting) imageE list.set_map split_list surj_pair)

lemma rel0_distinct: "rel0 s L \<Longrightarrow> distinct (map head_of L)"
  by (simp add: rel0_def linked_def)

lemma rel0_extent: "rel0 s L \<Longrightarrow> x \<in> lblocks L \<Longrightarrow> lextent L x = nsize (mem s x)"
  using rel0_okb [of s L] lextent_split
  by (fastforce simp: rel0_def okb_def dest!: lblocks_split)

lemma select_flist:
  assumes "flist s F" "mFreeList s = as @ c # bs"
  shows "flist (s\<lparr>mFreeList := as @ bs\<rparr>) (F - {c})" "c \<in> F"
  using assms by (auto simp: flist_def sorted_append)

lemma eraseFree_fields [simp]:
  "mem (eraseFree c s) = mem s" "mChunks (eraseFree c s) = mChunks s"
  "mHead (eraseFree c s) = mHead s" "mTail (eraseFree c s) = mTail s"
  by (simp_all add: eraseFree_def Let_def)

lemma insertFree_fields [simp]:
  "mem (insertFree c s) = mem s" "mChunks (insertFree c s) = mChunks s"
  "mHead (insertFree c s) = mHead s" "mTail (insertFree c s) = mTail s"
  by (simp_all add: insertFree_def Let_def)

lemma same_plan_steps [simp]:
  "same_plan s (eraseFree c s)" "same_plan s (insertFree c s)" "same_plan s (fuse_to_left l r s)"
  using erase_node_rest
  by (simp_all add: same_plan_def eraseFree_def insertFree_def Let_def fuse_to_left_def same_rest_def)

lemma same_plan_trans: "same_plan s t \<Longrightarrow> same_plan t u \<Longrightarrow> same_plan s u"
  by (simp add: same_plan_def)

lemma fuse_body:
  "x \<noteq> l \<Longrightarrow> nsize (mem (fuse_to_left l r s) x) = nsize (mem s x)"
  "usage (mem (fuse_to_left l r s) x) = usage (mem s x)"
  "tensors (mem (fuse_to_left l r s) x) = tensors (mem s x)"
  "mFreeList (fuse_to_left l r s) = mFreeList s"
  "mChunks (fuse_to_left l r s) = mChunks s"
  using erase_node_rest by (auto simp: fuse_to_left_def Let_def same_rest_def body_def)

section \<open>Allocation\<close>

lemma alloc_new_sim:
  assumes r: "rel s L" and a: "alloc sz sep al s = (c, s')" "mFreeList s = [] \<or> sep"
  shows "\<exists>L'. alloc_post s L (align_up sz (if al = 0 then mAlign s else al)) c s' L'"
proof -
  let ?k = "align_up sz (if al = 0 then mAlign s else al)"
  let ?n = "length (mChunks s)"
  let ?s1 = "s\<lparr>mem := (mem s)(?n := newMemNode ?k), mChunks := mChunks s @ [?n]\<rparr>"
  have r0: "rel0 s L" using r by (simp add: rel_def)
  have c: "c = ?n" "s' = insert_after ?n None ?s1"
    using a by (auto simp: alloc_def createMemNode_def Let_def)
  note n = rel0_next [OF r0]
  have hs: "?n \<notin> set (map head_of L)" using n(3) by (simp add: lblocks_def)
  have "linked ?s1 (map head_of L)" using r0 hs by (simp add: rel0_def linked_def)
  then have "linked s' (map head_of L @ [?n])"
    unfolding c using hs by (intro insert_last_linked) (auto simp: newMemNode_def)
  then have r': "rel0 s' (L @ [(?k, [(?n, 0)])])"
    using rel0_insert [of s L "[]" ?n "newMemNode ?k" s' ?k] r0 insert_after_rest c
    by (simp add: newMemNode_def)
  have b: "body (mem s' x) = body (mem ?s1 x)" for x
    using insert_after_rest [of ?s1] c by (simp add: same_rest_def)
  have fr: "frees s' (L @ [(?k, [(?n, 0)])]) = frees s L"
    and us: "used s' (L @ [(?k, [(?n, 0)])]) = insert ?n (used s L)"
    using body_eqD [OF b] n(3) by (auto simp: frees_def used_def newMemNode_def)
  have "flist s' (frees s L)"
    using r insert_after_rest [of ?s1 ?n None] c n(3) body_eqD [OF b]
    by (auto simp: rel_def frees_def same_rest_def intro!: flist_frame [of s])
  then have "rel s' (L @ [(?k, [(?n, 0)])])" using r' fr by (simp add: rel_def)
  moreover have "lstep L (L @ [(?k, [(?n, 0)])])" using n(1) by (rule lstep.append)
  moreover have "same_plan s s'"
    using insert_after_rest [of ?s1 ?n None] c by (simp add: same_plan_def same_rest_def)
  moreover have "?n \<notin> used s L" using n(3) by (simp add: used_def)
  moreover have "sparse s' (L @ [(?k, [(?n, 0)])])" if "sparse s L"
  proof -
    have "sp (\<lambda>x. usage (mem s' x)) (heads L)"
      using that unfolding sparse_def by (rule sp_mono) (use body_eqD [OF b] in \<open>auto simp: newMemNode_def\<close>)
    then show ?thesis using body_eqD [OF b [of ?n]] by (simp add: sparse_def newMemNode_def)
  qed
  moreover have "lextent (L @ [(?k, [(?n, 0)])]) ?n = ?k"
    using rel0_extent [OF r', of ?n] body_eqD [OF b [of ?n]] by (simp add: newMemNode_def)
  ultimately show ?thesis using us c(1) unfolding alloc_post_def
    by (intro exI [of _ "L @ [(?k, [(?n, 0)])]"]) simp
qed

lemma pickFree_split:
  assumes "xs \<noteq> []" "pickFree f k xs = (c, ys)"
  shows "\<exists>as bs. xs = as @ c # bs \<and> ys = as @ bs"
proof (cases "dropWhile (\<lambda>c. f c < k) xs")
  case Nil
  then have "xs = butlast xs @ [c]" "ys = butlast xs" using assms by (auto simp: pickFree_def)
  then show ?thesis by blast
next
  case (Cons d ds)
  then have "xs = takeWhile (\<lambda>c. f c < k) xs @ d # ds" by (metis takeWhile_dropWhile_id)
  then show ?thesis using Cons assms by (auto simp: pickFree_def simp del: dropWhile_eq_Nil_conv)
qed

lemma alloc_reuse:
  assumes "alloc sz sep al s = (c, s')" "mFreeList s \<noteq> []" "\<not> sep"
  defines "k \<equiv> align_up sz (if al = 0 then mAlign s else al)"
  shows "\<exists>as bs. mFreeList s = as @ c # bs \<and> s' = set_mem c (nsize_update (\<lambda>_. k))
    (split_chunk k c (set_mem c (usage_update (\<lambda>_. True)) (s\<lparr>mFreeList := as @ bs\<rparr>)))"
proof -
  obtain d fl where p: "pickFree (\<lambda>c. nsize (mem s c)) k (mFreeList s) = (d, fl)" by force
  then obtain as bs where "mFreeList s = as @ d # bs" "fl = as @ bs"
    using pickFree_split [OF assms(2) p] by blast
  moreover from this have "c = d" "s' = set_mem d (nsize_update (\<lambda>_. k))
    (split_chunk k d (set_mem d (usage_update (\<lambda>_. True)) (s\<lparr>mFreeList := as @ bs\<rparr>)))"
    using assms p by (auto simp: alloc_def Let_def)
  ultimately show ?thesis by blast
qed

lemma chunks_mem_commute: "s\<lparr>mChunks := C, mem := m\<rparr> = s\<lparr>mem := m, mChunks := C\<rparr>"
  by (rule Defer.equality) simp_all

lemma split_chunk_rel:
  assumes r: "rel0 s (us @ (k0, ms) # vs)" and f: "flist s F" and c: "c = head_of (k0, ms)"
    "c \<notin> F" "F \<subseteq> lblocks (us @ (k0, ms) # vs)" and k: "k < k0"
  defines "n \<equiv> length (mChunks s)" and "t \<equiv> set_mem c (nsize_update (\<lambda>_. k)) (split_chunk k c s)"
  shows "rel0 t (us @ (k, ms) # (k0 - k, [(n, 0)]) # vs)" "flist t (insert n F)"
    "\<And>x. x \<noteq> n \<Longrightarrow> usage (mem t x) = usage (mem s x)" "\<not> usage (mem t n)" "same_plan s t"
proof -
  let ?L = "us @ (k0, ms) # vs"
  let ?d = "(newMemNode (k0 - k))\<lparr>usage := False\<rparr>"
  let ?s1 = "s\<lparr>mem := (mem s)(n := ?d), mChunks := mChunks s @ [n]\<rparr>"
  have sz: "nsize (mem s c) = k0" using rel0_okb [OF r, of "(k0, ms)"] c(1) by (simp add: okb_def)
  have t: "t = set_mem c (nsize_update (\<lambda>_. k)) (insertFree n (insert_after n (Some c) ?s1))"
    using k sz
    by (simp add: t_def split_chunk_def createMemNode_def n_def Let_def chunks_mem_commute)
  let ?s3 = "insert_after n (Some c) ?s1"
  note n = rel0_next [OF r, folded n_def]
  have cn: "c \<noteq> n" "n \<notin> F" using n(3) c by auto
  have hs: "n \<notin> set (map head_of ?L)" using n(3) by (auto simp: lblocks_def)
  have "linked ?s1 (map head_of ?L)" using r hs by (simp add: rel0_def linked_def)
  then have "linked ?s3 (map head_of us @ c # n # map head_of vs)"
    using insert_after_linked [of ?s1 "map head_of us" c "map head_of vs" n] hs c(1) by simp
  then have "rel0 ?s3 ((us @ [(k0, ms)]) @ (k0 - k, [(n, 0)]) # vs)"
    using rel0_insert [of s "us @ [(k0, ms)]" vs n ?d ?s3 "k0 - k"] r insert_after_rest c(1)
    by (simp add: newMemNode_def n_def)
  then have "rel0 (insertFree n ?s3) (us @ (k0, ms) # (k0 - k, [(n, 0)]) # vs)"
    by (auto intro: rel0_frame simp: agree_def)
  then show "rel0 t (us @ (k, ms) # (k0 - k, [(n, 0)]) # vs)"
    unfolding t using rel0_resize c(1) by blast
  have b: "body (mem ?s3 x) = body (mem ?s1 x)" and b': "mFreeList ?s3 = mFreeList s" for x
    using insert_after_rest [of ?s1 n "Some c"] by (simp_all add: same_rest_def)
  have "flist ?s3 F"
    by (rule flist_frame [OF f b']) (use body_eqD [OF b] cn in auto)
  then have f3: "flist (insertFree n ?s3) (insert n F)" using insertFree_flist cn(2) by blast
  show "flist t (insert n F)"
    unfolding t by (rule flist_frame [OF f3]) (use c(2) cn in auto)
  show "usage (mem t x) = usage (mem s x)" if "x \<noteq> n" for x
    unfolding t using that body_eqD [OF b [of x]] by auto
  show "\<not> usage (mem t n)" unfolding t using body_eqD [OF b [of n]] cn by simp
  have "same_plan ?s3 (insertFree n ?s3)" by simp
  then show "same_plan s t"
    unfolding t using insert_after_rest [of ?s1 n "Some c"] by (simp add: same_plan_def same_rest_def)
qed

lemma alloc_reuse_sim:
  assumes r: "rel s L" and a: "alloc sz sep al s = (c, s')" "mFreeList s \<noteq> []" "\<not> sep"
  shows "\<exists>L'. alloc_post s L (align_up sz (if al = 0 then mAlign s else al)) c s' L'"
proof -
  define k where "k = align_up sz (if al = 0 then mAlign s else al)"
  obtain as bs where fl: "mFreeList s = as @ c # bs" and s': "s' = set_mem c (nsize_update (\<lambda>_. k))
      (split_chunk k c (set_mem c (usage_update (\<lambda>_. True)) (s\<lparr>mFreeList := as @ bs\<rparr>)))"
    using alloc_reuse [OF a] k_def by blast
  let ?s2 = "set_mem c (usage_update (\<lambda>_. True)) (s\<lparr>mFreeList := as @ bs\<rparr>)"
  have r0: "rel0 s L" and F: "flist s (frees s L)" using r by (simp_all add: rel_def)
  have cF: "c \<in> frees s L" and f1: "flist (s\<lparr>mFreeList := as @ bs\<rparr>) (frees s L - {c})"
    using select_flist [OF F fl] by blast+
  have f2: "flist ?s2 (frees s L - {c})" by (rule flist_frame [OF f1]) auto
  have r2: "rel0 ?s2 L" using r0 by (rule rel0_frame) (auto simp: agree_def)
  obtain us k0 ms vs where L: "L = us @ (k0, ms) # vs" and c: "c = head_of (k0, ms)"
    using cF lblocks_split by (force simp: frees_def)
  have sz: "nsize (mem ?s2 c) = k0" using rel0_okb [OF r2, of "(k0, ms)"] L c by (simp add: okb_def)
  let ?n = "length (mChunks s)"
  note n = rel0_next [OF r0]
  show ?thesis
  proof (cases "k < k0")
    case True
    let ?L' = "us @ (k, ms) # (k0 - k, [(?n, 0)]) # vs"
    have fs: "frees s L - {c} \<subseteq> lblocks L" by (auto simp: frees_def)
    note sp = split_chunk_rel [of ?s2 us k0 ms vs "frees s L - {c}" c k]
    have sp': "rel0 s' ?L'" "flist s' (insert ?n (frees s L - {c}))"
      "\<And>x. x \<noteq> ?n \<Longrightarrow> usage (mem s' x) = usage (mem ?s2 x)" "\<not> usage (mem s' ?n)" "same_plan ?s2 s'"
      using sp r2 f2 fs c True L unfolding s' by auto
    have u: "usage (mem s' x) = (x = c \<or> usage (mem s x))" if "x \<in> lblocks L" for x
      using sp'(3) [of x] that n(3) by (cases "x = ?n") (auto simp: fun_upd_apply)
    have hb: "head_of (k, ms) = c" by (simp add: c head_of_def)
    have blk: "lblocks ?L' = insert ?n (lblocks L)" using hb c by (auto simp: L)
    have "frees s' ?L' = insert ?n (frees s L - {c})"
      using blk sp'(4) u n(3) by (auto simp: frees_def)
    moreover have "used s' ?L' = insert c (used s L)"
      using blk sp'(4) u n(3) cF by (auto simp: frees_def used_def)
    moreover have "lstep L ?L'" unfolding L using True n(1) L by (auto intro: lstep.split)
    moreover have "sparse s' ?L'" if "sparse s L"
    proof -
      have "sp (\<lambda>x. x = c \<or> usage (mem s x)) (heads us @ c # heads vs) \<and>
          (vs = [] \<or> usage (mem s (hd (heads vs))))"
        using that cF c unfolding sparse_def L by (auto simp: frees_def elim!: sp_mono)
      moreover have "sp (\<lambda>x. usage (mem s' x)) (heads us @ c # heads vs) =
          sp (\<lambda>x. x = c \<or> usage (mem s x)) (heads us @ c # heads vs)"
        by (rule sp_cong) (use u L c in \<open>auto simp: lblocks_def\<close>)
      moreover have "vs = [] \<or> usage (mem s' (hd (heads vs))) = (hd (heads vs) = c \<or> usage (mem s (hd (heads vs))))"
        using u [of "hd (heads vs)"] by (cases vs) (auto simp: L)
      ultimately show ?thesis using u [of c] by (auto simp: sparse_def hb L c)
    qed
    moreover have "lextent ?L' c = k" using rel0_extent [OF sp'(1), of c] hb s' by simp
    ultimately show ?thesis unfolding k_def [symmetric] alloc_post_def
      using sp' cF True
      by (intro exI [of _ ?L']) (auto simp: rel_def used_def frees_def same_plan_def L dvd_diff_nat)
  next
    case False
    then have s'': "s' = set_mem c (nsize_update (\<lambda>_. k)) ?s2"
      unfolding s' split_chunk_def using sz by simp
    let ?L' = "us @ (k, ms) # vs"
    have hb: "head_of (k, ms) = c" by (simp add: c head_of_def)
    have blk: "lblocks ?L' = lblocks L" using hb c by (auto simp: L)
    have "rel0 s' ?L'" unfolding s'' using r2 L c rel0_resize by blast
    moreover have "flist s' (frees s L - {c})" unfolding s'' by (rule flist_frame [OF f2]) auto
    moreover have "frees s' ?L' = frees s L - {c}" "used s' ?L' = insert c (used s L)"
      using cF unfolding frees_def used_def blk s'' by auto
    moreover have "lstep L ?L'" unfolding L using False by (auto intro: lstep.grow)
    moreover have "same_plan s s'" by (simp add: s'' same_plan_def)
    moreover have "sparse s' ?L'" if "sparse s L"
      using that c hb unfolding sparse_def L s'' by (auto simp: head_of_def elim!: sp_mono)
    moreover have "lextent ?L' c = k" using rel0_extent [of s' ?L' c] calculation(1) hb s'' by simp
    ultimately show ?thesis unfolding k_def [symmetric] alloc_post_def
      using cF by (intro exI [of _ ?L']) (auto simp: rel_def used_def frees_def L)
  qed
qed

lemma alloc_sim:
  assumes "rel s L" "alloc sz sep al s = (c, s')"
  shows "\<exists>L'. alloc_post s L (align_up sz (if al = 0 then mAlign s else al)) c s' L'"
  using alloc_new_sim [OF assms] alloc_reuse_sim [OF assms] by blast

section \<open>Freeing\<close>

lemma fuse_sim:
  assumes r: "rel0 s (us @ (k1, ms1) # (k2, ms2) # vs)"
    and h: "l = head_of (k1, ms1)" "r = head_of (k2, ms2)"
    and f: "flist s F" "z \<in> F" "l = z \<or> l \<notin> F"
  defines "t \<equiv> fuse_to_left l r (eraseFree z s)"
  shows "rel0 t (us @ (k1 + k2, ms1 @ shift k1 ms2) # vs)" "flist t (F - {z})" "same_plan s t"
    "usage (mem t x) = usage (mem s x)"
proof -
  have "rel0 (eraseFree z s) (us @ (k1, ms1) # (k2, ms2) # vs)"
    using r by (rule rel0_frame) (auto simp: agree_def)
  then show "rel0 t (us @ (k1 + k2, ms1 @ shift k1 ms2) # vs)"
    unfolding t_def using h by (rule rel0_fuse)
  have f': "flist (eraseFree z s) (F - {z})" using f by (intro eraseFree_flist)
  show "flist t (F - {z})"
    unfolding t_def
  proof (rule flist_frame [OF f'])
    fix c assume "c \<in> F - {z}"
    then have "c \<noteq> l" using f by auto
    then show "nsize (mem (fuse_to_left l r (eraseFree z s)) c) = nsize (mem (eraseFree z s) c)"
      by (simp add: fuse_body)
  qed (simp add: fuse_body)
  show "same_plan s t"
    unfolding t_def by (rule same_plan_trans [OF same_plan_steps(1) same_plan_steps(3)])
  show "usage (mem t x) = usage (mem s x)" by (simp add: t_def fuse_body)
qed

lemma linked_neighbours:
  assumes "linked s (us @ x # vs)"
  shows "nleft (mem s x) = last_of us None" "nright (mem s x) = first_of vs None"
  using assms by (auto simp: linked_def)

text \<open>First half of \<open>free_node\<close>: the freed block and its left neighbour.\<close>

definition fuse_left_part :: "nat \<Rightarrow> Defer \<Rightarrow> nat \<times> Defer" where
  "fuse_left_part node s =
     (case nleft (mem s node) of
        Some l \<Rightarrow> if \<not> usage (mem s l) then (l, fuse_to_left l node (eraseFree l s)) else (node, s)
      | None \<Rightarrow> (node, s))"

definition fuse_right_part :: "nat option \<Rightarrow> nat \<Rightarrow> Defer \<Rightarrow> Defer" where
  "fuse_right_part right node s =
     (case right of
        Some r \<Rightarrow> if \<not> usage (mem s r) then fuse_to_left node r (eraseFree r s) else s
      | None \<Rightarrow> s)"

lemma free_node_parts:
  "free_node c s =
     (let (n1, s1) = fuse_left_part c s; s2 = fuse_right_part (nright (mem s c)) n1 s1
      in insertFree n1 (set_mem n1 (usage_update (\<lambda>_. False)) s2))"
  by (simp add: free_node_def fuse_left_part_def fuse_right_part_def Let_def)

definition fused :: "Defer \<Rightarrow> layout \<Rightarrow> Defer \<Rightarrow> layout \<Rightarrow> bool" where
  "fused s L t L' \<longleftrightarrow> lstep\<^sup>*\<^sup>* L L' \<and> rel0 t L' \<and> same_plan s t \<and>
     (\<forall>x. usage (mem t x) = usage (mem s x)) \<and> ltotal L' = ltotal L \<and>
     (\<forall>d. lalign d L \<longrightarrow> lalign d L')"

lemma fused_refl: "rel0 s L \<Longrightarrow> fused s L s L"
  by (simp add: fused_def same_plan_def)

lemma fused_trans: "fused s L t L1 \<Longrightarrow> fused t L1 u L2 \<Longrightarrow> fused s L u L2"
  by (auto simp: fused_def same_plan_def)

lemma fusedI:
  assumes "rel0 t (us @ (k1 + k2, ms1 @ shift k1 ms2) # vs)" "same_plan s t"
    "\<And>x. usage (mem t x) = usage (mem s x)"
  shows "fused s (us @ (k1, ms1) # (k2, ms2) # vs) t (us @ (k1 + k2, ms1 @ shift k1 ms2) # vs)"
  unfolding fused_def
  using assms lstep.fuse [of us k1 ms1 k2 ms2 vs] lalign_fuse [of _ us k1 ms1 k2 ms2 vs] by auto

lemma fuse_left_sim:
  assumes r: "rel0 s (us @ (k, ms) # vs)" and c: "c = head_of (k, ms)" "usage (mem s c)"
    and f: "flist s (frees s (us @ (k, ms) # vs))" and e: "fuse_left_part c s = (n1, s1)"
  shows "\<exists>us1 k1 ms1. fused s (us @ (k, ms) # vs) s1 (us1 @ (k1, ms1) # vs) \<and> n1 = head_of (k1, ms1) \<and>
    flist s1 (frees s (us @ (k, ms) # vs) - {n1}) \<and>
    lblocks (us1 @ (k1, ms1) # vs) = insert n1 (lblocks (us @ (k, ms) # vs) - {c}) \<and>
    (n1 = c \<or> n1 \<in> frees s (us @ (k, ms) # vs)) \<and>
    (sparse s (us @ (k, ms) # vs) \<longrightarrow> sparse s us1 \<and> (us1 = [] \<or> usage (mem s (last (heads us1)))))"
proof -
  have d: "distinct (map head_of (us @ (k, ms) # vs))" using r by (rule rel0_distinct)
  have nl: "nleft (mem s c) = last_of (map head_of us) None"
    using r linked_neighbours(1) [of s "map head_of us" c "map head_of vs"] c(1)
    by (simp add: rel0_def)
  show ?thesis
proof (cases "fuse_left_part c s = (c, s)")
  case True
  have "frees s (us @ (k, ms) # vs) - {c} = frees s (us @ (k, ms) # vs)"
    using c by (auto simp: frees_def)
  moreover have "us = [] \<or> usage (mem s (last (heads us)))"
  proof (cases us rule: rev_cases)
    case (snoc us' B)
    then have "head_of B \<noteq> c" "nleft (mem s c) = Some (head_of B)" using d c(1) nl by auto
    then show ?thesis using True snoc by (auto simp: fuse_left_part_def split: if_splits)
  qed simp
  ultimately show ?thesis using True r c f e
    by (intro exI [of _ us] exI [of _ k] exI [of _ ms]) (auto simp: sparse_def fused_refl)
next
  case False
  with nl obtain l where l: "last_of (map head_of us) None = Some l" "\<not> usage (mem s l)"
    "n1 = l" "s1 = fuse_to_left l c (eraseFree l s)"
    using False e by (auto simp: fuse_left_part_def split: option.splits if_splits)
  then obtain us' B where us: "us = us' @ [B]" "head_of B = l"
    by (cases us rule: rev_cases) auto
  obtain kl msl where B: "B = (kl, msl)" by force
  let ?L = "us @ (k, ms) # vs" and ?L1 = "us' @ (kl + k, msl @ shift kl ms) # vs"
  have lF: "l \<in> frees s ?L" using us l by (auto simp: frees_def)
  have h: "head_of (kl + k, msl @ shift kl ms) = l"
    using r us B by (auto simp: head_of_def rel0_def)
  have r': "rel0 s (us' @ (kl, msl) # (k, ms) # vs)" using r us B by simp
  have sim: "rel0 s1 ?L1" "flist s1 (frees s ?L - {l})" "same_plan s s1"
    "usage (mem s1 x) = usage (mem s x)" for x
    using fuse_sim [OF r' _ c(1) f lF, of l] us B l(4) by simp_all
  have "fused s ?L s1 ?L1" using fusedI [OF sim(1,3,4)] us B by simp
  moreover have "lblocks ?L1 = insert l (lblocks ?L - {c})"
    using h d c(1) us by (auto simp: lblocks_def)
  moreover have "sparse s us' \<and> (us' = [] \<or> usage (mem s (last (heads us'))))" if "sparse s ?L"
    using that l(2) us by (auto simp: sparse_def)
  ultimately show ?thesis
    using sim lF h l(3) by (intro exI [of _ us'] exI [of _ "kl + k"] exI [of _ "msl @ shift kl ms"]) auto
qed
qed

lemma fuse_right_sim:
  assumes r: "rel0 s (us @ (k, ms) # vs)" and c: "n = head_of (k, ms)"
    and f: "flist s F" "n \<notin> F" "lblocks vs \<inter> {x. \<not> usage (mem s x)} \<subseteq> F"
  defines "t \<equiv> fuse_right_part (first_of (map head_of vs) None) n s"
  shows "\<exists>k' ms' vs' R. fused s (us @ (k, ms) # vs) t (us @ (k', ms') # vs') \<and>
    n = head_of (k', ms') \<and> flist t (F - R) \<and>
    lblocks (us @ (k', ms') # vs') = lblocks (us @ (k, ms) # vs) - R \<and>
    R \<subseteq> F \<inter> {x. \<not> usage (mem s x)} \<and> n \<notin> R \<and>
    (sparse s vs \<longrightarrow> sparse s vs' \<and> (vs' = [] \<or> usage (mem s (hd (heads vs')))))"
proof (cases "t = s")
  case True
  have d: "distinct (map head_of (us @ (k, ms) # vs))" using r by (rule rel0_distinct)
  have "vs = [] \<or> usage (mem s (hd (heads vs)))"
  proof (cases vs)
    case (Cons B vs')
    show ?thesis
    proof (rule ccontr)
      assume neg: "\<not> ?thesis"
      then have "t = fuse_to_left n (head_of B) (eraseFree (head_of B) s)"
        unfolding t_def using Cons by (simp add: fuse_right_part_def)
      moreover have "head_of B \<in> F" using neg f(3) Cons by auto
      then have "mFreeList (eraseFree (head_of B) s) \<noteq> mFreeList s"
        using eraseFree_flist [OF f(1)] f(1) by (force simp: flist_def)
      ultimately show False using True fuse_body(4) by metis
    qed
  qed simp
  then show ?thesis using r c f True
    by (intro exI [of _ k] exI [of _ ms] exI [of _ vs] exI [of _ "{}"]) (auto simp: fused_refl)
next
  case False
  then obtain B vs' where vs: "vs = B # vs'" "\<not> usage (mem s (head_of B))"
    and t: "t = fuse_to_left n (head_of B) (eraseFree (head_of B) s)"
    unfolding t_def by (cases vs) (auto simp: fuse_right_part_def split: if_splits)
  obtain kr msr where B: "B = (kr, msr)" by force
  let ?r = "head_of B" and ?L1 = "us @ (k + kr, ms @ shift k msr) # vs'"
  have d: "distinct (map head_of (us @ (k, ms) # vs))" using r by (rule rel0_distinct)
  have rF: "?r \<in> F" using vs f(3) by auto
  have h: "head_of (k + kr, ms @ shift k msr) = n"
    using r c by (auto simp: head_of_def rel0_def)
  have r': "rel0 s (us @ (k, ms) # (kr, msr) # vs')" using r vs B by simp
  have sim: "rel0 t ?L1" "flist t (F - {?r})" "same_plan s t"
    "usage (mem t x) = usage (mem s x)" for x
    using fuse_sim [OF r' c _ f(1) rF, of ?r] f(2) B t by simp_all
  have "fused s (us @ (k, ms) # vs) t ?L1" using fusedI [OF sim(1,3,4)] vs B by simp
  moreover have "lblocks ?L1 = lblocks (us @ (k, ms) # vs) - {?r}"
    using h d c vs by (auto simp: lblocks_def)
  moreover have "n \<noteq> ?r" using d c vs by auto
  moreover have "sparse s vs' \<and> (vs' = [] \<or> usage (mem s (hd (heads vs'))))" if "sparse s vs"
    using that vs by (auto simp: sparse_def)
  ultimately show ?thesis
    using sim rF h vs(2)
    by (intro exI [of _ "k + kr"] exI [of _ "ms @ shift k msr"] exI [of _ vs'] exI [of _ "{?r}"]) auto
qed

text \<open>What freeing the blocks \<open>A\<close> does to a layout.\<close>

definition free_post :: "Defer \<Rightarrow> layout \<Rightarrow> nat set \<Rightarrow> Defer \<Rightarrow> layout \<Rightarrow> bool" where
  "free_post s L A t L' \<longleftrightarrow> lstep\<^sup>*\<^sup>* L L' \<and> rel t L' \<and> used t L' = used s L - A \<and> same_plan s t \<and>
     (sparse s L \<longrightarrow> sparse t L') \<and> ltotal L' = ltotal L \<and> (\<forall>d. lalign d L \<longrightarrow> lalign d L')"

lemma free_node_sim:
  assumes r: "rel s L" and c: "c \<in> used s L"
  shows "\<exists>L'. free_post s L {c} (free_node c s) L'"
proof -
  obtain us k ms vs where L: "L = us @ (k, ms) # vs" and h: "c = head_of (k, ms)"
    using c lblocks_split by (force simp: used_def)
  have r0: "rel0 s L" and F: "flist s (frees s L)" and uc: "usage (mem s c)"
    using r c by (simp_all add: rel_def used_def)
  obtain n1 s1 where e: "fuse_left_part c s = (n1, s1)" by force
  obtain us1 k1 ms1 where 1: "fused s L s1 (us1 @ (k1, ms1) # vs)" "n1 = head_of (k1, ms1)"
    "flist s1 (frees s L - {n1})" "lblocks (us1 @ (k1, ms1) # vs) = insert n1 (lblocks L - {c})"
    "n1 = c \<or> n1 \<in> frees s L"
    "sparse s L \<longrightarrow> sparse s us1 \<and> (us1 = [] \<or> usage (mem s (last (heads us1))))"
    using fuse_left_sim [OF r0 [unfolded L] h uc F [unfolded L] e] unfolding L by blast
  have r1: "rel0 s1 (us1 @ (k1, ms1) # vs)" and u1: "usage (mem s1 x) = usage (mem s x)" for x
    using 1(1) by (simp_all add: fused_def)
  have nr: "nright (mem s c) = first_of (map head_of vs) None"
    using r0 linked_neighbours(2) [of s "map head_of us" c "map head_of vs"] h L
    by (simp add: rel0_def)
  define s2 where "s2 = fuse_right_part (first_of (map head_of vs) None) n1 s1"
  have d1: "n1 \<notin> lblocks vs" using rel0_distinct [OF r1] 1(2) by (auto simp: lblocks_def)
  have sub: "lblocks vs \<inter> {x. \<not> usage (mem s1 x)} \<subseteq> frees s L - {n1}"
    using d1 u1 by (auto simp: frees_def L)
  have nF: "n1 \<notin> frees s L - {n1}" by simp
  obtain k2 ms2 vs2 R where 2: "fused s1 (us1 @ (k1, ms1) # vs) s2 (us1 @ (k2, ms2) # vs2)"
    "n1 = head_of (k2, ms2)" "flist s2 (frees s L - {n1} - R)"
    "lblocks (us1 @ (k2, ms2) # vs2) = lblocks (us1 @ (k1, ms1) # vs) - R"
    "R \<subseteq> (frees s L - {n1}) \<inter> {x. \<not> usage (mem s1 x)}" "n1 \<notin> R"
    "sparse s1 vs \<longrightarrow> sparse s1 vs2 \<and> (vs2 = [] \<or> usage (mem s1 (hd (heads vs2))))"
    using fuse_right_sim [OF r1 1(2,3) nF sub, folded s2_def]
    by (elim exE conjE) (erule that, assumption+)
  let ?L = "us1 @ (k2, ms2) # vs2" and ?s3 = "set_mem n1 (usage_update (\<lambda>_. False)) s2"
  let ?t = "free_node c s"
  have fu: "fused s L s2 ?L" using fused_trans [OF 1(1) 2(1)] .
  have r2: "rel0 s2 ?L" using fu by (simp add: fused_def)
  have fin: "?t = insertFree n1 ?s3"
    by (simp add: free_node_parts e nr s2_def Let_def)
  have us: "usage (mem ?t x) = (x \<noteq> n1 \<and> usage (mem s x))" for x
    using fu by (simp add: fin fused_def)
  have blk: "lblocks ?L = insert n1 (lblocks L - {c}) - R" using 1(4) 2(4) by simp
  have fr: "frees ?t ?L = insert n1 (frees s L - {n1} - R)"
    using us 2(6) c unfolding frees_def used_def blk by auto
  have "rel0 ?t ?L"
    unfolding fin using r2 by (rule rel0_frame) (auto simp: agree_def)
  moreover have "flist ?s3 (frees s L - {n1} - R)" by (rule flist_frame [OF 2(3)]) auto
  then have "flist ?t (insert n1 (frees s L - {n1} - R))"
    unfolding fin by (intro insertFree_flist) auto
  ultimately have "rel ?t ?L" by (simp add: rel_def fr)
  moreover have "used ?t ?L = used s L - {c}"
    using us 1(5) 2(5,6) u1 unfolding used_def frees_def blk by auto
  moreover have "same_plan s ?t"
    using fu unfolding fin by (auto simp: fused_def same_plan_def insertFree_def Let_def)
  moreover have "sparse ?t ?L" if "sparse s L"
  proof -
    let ?u = "\<lambda>x. usage (mem s x)" and ?v = "\<lambda>x. usage (mem ?t x)"
    have d: "distinct (heads ?L)" using r2 by (rule rel0_distinct)
    have "sparse s1 vs" using that u1 by (simp add: L sparse_def)
    then have u: "sp ?u (heads us1)" "us1 = [] \<or> ?u (last (heads us1))"
      "sp ?u (heads vs2)" "vs2 = [] \<or> ?u (hd (heads vs2))"
      using 1(6) 2(7) that u1 by (auto simp: sparse_def)
    have nn: "n1 \<notin> set (heads us1)" "n1 \<notin> set (heads vs2)" using d 2(2) by auto
    then have "sp ?v (heads us1)" "sp ?v (heads vs2)"
      using u(1,3) sp_cong [of "heads us1" ?u ?v] sp_cong [of "heads vs2" ?u ?v] us by metis+
    moreover have "us1 = [] \<or> ?v (last (heads us1))" "vs2 = [] \<or> ?v (hd (heads vs2))"
      using u(2,4) us nn by (metis last_in_set list.map_disc_iff, metis hd_in_set list.map_disc_iff)
    ultimately show ?thesis by (auto simp: sparse_def)
  qed
  ultimately show ?thesis
    using fu by (intro exI [of _ ?L]) (simp add: free_post_def fused_def)
qed

section \<open>Runs of the planner\<close>

text \<open>
  A client asks for chunks, frees what it holds, brackets the work of several threads with
  barriers and attaches tensors to chunks it holds. The second component of a configuration
  is the list of the chunks the client holds; a step is labelled with the bytes it requests.
\<close>

inductive dstep :: "Defer \<times> nat list \<Rightarrow> nat \<Rightarrow> Defer \<times> nat list \<Rightarrow> bool" where
  alloc: "alloc sz sep al s = (c, s') \<Longrightarrow>
    dstep (s, H) (align_up sz (if al = 0 then mAlign s else al)) (s', c # H)"
| free: "c \<in> set H \<Longrightarrow> dstep (s, H) 0 (snd (free (Some c) s), remove1 c H)"
| barrierBegin: "\<not> mBarrrier s \<Longrightarrow> dstep (s, H) 0 (barrierBegin s, H)"
| barrierEnd: "dstep (s, H) 0 (barrierEnd s, H)"
| attach: "c \<in> set H \<Longrightarrow> dstep (s, H) 0 (attach c t s, H)"

text \<open>A run, with the rounded sizes of the requests made in it.\<close>

inductive drun :: "Defer \<times> nat list \<Rightarrow> nat list \<Rightarrow> Defer \<times> nat list \<Rightarrow> bool" where
  refl: "drun x [] x"
| step: "drun x ks y \<Longrightarrow> dstep y k z \<Longrightarrow> drun x (ks @ [k]) z"

definition pending :: "Defer \<Rightarrow> nat list" where
  "pending s = map the (mBarrrierFreeChunks s)"

text \<open>
  What every reachable configuration satisfies: the blocks in use are exactly the chunks held
  and those whose release waits for the end of the barrier.
\<close>

definition dinv :: "Defer \<Rightarrow> nat list \<Rightarrow> layout \<Rightarrow> bool" where
  "dinv s H L \<longleftrightarrow> rel s L \<and> distinct (H @ pending s) \<and> used s L = set (H @ pending s) \<and>
     None \<notin> set (mBarrrierFreeChunks s) \<and> (\<not> mBarrrier s \<longrightarrow> mBarrrierFreeChunks s = []) \<and>
     mTotalSize s = 0"

lemma dinv_init: "dinv (initDefer al) [] []"
  by (simp add: dinv_def rel_def rel0_def linked_def flist_def frees_def used_def pending_def
      initDefer_def)

lemma rel_cong:
  assumes "rel s L" "mem t = mem s" "mChunks t = mChunks s" "mHead t = mHead s" "mTail t = mTail s"
    "mFreeList t = mFreeList s"
  shows "rel t L" "used t L = used s L"
  using assms by (simp_all add: rel_def rel0_def flist_def frees_def used_def linked_def)

lemma free_all_sim:
  "rel s L \<Longrightarrow> distinct (map the cs) \<Longrightarrow> set (map the cs) \<subseteq> used s L \<Longrightarrow> None \<notin> set cs \<Longrightarrow>
   \<not> mBarrrier s \<Longrightarrow>
   \<exists>L'. free_post s L (set (map the cs)) (fold (\<lambda>c t. snd (free c t)) cs s) L'"
proof (induction cs arbitrary: s L)
  case Nil
  then show ?case by (intro exI [of _ L]) (auto simp: free_post_def same_plan_def)
next
  case (Cons oc cs)
  then obtain c where c: "oc = Some c" by (cases oc) auto
  then have "c \<in> used s L" using Cons.prems by simp
  then obtain L1 where 1: "free_post s L {c} (free_node c s) L1"
    using free_node_sim [OF Cons.prems(1)] by blast
  let ?s = "free_node c s" and ?t = "fold (\<lambda>c t. snd (free c t)) cs (free_node c s)"
  have b: "\<not> mBarrrier ?s" and r: "rel ?s L1"
    using 1 Cons.prems(5) by (simp_all add: free_post_def same_plan_def)
  have sub: "set (map the cs) \<subseteq> used ?s L1" using 1 Cons.prems c by (auto simp: free_post_def)
  obtain L2 where 2: "free_post ?s L1 (set (map the cs)) ?t L2"
    using Cons.IH [OF r _ sub _ b] Cons.prems(2,4) by auto
  have "snd (free oc s) = ?s" using c Cons.prems(5) by (simp add: free_def)
  then have "free_post s L (set (map the (oc # cs))) (fold (\<lambda>c t. snd (free c t)) (oc # cs) s) L2"
    using 1 2 c by (auto simp: free_post_def same_plan_def)
  then show ?case by blast
qed

definition step_post :: "Defer \<Rightarrow> layout \<Rightarrow> nat \<Rightarrow> Defer \<Rightarrow> nat list \<Rightarrow> layout \<Rightarrow> bool" where
  "step_post s L k s' H' L' \<longleftrightarrow> lstep\<^sup>*\<^sup>* L L' \<and> dinv s' H' L' \<and> mAlign s' = mAlign s \<and>
     (sparse s L \<longrightarrow> sparse s' L') \<and> ltotal L' \<le> ltotal L + k \<and>
     (\<forall>d. d dvd k \<longrightarrow> lalign d L \<longrightarrow> lalign d L')"

lemma free_step_post:
  assumes "free_post s L A t L'" "dinv t H' L'"
  shows "step_post s L 0 t H' L'"
  using assms by (simp add: free_post_def step_post_def same_plan_def)

lemma same_step_post:
  assumes "dinv t H' L" "mAlign t = mAlign s" "\<And>x. usage (mem t x) = usage (mem s x)"
  shows "step_post s L 0 t H' L"
  using assms by (simp add: step_post_def sparse_def)

lemma alloc_dinv:
  assumes "alloc sz sep al s = (c, s')" "dinv s H L"
  shows "\<exists>L'. step_post s L (align_up sz (if al = 0 then mAlign s else al)) s' (c # H) L'"
proof -
  obtain L' where L': "alloc_post s L (align_up sz (if al = 0 then mAlign s else al)) c s' L'"
    using alloc_sim [OF _ assms(1)] assms(2) unfolding dinv_def by blast
  then have "dinv s' (c # H) L'" using assms(2)
    by (auto simp: dinv_def alloc_post_def pending_def same_plan_def)
  then show ?thesis using L'
    by (intro exI [of _ L']) (auto simp: alloc_post_def step_post_def same_plan_def)
qed

lemma free_dinv:
  assumes c: "c \<in> set H" and inv: "dinv s H L"
  shows "\<exists>L'. step_post s L 0 (snd (free (Some c) s)) (remove1 c H) L'"
proof (cases "mBarrrier s")
  case True
  define s' where "s' = s\<lparr>mBarrrierFreeChunks := mBarrrierFreeChunks s @ [Some c]\<rparr>"
  have "rel s' L" "used s' L = used s L" using inv rel_cong [of s L s'] by (auto simp: dinv_def s'_def)
  moreover have "pending s' = pending s @ [c]" "mBarrrier s'" "mTotalSize s' = mTotalSize s"
    "None \<notin> set (mBarrrierFreeChunks s') \<longleftrightarrow> None \<notin> set (mBarrrierFreeChunks s)"
    using True by (simp_all add: s'_def pending_def)
  ultimately have "dinv s' (remove1 c H) L" using inv c unfolding dinv_def by auto
  then have "step_post s L 0 s' (remove1 c H) L" by (rule same_step_post) (simp_all add: s'_def)
  then show ?thesis using True by (auto simp: free_def s'_def)
next
  case False
  have "rel s L" "c \<in> used s L" using inv c by (auto simp: dinv_def)
  then obtain L' where L': "free_post s L {c} (free_node c s) L'" using free_node_sim by blast
  then have "dinv (free_node c s) (remove1 c H) L'"
    using inv c False by (auto simp: dinv_def same_plan_def pending_def free_post_def)
  then show ?thesis using free_step_post [OF L'] False by (auto simp: free_def)
qed

lemma barrierEnd_dinv:
  assumes inv: "dinv s H L"
  shows "\<exists>L'. step_post s L 0 (barrierEnd s) H L'"
proof -
  let ?s0 = "s\<lparr>mBarrrier := False\<rparr>" and ?cs = "mBarrrierFreeChunks s"
  let ?s1 = "fold (\<lambda>c t. snd (free c t)) ?cs ?s0"
  have 0: "rel ?s0 L" "used ?s0 L = used s L" using inv rel_cong [of s L ?s0] by (auto simp: dinv_def)
  have "set (map the ?cs) \<subseteq> used ?s0 L" using inv 0(2) by (auto simp: dinv_def pending_def)
  then obtain L' where 1: "free_post ?s0 L (set (map the ?cs)) ?s1 L'"
    using free_all_sim [OF 0(1), of ?cs] inv by (auto simp: dinv_def pending_def)
  have e: "barrierEnd s = ?s1\<lparr>mBarrrierFreeChunks := []\<rparr>" by (simp add: barrierEnd_def)
  have "rel (barrierEnd s) L'" "used (barrierEnd s) L' = used ?s1 L'"
    using rel_cong [of ?s1 L' "barrierEnd s"] 1 e by (auto simp: free_post_def)
  then have "dinv (barrierEnd s) H L'" using inv 1 0(2)
    by (auto simp: dinv_def same_plan_def pending_def free_post_def e)
  then show ?thesis using 1
    by (intro exI [of _ L']) (auto simp: step_post_def free_post_def same_plan_def sparse_def e)
qed

lemma attach_dinv:
  assumes inv: "dinv s H L"
  shows "step_post s L 0 (attach c t s) H L"
proof -
  define s' where "s' = attach c t s"
  have s': "s' = set_mem c (tensors_update (\<lambda>ts. ts @ [t])) s" by (simp add: s'_def attach_def)
  have "rel0 s' L" using inv unfolding s' dinv_def rel_def
    by (auto intro!: rel0_frame [of s] simp: agree_def)
  moreover have "frees s' L = frees s L" "used s' L = used s L"
    unfolding s' by (auto simp: frees_def used_def)
  moreover have "flist s' (frees s L)" using inv unfolding s' dinv_def rel_def
    by (auto intro!: flist_frame [of s])
  moreover have "pending s' = pending s" "mBarrrier s' = mBarrrier s" "mTotalSize s' = mTotalSize s"
    "mBarrrierFreeChunks s' = mBarrrierFreeChunks s"
    by (simp_all add: s' pending_def)
  ultimately have "dinv s' H L" using inv by (auto simp: dinv_def rel_def)
  then show ?thesis unfolding s'_def [symmetric] by (rule same_step_post) (simp_all add: s')
qed

lemma barrierBegin_dinv: "dinv s H L \<Longrightarrow> step_post s L 0 (barrierBegin s) H L"
  using rel_cong [of s L "barrierBegin s"]
  by (intro same_step_post) (auto simp: dinv_def barrierBegin_def pending_def)

lemma dstep_sim:
  assumes "dstep (s, H) k (s', H')" "dinv s H L"
  shows "\<exists>L'. step_post s L k s' H' L'"
  using assms(1)
proof cases
  case (alloc sz sep al c)
  then show ?thesis using alloc_dinv [OF alloc(3) assms(2)] by (simp only:)
next
  case (free c)
  then show ?thesis using free_dinv [OF free(4) assms(2)] by (simp only:)
next
  case barrierBegin
  then show ?thesis using barrierBegin_dinv [OF assms(2)] by blast
next
  case barrierEnd
  then show ?thesis using barrierEnd_dinv [OF assms(2)] by (simp only:)
next
  case (attach c t)
  then show ?thesis using attach_dinv [OF assms(2)] by blast
qed

definition run_post :: "Defer \<Rightarrow> layout \<Rightarrow> nat list \<Rightarrow> Defer \<Rightarrow> nat list \<Rightarrow> layout \<Rightarrow> bool" where
  "run_post s L ks s' H' L' \<longleftrightarrow> lstep\<^sup>*\<^sup>* L L' \<and> dinv s' H' L' \<and> mAlign s' = mAlign s \<and>
     (sparse s L \<longrightarrow> sparse s' L') \<and> ltotal L' \<le> ltotal L + sum_list ks \<and>
     (\<forall>d. (\<forall>k \<in> set ks. d dvd k) \<longrightarrow> lalign d L \<longrightarrow> lalign d L')"

lemma drun_sim:
  assumes "drun x ks y" "dinv (fst x) (snd x) L"
  shows "\<exists>L'. run_post (fst x) L ks (fst y) (snd y) L'"
  using assms
proof (induction rule: drun.induct)
  case (refl x)
  then show ?case by (intro exI [of _ L]) (simp add: run_post_def)
next
  case (step x ks y k z)
  then obtain L1 where 1: "run_post (fst x) L ks (fst y) (snd y) L1" by blast
  then obtain L2 where "step_post (fst y) L1 k (fst z) (snd z) L2"
    using dstep_sim [of "fst y" "snd y" k "fst z" "snd z" L1] step.hyps(2)
    by (auto simp: run_post_def)
  then show ?case using 1 by (intro exI [of _ L2]) (auto simp: run_post_def step_post_def)
qed

section \<open>Computing the offsets\<close>

text \<open>
  On a tree, \<open>visiChildren\<close> returns when it is given as many levels of fuel as there are
  members, moves every proper member to its place and touches nothing else.
\<close>

definition placed :: "(nat \<Rightarrow> MemNode) \<Rightarrow> (nat \<Rightarrow> MemNode) \<Rightarrow> nat set \<Rightarrow> bool" where
  "placed m m' A \<longleftrightarrow> (\<forall>x. x \<notin> A \<longrightarrow> m' x = m x) \<and>
     (\<forall>x. (m' x)\<lparr>noffset := 0\<rparr> = (m x)\<lparr>noffset := 0\<rparr>)"

lemma placed_refl: "placed m m A"
  by (simp add: placed_def)

lemma placed_trans: "placed m m1 A \<Longrightarrow> placed m1 m2 B \<Longrightarrow> placed m m2 (A \<union> B)"
  by (simp add: placed_def)

lemma placed_fields:
  assumes "placed m m' A"
  shows "children (m' x) = children (m x)" "nsize (m' x) = nsize (m x)" "nright (m' x) = nright (m x)"
    "tensors (m' x) = tensors (m x)" "usage (m' x) = usage (m x)"
proof -
  have "(m' x)\<lparr>noffset := 0\<rparr> = (m x)\<lparr>noffset := 0\<rparr>" using assms by (simp add: placed_def)
  from arg_cong [OF this, of children] arg_cong [OF this, of nsize] arg_cong [OF this, of nright]
    arg_cong [OF this, of tensors] arg_cong [OF this, of usage]
  show "children (m' x) = children (m x)" "nsize (m' x) = nsize (m x)" "nright (m' x) = nright (m x)"
    "tensors (m' x) = tensors (m x)" "usage (m' x) = usage (m x)" by simp_all
qed

lemma placed_kids:
  assumes "placed m m' A" "A \<inter> fst ` set ms = {}" "kids m cs ms"
  shows "kids m' cs ms"
proof (rule tree_frame(2) [OF assms(3)])
  show "\<forall>y\<in>fst ` set ms. children (m' y) = children (m y)" using placed_fields(1) [OF assms(1)] by simp
  show "\<forall>y\<in>fst ` set ms. noffset (m' y) = noffset (m y)"
    using assms(1,2) unfolding placed_def by (metis disjoint_iff)
qed

lemma visit_ok:
  "tree m x ms \<Longrightarrow> distinct (map fst ms) \<Longrightarrow> length ms \<le> fuel \<Longrightarrow>
     \<exists>m'. visiChildren fuel x m = Some m' \<and> placed m m' (fst ` set (tl ms)) \<and>
       (\<forall>(y, p) \<in> set ms. noffset (m' y) = noffset (m x) + p)"
proof (induction fuel arbitrary: m x ms)
  case 0
  then show ?case by (auto elim: treeE)
next
  case (Suc fuel)
  from Suc.prems(1) obtain ks where ms: "ms = (x, 0) # ks" and k: "kids m (children (m x)) ks"
    by (auto elim: treeE)
  let ?f = "\<lambda>m child. visiChildren fuel child
    (m(child := (m child)\<lparr>noffset := noffset (m child) + noffset (m x)\<rparr>))"
  have "\<exists>m'. fold_opt ?f m cs = Some m' \<and> placed m m' (fst ` set ks) \<and>
      (\<forall>(y, p) \<in> set ks. noffset (m' y) = noffset (m x) + p)"
    if "kids m cs ks" "distinct (map fst ks)" "length ks \<le> fuel" "x \<notin> fst ` set ks" for cs ks m
    using that
  proof (induction cs arbitrary: m ks)
    case Nil
    then show ?case by (auto elim!: kids_NilE intro: placed_refl)
  next
    case (Cons c cs)
    obtain mc ks' where ks: "ks = shift (noffset (m c)) mc @ ks'" and tc: "tree m c mc" and
      kc: "kids m cs ks'" using Cons.prems(1) by (auto elim: kids_ConsE)
    let ?m1 = "m(c := (m c)\<lparr>noffset := noffset (m c) + noffset (m x)\<rparr>)"
    obtain mc' where mc: "mc = (c, 0) # mc'" using tc by (auto elim: treeE)
    have d: "distinct (map fst mc)" "distinct (map fst ks')" "fst ` set mc \<inter> fst ` set ks' = {}"
      "x \<notin> fst ` set mc" "x \<notin> fst ` set ks'"
      using Cons.prems(2,4) by (auto simp: ks image_Un)
    have "tree ?m1 c mc" by (rule tree_frame(1) [OF tc]) (use d(1) mc in \<open>auto simp: image_iff\<close>)
    from Suc.IH [OF this d(1)] obtain m2 where 2: "visiChildren fuel c ?m1 = Some m2" "placed ?m1 m2 (fst ` set (tl mc))"
      "\<forall>(y, p) \<in> set mc. noffset (m2 y) = noffset (?m1 c) + p"
      using Cons.prems(3) unfolding ks by fastforce
    have "placed m ?m1 {c}" by (simp add: placed_def)
    from placed_trans [OF this 2(2)] have p2: "placed m m2 (fst ` set mc)" by (simp add: mc)
    have x2: "m2 x = m x" using p2 d(4) by (simp add: placed_def)
    have k2: "kids m2 cs ks'" using placed_kids [OF p2 d(3) kc] .
    have "length ks' \<le> fuel" using Cons.prems(3) by (simp add: ks)
    from Cons.IH [OF k2 d(2) this d(5)] obtain m3 where 3: "fold_opt ?f m2 cs = Some m3"
      "placed m2 m3 (fst ` set ks')" "\<forall>(y, p) \<in> set ks'. noffset (m3 y) = noffset (m x) + p"
      unfolding x2 by blast
    have keep: "m3 y = m2 y" if "y \<in> fst ` set mc" for y
      using 3(2) d(3) that unfolding placed_def by (metis disjoint_iff)
    have "noffset (m3 y) = noffset (m x) + p" if yp: "(y, p) \<in> set (shift (noffset (m c)) mc)" for y p
    proof -
      obtain q where q: "(y, q) \<in> set mc" "p = noffset (m c) + q" using yp by (auto simp: set_shift)
      then have "m3 y = m2 y" by (intro keep) force
      then show ?thesis using q 2(3) d(4) mc by (auto simp: fun_upd_apply)
    qed
    then have "\<forall>(y, p) \<in> set ks. noffset (m3 y) = noffset (m x) + p"
      using 3(3) by (auto simp: ks)
    moreover have "placed m m3 (fst ` set ks)"
      using placed_trans [OF p2 3(2)] by (simp add: ks image_Un)
    moreover have "fold_opt ?f m (c # cs) = Some m3"
      by (simp only: fold_opt.simps 2(1) option.case 3(1))
    ultimately show ?case by blast
  qed
  from this [OF k] Suc.prems(2,3) show ?case
    by (auto simp: ms placed_def)
qed

end
