(* ===== verification/Defer_Safety.thy ===== *)
theory Defer_Safety
  imports Defer_Correct
begin

text \<open>
  The contract of the deferred planner, end to end: whatever the clients of
  \<^verbatim>\<open>DeferBufferAllocator\<close> do between construction and \<^verbatim>\<open>compute\<close>, the plan is computed, chunks
  that were held at the same time do not overlap, everything lies inside the one buffer that is
  requested, and the tensors receive the planned addresses.
\<close>

section \<open>An executable client\<close>

datatype event = EAlloc nat bool nat | EFree nat | EBegin | EEnd | EAttach nat nat

fun dexec1 :: "event \<Rightarrow> Defer \<times> nat list \<Rightarrow> (nat \<times> Defer \<times> nat list) option" where
  "dexec1 (EAlloc sz sep al) (s, H) =
     (let (c, s') = alloc sz sep al s
      in Some (align_up sz (if al = 0 then mAlign s else al), s', c # H))"
| "dexec1 (EFree c) (s, H) =
     (if c \<in> set H then Some (0, snd (free (Some c) s), remove1 c H) else None)"
| "dexec1 EBegin (s, H) = (if mBarrrier s then None else Some (0, barrierBegin s, H))"
| "dexec1 EEnd (s, H) = Some (0, barrierEnd s, H)"
| "dexec1 (EAttach c t) (s, H) = (if c \<in> set H then Some (0, attach c t s, H) else None)"

fun dexec :: "event list \<Rightarrow> Defer \<times> nat list \<Rightarrow> (nat list \<times> Defer \<times> nat list) option" where
  "dexec [] x = Some ([], x)"
| "dexec (e # es) x =
     (case dexec1 e x of None \<Rightarrow> None
      | Some (k, y) \<Rightarrow> (case dexec es y of None \<Rightarrow> None | Some (ks, z) \<Rightarrow> Some (k # ks, z)))"

lemma dexec1_dstep: "dexec1 e x = Some (k, y) \<Longrightarrow> dstep x k y"
proof (induction e x rule: dexec1.induct)
  case (1 sz sep al s H)
  obtain c s' where a: "alloc sz sep al s = (c, s')" by force
  have "k = align_up sz (if al = 0 then mAlign s else al)" "y = (s', c # H)"
    using 1 by (simp_all add: a del: if_split)
  then show ?case using dstep.alloc [OF a] by (simp only:)
qed (auto intro: dstep.intros split: if_splits)

lemma drun_Cons: "drun y ks z \<Longrightarrow> dstep x k y \<Longrightarrow> drun x (k # ks) z"
proof (induction rule: drun.induct)
  case (refl y)
  then show ?case using drun.step [OF drun.refl] by fastforce
next
  case (step y ks z k' w)
  then show ?case using drun.step by fastforce
qed

lemma dexec_drun: "dexec es x = Some (ks, y) \<Longrightarrow> drun x ks y"
proof (induction es arbitrary: x ks)
  case (Cons e es)
  then obtain k y' ks' where 1: "dexec1 e x = Some (k, y')" "dexec es y' = Some (ks', y)"
    "ks = k # ks'" by (auto split: option.splits)
  then show ?case using drun_Cons [OF Cons.IH [OF 1(2)] dexec1_dstep [OF 1(1)]] by simp
qed (simp add: drun.refl)

section \<open>Sizes of chunks in use\<close>

lemma erase_node_body: "body (mem (erase_node r s) x) = body (mem s x)"
  using erase_node_rest [of s r] by (simp add: same_rest_def)

lemma fuse_to_left_keeps:
  "x \<noteq> l \<Longrightarrow> nsize (mem (fuse_to_left l r s) x) = nsize (mem s x)"
  "usage (mem (fuse_to_left l r s) x) = usage (mem s x)"
  using body_eqD [OF erase_node_body] by (simp_all add: fuse_to_left_def Let_def)

lemma free_node_keeps:
  assumes "usage (mem s x)" "x \<noteq> c"
  shows "nsize (mem (free_node c s) x) = nsize (mem s x)"
  using assms
  by (auto simp: free_node_def insertFree_def eraseFree_def Let_def fuse_to_left_keeps
      split: option.splits)

lemma insert_after_body: "body (mem (insert_after c p s) x) = body (mem s x)"
  using insert_after_rest [of s c p] by (simp add: same_rest_def)

lemmas insert_after_keeps = body_eqD [OF insert_after_body]

lemma split_chunk_keeps:
  "x \<noteq> length (mChunks s) \<Longrightarrow> nsize (mem (split_chunk k c s) x) = nsize (mem s x)"
  by (simp add: split_chunk_def createMemNode_def insertFree_def Let_def insert_after_keeps)

lemma pickFree_in: "xs \<noteq> [] \<Longrightarrow> fst (pickFree f k xs) \<in> set xs"
  using set_dropWhileD [of "hd (dropWhile (\<lambda>c. f c < k) xs)" "\<lambda>c. f c < k" xs]
  by (auto simp: pickFree_def Let_def)

lemma alloc_keeps:
  assumes "alloc sz sep al s = (c, s')" "x \<noteq> length (mChunks s)" "x \<notin> set (mFreeList s)"
  shows "nsize (mem s' x) = nsize (mem s x)"
proof (cases "mFreeList s = [] \<or> sep")
  case True
  then show ?thesis using assms
    by (auto simp: alloc_def createMemNode_def Let_def insert_after_keeps)
next
  case False
  let ?k = "align_up sz (if al = 0 then mAlign s else al)"
  obtain c' fl where p: "pickFree (\<lambda>c. nsize (mem s c)) ?k (mFreeList s) = (c', fl)" by force
  then have "c' \<in> set (mFreeList s)"
    using False pickFree_in [of "mFreeList s" "\<lambda>c. nsize (mem s c)" ?k] by simp
  then show ?thesis using assms False p
    by (auto simp: alloc_def Let_def split_chunk_keeps simp del: if_split)
qed

lemma alloc_size: "nsize (mem (snd (alloc sz sep al s)) (fst (alloc sz sep al s))) =
    align_up sz (if al = 0 then mAlign s else al)"
  by (simp add: alloc_def createMemNode_def Let_def insert_after_keeps newMemNode_def split: prod.split)

lemma barrierEnd_keeps:
  assumes "\<not> mBarrrier s" "rel s L" "distinct (map the cs)" "set (map the cs) \<subseteq> used s L"
    "None \<notin> set cs" "x \<in> used s L" "x \<notin> set (map the cs)"
  shows "nsize (mem (fold (\<lambda>c t. snd (free c t)) cs s) x) = nsize (mem s x)"
  using assms
proof (induction cs arbitrary: s L)
  case (Cons oc cs)
  then obtain c where c: "oc = Some c" by (cases oc) auto
  obtain L1 where 1: "free_post s L {c} (free_node c s) L1"
    using free_node_sim [of s L c] Cons.prems c by auto
  have "snd (free oc s) = free_node c s" using c Cons.prems(1) by (simp add: free_def)
  moreover have "nsize (mem (free_node c s) x) = nsize (mem s x)"
    using Cons.prems c by (intro free_node_keeps) (auto simp: used_def)
  moreover have "nsize (mem (fold (\<lambda>c t. snd (free c t)) cs (free_node c s)) x) =
      nsize (mem (free_node c s) x)"
    using 1 Cons.prems c
    by (intro Cons.IH [of _ L1]) (auto simp: free_post_def same_plan_def)
  ultimately show ?case by simp
qed simp

lemma used_chunk:
  assumes "dinv s H L" "x \<in> set H"
  shows "usage (mem s x)" "x \<in> lblocks L" "x < length (mChunks s)" "x \<notin> set (mFreeList s)"
    "lextent L x = nsize (mem s x)"
proof -
  show u: "usage (mem s x)" "x \<in> lblocks L" using assms by (auto simp: dinv_def used_def)
  obtain us k ms vs where L: "L = us @ (k, ms) # vs" "head_of (k, ms) = x"
    using lblocks_split [OF u(2)] by blast
  have r: "rel0 s L" "flist s (frees s L)" using assms by (auto simp: dinv_def rel_def)
  have g: "lgood L" using r by (simp add: rel0_def)
  have "x \<in> set (ids L)" using head_in_ids [OF g, of "(k, ms)"] L by simp
  then have "x \<in> set (mChunks s)" using r(1) by (simp add: rel0_def)
  moreover have "mChunks s = [0..<length (mChunks s)]" using r(1) by (simp add: rel0_def)
  ultimately show "x < length (mChunks s)" by (metis atLeastLessThan_iff set_upt)
  show "x \<notin> set (mFreeList s)" using r(2) u by (auto simp: flist_def frees_def)
  show "lextent L x = nsize (mem s x)"
    using lextent_split [of us k ms vs] g rel0_okb [OF r(1), of "(k, ms)"] L by (simp add: okb_def)
qed

text \<open>A chunk keeps its size for as long as a client holds it.\<close>

lemma dstep_keeps:
  assumes "dstep (s, H) k (s', H')" "dinv s H L" "x \<in> set H" "x \<in> set H'"
  shows "nsize (mem s' x) = nsize (mem s x)"
  using assms(1)
proof cases
  case (alloc sz sep al c)
  then show ?thesis using alloc_keeps [OF alloc(3)] used_chunk [OF assms(2,3)] by fastforce
next
  case (free c)
  have "x \<noteq> c" using assms free by (auto simp: dinv_def)
  then show ?thesis using free free_node_keeps used_chunk(1) [OF assms(2,3)]
    by (auto simp: free_def)
next
  case barrierEnd
  let ?s0 = "s\<lparr>mBarrrier := False\<rparr>"
  have "rel ?s0 L" "used ?s0 L = used s L"
    using assms(2) rel_cong [of s L ?s0] by (auto simp: dinv_def)
  then have "nsize (mem (fold (\<lambda>c t. snd (free c t)) (mBarrrierFreeChunks s) ?s0) x) =
      nsize (mem ?s0 x)"
    using assms(2,3) by (intro barrierEnd_keeps) (auto simp: dinv_def pending_def)
  then show ?thesis using barrierEnd by (simp add: barrierEnd_def)
qed (auto simp: barrierBegin_def attach_def)

section \<open>Computing a finished plan\<close>

text \<open>
  Once nothing is held any more, fusing has left a single block, whose members are all the
  chunks of the plan.
\<close>

lemma sp_all_free: "sp u xs \<Longrightarrow> (\<And>x. x \<in> set xs \<Longrightarrow> \<not> u x) \<Longrightarrow> length xs \<le> 1"
  by (cases xs; cases "tl xs") auto

lemma finished_single:
  assumes "dinv s [] L" "\<not> mBarrrier s" "sparse s L" "mChunks s \<noteq> []"
  obtains k ms where "L = [(k, ms)]"
proof -
  have "used s L = {}" using assms by (simp add: dinv_def pending_def)
  then have "length (heads L) \<le> 1"
    using assms(3) unfolding sparse_def by (intro sp_all_free) (auto simp: used_def lblocks_def)
  moreover have "L \<noteq> []" using assms(1,4) by (auto simp: dinv_def rel_def rel0_def)
  ultimately show ?thesis using that by (cases L; cases "tl L") auto
qed

definition plan_post :: "Defer \<Rightarrow> layout \<Rightarrow> Defer \<Rightarrow> bool" where
  "plan_post s L t \<longleftrightarrow> (\<forall>(y, p) \<in> set (places 0 L). noffset (mem t y) = p) \<and>
     mTotalSize t = ltotal L \<and> mChunks t = mChunks s \<and> mFreeList t = mFreeList s \<and>
     mPtr_first t = mPtr_first s \<and> mPtr_second t = mPtr_second s \<and> mAlign t = mAlign s \<and>
     (\<forall>x. tensors (mem t x) = tensors (mem s x)) \<and> (\<forall>x. nsize (mem t x) = nsize (mem s x))"

lemma compute_loop_ok:
  assumes inv: "dinv s [] L" "\<not> mBarrrier s" and L: "L = [(k, ms)]"
  shows "\<exists>t. compute_loop (Suc (length (mChunks s))) (mHead s) s = Some t \<and> plan_post s L t"
proof -
  let ?x = "head_of (k, ms)"
  have r: "rel0 s L" and z: "mTotalSize s = 0" using inv by (simp_all add: dinv_def rel_def)
  have o: "nsize (mem s ?x) = k" "tree (mem s) ?x ms" and d: "distinct (map fst ms)"
    and h: "mHead s = Some ?x" "nright (mem s ?x) = None"
    using rel0_okb [OF r, of "(k, ms)"] r L by (auto simp: okb_def rel0_def linked_def)
  let ?m = "(mem s)(?x := (mem s ?x)\<lparr>noffset := 0\<rparr>)"
  have x: "ms \<noteq> []" "hd ms = (?x, 0)" "?x \<notin> fst ` set (tl ms)"
    using tree_hd [OF o(2)] d by (auto simp: neq_Nil_conv image_iff) fastforce
  have t: "tree ?m ?x ms" by (rule tree_frame(1) [OF o(2)]) (use x(3) in \<open>auto simp: image_iff\<close>)
  have n: "length ms = length (mChunks s)"
  proof -
    have "mChunks s = [0..<length (mChunks s)]" "set (map fst ms) = set (mChunks s)"
      using r L by (simp_all add: rel0_def)
    then show ?thesis using d by (metis distinct_card distinct_upt length_map)
  qed
  from visit_ok [OF t d, of "length (mChunks s)"] n
  obtain m' where m': "visiChildren (length (mChunks s)) ?x ?m = Some m'"
    "placed ?m m' (fst ` set (tl ms))" "\<forall>(y, p) \<in> set ms. noffset (m' y) = p"
    by auto
  have e: "nright (m' ?x) = None" "nsize (m' ?x) = k"
    using placed_fields(2,3) [OF m'(2), of ?x] h o by simp_all
  have "length (mChunks s) = Suc (length (mChunks s) - 1)" using n x(1) by (cases ms) auto
  then obtain f where f: "length (mChunks s) = Suc f" by blast
  let ?t = "(set_mem ?x (noffset_update (\<lambda>_. 0)) s)\<lparr>mem := m', mTotalSize := k\<rparr>"
  have "compute_loop (Suc (length (mChunks s))) (mHead s) s = Some ?t"
    unfolding f using m'(1) e z h by (simp add: f Let_def)
  moreover have "plan_post s L ?t"
    using m'(3) placed_fields(2,4) [OF m'(2)] by (auto simp: plan_post_def L)
  ultimately show ?thesis by blast
qed

text \<open>Handing out the addresses changes no offset; a tensor of one chunk gets that chunk's address.\<close>

lemma realloc_code:
  "realloc onAlloc n al b = (code, b') \<Longrightarrow> code = NO_ERROR \<or> code = OUT_OF_MEMORY"
  by (auto simp: realloc_def Let_def split: if_splits prod.splits)

lemma apply_buffer_cases:
  assumes "apply_buffer onAlloc s b hosts = (code, t, b', hosts')"
  shows "(code = NO_ERROR \<or> code = OUT_OF_MEMORY) \<and> (t = s \<or> t = rebase s b')"
proof (cases "mFreeList s = []")
  case False
  obtain c r where r: "(if currentSize b < mTotalSize s
    then realloc onAlloc (mTotalSize s) (mAlign s) b else (NO_ERROR, b)) = (c, r)" by force
  then have "c = NO_ERROR \<or> c = OUT_OF_MEMORY" by (auto split: if_splits dest: realloc_code)
  then show ?thesis using assms False unfolding apply_buffer_def r Let_def
    by (auto split: if_splits)
qed (use assms in \<open>simp add: apply_buffer_def\<close>)

lemma rebase_keeps [simp]:
  "noffset (mem (rebase s b) x) = noffset (mem s x)" "mTotalSize (rebase s b) = mTotalSize s"
  "mChunks (rebase s b) = mChunks s" "tensors (mem (rebase s b) x) = tensors (mem s x)"
  "nsize (mem (rebase s b) x) = nsize (mem s x)"
  by (simp_all add: rebase_def)

lemma apply_buffer_keeps:
  assumes "apply_buffer onAlloc s b hosts = (code, t, b', hosts')"
  shows "code = NO_ERROR \<or> code = OUT_OF_MEMORY" "noffset (mem t x) = noffset (mem s x)"
    "mTotalSize t = mTotalSize s" "mChunks t = mChunks s" "tensors (mem t x) = tensors (mem s x)"
    "nsize (mem t x) = nsize (mem s x)"
  using apply_buffer_cases [OF assms] by auto

lemma fold_chunk_host:
  "fold (CPUMemChunkApplyToTensor b d) ts h x = (if x \<in> set ts then b + d else h x)"
  by (induction ts arbitrary: h) (auto simp: CPUMemChunkApplyToTensor_def)

lemma fold_apply_host:
  "c \<in> set cs \<Longrightarrow> x \<in> set (tensors (mem s c)) \<Longrightarrow>
   (\<And>d. d \<in> set cs \<Longrightarrow> x \<in> set (tensors (mem s d)) \<Longrightarrow> d = c) \<Longrightarrow>
   fold (apply_chunk s) cs h x = mPtr_first s + (noffset (mem s c) + mPtr_second s)"
proof (induction cs rule: rev_induct)
  case (snoc d cs)
  have a: "fold (apply_chunk s) (cs @ [d]) h x =
    (if x \<in> set (tensors (mem s d)) then mPtr_first s + (noffset (mem s d) + mPtr_second s)
     else fold (apply_chunk s) cs h x)"
    by (simp add: apply_chunk_def fold_chunk_host)
  show ?case
  proof (cases "x \<in> set (tensors (mem s d))")
    case True
    then have "d = c" using snoc.prems(3) [of d] by simp
    then show ?thesis using a True by simp
  next
    case False
    then have "c \<in> set cs" using snoc.prems(1,2) by auto
    then have "fold (apply_chunk s) cs h x = mPtr_first s + (noffset (mem s c) + mPtr_second s)"
      using snoc.prems(2) by (rule snoc.IH) (rule snoc.prems(3), simp_all)
    then show ?thesis using a False by simp
  qed
qed simp

lemma apply_buffer_hosts:
  assumes "apply_buffer onAlloc s b hosts = (NO_ERROR, t, b', hosts')" "mFreeList s \<noteq> []"
    "currentSize b < mTotalSize s" "c \<in> set (mChunks s)" "x \<in> set (tensors (mem s c))"
    "\<And>d. d \<in> set (mChunks s) \<Longrightarrow> x \<in> set (tensors (mem s d)) \<Longrightarrow> d = c"
  shows "hosts' x = current_first b' + current_second b' + noffset (mem t c) \<and>
    current_first b' \<noteq> 0 \<and> currentSize b' = mTotalSize t"
proof -
  obtain f g where a: "onAlloc (mTotalSize s) (mAlign s) = (f, g)" by force
  have f: "f \<noteq> 0"
  proof
    assume "f = 0"
    then show False using assms(1-3) by (simp add: apply_buffer_def realloc_def a Let_def)
  qed
  have e: "t = rebase s b'" "hosts' = fold (apply_chunk t) (mChunks s) hosts"
    "current_first b' = f" "current_second b' = g" "currentSize b' = mTotalSize s"
    using assms(1-3) f by (auto simp: apply_buffer_def realloc_def a Let_def)
  have "hosts' x = mPtr_first t + (noffset (mem t c) + mPtr_second t)"
    unfolding e(2)
  proof (rule fold_apply_host)
    show "x \<in> set (tensors (mem t c))" using assms(5) e(1) by simp
    show "d = c" if "d \<in> set (mChunks s)" "x \<in> set (tensors (mem t d))" for d
      using assms(6) [of d] that e(1) by simp
  qed (rule assms(4))
  moreover have "mPtr_first t = f" "mPtr_second t = g" "mTotalSize t = mTotalSize s"
    using e by (simp_all add: rebase_def)
  ultimately show ?thesis using e f by simp
qed

lemma compute_ok:
  assumes "dinv s [] L" "\<not> mBarrrier s" "sparse s L" "mChunks s \<noteq> []"
  shows "\<exists>t. plan_post s L t \<and> mFreeList t \<noteq> [] \<and>
           compute onAlloc s b hosts = Some (apply_buffer onAlloc t b hosts)"
proof -
  obtain k ms where L: "L = [(k, ms)]" using finished_single [OF assms] .
  have r: "rel s L" "used s L = {}" and z: "mTotalSize s = 0"
    using assms by (auto simp: dinv_def pending_def)
  have "set (mFreeList s) = {head_of (k, ms)}" "distinct (mFreeList s)"
    using r by (auto simp: rel_def flist_def frees_def used_def L)
  then have f: "mFreeList s = [head_of (k, ms)]"
    by (metis distinct_singleton distinct_card One_nat_def card.empty card.insert empty_iff
        finite.emptyI length_0_conv length_Suc_conv list.set(1) set_ConsD singletonI)
  have h: "mHead s = mTail s" using r by (simp add: rel_def rel0_def linked_def L last_of_def)
  obtain t where t: "compute_loop (Suc (length (mChunks s))) (mHead s) s = Some t" "plan_post s L t"
    using compute_loop_ok [OF assms(1,2) L] by blast
  have "s\<lparr>mTotalSize := 0\<rparr> = s" using z by simp
  then have "compute onAlloc s b hosts = Some (apply_buffer onAlloc t b hosts)"
    using t(1) z f h by (simp only: compute_def Let_def) simp
  then show ?thesis using t(2) f by (auto simp: plan_post_def)
qed

section \<open>The contract\<close>

text \<open>The layouts behind a state \<open>s\<close> met during a run and its end \<open>t\<close>.\<close>

lemma finished_layouts:
  assumes "drun (initDefer al, []) ks (s, H)" "drun (s, H) ks' (t, [])" "\<not> mBarrrier t"
  obtains L M where "dinv s H L" "lstep\<^sup>*\<^sup>* L M" "dinv t [] M" "sparse t M"
    "ltotal M \<le> sum_list ks + sum_list ks'"
    "\<And>d. (\<forall>k \<in> set (ks @ ks'). d dvd k) \<Longrightarrow> lalign d M"
proof -
  obtain L where 1: "run_post (initDefer al) [] ks s H L"
    using drun_sim [OF assms(1)] dinv_init by auto
  then have "dinv s H L" by (simp add: run_post_def)
  then obtain M where 2: "run_post s L ks' t [] M"
    using drun_sim [OF assms(2), of L] by auto
  have "sparse (initDefer al) []" by (simp add: sparse_def)
  then show ?thesis using 1 2 that [of L M] by (auto simp: run_post_def ball_Un)
qed

lemma plan_post_place:
  assumes "plan_post s M t" "lplace M x = Some p"
  shows "noffset (mem t x) = p"
  using assms map_of_SomeD by (fastforce simp: plan_post_def lplace_def)

lemma finished_compute:
  assumes "dinv t [] M" "\<not> mBarrrier t" "sparse t M" "mChunks t \<noteq> []"
  obtains code t' b' hosts' where "compute onAlloc t b hosts = Some (code, t', b', hosts')"
    "code = NO_ERROR \<or> code = OUT_OF_MEMORY" "mTotalSize t' = ltotal M"
    "\<And>x p. lplace M x = Some p \<Longrightarrow> noffset (mem t' x) = p"
proof -
  obtain u where u: "plan_post t M u" "compute onAlloc t b hosts = Some (apply_buffer onAlloc u b hosts)"
    using compute_ok [OF assms] by blast
  obtain code t' b' hosts' where a: "apply_buffer onAlloc u b hosts = (code, t', b', hosts')"
    by (cases "apply_buffer onAlloc u b hosts")
  show ?thesis
    using that [of code t' b' hosts'] apply_buffer_keeps [OF a] u plan_post_place [OF u(1)]
    by (simp add: a plan_post_def)
qed

lemma finished_nonempty:
  assumes "dinv s H L" "lstep\<^sup>*\<^sup>* L M" "dinv t [] M" "x \<in> set H"
  shows "mChunks t \<noteq> []"
proof -
  have "x \<in> lblocks L" "lgood L" using used_chunk [OF assms(1,4)] assms(1)
    by (auto simp: dinv_def rel_def rel0_def)
  from layout.run_inside [OF assms(2) this(2,1)] have "ids M \<noteq> []"
    by (metis (no_types) lplace_def map_fst_places list.map_disc_iff map_of.simps(1) option.distinct(1))
  then show ?thesis using assms(3) by (auto simp: dinv_def rel_def rel0_def)
qed

text \<open>
  A concrete client: two chunks of 10 and 20 bytes, the second freed, a third of 40 bytes kept
  apart from the free one, then both released inside a barrier.
\<close>

definition w_begin :: "event list" where
  "w_begin = [EAlloc 10 False 0, EAlloc 20 False 0, EAttach 0 7, EFree 1, EAlloc 40 True 0]"

definition w_end :: "event list" where
  "w_end = [EBegin, EFree 0, EFree 2, EEnd]"

lemmas run_simps = alloc_def createMemNode_def insert_after_def insertFree_def eraseFree_def
  pickFree_def split_chunk_def free_def free_node_def fuse_to_left_def erase_node_def
  barrierBegin_def barrierEnd_def attach_def initDefer_def newMemNode_def align_up_def UP_DIV_sz_def
  Let_def

definition w_buffer :: SingleBuffer where
  "w_buffer = \<lparr>current_first = 0, current_second = 0, currentSize = 0, rootReleased = []\<rparr>"

lemma w_run: "\<exists>s t. drun (initDefer 16, []) [16, 32, 0, 0, 48] (s, [2, 0]) \<and> nsize (mem s 0) = 16 \<and>
    nsize (mem s 2) = 48 \<and> drun (s, [2, 0]) [0, 0, 0, 0] (t, []) \<and> \<not> mBarrrier t"
proof -
  have "\<exists>s t. dexec w_begin (initDefer 16, []) = Some ([16, 32, 0, 0, 48], s, [2, 0]) \<and>
    nsize (mem s 0) = 16 \<and> nsize (mem s 2) = 48 \<and>
    dexec w_end (s, [2, 0]) = Some ([0, 0, 0, 0], t, []) \<and> \<not> mBarrrier t"
    unfolding w_begin_def w_end_def by (simp add: run_simps)
  then show ?thesis using dexec_drun by blast
qed

text \<open>
  C1. The memory plan is safe. Take two chunks a client holds at the same moment of any run of the
  allocator that ends with everything released. Then \<^verbatim>\<open>compute\<close> finishes without
  \<^verbatim>\<open>INVALID_VALUE\<close>, and the byte ranges it assigns to the two chunks, for the sizes they had at
  that moment, do not overlap and lie inside the planned buffer.
\<close>

theorem plan_disjoint:
  assumes "drun (initDefer al, []) ks (s, H)" "x \<in> set H" "y \<in> set H" "x \<noteq> y"
    "drun (s, H) ks' (t, [])" "\<not> mBarrrier t"
  shows "\<exists>code t' b' hosts'. compute onAlloc t b hosts = Some (code, t', b', hosts') \<and>
    code \<noteq> INVALID_VALUE \<and>
    (noffset (mem t' x) + nsize (mem s x) \<le> noffset (mem t' y) \<or>
     noffset (mem t' y) + nsize (mem s y) \<le> noffset (mem t' x)) \<and>
    noffset (mem t' x) + nsize (mem s x) \<le> mTotalSize t' \<and>
    noffset (mem t' y) + nsize (mem s y) \<le> mTotalSize t'"
proof -
  obtain L M where L: "dinv s H L" "lstep\<^sup>*\<^sup>* L M" "dinv t [] M" "sparse t M"
    by (rule finished_layouts [OF assms(1,5,6)])
  have g: "lgood L" using L(1) by (simp add: dinv_def rel_def rel0_def)
  note x = used_chunk(2,5) [OF L(1) assms(2)] and y = used_chunk(2,5) [OF L(1) assms(3)]
  obtain code t' b' hosts' where c: "compute onAlloc t b hosts = Some (code, t', b', hosts')"
    "code = NO_ERROR \<or> code = OUT_OF_MEMORY" "mTotalSize t' = ltotal M"
    and p: "\<And>x p. lplace M x = Some p \<Longrightarrow> noffset (mem t' x) = p"
    by (rule finished_compute [OF L(3) assms(6) L(4) finished_nonempty [OF L(1-3) assms(2)],
          of onAlloc b hosts]) (rule that)
  have "noffset (mem t' x) + nsize (mem s x) \<le> noffset (mem t' y) \<or>
      noffset (mem t' y) + nsize (mem s y) \<le> noffset (mem t' x)"
    using layout.run_disjoint [OF L(2) g x(1) y(1) assms(4)] p x(2) y(2) by auto
  moreover have "noffset (mem t' x) + nsize (mem s x) \<le> mTotalSize t'"
    using layout.run_inside [OF L(2) g x(1)] p x(2) c(3) by auto
  moreover have "noffset (mem t' y) + nsize (mem s y) \<le> mTotalSize t'"
    using layout.run_inside [OF L(2) g y(1)] p y(2) c(3) by auto
  ultimately show ?thesis using c(1,2) by auto
qed

theorem plan_disjoint_witness:
  "\<exists>s t. drun (initDefer 16, []) [16, 32, 0, 0, 48] (s, [2, 0]) \<and>
    drun (s, [2, 0]) [0, 0, 0, 0] (t, []) \<and>
    (\<exists>code t' b' hosts'. compute (\<lambda>n al. (4096, 0)) t w_buffer (\<lambda>_. 0) = Some (code, t', b', hosts') \<and>
      (noffset (mem t' 0) + 16 \<le> noffset (mem t' 2) \<or> noffset (mem t' 2) + 48 \<le> noffset (mem t' 0)) \<and>
      noffset (mem t' 0) + 16 \<le> mTotalSize t' \<and> noffset (mem t' 2) + 48 \<le> mTotalSize t')"
proof -
  obtain s t where w: "drun (initDefer 16, []) [16, 32, 0, 0, 48] (s, [2, 0])" "nsize (mem s 0) = 16"
    "nsize (mem s 2) = 48" "drun (s, [2, 0]) [0, 0, 0, 0] (t, [])" "\<not> mBarrrier t"
    using w_run by blast
  have "0 \<in> set [2, 0 :: nat]" "2 \<in> set [2, 0 :: nat]" "(0 :: nat) \<noteq> 2" by simp_all
  from plan_disjoint [OF w(1) this w(4,5), of "\<lambda>n al. (4096, 0)" w_buffer "\<lambda>_. 0"] w
  show ?thesis by metis
qed

text \<open>
  C2. A finished plan is always computed: when every chunk has been released and no barrier is open,
  \<^verbatim>\<open>compute\<close> terminates, reports \<^verbatim>\<open>NO_ERROR\<close> whenever the backing allocation does not fail,
  and asks for no more bytes than the sum of all rounded requests (so no \<^verbatim>\<open>size_t\<close> overflows
  unless that sum does).
\<close>

theorem plan_computed:
  assumes "drun (initDefer al, []) ks (t, [])" "\<not> mBarrrier t"
  shows "\<exists>code t' b' hosts'. compute onAlloc t b hosts = Some (code, t', b', hosts') \<and>
    mTotalSize t' \<le> sum_list ks \<and>
    (code = NO_ERROR \<or> code = OUT_OF_MEMORY \<and> fst (onAlloc (mTotalSize t') al) = 0)"
proof (cases "mChunks t = []")
  case True
  obtain L where "run_post (initDefer al) [] ks t [] L" using drun_sim [OF assms(1)] dinv_init by auto
  then have "rel t L" "mTotalSize t = 0" by (auto simp: run_post_def dinv_def)
  moreover have "L = []"
    using True calculation(1) head_in_ids [of L] by (cases L) (auto simp: rel_def rel0_def)
  ultimately have "mFreeList t = []" "mTotalSize t = 0"
    by (auto simp: rel_def flist_def frees_def)
  then show ?thesis by (simp add: compute_def)
next
  case False
  obtain L M where M: "dinv t [] M" "sparse t M" "ltotal M \<le> sum_list ks + sum_list []"
    by (rule finished_layouts [OF assms(1) drun.refl assms(2)])
  have a: "mAlign t = al"
    using drun_sim [OF assms(1)] dinv_init by (auto simp: run_post_def initDefer_def)
  obtain u where u: "plan_post t M u" "mFreeList u \<noteq> []"
    "compute onAlloc t b hosts = Some (apply_buffer onAlloc u b hosts)"
    using compute_ok [OF M(1) assms(2) M(2) False] by blast
  obtain code t' b' hosts' where r: "apply_buffer onAlloc u b hosts = (code, t', b', hosts')"
    by (cases "apply_buffer onAlloc u b hosts")
  have "code = NO_ERROR \<or> code = OUT_OF_MEMORY \<and> fst (onAlloc (mTotalSize u) al) = 0"
    using r u(1) a by (auto simp: apply_buffer_def realloc_def plan_post_def Let_def
        split: if_splits prod.splits)
  then show ?thesis using u M(3) r apply_buffer_keeps(3) [OF r] by (auto simp: plan_post_def)
qed

theorem plan_computed_witness:
  "\<exists>t. drun (initDefer 16, []) [16, 0] (t, []) \<and>
    (\<exists>code t' b' hosts'. compute (\<lambda>n al. (4096, 0)) t w_buffer (\<lambda>_. 0) = Some (code, t', b', hosts') \<and>
      mTotalSize t' \<le> 16 \<and> code = NO_ERROR)"
proof -
  have "\<exists>t. dexec [EAlloc 10 False 0, EFree 0] (initDefer 16, []) = Some ([16, 0], t, []) \<and> \<not> mBarrrier t"
    by (simp add: run_simps)
  then obtain t where w: "drun (initDefer 16, []) [16, 0] (t, [])" "\<not> mBarrrier t"
    using dexec_drun by blast
  from plan_computed [OF this, of "\<lambda>n al. (4096, 0)" w_buffer "\<lambda>_. 0"] w show ?thesis by auto
qed

text \<open>
  C10. Alignment of the plan: if \<open>d\<close> divides every rounded request (for instance the allocator's
  alignment, when no request overrides it), then it divides the offset of every chunk and the size
  of the buffer.
\<close>

theorem plan_aligned:
  assumes "drun (initDefer al, []) ks (t, [])" "\<not> mBarrrier t" "\<forall>k \<in> set ks. d dvd k"
    "x \<in> set (mChunks t)"
  shows "\<exists>code t' b' hosts'. compute onAlloc t b hosts = Some (code, t', b', hosts') \<and>
    d dvd noffset (mem t' x) \<and> d dvd mTotalSize t'"
proof -
  obtain L M where M: "dinv t [] M" "sparse t M"
    "\<And>d. (\<forall>k \<in> set (ks @ []). d dvd k) \<Longrightarrow> lalign d M"
    by (rule finished_layouts [OF assms(1) drun.refl assms(2)]) (rule that)
  have ne: "mChunks t \<noteq> []" using assms(4) by auto
  obtain code t' b' hosts' where c: "compute onAlloc t b hosts = Some (code, t', b', hosts')"
    "mTotalSize t' = ltotal M" and p: "\<And>x p. lplace M x = Some p \<Longrightarrow> noffset (mem t' x) = p"
    by (rule finished_compute [OF M(1) assms(2) M(2) ne, of onAlloc b hosts]) (rule that)
  obtain k ms where S: "M = [(k, ms)]" using finished_single [OF M(1) assms(2) M(2) ne] .
  have "lalign d M" using M(3) assms(3) by simp
  moreover have "x \<in> fst ` set ms" using M(1) assms(4) S by (auto simp: dinv_def rel_def rel0_def)
  then obtain q where "(x, q) \<in> set ms" by force
  moreover have "distinct (map fst ms)" using M(1) S by (simp add: dinv_def rel_def rel0_def)
  ultimately have "lplace M x = Some q" "d dvd q" "d dvd ltotal M" by (auto simp: S lplace_def)
  then show ?thesis using c p by auto
qed

theorem plan_aligned_witness:
  "\<exists>t. drun (initDefer 16, []) [16, 32, 0, 0] (t, []) \<and>
    (\<exists>code t' b' hosts'. compute (\<lambda>n al. (4096, 0)) t w_buffer (\<lambda>_. 0) = Some (code, t', b', hosts') \<and>
      16 dvd noffset (mem t' 1))"
proof -
  have "\<exists>t. dexec [EAlloc 10 False 0, EAlloc 20 False 0, EFree 1, EFree 0] (initDefer 16, []) =
      Some ([16, 32, 0, 0], t, []) \<and> \<not> mBarrrier t \<and> 1 \<in> set (mChunks t)"
    by (simp add: run_simps)
  then obtain t where w: "drun (initDefer 16, []) [16, 32, 0, 0] (t, [])" "\<not> mBarrrier t"
    "1 \<in> set (mChunks t)" using dexec_drun by blast
  have "\<forall>k \<in> set [16, 32, 0, 0 :: nat]. 16 dvd k" by simp
  from plan_aligned [OF w(1,2) this w(3), of "\<lambda>n al. (4096, 0)" w_buffer "\<lambda>_. 0"] w(1)
  show ?thesis by blast
qed

text \<open>
  C11. The tensors receive the planned addresses: when \<^verbatim>\<open>compute\<close> obtains a new buffer, a tensor
  attached to exactly one chunk points, afterwards, at the base of that (non-null, large enough)
  buffer plus the offset planned for the chunk.
\<close>

theorem plan_addresses:
  assumes "drun (initDefer al, []) ks (t, [])" "\<not> mBarrrier t" "c \<in> set (mChunks t)"
    "v \<in> set (tensors (mem t c))"
    "\<forall>d \<in> set (mChunks t). v \<in> set (tensors (mem t d)) \<longrightarrow> d = c"
    "compute onAlloc t b hosts = Some (NO_ERROR, t', b', hosts')" "currentSize b < mTotalSize t'"
  shows "hosts' v = current_first b' + current_second b' + noffset (mem t' c) \<and>
    current_first b' \<noteq> 0 \<and> currentSize b' = mTotalSize t'"
proof -
  obtain L M where M: "dinv t [] M" "sparse t M"
    by (rule finished_layouts [OF assms(1) drun.refl assms(2)])
  obtain u where u: "plan_post t M u" "mFreeList u \<noteq> []"
    "compute onAlloc t b hosts = Some (apply_buffer onAlloc u b hosts)"
    using compute_ok [OF M(1) assms(2) M(2)] assms(3) by fastforce
  then have r: "apply_buffer onAlloc u b hosts = (NO_ERROR, t', b', hosts')" using assms(6) by simp
  show ?thesis
  proof (rule apply_buffer_hosts [OF r u(2)])
    show "currentSize b < mTotalSize u" using assms(7) apply_buffer_keeps(3) [OF r] by simp
    show "c \<in> set (mChunks u)" "v \<in> set (tensors (mem u c))"
      using u(1) assms(3,4) by (simp_all add: plan_post_def)
    show "d = c" if "d \<in> set (mChunks u)" "v \<in> set (tensors (mem u d))" for d
      using assms(5) that u(1) by (auto simp: plan_post_def)
  qed
qed

theorem plan_addresses_witness:
  "\<exists>t t' b' hosts'. drun (initDefer 16, []) [16, 32, 0, 0, 0] (t, []) \<and>
    compute (\<lambda>n al. (4096, 64)) t w_buffer (\<lambda>_. 0) = Some (NO_ERROR, t', b', hosts') \<and>
    hosts' 7 = current_first b' + current_second b' + noffset (mem t' 1) \<and> current_first b' \<noteq> 0"
proof -
  have "\<exists>t t' b' hosts'. dexec [EAlloc 10 False 0, EAlloc 20 False 0, EAttach 1 7, EFree 1, EFree 0]
      (initDefer 16, []) = Some ([16, 32, 0, 0, 0], t, []) \<and> \<not> mBarrrier t \<and> mChunks t = [0, 1] \<and>
      tensors (mem t 1) = [7] \<and> tensors (mem t 0) = [] \<and>
      compute (\<lambda>n al. (4096, 64)) t w_buffer (\<lambda>_. 0) = Some (NO_ERROR, t', b', hosts') \<and>
      currentSize w_buffer < mTotalSize t'"
    by (simp add: run_simps compute_def apply_buffer_def realloc_def w_buffer_def rebase_def)
  then obtain t t' b' hosts' where w: "drun (initDefer 16, []) [16, 32, 0, 0, 0] (t, [])" "\<not> mBarrrier t"
    "mChunks t = [0, 1]" "tensors (mem t 1) = [7]" "tensors (mem t 0) = []"
    "compute (\<lambda>n al. (4096, 64)) t w_buffer (\<lambda>_. 0) = Some (NO_ERROR, t', b', hosts')"
    "currentSize w_buffer < mTotalSize t'"
    using dexec_drun by blast
  have "1 \<in> set (mChunks t)" "7 \<in> set (tensors (mem t 1))"
    "\<forall>d \<in> set (mChunks t). 7 \<in> set (tensors (mem t d)) \<longrightarrow> d = 1" using w by simp_all
  from plan_addresses [OF w(1,2) this w(6,7)] w(1,6) show ?thesis by blast
qed

text \<open>
  C12. Sizes: in every reachable state, a step of a client leaves the size of each chunk it goes on
  holding unchanged, and a chunk it newly holds has exactly the rounded size requested by the step.
  So the sizes in the plan above are the sizes the client asked for.
\<close>

theorem held_size:
  assumes "drun (initDefer al, []) ks (s, H)" "dstep (s, H) k (s', H')" "x \<in> set H'"
  shows "nsize (mem s' x) = (if x \<in> set H then nsize (mem s x) else k)"
proof -
  obtain L where L: "dinv s H L"
    using drun_sim [OF assms(1), of "[]"] dinv_init by (auto simp: run_post_def)
  show ?thesis
  proof (cases "x \<in> set H")
    case True
    then show ?thesis using dstep_keeps [OF assms(2) L _ assms(3)] by simp
  next
    case False
    from assms(2) show ?thesis
    proof cases
      case (alloc sz sep al c)
      then show ?thesis using False assms(3) alloc_size [of sz sep al s] by simp
    qed (use False assms(3) in \<open>auto dest: notin_set_remove1\<close>)
  qed
qed

theorem held_size_witness:
  "\<exists>s s'. drun (initDefer 16, []) [16] (s, [0]) \<and> dstep (s, [0]) 32 (s', [1, 0]) \<and>
    nsize (mem s' 1) = 32 \<and> nsize (mem s' 0) = nsize (mem s 0)"
proof -
  have "\<exists>s s'. dexec [EAlloc 10 False 0] (initDefer 16, []) = Some ([16], s, [0]) \<and>
      dexec1 (EAlloc 20 False 0) (s, [0]) = Some (32, s', [1, 0])"
    by (simp add: run_simps)
  then obtain s s' where w: "drun (initDefer 16, []) [16] (s, [0])" "dstep (s, [0]) 32 (s', [1, 0])"
    using dexec_drun dexec1_dstep by blast
  then show ?thesis using held_size [OF w, of 1] held_size [OF w, of 0] by auto
qed

text \<open>
  C9. Refinement: every operation of the concrete planner (doubly linked list, sorted free list,
  trees of fused chunks, barrier) is a sequence of steps of the abstract layout, and keeps the
  invariant that ties the two together; the layout grows by at most the bytes requested.
\<close>

theorem planner_refines:
  assumes "dstep (s, H) k (s', H')" "dinv s H L"
  shows "\<exists>L'. lstep\<^sup>*\<^sup>* L L' \<and> dinv s' H' L' \<and> ltotal L' \<le> ltotal L + k"
  using dstep_sim [OF assms] by (auto simp: step_post_def)

theorem planner_refines_witness:
  "\<exists>s L'. dstep (initDefer 16, []) 16 (s, [0]) \<and> lstep\<^sup>*\<^sup>* [] L' \<and> dinv s [0] L' \<and> ltotal L' \<le> 16"
proof -
  have "\<exists>s. dexec1 (EAlloc 10 False 0) (initDefer 16, []) = Some (16, s, [0])"
    by (simp add: run_simps)
  then obtain s where w: "dstep (initDefer 16, []) 16 (s, [0])" using dexec1_dstep by blast
  from planner_refines [OF this dinv_init] w show ?thesis by auto
qed

text \<open>
  C36. A failed allocation is forgotten: when \<^verbatim>\<open>root->onAlloc\<close> returns null, \<^verbatim>\<open>realloc\<close> reports
  \<^verbatim>\<open>OUT_OF_MEMORY\<close> but keeps \<^verbatim>\<open>currentSize\<close>, so the next request of at most that size is answered
  with \<^verbatim>\<open>NO_ERROR\<close> although the buffer pointer is null.
\<close>

theorem realloc_stale_size:
  assumes "currentSize b < n" "fst (onAlloc n al) = 0" "k \<le> currentSize b"
  shows "\<exists>b'. realloc onAlloc n al b = (OUT_OF_MEMORY, b') \<and>
    realloc onAlloc k al b' = (NO_ERROR, b') \<and> current_first b' = 0"
  using assms by (cases "onAlloc n al") (simp add: realloc_def Let_def)

theorem realloc_stale_size_witness:
  "\<exists>b'. realloc (\<lambda>n al. (if n > 100 then 0 else 4096, 0)) 200 16 (w_buffer\<lparr>currentSize := 64\<rparr>) =
      (OUT_OF_MEMORY, b') \<and>
    realloc (\<lambda>n al. (if n > 100 then 0 else 4096, 0)) 48 16 b' = (NO_ERROR, b') \<and> current_first b' = 0"
  by (rule realloc_stale_size) (simp_all add: w_buffer_def)

text \<open>
  The \<^verbatim>\<open>align\<close> argument of \<^verbatim>\<open>alloc\<close> rounds the size of the chunk but does not align its
  place: after a request with alignment 4, one with alignment 64 is placed at offset 4.
\<close>

theorem align_rounds_size_only:
  "\<exists>t code t' b' hosts'. dexec [EAlloc 4 False 4, EAlloc 64 False 64, EFree 1, EFree 0] (initDefer 64, []) =
      Some ([4, 64, 0, 0], t, []) \<and>
    compute (\<lambda>n al. (4096, 0)) t w_buffer (\<lambda>_. 0) = Some (code, t', b', hosts') \<and>
    noffset (mem t' 1) = 4 \<and> \<not> 64 dvd noffset (mem t' 1)"
  by (simp add: run_simps compute_def apply_buffer_def realloc_def w_buffer_def rebase_def)

end
