(* ===== verification/Pipeline_Memory.thy ===== *)
theory Pipeline_Memory
  imports Defer_Safety
begin

text \<open>
  Memory planning of a pipeline (\<^verbatim>\<open>source/core/Pipeline.cpp\<close>, \<^verbatim>\<open>_allocForTensor\<close> and what it calls;
  \<^verbatim>\<open>Backend::onAcquireBuffer\<close>; \<^verbatim>\<open>CPUBackend::allocBuffer\<close>): the uses of every tensor are counted, the
  commands are visited in order, each gets memory for its tensors, is resized, and gives back the
  tensors it read last; at the end all dynamic memory is returned and the plan is computed.

  A tensor is a number; its description is a record. The commands are those of one backend, the
  allocator behind it is reached through the interface \<^verbatim>\<open>BufferAllocator\<close>, so the operations take it
  as a record of functions. Two tensors do not share a description, nor a memory object.
\<close>

section \<open>Data\<close>

datatype TensorUsage = NORMAL | INPUT | OUTPUT | CONSTANT | TRAINABLE

datatype MemoryType = MEMORY_BACKEND | MEMORY_HOST | MEMORY_VIRTUAL | MEMORY_OUTSIDE

datatype StorageType = STATIC | DYNAMIC | DYNAMIC_SEPERATE | DYNAMIC_IN_EXECUTION

text \<open>A \<^verbatim>\<open>CPUMemObj\<close>: the size asked for, and the chunk when it comes from the dynamic allocator.\<close>

datatype CPUMemObj = StaticMem (memBytes: nat) | DynamicMem nat (memBytes: nat)

text \<open>\<open>tbytes\<close> is \<^verbatim>\<open>CPUBackend::getTensorSize\<close> of the tensor.\<close>

record Describe =
  tusage :: TensorUsage
  useCount :: int
  memoryType :: MemoryType
  tgroup :: int
  hasBackend :: bool
  isHandle :: bool
  tbytes :: nat
  tmem :: "CPUMemObj option"

record Command =
  workInputs :: "nat list"
  workOutputs :: "nat list"
  needAllocIO :: bool
  cgroup :: int

record OpCacheInfo =
  isConstant :: bool
  executeBuffer :: "Command list"

text \<open>The part of the \<^verbatim>\<open>BufferAllocator\<close> interface the backend uses; a chunk is a number.\<close>

record 's BufferAllocator =
  bAlloc :: "nat \<Rightarrow> bool \<Rightarrow> 's \<Rightarrow> nat \<times> 's"
  bAttach :: "nat \<Rightarrow> nat \<Rightarrow> 's \<Rightarrow> 's"
  bFree :: "nat \<Rightarrow> 's \<Rightarrow> 's"

record 's Planner =
  des :: "nat \<Rightarrow> Describe"
  dyn :: 's

abbreviation set_des :: "nat \<Rightarrow> (Describe \<Rightarrow> Describe) \<Rightarrow> 's Planner \<Rightarrow> 's Planner" where
  "set_des t f p \<equiv> p\<lparr>des := (des p)(t := f (des p t))\<rparr>"

text \<open>What a pipeline is configured with; \<open>staticAlloc\<close> is whether the static allocator can serve a request.\<close>

record PipelineConfig =
  index :: int
  allocInput :: bool
  outputStatic :: bool
  staticAlloc :: "nat \<Rightarrow> bool"

section \<open>Memory of one tensor\<close>

definition getTensorStorageType :: "Describe \<Rightarrow> bool \<Rightarrow> StorageType" where
  "getTensorStorageType d isStatic =
     (if tusage d = OUTPUT \<and> isStatic then STATIC
      else if tusage d = CONSTANT \<or> tusage d = INPUT \<or> tusage d = TRAINABLE then DYNAMIC_SEPERATE
      else DYNAMIC)"

definition needRelease :: "Describe \<Rightarrow> bool \<Rightarrow> bool" where
  "needRelease d inputOutside =
     (if useCount d \<noteq> 0 then False
      else if memoryType d = MEMORY_HOST \<or> memoryType d = MEMORY_OUTSIDE then False
      else if \<not> hasBackend d then False
      else if inputOutside then tusage d = NORMAL
      else if isHandle d then False
      else if tusage d = CONSTANT \<or> tusage d = TRAINABLE \<or> tusage d = OUTPUT then False
      else True)"

text \<open>\<^verbatim>\<open>mem = nullptr\<close>: the destructor of the memory object returns its chunk.\<close>

definition clearMem :: "'s BufferAllocator \<Rightarrow> nat \<Rightarrow> 's Planner \<Rightarrow> 's Planner" where
  "clearMem A t p =
     (let q = set_des t (tmem_update (\<lambda>_. None)) p
      in case tmem (des p t) of
           Some (DynamicMem c k) \<Rightarrow> q\<lparr>dyn := bFree A c (dyn p)\<rparr>
         | _ \<Rightarrow> q)"

definition releaseTensor :: "'s BufferAllocator \<Rightarrow> PipelineConfig \<Rightarrow> nat \<Rightarrow> 's Planner \<Rightarrow> 's Planner" where
  "releaseTensor A cfg t p =
     (let p1 = (if tusage (des p t) \<noteq> CONSTANT then set_des t (useCount_update (\<lambda>n. n - 1)) p else p)
      in if tgroup (des p1 t) \<noteq> index cfg then p1
         else if needRelease (des p1 t) (\<not> allocInput cfg) then clearMem A t p1
         else p1)"

text \<open>
  \<^verbatim>\<open>mSize\<close> is a 32-bit \<^verbatim>\<open>int\<close>: \<^verbatim>\<open>getSize\<close> returns the size truncated, and the comparison with a
  \<^verbatim>\<open>size_t\<close> makes it a 64-bit number without a sign.
\<close>

definition memSize :: "CPUMemObj \<Rightarrow> nat" where
  "memSize m = (let k = memBytes m mod 2 ^ 32 in if k < 2 ^ 31 then k else 2 ^ 64 - (2 ^ 32 - k))"

definition allocBuffer ::
    "'s BufferAllocator \<Rightarrow> PipelineConfig \<Rightarrow> nat \<Rightarrow> nat \<Rightarrow> StorageType \<Rightarrow> 's Planner \<Rightarrow> CPUMemObj option \<times> 's Planner" where
  "allocBuffer A cfg sz dest storageType p =
     (let originMem = tmem (des p dest)
      in if (case originMem of Some m \<Rightarrow> memSize m \<ge> sz | None \<Rightarrow> False) then (originMem, p)
         else
           (let p1 = (if originMem \<noteq> None then clearMem A dest p else p)
            in if sz = 0 then (None, p1)
               else
                 (case storageType of
                    STATIC \<Rightarrow> if staticAlloc cfg sz then (Some (StaticMem sz), p1) else (None, p1)
                  | DYNAMIC \<Rightarrow>
                      (let (chunk, s) = bAlloc A sz False (dyn p1)
                       in (Some (DynamicMem chunk sz), p1\<lparr>dyn := bAttach A chunk dest s\<rparr>))
                  | DYNAMIC_SEPERATE \<Rightarrow>
                      (let (chunk, s) = bAlloc A sz True (dyn p1)
                       in (Some (DynamicMem chunk sz), p1\<lparr>dyn := bAttach A chunk dest s\<rparr>))
                  | DYNAMIC_IN_EXECUTION \<Rightarrow> (None, p1))))"

definition onAcquireBuffer ::
    "'s BufferAllocator \<Rightarrow> PipelineConfig \<Rightarrow> nat \<Rightarrow> StorageType \<Rightarrow> 's Planner \<Rightarrow> bool \<times> 's Planner" where
  "onAcquireBuffer A cfg t storageType p =
     (let (m, p1) = allocBuffer A cfg (tbytes (des p t)) t storageType p
      in case m of
           None \<Rightarrow> (False, p1)
         | Some x \<Rightarrow>
             if tmem (des p1 t) = Some x then (True, p1)
             else (True, set_des t (\<lambda>d. d\<lparr>tmem := Some x, hasBackend := True\<rparr>) p1))"

definition allocTensor :: "'s BufferAllocator \<Rightarrow> PipelineConfig \<Rightarrow> nat \<Rightarrow> 's Planner \<Rightarrow> bool \<times> 's Planner" where
  "allocTensor A cfg t p =
     (let storage = getTensorStorageType (des p t) (outputStatic cfg)
      in if tgroup (des p t) \<noteq> index cfg then (True, p)
         else if tmem (des p t) = None then onAcquireBuffer A cfg t storage p
         else (True, p))"

section \<open>The pipeline\<close>

text \<open>Reference counts: reset for every tensor read, then one for each reading.\<close>

definition resetCount :: "nat \<Rightarrow> 's Planner \<Rightarrow> 's Planner" where
  "resetCount t p = (if tusage (des p t) \<noteq> CONSTANT then set_des t (useCount_update (\<lambda>_. 0)) p else p)"

definition addCount :: "nat \<Rightarrow> 's Planner \<Rightarrow> 's Planner" where
  "addCount t p = (if tusage (des p t) \<noteq> CONSTANT then set_des t (useCount_update (\<lambda>n. n + 1)) p else p)"

definition activeCommands :: "OpCacheInfo list \<Rightarrow> Command list" where
  "activeCommands infos = concat (map executeBuffer (filter (\<lambda>i. \<not> isConstant i) infos))"

definition readings :: "Command list \<Rightarrow> nat list" where
  "readings cs = concat (map workInputs cs)"

definition computeRefCount :: "Command list \<Rightarrow> 's Planner \<Rightarrow> 's Planner" where
  "computeRefCount cs p = fold addCount (readings cs) (fold resetCount (readings cs) p)"

text \<open>Allocation of a list of tensors stops at the first failure.\<close>

fun allocTensors :: "'s BufferAllocator \<Rightarrow> PipelineConfig \<Rightarrow> nat list \<Rightarrow> 's Planner \<Rightarrow> bool \<times> 's Planner" where
  "allocTensors A cfg [] p = (True, p)"
| "allocTensors A cfg (t # ts) p =
     (let (res, p1) = allocTensor A cfg t p in if res then allocTensors A cfg ts p1 else (False, p1))"

definition commandAlloc :: "'s BufferAllocator \<Rightarrow> PipelineConfig \<Rightarrow> Command \<Rightarrow> 's Planner \<Rightarrow> bool \<times> 's Planner" where
  "commandAlloc A cfg c p =
     (let (res, p1) = (if allocInput cfg \<and> needAllocIO c then allocTensors A cfg (workInputs c) p else (True, p))
      in if \<not> res then (False, p1)
         else if needAllocIO c then allocTensors A cfg (workOutputs c) p1 else (True, p1))"

text \<open>
  \<open>onResize\<close> is \<^verbatim>\<open>Execution::onResize\<close> of the command's execution: it may use the allocator for its own
  buffers.
\<close>

definition commandResize ::
    "(Command \<Rightarrow> 's \<Rightarrow> ErrorCode \<times> 's) \<Rightarrow> PipelineConfig \<Rightarrow> Command \<Rightarrow> 's Planner \<Rightarrow> ErrorCode \<times> 's Planner" where
  "commandResize onResize cfg c p =
     (if cgroup c = index cfg then (let (code, s) = onResize c (dyn p) in (code, p\<lparr>dyn := s\<rparr>)) else (NO_ERROR, p))"

fun commandLoop ::
    "'s BufferAllocator \<Rightarrow> (Command \<Rightarrow> 's \<Rightarrow> ErrorCode \<times> 's) \<Rightarrow> PipelineConfig \<Rightarrow> Command list \<Rightarrow> 's Planner \<Rightarrow>
     ErrorCode \<times> 's Planner" where
  "commandLoop A onResize cfg [] p = (NO_ERROR, p)"
| "commandLoop A onResize cfg (c # cs) p =
     (let (res, p1) = commandAlloc A cfg c p
      in if \<not> res then (OUT_OF_MEMORY, p1)
         else
           (let (code, p2) = commandResize onResize cfg c p1
            in if code \<noteq> NO_ERROR then (code, p2)
               else commandLoop A onResize cfg cs (fold (releaseTensor A cfg) (workInputs c) p2)))"

definition recycleTensor :: "'s BufferAllocator \<Rightarrow> PipelineConfig \<Rightarrow> nat \<Rightarrow> 's Planner \<Rightarrow> 's Planner" where
  "recycleTensor A cfg t p =
     (if getTensorStorageType (des p t) (outputStatic cfg) = DYNAMIC then clearMem A t p else p)"

definition recycleDynamicMemory :: "'s BufferAllocator \<Rightarrow> PipelineConfig \<Rightarrow> Command \<Rightarrow> 's Planner \<Rightarrow> 's Planner" where
  "recycleDynamicMemory A cfg c p = fold (recycleTensor A cfg) (workInputs c) (fold (recycleTensor A cfg) (workOutputs c) p)"

definition recycleAll :: "'s BufferAllocator \<Rightarrow> PipelineConfig \<Rightarrow> OpCacheInfo list \<Rightarrow> 's Planner \<Rightarrow> 's Planner" where
  "recycleAll A cfg infos p =
     fold (recycleDynamicMemory A cfg) (filter (\<lambda>c. cgroup c = index cfg) (concat (map executeBuffer infos))) p"

section \<open>On the deferred allocator\<close>

definition deferAllocator :: "Defer BufferAllocator" where
  "deferAllocator = \<lparr>bAlloc = (\<lambda>sz sep. alloc sz sep 0), bAttach = attach, bFree = (\<lambda>c s. snd (free (Some c) s))\<rparr>"

text \<open>
  \<^verbatim>\<open>onResizeBegin\<close> resets the allocator, \<^verbatim>\<open>onResizeEnd\<close> computes the plan; the result is the error code,
  the tensors, and the state of the allocator, its buffer and the host pointers. \<^const>\<open>None\<close> does not occur.
\<close>

definition allocForTensor ::
    "(Command \<Rightarrow> Defer \<Rightarrow> ErrorCode \<times> Defer) \<Rightarrow> (nat \<Rightarrow> nat \<Rightarrow> nat \<times> nat) \<Rightarrow> PipelineConfig \<Rightarrow> OpCacheInfo list \<Rightarrow>
     Defer Planner \<Rightarrow> SingleBuffer \<Rightarrow> (nat \<Rightarrow> nat) \<Rightarrow>
     (ErrorCode \<times> Defer Planner \<times> SingleBuffer \<times> (nat \<Rightarrow> nat)) option" where
  "allocForTensor onResize onAlloc cfg infos p b hosts =
     (let cs = activeCommands infos;
          p0 = computeRefCount cs p;
          p1 = p0\<lparr>dyn := reset (dyn p0)\<rparr>;
          (code, p2) = commandLoop deferAllocator onResize cfg cs p1
      in if code \<noteq> NO_ERROR then Some (code, p2, b, hosts)
         else
           (let p3 = recycleAll deferAllocator cfg infos p2
            in case compute onAlloc (dyn p3) b hosts of
                 None \<Rightarrow> None
               | Some (code, s, b', hosts') \<Rightarrow> Some (code, p3\<lparr>dyn := s\<rparr>, b', hosts')))"

end
