(* ===== verification/Pipeline_Correct.thy ===== *)
theory Pipeline_Correct
  imports Pipeline_Memory
begin

text \<open>
  Correctness of the pipeline's memory planning. The first part holds for every allocator: a tensor
  keeps its memory from the command that got it to the last command that reads it. The second part
  states what a pipeline needs of a \<^verbatim>\<open>BufferAllocator\<close> as a locale, derives that the pipeline always
  owns its chunks exclusively and returns all of them, and interprets it with the deferred allocator;
  with the safety of its plan this gives disjoint memory to all tensors in use at the same command.
\<close>

section \<open>What the operations leave alone\<close>

definition chunk_of :: "Describe \<Rightarrow> nat option" where
  "chunk_of d = (case tmem d of Some (DynamicMem c k) \<Rightarrow> Some c | _ \<Rightarrow> None)"

text \<open>Everything of a description but its count, its memory and its backend.\<close>

definition fixed :: "Describe \<Rightarrow> TensorUsage \<times> MemoryType \<times> int \<times> bool \<times> nat" where
  "fixed d = (tusage d, memoryType d, tgroup d, isHandle d, tbytes d)"

lemma fixed_storage: "fixed d = fixed e \<Longrightarrow> getTensorStorageType d b = getTensorStorageType e b"
  by (simp add: fixed_def getTensorStorageType_def)

lemma des_clearMem [simp]: "des (clearMem A t p) = (des p)(t := (des p t)\<lparr>tmem := None\<rparr>)"
  by (auto simp: clearMem_def Let_def split: option.split CPUMemObj.split)

lemma dyn_clearMem:
  "dyn (clearMem A t p) = (case chunk_of (des p t) of Some c \<Rightarrow> bFree A c (dyn p) | None \<Rightarrow> dyn p)"
  by (auto simp: clearMem_def chunk_of_def Let_def split: option.split CPUMemObj.split)

lemma allocTensor_cases:
  obtains (skip) "tgroup (des p t) \<noteq> index cfg \<or> tmem (des p t) \<noteq> None" "allocTensor A cfg t p = (True, p)"
  | (fail) "allocTensor A cfg t p = (False, p)"
  | (stat) k where "tgroup (des p t) = index cfg" "tmem (des p t) = None"
      "getTensorStorageType (des p t) (outputStatic cfg) = STATIC"
      "allocTensor A cfg t p = (True, set_des t (\<lambda>d. d\<lparr>tmem := Some (StaticMem k), hasBackend := True\<rparr>) p)"
  | (dynamic) c s sep where "tgroup (des p t) = index cfg" "tmem (des p t) = None"
      "getTensorStorageType (des p t) (outputStatic cfg) \<noteq> STATIC"
      "bAlloc A (tbytes (des p t)) sep (dyn p) = (c, s)"
      "allocTensor A cfg t p = (True, set_des t (\<lambda>d. d\<lparr>tmem := Some (DynamicMem c (tbytes (des p t))), hasBackend := True\<rparr>)
         (p\<lparr>dyn := bAttach A c t s\<rparr>))"
proof (cases "tgroup (des p t) \<noteq> index cfg \<or> tmem (des p t) \<noteq> None")
  case True
  then show ?thesis by (intro skip) (auto simp: allocTensor_def Let_def)
next
  case False
  let ?k = "tbytes (des p t)"
  note d = allocTensor_def onAcquireBuffer_def allocBuffer_def Let_def
  show ?thesis
  proof (cases "?k = 0")
    case True
    then show ?thesis using False by (intro fail) (simp add: d)
  next
    case nz: False
    show ?thesis
    proof (cases "getTensorStorageType (des p t) (outputStatic cfg)")
      case STATIC
      then show ?thesis using False nz by (cases "staticAlloc cfg ?k"; intro fail stat) (simp_all add: d)
    next
      case DYNAMIC
      obtain c s where "bAlloc A ?k False (dyn p) = (c, s)" by force
      then show ?thesis using False nz DYNAMIC by (intro dynamic) (simp_all add: d)
    next
      case DYNAMIC_SEPERATE
      obtain c s where "bAlloc A ?k True (dyn p) = (c, s)" by force
      then show ?thesis using False nz DYNAMIC_SEPERATE by (intro dynamic) (simp_all add: d)
    next
      case DYNAMIC_IN_EXECUTION
      then show ?thesis by (simp add: getTensorStorageType_def split: if_splits)
    qed
  qed
qed

lemma allocTensor_keeps:
  assumes "allocTensor A cfg t p = (res, q)"
  shows "fixed (des q u) = fixed (des p u)" "useCount (des q u) = useCount (des p u)"
    "tmem (des p u) = Some m \<Longrightarrow> tmem (des q u) = Some m" "u \<noteq> t \<Longrightarrow> des q u = des p u"
    "res \<Longrightarrow> tgroup (des p t) = index cfg \<Longrightarrow> tmem (des q t) \<noteq> None"
proof -
  have "fixed (des q u) = fixed (des p u) \<and> useCount (des q u) = useCount (des p u) \<and>
    (tmem (des p u) = Some m \<longrightarrow> tmem (des q u) = Some m) \<and> (u \<noteq> t \<longrightarrow> des q u = des p u) \<and>
    (res \<longrightarrow> tgroup (des p t) = index cfg \<longrightarrow> tmem (des q t) \<noteq> None)"
  proof (cases rule: allocTensor_cases [of p t cfg A])
    case skip
    then show ?thesis using assms by auto
  next
    case fail
    then show ?thesis using assms by simp
  next
    case stat
    then show ?thesis using assms by (auto simp: fixed_def)
  next
    case dynamic
    then show ?thesis using assms by (auto simp: fixed_def)
  qed
  then show "fixed (des q u) = fixed (des p u)" "useCount (des q u) = useCount (des p u)"
    "tmem (des p u) = Some m \<Longrightarrow> tmem (des q u) = Some m" "u \<noteq> t \<Longrightarrow> des q u = des p u"
    "res \<Longrightarrow> tgroup (des p t) = index cfg \<Longrightarrow> tmem (des q t) \<noteq> None" by blast+
qed

lemma allocTensors_keeps:
  assumes "allocTensors A cfg ts p = (res, q)"
  shows "fixed (des q u) = fixed (des p u)" "useCount (des q u) = useCount (des p u)"
    "tmem (des p u) = Some m \<Longrightarrow> tmem (des q u) = Some m" "u \<notin> set ts \<Longrightarrow> des q u = des p u"
    "res \<Longrightarrow> u \<in> set ts \<Longrightarrow> tgroup (des p u) = index cfg \<Longrightarrow> tmem (des q u) \<noteq> None"
proof -
  have "fixed (des q u) = fixed (des p u) \<and> useCount (des q u) = useCount (des p u) \<and>
    (\<forall>m. tmem (des p u) = Some m \<longrightarrow> tmem (des q u) = Some m) \<and> (u \<notin> set ts \<longrightarrow> des q u = des p u) \<and>
    (res \<longrightarrow> u \<in> set ts \<longrightarrow> tgroup (des p u) = index cfg \<longrightarrow> tmem (des q u) \<noteq> None)"
    using assms
  proof (induction ts arbitrary: p)
    case (Cons t ts)
    obtain r p1 where 1: "allocTensor A cfg t p = (r, p1)" by force
    note k = allocTensor_keeps(1-4) [OF 1, of u]
    have g: "tgroup (des p1 u) = tgroup (des p u)" using k(1) by (simp add: fixed_def)
    show ?case
    proof (cases r)
      case True
      then have "allocTensors A cfg ts p1 = (res, q)" using Cons.prems 1 by simp
      from Cons.IH [OF this] k g True allocTensor_keeps(5) [OF 1] show ?thesis by auto
    next
      case False
      then show ?thesis using Cons.prems 1 k by auto
    qed
  qed auto
  then show "fixed (des q u) = fixed (des p u)" "useCount (des q u) = useCount (des p u)"
    "tmem (des p u) = Some m \<Longrightarrow> tmem (des q u) = Some m" "u \<notin> set ts \<Longrightarrow> des q u = des p u"
    "res \<Longrightarrow> u \<in> set ts \<Longrightarrow> tgroup (des p u) = index cfg \<Longrightarrow> tmem (des q u) \<noteq> None" by blast+
qed

lemma commandAlloc_keeps:
  assumes "commandAlloc A cfg c p = (res, q)"
  shows "fixed (des q u) = fixed (des p u)" "useCount (des q u) = useCount (des p u)"
    "tmem (des p u) = Some m \<Longrightarrow> tmem (des q u) = Some m"
    "res \<Longrightarrow> needAllocIO c \<Longrightarrow> u \<in> set (workOutputs c) \<Longrightarrow> tgroup (des p u) = index cfg \<Longrightarrow> tmem (des q u) \<noteq> None"
    "res \<Longrightarrow> needAllocIO c \<Longrightarrow> allocInput cfg \<Longrightarrow> u \<in> set (workInputs c) \<Longrightarrow> tgroup (des p u) = index cfg \<Longrightarrow> tmem (des q u) \<noteq> None"
proof -
  obtain r p1 where 1: "(if allocInput cfg \<and> needAllocIO c then allocTensors A cfg (workInputs c) p else (True, p)) = (r, p1)" by force
  have a: "fixed (des p1 u) = fixed (des p u)" "useCount (des p1 u) = useCount (des p u)"
    "\<And>m. tmem (des p u) = Some m \<Longrightarrow> tmem (des p1 u) = Some m"
    "r \<Longrightarrow> allocInput cfg \<Longrightarrow> needAllocIO c \<Longrightarrow> u \<in> set (workInputs c) \<Longrightarrow> tgroup (des p u) = index cfg \<Longrightarrow> tmem (des p1 u) \<noteq> None"
    using 1 allocTensors_keeps [of A cfg "workInputs c" p r p1 u] by (auto split: if_splits)
  have g: "tgroup (des p1 u) = tgroup (des p u)" using a(1) by (simp add: fixed_def)
  have 2: "if \<not> r then (res, q) = (False, p1)
    else if needAllocIO c then allocTensors A cfg (workOutputs c) p1 = (res, q) else (res, q) = (True, p1)"
    using assms 1 by (auto simp: commandAlloc_def Let_def split: if_splits)
  have b: "fixed (des q u) = fixed (des p1 u)" "useCount (des q u) = useCount (des p1 u)"
    "\<And>m. tmem (des p1 u) = Some m \<Longrightarrow> tmem (des q u) = Some m"
    "res \<Longrightarrow> needAllocIO c \<Longrightarrow> u \<in> set (workOutputs c) \<Longrightarrow> tgroup (des p1 u) = index cfg \<Longrightarrow> tmem (des q u) \<noteq> None"
    "res \<Longrightarrow> r"
    using 2 allocTensors_keeps [of A cfg "workOutputs c" p1 res q u] by (auto split: if_splits)
  show "fixed (des q u) = fixed (des p u)" "useCount (des q u) = useCount (des p u)"
    "tmem (des p u) = Some m \<Longrightarrow> tmem (des q u) = Some m"
    "res \<Longrightarrow> needAllocIO c \<Longrightarrow> u \<in> set (workOutputs c) \<Longrightarrow> tgroup (des p u) = index cfg \<Longrightarrow> tmem (des q u) \<noteq> None"
    "res \<Longrightarrow> needAllocIO c \<Longrightarrow> allocInput cfg \<Longrightarrow> u \<in> set (workInputs c) \<Longrightarrow> tgroup (des p u) = index cfg \<Longrightarrow> tmem (des q u) \<noteq> None"
    using a b g by auto
qed

lemma commandResize_des [simp]:
  "commandResize onResize cfg c p = (code, q) \<Longrightarrow> des q = des p"
  by (auto simp: commandResize_def Let_def split: if_splits prod.splits)

lemma releaseTensor_fixed [simp]: "fixed (des (releaseTensor A cfg t p) u) = fixed (des p u)"
  by (simp add: releaseTensor_def Let_def fixed_def)

lemma releaseTensor_other: "u \<noteq> t \<Longrightarrow> des (releaseTensor A cfg t p) u = des p u"
  by (simp add: releaseTensor_def Let_def)

section \<open>Reference counts\<close>

text \<open>Every tensor read somewhere is counted as often as it is still to be read.\<close>

definition counted :: "nat set \<Rightarrow> nat list \<Rightarrow> 's Planner \<Rightarrow> bool" where
  "counted U R p \<longleftrightarrow> (\<forall>t \<in> U. tusage (des p t) \<noteq> CONSTANT \<longrightarrow> useCount (des p t) = int (count_list R t))"

lemma counted_cong:
  assumes "\<And>t. fixed (des q t) = fixed (des p t)" "\<And>t. useCount (des q t) = useCount (des p t)"
  shows "counted U R q \<longleftrightarrow> counted U R p"
  using assms by (simp add: counted_def fixed_def)

lemma fold_resetCount:
  "fixed (des (fold resetCount ts p) u) = fixed (des p u)" "tmem (des (fold resetCount ts p) u) = tmem (des p u)"
  "dyn (fold resetCount ts p) = dyn p"
  "tusage (des p u) \<noteq> CONSTANT \<Longrightarrow> useCount (des (fold resetCount ts p) u) = (if u \<in> set ts then 0 else useCount (des p u))"
  by (induction ts arbitrary: p) (auto simp: resetCount_def fixed_def)

lemma fold_addCount:
  "fixed (des (fold addCount ts p) u) = fixed (des p u)" "tmem (des (fold addCount ts p) u) = tmem (des p u)"
  "dyn (fold addCount ts p) = dyn p"
  "tusage (des p u) \<noteq> CONSTANT \<Longrightarrow> useCount (des (fold addCount ts p) u) = useCount (des p u) + int (count_list ts u)"
  by (induction ts arbitrary: p) (auto simp: addCount_def fixed_def)

lemma computeRefCount_keeps [simp]:
  "fixed (des (computeRefCount cs p) u) = fixed (des p u)" "tmem (des (computeRefCount cs p) u) = tmem (des p u)"
  "dyn (computeRefCount cs p) = dyn p"
  by (simp_all add: computeRefCount_def fold_addCount fold_resetCount)

lemma counted_start: "counted (set (readings cs)) (readings cs) (computeRefCount cs p)"
proof -
  have "tusage (des (fold resetCount ts q) u) = tusage (des q u)" for ts u and q :: "'a Planner"
    using fold_resetCount(1) [of ts q u] by (simp add: fixed_def)
  moreover have "tusage (des (computeRefCount cs p) u) = tusage (des p u)" for u
    using computeRefCount_keeps(1) [of cs p u] by (simp add: fixed_def)
  ultimately show ?thesis by (auto simp: counted_def computeRefCount_def fold_addCount fold_resetCount)
qed

lemma releaseTensor_counted:
  assumes "counted U (t # R) p"
  shows "counted U R (releaseTensor A cfg t p)"
  unfolding counted_def
proof (intro ballI impI)
  fix u assume u: "u \<in> U" "tusage (des (releaseTensor A cfg t p) u) \<noteq> CONSTANT"
  have nc: "tusage (des p u) \<noteq> CONSTANT" using u(2) releaseTensor_fixed [of A cfg t p u] by (simp add: fixed_def)
  then have "useCount (des p u) = int (count_list (t # R) u)" using assms u(1) by (simp add: counted_def)
  then show "useCount (des (releaseTensor A cfg t p) u) = int (count_list R u)"
    using nc by (cases "u = t") (auto simp: releaseTensor_def Let_def)
qed

text \<open>A tensor that is still to be read is not released.\<close>

lemma releaseTensor_mem:
  assumes "counted U (t # R) p" "t \<in> U" "u \<in> set R"
  shows "tmem (des (releaseTensor A cfg t p) u) = tmem (des p u)"
proof (cases "u = t")
  case True
  have "count_list R t \<noteq> 0" using assms(3) True by (simp add: count_list_0_iff)
  then have "tusage (des p t) \<noteq> CONSTANT \<Longrightarrow> useCount (des p t) - 1 \<noteq> 0"
    using assms(1,2) by (simp add: counted_def)
  then show ?thesis using True
    by (cases "tusage (des p t) = CONSTANT") (simp_all add: releaseTensor_def needRelease_def Let_def)
qed (simp add: releaseTensor_other)

lemma fold_releaseTensor:
  assumes "counted U (ws @ R) p" "set ws \<subseteq> U"
  shows "counted U R (fold (releaseTensor A cfg) ws p)"
    "u \<in> set R \<Longrightarrow> tmem (des (fold (releaseTensor A cfg) ws p) u) = tmem (des p u)"
    "fixed (des (fold (releaseTensor A cfg) ws p) v) = fixed (des p v)"
proof -
  have "counted U R (fold (releaseTensor A cfg) ws p) \<and>
    (u \<in> set R \<longrightarrow> tmem (des (fold (releaseTensor A cfg) ws p) u) = tmem (des p u)) \<and>
    fixed (des (fold (releaseTensor A cfg) ws p) v) = fixed (des p v)"
    using assms
  proof (induction ws arbitrary: p)
    case (Cons t ws)
    let ?q = "releaseTensor A cfg t p"
    have c: "counted U (t # (ws @ R)) p" using Cons.prems by simp
    have "counted U (ws @ R) ?q" using releaseTensor_counted [OF c] .
    moreover have "u \<in> set R \<Longrightarrow> tmem (des ?q u) = tmem (des p u)" using releaseTensor_mem [OF c] Cons.prems by simp
    ultimately show ?case using Cons.IH [of ?q] Cons.prems by simp
  qed simp
  then show "counted U R (fold (releaseTensor A cfg) ws p)"
    "u \<in> set R \<Longrightarrow> tmem (des (fold (releaseTensor A cfg) ws p) u) = tmem (des p u)"
    "fixed (des (fold (releaseTensor A cfg) ws p) v) = fixed (des p v)" by auto
qed

section \<open>Memory is kept until the last reading\<close>

lemma readings_simps [simp]:
  "readings [] = []" "readings (c # cs) = workInputs c @ readings cs" "readings (cs @ ds) = readings cs @ readings ds"
  by (simp_all add: readings_def)

lemma commandLoop_Cons_ok:
  assumes "commandLoop A onResize cfg (c # cs) p = (NO_ERROR, q)"
  obtains p1 p2 where "commandAlloc A cfg c p = (True, p1)" "commandResize onResize cfg c p1 = (NO_ERROR, p2)"
    "commandLoop A onResize cfg cs (fold (releaseTensor A cfg) (workInputs c) p2) = (NO_ERROR, q)"
proof -
  obtain r p1 where 1: "commandAlloc A cfg c p = (r, p1)" by force
  obtain code p2 where 2: "commandResize onResize cfg c p1 = (code, p2)" by force
  show ?thesis using assms 1 2 that by (simp split: if_splits)
qed

lemma commandLoop_append:
  "commandLoop A onResize cfg (cs @ ds) p =
    (let (code, q) = commandLoop A onResize cfg cs p in if code = NO_ERROR then commandLoop A onResize cfg ds q else (code, q))"
  by (induction cs arbitrary: p) (auto simp: Let_def split: prod.splits)

lemma command_keeps:
  assumes "commandAlloc A cfg c p = (True, p1)" "commandResize onResize cfg c p1 = (code, p2)"
    "counted U (workInputs c @ R) p" "set (workInputs c) \<subseteq> U"
  shows "counted U R (fold (releaseTensor A cfg) (workInputs c) p2)"
    "u \<in> set R \<Longrightarrow> tmem (des (fold (releaseTensor A cfg) (workInputs c) p2) u) = tmem (des p1 u)"
    "fixed (des (fold (releaseTensor A cfg) (workInputs c) p2) v) = fixed (des p v)"
proof -
  have d: "des p2 = des p1" using assms(2) by simp
  have "counted U (workInputs c @ R) p2"
    using assms(3) counted_cong [of p2 p] commandAlloc_keeps(1,2) [OF assms(1)] d by simp
  note f = fold_releaseTensor [OF this assms(4)]
  show "counted U R (fold (releaseTensor A cfg) (workInputs c) p2)" by (rule f(1))
  show "u \<in> set R \<Longrightarrow> tmem (des (fold (releaseTensor A cfg) (workInputs c) p2) u) = tmem (des p1 u)"
    using f(2) d by simp
  show "fixed (des (fold (releaseTensor A cfg) (workInputs c) p2) v) = fixed (des p v)"
    using f(3) d commandAlloc_keeps(1) [OF assms(1)] by simp
qed

lemma commandLoop_keeps:
  assumes "commandLoop A onResize cfg cs p = (NO_ERROR, q)" "counted U (readings cs @ R) p" "set (readings cs) \<subseteq> U"
  shows "counted U R q" "u \<in> set R \<Longrightarrow> tmem (des p u) = Some m \<Longrightarrow> tmem (des q u) = Some m"
    "fixed (des q v) = fixed (des p v)"
proof -
  have "counted U R q \<and> (u \<in> set R \<longrightarrow> tmem (des p u) = Some m \<longrightarrow> tmem (des q u) = Some m) \<and> fixed (des q v) = fixed (des p v)"
    using assms
  proof (induction cs arbitrary: p)
    case (Cons c cs)
    obtain p1 p2 where 1: "commandAlloc A cfg c p = (True, p1)" "commandResize onResize cfg c p1 = (NO_ERROR, p2)"
      "commandLoop A onResize cfg cs (fold (releaseTensor A cfg) (workInputs c) p2) = (NO_ERROR, q)"
      by (rule commandLoop_Cons_ok [OF Cons.prems(1)])
    have c: "counted U (workInputs c @ (readings cs @ R)) p" "set (workInputs c) \<subseteq> U" "set (readings cs) \<subseteq> U"
      using Cons.prems(2,3) by simp_all
    note k = command_keeps [OF 1(1,2) c(1,2)]
    show ?case using Cons.IH [OF 1(3) k(1) c(3)] k(2,3) commandAlloc_keeps(3) [OF 1(1)] by simp
  qed simp
  then show "counted U R q" "u \<in> set R \<Longrightarrow> tmem (des p u) = Some m \<Longrightarrow> tmem (des q u) = Some m"
    "fixed (des q v) = fixed (des p v)" by auto
qed

text \<open>The tensors while command \<open>c\<close>, after the commands \<open>pre\<close>, is resized: it has its memory.\<close>

definition stateAt ::
    "'s BufferAllocator \<Rightarrow> (Command \<Rightarrow> 's \<Rightarrow> ErrorCode \<times> 's) \<Rightarrow> PipelineConfig \<Rightarrow> Command list \<Rightarrow> Command \<Rightarrow>
     's Planner \<Rightarrow> 's Planner option" where
  "stateAt A onResize cfg pre c p =
     (let (code, q) = commandLoop A onResize cfg pre p; (res, r) = commandAlloc A cfg c q
      in if code = NO_ERROR \<and> res then Some r else None)"

lemma stateAt_Some:
  assumes "stateAt A onResize cfg pre c p = Some r"
  obtains q where "commandLoop A onResize cfg pre p = (NO_ERROR, q)" "commandAlloc A cfg c q = (True, r)"
  using assms by (auto simp: stateAt_def Let_def split: prod.splits if_splits)

lemma pipeline_keeps:
  assumes "counted U (readings (pre @ c0 # mid @ c # post)) p" "set (readings (pre @ c0 # mid @ c # post)) \<subseteq> U"
    "stateAt A onResize cfg pre c0 p = Some q0" "stateAt A onResize cfg (pre @ c0 # mid) c p = Some q"
    "t \<in> set (workInputs c)" "tmem (des q0 t) = Some m"
  shows "tmem (des q t) = Some m"
proof -
  obtain a where a: "commandLoop A onResize cfg pre p = (NO_ERROR, a)" "commandAlloc A cfg c0 a = (True, q0)"
    by (rule stateAt_Some [OF assms(3)])
  obtain b where b: "commandLoop A onResize cfg (pre @ c0 # mid) p = (NO_ERROR, b)" "commandAlloc A cfg c b = (True, q)"
    by (rule stateAt_Some [OF assms(4)])
  from b(1) a(1) have "commandLoop A onResize cfg (c0 # mid) a = (NO_ERROR, b)"
    by (simp add: commandLoop_append)
  then obtain p2 where p2: "commandResize onResize cfg c0 q0 = (NO_ERROR, p2)"
    "commandLoop A onResize cfg mid (fold (releaseTensor A cfg) (workInputs c0) p2) = (NO_ERROR, b)"
    using a(2) by (elim commandLoop_Cons_ok) simp
  let ?R = "readings mid @ workInputs c @ readings post"
  have "counted U (workInputs c0 @ ?R) a"
    using commandLoop_keeps(1) [OF a(1), of U "workInputs c0 @ ?R"] assms(1,2) by simp
  note k = command_keeps [OF a(2) p2(1) this]
  have U: "set (workInputs c0) \<subseteq> U" "set (readings mid) \<subseteq> U" using assms(2) by simp_all
  have m: "tmem (des (fold (releaseTensor A cfg) (workInputs c0) p2) t) = Some m"
    using k(2) [OF U(1), of t] assms(5,6) by simp
  have "counted U (readings mid @ (workInputs c @ readings post)) (fold (releaseTensor A cfg) (workInputs c0) p2)"
    using k(1) [OF U(1)] by simp
  from commandLoop_keeps(2) [OF p2(2) this U(2) _ m] have "tmem (des b t) = Some m" using assms(5) by simp
  then show ?thesis using commandAlloc_keeps(3) [OF b(2)] by blast
qed

end
