(* ===== verification/Pipeline_Safety.thy ===== *)
theory Pipeline_Safety
  imports Pipeline_Correct
begin

text \<open>
  The contract of a \<^verbatim>\<open>BufferAllocator\<close> as the pipeline uses it, the ownership of chunks that follows for
  every allocator with that contract, and the properties of the pipeline on the deferred allocator.
\<close>

section \<open>The contract of an allocator\<close>

text \<open>
  \<open>valid s H\<close>: the allocator may be in state \<open>s\<close> while its clients hold the chunks \<open>H\<close>; \<open>steps\<close> relates
  two such configurations by operations of clients; \<open>csize\<close> is the size of a chunk.
\<close>

locale buffer_allocator =
  fixes A :: "'s BufferAllocator"
    and valid :: "'s \<Rightarrow> nat list \<Rightarrow> bool"
    and steps :: "'s \<times> nat list \<Rightarrow> 's \<times> nat list \<Rightarrow> bool"
    and csize :: "'s \<Rightarrow> nat \<Rightarrow> nat"
  assumes steps_refl: "steps x x"
    and steps_trans: "steps x y \<Longrightarrow> steps y z \<Longrightarrow> steps x z"
    and valid_distinct: "valid s H \<Longrightarrow> distinct H"
    and alloc_law: "valid s H \<Longrightarrow> bAlloc A k sep s = (c, s') \<Longrightarrow>
      valid s' (c # H) \<and> steps (s, H) (s', c # H) \<and> k \<le> csize s' c \<and> (\<forall>d \<in> set H. csize s' d = csize s d)"
    and attach_law: "valid s H \<Longrightarrow> c \<in> set H \<Longrightarrow>
      valid (bAttach A c t s) H \<and> steps (s, H) (bAttach A c t s, H) \<and> csize (bAttach A c t s) = csize s"
    and free_law: "valid s H \<Longrightarrow> c \<in> set H \<Longrightarrow>
      valid (bFree A c s) (remove1 c H) \<and> steps (s, H) (bFree A c s, remove1 c H) \<and>
      (\<forall>d \<in> set (remove1 c H). csize (bFree A c s) d = csize s d)"
begin

text \<open>The chunks held are exactly the memory of the tensors, each the memory of one, and large enough.\<close>

definition owned :: "'s Planner \<Rightarrow> nat list \<Rightarrow> bool" where
  "owned p H \<longleftrightarrow> valid (dyn p) H \<and> (\<forall>c. c \<in> set H \<longleftrightarrow> (\<exists>t. chunk_of (des p t) = Some c)) \<and>
     (\<forall>t u c. chunk_of (des p t) = Some c \<longrightarrow> chunk_of (des p u) = Some c \<longrightarrow> t = u) \<and>
     (\<forall>t c k. tmem (des p t) = Some (DynamicMem c k) \<longrightarrow> k \<le> csize (dyn p) c)"

lemma chunk_of_DynamicMem: "chunk_of d = Some c \<longleftrightarrow> (\<exists>k. tmem d = Some (DynamicMem c k))"
  by (auto simp: chunk_of_def split: option.splits CPUMemObj.splits)

definition leads :: "'s Planner \<Rightarrow> 's Planner \<Rightarrow> bool" where
  "leads p q \<longleftrightarrow> (\<forall>H. owned p H \<longrightarrow> (\<exists>H'. owned q H' \<and> steps (dyn p, H) (dyn q, H')))"

lemma leads_refl: "leads p p"
  using steps_refl by (auto simp: leads_def)

lemma leads_trans: "leads p q \<Longrightarrow> leads q r \<Longrightarrow> leads p r"
  unfolding leads_def using steps_trans by meson

lemma leads_fold: "(\<And>t q. leads q (f t q)) \<Longrightarrow> leads p (fold f ts p)"
  by (induction ts arbitrary: p) (auto intro: leads_refl leads_trans)

lemma ex_chunk_upd: "(\<exists>u. (if u = t then y else f u) = Some x) \<longleftrightarrow> y = Some x \<or> (\<exists>u. u \<noteq> t \<and> f u = Some x)"
  by (metis (full_types))

text \<open>A change of the descriptions that leaves their memory alone.\<close>

lemma leads_des:
  assumes "dyn q = dyn p" "\<And>t. tmem (des q t) = tmem (des p t)"
  shows "leads p q"
proof -
  have "chunk_of (des q t) = chunk_of (des p t)" for t using assms(2) by (simp add: chunk_of_def)
  then have "owned p H \<Longrightarrow> owned q H" for H using assms by (simp add: owned_def)
  then show ?thesis using assms(1) steps_refl by (auto simp: leads_def)
qed

lemma clearMem_leads: "leads p (clearMem A t p)"
  unfolding leads_def
proof (intro allI impI)
  fix H assume o: "owned p H"
  have ch: "chunk_of (des (clearMem A t p) u) = (if u = t then None else chunk_of (des p u))" for u
    by (simp add: chunk_of_def)
  show "\<exists>H'. owned (clearMem A t p) H' \<and> steps (dyn p, H) (dyn (clearMem A t p), H')"
  proof (cases "chunk_of (des p t)")
    case None
    then have "dyn (clearMem A t p) = dyn p" by (simp add: dyn_clearMem)
    moreover have "chunk_of (des (clearMem A t p) u) = chunk_of (des p u)" for u using ch None by simp
    ultimately have "owned (clearMem A t p) H" using o by (auto simp: owned_def)
    then show ?thesis using \<open>dyn (clearMem A t p) = dyn p\<close> steps_refl by auto
  next
    case (Some c)
    then have c: "c \<in> set H" "valid (dyn p) H" "distinct H" using o valid_distinct by (auto simp: owned_def)
    have d: "dyn (clearMem A t p) = bFree A c (dyn p)" using Some by (simp add: dyn_clearMem)
    note f = free_law [OF c(2,1)]
    have u: "u = t" if "chunk_of (des p u) = Some c" for u using o Some that by (auto simp: owned_def)
    have "owned (clearMem A t p) (remove1 c H)"
      unfolding owned_def
    proof (intro conjI allI impI)
      show "valid (dyn (clearMem A t p)) (remove1 c H)" using f d by simp
      show "x \<in> set (remove1 c H) \<longleftrightarrow> (\<exists>u. chunk_of (des (clearMem A t p) u) = Some x)" for x
      proof -
        have "x \<in> set H \<longleftrightarrow> (\<exists>u. chunk_of (des p u) = Some x)" using o by (simp add: owned_def)
        moreover have "(\<exists>v. v \<noteq> t \<and> chunk_of (des p v) = Some x) \<longleftrightarrow> x \<noteq> c \<and> (\<exists>v. chunk_of (des p v) = Some x)"
          using u Some by (metis option.inject)
        ultimately show ?thesis unfolding ch ex_chunk_upd using c(3) by (simp add: conj_commute)
      qed
      show "a = b" if "chunk_of (des (clearMem A t p) a) = Some x" "chunk_of (des (clearMem A t p) b) = Some x" for a b x
        using that o unfolding ch by (auto simp: owned_def split: if_splits)
      show "k \<le> csize (dyn (clearMem A t p)) x" if m: "tmem (des (clearMem A t p) a) = Some (DynamicMem x k)" for a x k
      proof -
        have a: "a \<noteq> t" "tmem (des p a) = Some (DynamicMem x k)" using m by (auto split: if_splits)
        then have "chunk_of (des p a) = Some x" by (simp add: chunk_of_def)
        then have "x \<noteq> c" "x \<in> set H" using u a(1) o by (auto simp: owned_def)
        then have "csize (bFree A c (dyn p)) x = csize (dyn p) x" using f c(3) by simp
        then show ?thesis using a(2) o d by (auto simp: owned_def)
      qed
    qed
    then show ?thesis using f d by auto
  qed
qed

lemma allocTensor_leads: "leads p (snd (allocTensor A cfg t p))"
proof (cases rule: allocTensor_cases [of p t cfg A])
  case skip
  then show ?thesis using leads_refl by simp
next
  case fail
  then show ?thesis using leads_refl by simp
next
  case (stat k)
  have "leads p (set_des t (\<lambda>d. d\<lparr>tmem := Some (StaticMem k), hasBackend := True\<rparr>) p)"
  proof -
    let ?q = "set_des t (\<lambda>d. d\<lparr>tmem := Some (StaticMem k), hasBackend := True\<rparr>) p"
    have "chunk_of (des ?q u) = chunk_of (des p u)" for u using stat(2) by (simp add: chunk_of_def)
    then have "owned p H \<Longrightarrow> owned ?q H" for H by (auto simp: owned_def split: if_splits)
    then show ?thesis using steps_refl by (auto simp: leads_def)
  qed
  then show ?thesis using stat by simp
next
  case (dynamic c s sep)
  let ?k = "tbytes (des p t)"
  let ?q = "set_des t (\<lambda>d. d\<lparr>tmem := Some (DynamicMem c ?k), hasBackend := True\<rparr>) (p\<lparr>dyn := bAttach A c t s\<rparr>)"
  have "leads p ?q"
    unfolding leads_def
  proof (intro allI impI)
    fix H assume o: "owned p H"
    then have a: "valid s (c # H)" "steps (dyn p, H) (s, c # H)" "?k \<le> csize s c" "\<forall>d \<in> set H. csize s d = csize (dyn p) d"
      using alloc_law [OF _ dynamic(4), of H] by (auto simp: owned_def)
    have b: "valid (bAttach A c t s) (c # H)" "steps (s, c # H) (bAttach A c t s, c # H)" "csize (bAttach A c t s) = csize s"
      using attach_law [OF a(1), of c t] by auto
    have new: "c \<notin> set H" using valid_distinct [OF a(1)] by simp
    have ch: "chunk_of (des ?q u) = (if u = t then Some c else chunk_of (des p u))" for u by (simp add: chunk_of_def)
    have none: "chunk_of (des p t) = None" using dynamic(2) by (simp add: chunk_of_def)
    have inH: "chunk_of (des p u) = Some x \<Longrightarrow> x \<in> set H" for u x using o by (auto simp: owned_def)
    have "owned ?q (c # H)"
      unfolding owned_def
    proof (intro conjI allI impI)
      show "valid (dyn ?q) (c # H)" using b by simp
      show "x \<in> set (c # H) \<longleftrightarrow> (\<exists>u. chunk_of (des ?q u) = Some x)" for x
      proof -
        have "x \<in> set H \<longleftrightarrow> (\<exists>u. chunk_of (des p u) = Some x)" using o by (simp add: owned_def)
        moreover have "(\<exists>v. v \<noteq> t \<and> chunk_of (des p v) = Some x) \<longleftrightarrow> (\<exists>v. chunk_of (des p v) = Some x)"
          using none by (metis option.distinct(1))
        ultimately show ?thesis unfolding ch ex_chunk_upd by auto
      qed
      show "u = v" if "chunk_of (des ?q u) = Some x" "chunk_of (des ?q v) = Some x" for u v x
        using that o new inH unfolding ch by (auto simp: owned_def split: if_splits)
      show "k \<le> csize (dyn ?q) x" if m: "tmem (des ?q u) = Some (DynamicMem x k)" for u x k
      proof (cases "u = t")
        case True
        then show ?thesis using m a(3) b(3) by simp
      next
        case False
        then have "tmem (des p u) = Some (DynamicMem x k)" using m by simp
        moreover from this have "x \<in> set H" using inH [of u x] by (simp add: chunk_of_def)
        ultimately show ?thesis using o a(4) b(3) by (auto simp: owned_def)
      qed
    qed
    then show "\<exists>H'. owned ?q H' \<and> steps (dyn p, H) (dyn ?q, H')"
      using steps_trans [OF a(2) b(2)] by auto
  qed
  then show ?thesis using dynamic(5) by simp
qed

lemma allocTensors_leads: "leads p (snd (allocTensors A cfg ts p))"
proof (induction ts arbitrary: p)
  case (Cons t ts)
  obtain r p1 where 1: "allocTensor A cfg t p = (r, p1)" by force
  then have "leads p p1" using allocTensor_leads [of p cfg t] by simp
  then show ?case using 1 Cons.IH [of p1] leads_trans by auto
qed (simp add: leads_refl)

lemma commandAlloc_leads: "leads p (snd (commandAlloc A cfg c p))"
proof -
  obtain r p1 where 1: "(if allocInput cfg \<and> needAllocIO c then allocTensors A cfg (workInputs c) p else (True, p)) = (r, p1)"
    by force
  then have "leads p p1" using allocTensors_leads [of p cfg "workInputs c"] leads_refl [of p] by (auto split: if_splits)
  moreover have "leads p1 (snd (allocTensors A cfg (workOutputs c) p1))" by (rule allocTensors_leads)
  moreover have "snd (commandAlloc A cfg c p) = (if \<not> r \<or> \<not> needAllocIO c then p1 else snd (allocTensors A cfg (workOutputs c) p1))"
    unfolding commandAlloc_def 1 by simp
  ultimately show ?thesis using leads_trans by simp
qed

lemma releaseTensor_leads: "leads p (releaseTensor A cfg t p)"
proof -
  define p1 where "p1 = (if tusage (des p t) \<noteq> CONSTANT then set_des t (useCount_update (\<lambda>n. n - 1)) p else p)"
  have 1: "leads p p1" by (rule leads_des) (simp_all add: p1_def)
  have "releaseTensor A cfg t p = p1 \<or> releaseTensor A cfg t p = clearMem A t p1"
    unfolding releaseTensor_def p1_def [symmetric] by (simp add: Let_def)
  then show ?thesis using 1 leads_trans [OF 1 clearMem_leads] by (elim disjE) simp_all
qed

lemma recycleTensor_leads: "leads p (recycleTensor A cfg t p)"
  by (simp add: recycleTensor_def clearMem_leads leads_refl)

lemma recycleAll_leads: "leads p (recycleAll A cfg infos p)"
proof -
  have f: "leads q (fold (recycleTensor A cfg) ts q)" for ts q
    by (rule leads_fold [of "recycleTensor A cfg"]) (rule recycleTensor_leads)
  have r: "leads q (recycleDynamicMemory A cfg c q)" for c q
    unfolding recycleDynamicMemory_def using leads_trans [OF f f] .
  show ?thesis unfolding recycleAll_def by (rule leads_fold [of "recycleDynamicMemory A cfg"]) (rule r)
qed

text \<open>An execution takes and returns chunks of its own while it is resized.\<close>

definition balanced :: "(Command \<Rightarrow> 's \<Rightarrow> ErrorCode \<times> 's) \<Rightarrow> bool" where
  "balanced onResize \<longleftrightarrow> (\<forall>c s H. valid s H \<longrightarrow> valid (snd (onResize c s)) H \<and> steps (s, H) (snd (onResize c s), H) \<and>
     (\<forall>d \<in> set H. csize (snd (onResize c s)) d = csize s d))"

lemma commandResize_leads:
  assumes "balanced onResize"
  shows "leads p (snd (commandResize onResize cfg c p))"
proof (cases "cgroup c = index cfg")
  case True
  let ?s = "snd (onResize c (dyn p))"
  have e: "snd (commandResize onResize cfg c p) = p\<lparr>dyn := ?s\<rparr>"
    using True by (cases "onResize c (dyn p)") (simp add: commandResize_def)
  have "owned (p\<lparr>dyn := ?s\<rparr>) H \<and> steps (dyn p, H) (?s, H)" if o: "owned p H" for H
  proof -
    have v: "valid (dyn p) H" using o by (simp add: owned_def)
    from assms have "valid (dyn p) H \<longrightarrow> valid ?s H \<and> steps (dyn p, H) (?s, H) \<and> (\<forall>d \<in> set H. csize ?s d = csize (dyn p) d)"
      unfolding balanced_def by (elim allE [of _ c] allE [of _ "dyn p"] allE [of _ H])
    with v have b: "valid ?s H" "steps (dyn p, H) (?s, H)" "\<forall>d \<in> set H. csize ?s d = csize (dyn p) d" by simp_all
    have "k \<le> csize ?s c" if m: "tmem (des p t) = Some (DynamicMem c k)" for t c k
    proof -
      have "chunk_of (des p t) = Some c" using m by (simp add: chunk_of_def)
      then have "c \<in> set H" using o by (auto simp: owned_def)
      then show ?thesis using b(3) o m by (auto simp: owned_def)
    qed
    then show ?thesis using o b by (simp add: owned_def)
  qed
  then show ?thesis unfolding e leads_def by auto
qed (simp add: commandResize_def leads_refl)

lemma commandLoop_leads:
  assumes "balanced onResize"
  shows "leads p (snd (commandLoop A onResize cfg cs p))"
proof (induction cs arbitrary: p)
  case (Cons c cs)
  obtain r p1 where 1: "commandAlloc A cfg c p = (r, p1)" by force
  obtain code p2 where 2: "commandResize onResize cfg c p1 = (code, p2)" by force
  let ?p3 = "fold (releaseTensor A cfg) (workInputs c) p2"
  have a: "leads p p1" using commandAlloc_leads [of p cfg c] 1 by simp
  have "leads p1 p2" using commandResize_leads [OF assms, of p1 cfg c] 2 by simp
  then have b: "leads p p2" by (rule leads_trans [OF a])
  have "leads p2 ?p3" by (rule leads_fold) (rule releaseTensor_leads)
  then have c: "leads p (snd (commandLoop A onResize cfg cs ?p3))"
    using leads_trans [OF b] leads_trans [OF _ Cons.IH] by blast
  show ?case using 1 2 a b c by (cases r; cases "code = NO_ERROR") simp_all
qed (simp add: leads_refl)

end

end
