(* ===== verification/Pipeline_Plan.thy ===== *)
theory Pipeline_Plan
  imports Pipeline_Safety
begin

text \<open>
  Which tensors hold dynamic memory while a pipeline is planned: the invariant that, after the last
  command, only tensors hold a chunk whose memory is recycled at the end.
\<close>

section \<open>Which tensors hold dynamic memory\<close>

text \<open>
  A tensor holds a chunk only if it is one of the recycled tensors \<open>W\<close>, and either its storage is
  \<^verbatim>\<open>DYNAMIC\<close> (recycled at the end) or it is an input that is still to be read.
\<close>

definition unread_input :: "PipelineConfig \<Rightarrow> Describe \<Rightarrow> bool" where
  "unread_input cfg d \<longleftrightarrow> tusage d = INPUT \<and> hasBackend d \<and> allocInput cfg \<and> tgroup d = index cfg \<and>
     memoryType d \<notin> {MEMORY_HOST, MEMORY_OUTSIDE} \<and> \<not> isHandle d"

definition may_hold :: "PipelineConfig \<Rightarrow> nat set \<Rightarrow> nat list \<Rightarrow> Describe \<Rightarrow> nat \<Rightarrow> bool" where
  "may_hold cfg W R d t \<longleftrightarrow> chunk_of d = None \<or> t \<in> W \<and>
     (getTensorStorageType d (outputStatic cfg) = DYNAMIC \<or> unread_input cfg d \<and> t \<in> set R)"

definition live_ok :: "PipelineConfig \<Rightarrow> nat set \<Rightarrow> nat list \<Rightarrow> 's Planner \<Rightarrow> bool" where
  "live_ok cfg W R p \<longleftrightarrow> (\<forall>t. may_hold cfg W R (des p t) t)"

text \<open>
  What the pipeline is given: its tensors are among those recycled; constants and trainable parameters
  have their memory already; an input is not the output of a command and can be released.
\<close>

definition tensor_ok :: "PipelineConfig \<Rightarrow> nat set \<Rightarrow> nat set \<Rightarrow> Describe \<Rightarrow> nat \<Rightarrow> bool" where
  "tensor_ok cfg W Outs d t \<longleftrightarrow> (tgroup d = index cfg \<longrightarrow> t \<in> W \<and>
     (case tusage d of
        NORMAL \<Rightarrow> True | OUTPUT \<Rightarrow> True
      | INPUT \<Rightarrow> t \<notin> Outs \<and> memoryType d \<notin> {MEMORY_HOST, MEMORY_OUTSIDE} \<and> \<not> isHandle d
      | CONSTANT \<Rightarrow> tmem d \<noteq> None | TRAINABLE \<Rightarrow> tmem d \<noteq> None))"

definition all_ok :: "PipelineConfig \<Rightarrow> nat set \<Rightarrow> nat set \<Rightarrow> nat set \<Rightarrow> 's Planner \<Rightarrow> bool" where
  "all_ok cfg T W Outs p \<longleftrightarrow> (\<forall>t \<in> T. tensor_ok cfg W Outs (des p t) t)"

lemma fixedD:
  assumes "fixed d = fixed e"
  shows "tusage d = tusage e" "memoryType d = memoryType e" "tgroup d = tgroup e" "isHandle d = isHandle e"
  using assms by (simp_all add: fixed_def)

lemma all_ok_mono:
  assumes "all_ok cfg T W Outs p" "\<And>t. fixed (des q t) = fixed (des p t)"
    "\<And>t. tusage (des p t) \<in> {CONSTANT, TRAINABLE} \<Longrightarrow> tmem (des p t) \<noteq> None \<Longrightarrow> tmem (des q t) \<noteq> None"
  shows "all_ok cfg T W Outs q"
  unfolding all_ok_def
proof
  fix t assume "t \<in> T"
  then have "tensor_ok cfg W Outs (des p t) t" using assms(1) by (simp add: all_ok_def)
  then show "tensor_ok cfg W Outs (des q t) t"
    using fixedD [OF assms(2) [of t]] assms(3) [of t] by (simp add: tensor_ok_def split: TensorUsage.splits)
qed

lemma live_ok_upd:
  assumes "live_ok cfg W R p" "des q = (des p)(t := d)" "may_hold cfg W R d t"
  shows "live_ok cfg W R q"
  using assms unfolding live_ok_def by simp

lemma allocTensor_live:
  assumes "allocTensor A cfg t p = (res, q)" "live_ok cfg W R p" "all_ok cfg T W Outs p" "t \<in> T"
    "tgroup (des p t) = index cfg \<Longrightarrow> tusage (des p t) = INPUT \<Longrightarrow> t \<in> set R \<and> allocInput cfg"
  shows "live_ok cfg W R q" "all_ok cfg T W Outs q"
proof -
  have t: "tensor_ok cfg W Outs (des p t) t" using assms(3,4) by (simp add: all_ok_def)
  show "live_ok cfg W R q"
  proof (cases rule: allocTensor_cases [of p t cfg A])
    case skip
    then show ?thesis using assms by simp
  next
    case fail
    then show ?thesis using assms by simp
  next
    case (stat k)
    let ?d = "(des p t)\<lparr>tmem := Some (StaticMem k), hasBackend := True\<rparr>"
    have q: "des q = (des p)(t := ?d)" using stat(4) assms(1) by auto
    show ?thesis by (rule live_ok_upd [OF assms(2) q]) (simp add: may_hold_def chunk_of_def)
  next
    case (dynamic c s sep)
    let ?d = "(des p t)\<lparr>tmem := Some (DynamicMem c (tbytes (des p t))), hasBackend := True\<rparr>"
    have q: "des q = (des p)(t := ?d)" using dynamic(5) assms(1) by auto
    have "may_hold cfg W R ?d t" using t dynamic(1-3) assms(5)
      by (cases "tusage (des p t)")
        (auto simp: may_hold_def unread_input_def tensor_ok_def getTensorStorageType_def split: if_splits)
    then show ?thesis by (rule live_ok_upd [OF assms(2) q])
  qed
  show "all_ok cfg T W Outs q"
    using assms(3) by (rule all_ok_mono) (use allocTensor_keeps [OF assms(1)] in blast)+
qed

lemma allocTensors_live:
  assumes "allocTensors A cfg ts p = (res, q)" "live_ok cfg W R p" "all_ok cfg T W Outs p" "set ts \<subseteq> T"
    "set ts \<subseteq> set R \<and> allocInput cfg \<or> set ts \<subseteq> Outs"
  shows "live_ok cfg W R q \<and> all_ok cfg T W Outs q"
  using assms
proof (induction ts arbitrary: p)
  case (Cons t ts)
  obtain r p1 where 1: "allocTensor A cfg t p = (r, p1)" by force
  have o: "set ts \<subseteq> set R \<and> allocInput cfg \<or> set ts \<subseteq> Outs" using Cons.prems(5) by auto
  have t: "t \<in> T" using Cons.prems(4) by simp
  have i: "t \<in> set R \<and> allocInput cfg" if "tgroup (des p t) = index cfg" "tusage (des p t) = INPUT"
  proof -
    have "tensor_ok cfg W Outs (des p t) t" using Cons.prems(3) t by (simp add: all_ok_def)
    then have "t \<notin> Outs" using that by (simp add: tensor_ok_def)
    then show ?thesis using Cons.prems(5) by simp
  qed
  note l = allocTensor_live [OF 1 Cons.prems(2,3) t i]
  show ?case
  proof (cases r)
    case True
    have a: "allocTensors A cfg ts p1 = (res, q)" "set ts \<subseteq> T" using True Cons.prems(1,4) 1 by simp_all
    show ?thesis by (rule Cons.IH [OF a(1) l a(2) o])
  next
    case False
    then have "q = p1" using Cons.prems(1) 1 by simp
    then show ?thesis using l by blast
  qed
qed simp

lemma commandAlloc_live:
  assumes "commandAlloc A cfg c p = (res, q)" "live_ok cfg W R p" "all_ok cfg T W Outs p"
    "set (workInputs c) \<subseteq> T" "set (workOutputs c) \<subseteq> T" "set (workInputs c) \<subseteq> set R" "set (workOutputs c) \<subseteq> Outs"
  shows "live_ok cfg W R q \<and> all_ok cfg T W Outs q"
proof -
  obtain r p1 where 1: "(if allocInput cfg \<and> needAllocIO c then allocTensors A cfg (workInputs c) p else (True, p)) = (r, p1)"
    by force
  have a: "live_ok cfg W R p1 \<and> all_ok cfg T W Outs p1"
  proof (cases "allocInput cfg \<and> needAllocIO c")
    case True
    then show ?thesis using 1 allocTensors_live [OF _ assms(2-4)] assms(6) by simp
  qed (use 1 assms in auto)
  show ?thesis
  proof (cases "r \<and> needAllocIO c")
    case True
    then have "allocTensors A cfg (workOutputs c) p1 = (res, q)" using assms(1) unfolding commandAlloc_def 1 by simp
    then show ?thesis by (rule allocTensors_live) (use a assms in simp_all)
  next
    case False
    then have "q = p1" using assms(1) unfolding commandAlloc_def 1 by (auto split: if_splits)
    then show ?thesis using a by simp
  qed
qed

section \<open>Releasing\<close>

lemma may_hold_useCount: "may_hold cfg W R (d\<lparr>useCount := n\<rparr>) t \<longleftrightarrow> may_hold cfg W R d t"
proof -
  have "chunk_of (d\<lparr>useCount := n\<rparr>) = chunk_of d" "unread_input cfg (d\<lparr>useCount := n\<rparr>) = unread_input cfg d"
    "getTensorStorageType (d\<lparr>useCount := n\<rparr>) b = getTensorStorageType d b" for b
    by (simp_all add: chunk_of_def unread_input_def getTensorStorageType_def)
  then show ?thesis by (simp only: may_hold_def)
qed

text \<open>A tensor that is not read any more keeps a chunk only if its storage is recycled.\<close>

lemma may_hold_last:
  assumes "may_hold cfg W (t # R) d t" "unread_input cfg d \<Longrightarrow> chunk_of e = None"
    "fixed e = fixed d" "chunk_of e = None \<or> chunk_of e = chunk_of d"
  shows "may_hold cfg W R e t"
  using assms fixed_storage [OF assms(3)] by (auto simp: may_hold_def)

lemma releaseTensor_all_ok:
  assumes "all_ok cfg T W Outs p"
  shows "all_ok cfg T W Outs (releaseTensor A cfg t p)"
  using assms
proof (rule all_ok_mono)
  fix u assume "tusage (des p u) \<in> {CONSTANT, TRAINABLE}" "tmem (des p u) \<noteq> None"
  then show "tmem (des (releaseTensor A cfg t p) u) \<noteq> None"
    by (cases "u = t") (auto simp: releaseTensor_def needRelease_def Let_def)
qed simp

lemma releaseTensor_live:
  assumes "live_ok cfg W (t # R) p" "counted U (t # R) p" "t \<in> U"
  shows "live_ok cfg W R (releaseTensor A cfg t p)"
  unfolding live_ok_def
proof
  fix u
  let ?q = "releaseTensor A cfg t p"
  have m: "may_hold cfg W (t # R) (des p u) u" using assms(1) by (simp add: live_ok_def)
  show "may_hold cfg W R (des ?q u) u"
  proof (cases "u = t \<and> t \<notin> set R")
    case False
    then have k: "may_hold cfg W R (des p u) u" using m by (auto simp: may_hold_def)
    have "tmem (des ?q u) = None \<or> des ?q u = des p u \<or> des ?q u = (des p u)\<lparr>useCount := useCount (des p u) - 1\<rparr>"
      by (auto simp: releaseTensor_def Let_def)
    then show ?thesis
    proof (elim disjE)
      assume "tmem (des ?q u) = None"
      then show ?thesis by (simp add: may_hold_def chunk_of_def)
    next
      assume "des ?q u = (des p u)\<lparr>useCount := useCount (des p u) - 1\<rparr>"
      then show ?thesis using k by (simp add: may_hold_useCount)
    qed (use k in simp)
  next
    case True
    define d where "d = (if tusage (des p t) \<noteq> CONSTANT then useCount_update (\<lambda>n. n - 1) (des p t) else des p t)"
    have q: "des ?q t = (if tgroup d = index cfg \<and> needRelease d (\<not> allocInput cfg) then d\<lparr>tmem := None\<rparr> else d)"
      by (simp add: releaseTensor_def Let_def d_def)
    have "may_hold cfg W R (des ?q t) t"
    proof (rule may_hold_last)
      show "may_hold cfg W (t # R) (des p t) t" using m True by simp
      show "fixed (des ?q t) = fixed (des p t)" by simp
      show "chunk_of (des ?q t) = None \<or> chunk_of (des ?q t) = chunk_of (des p t)"
        by (simp add: q d_def chunk_of_def)
      assume i: "unread_input cfg (des p t)"
      then have "useCount d = 0"
        using assms(2,3) True by (simp add: d_def counted_def unread_input_def count_list_0_iff)
      then have "needRelease d (\<not> allocInput cfg)" "tgroup d = index cfg"
        using i by (simp_all add: needRelease_def unread_input_def d_def)
      then show "chunk_of (des ?q t) = None" by (simp add: q chunk_of_def)
    qed
    then show ?thesis using True by simp
  qed
qed

lemma fold_releaseTensor_live:
  assumes "live_ok cfg W (ws @ R) p" "counted U (ws @ R) p" "set ws \<subseteq> U" "all_ok cfg T W Outs p"
  shows "live_ok cfg W R (fold (releaseTensor A cfg) ws p) \<and> all_ok cfg T W Outs (fold (releaseTensor A cfg) ws p)"
  using assms
proof (induction ws arbitrary: p)
  case (Cons t ws)
  have "live_ok cfg W (t # (ws @ R)) p" "counted U (t # (ws @ R)) p" "t \<in> U" using Cons.prems by simp_all
  note l = releaseTensor_live [OF this, of A] releaseTensor_counted [OF this(2), of A cfg]
  have "set ws \<subseteq> U" using Cons.prems(3) by simp
  then show ?case using Cons.IH [OF l _ releaseTensor_all_ok [OF Cons.prems(4)]] by simp
qed simp

definition tensorsOf :: "Command list \<Rightarrow> nat set" where
  "tensorsOf cs = (\<Union>c \<in> set cs. set (workInputs c) \<union> set (workOutputs c))"

definition outputsOf :: "Command list \<Rightarrow> nat set" where
  "outputsOf cs = (\<Union>c \<in> set cs. set (workOutputs c))"

lemma commandLoop_live:
  assumes "commandLoop A onResize cfg cs p = (NO_ERROR, q)" "live_ok cfg W (readings cs @ R) p"
    "all_ok cfg T W Outs p" "counted U (readings cs @ R) p" "set (readings cs) \<subseteq> U" "tensorsOf cs \<subseteq> T" "outputsOf cs \<subseteq> Outs"
  shows "live_ok cfg W R q"
  using assms
proof (induction cs arbitrary: p)
  case (Cons c cs)
  let ?R = "readings cs @ R"
  obtain p1 p2 where 1: "commandAlloc A cfg c p = (True, p1)" "commandResize onResize cfg c p1 = (NO_ERROR, p2)"
    "commandLoop A onResize cfg cs (fold (releaseTensor A cfg) (workInputs c) p2) = (NO_ERROR, q)"
    by (rule commandLoop_Cons_ok [OF Cons.prems(1)])
  have s: "set (workInputs c) \<subseteq> T" "set (workOutputs c) \<subseteq> T" "set (workOutputs c) \<subseteq> Outs" "tensorsOf cs \<subseteq> T"
    "outputsOf cs \<subseteq> Outs" "set (workInputs c) \<subseteq> U" "set (readings cs) \<subseteq> U"
    using Cons.prems(5-7) by (simp_all add: tensorsOf_def outputsOf_def)
  have "live_ok cfg W (workInputs c @ ?R) p" "counted U (workInputs c @ ?R) p" using Cons.prems(2,4) by simp_all
  note p = this
  have "live_ok cfg W (workInputs c @ ?R) p1 \<and> all_ok cfg T W Outs p1"
    by (rule commandAlloc_live [OF 1(1) p(1) Cons.prems(3) s(1,2) _ s(3)]) simp
  moreover have d: "des p2 = des p1" using 1(2) by simp
  ultimately have l: "live_ok cfg W (workInputs c @ ?R) p2" "all_ok cfg T W Outs p2"
    by (simp_all add: live_ok_def all_ok_def)
  have c: "counted U (workInputs c @ ?R) p2"
    using p(2) counted_cong [of p2 p] commandAlloc_keeps(1,2) [OF 1(1)] d by simp
  note f = fold_releaseTensor_live [OF l(1) c s(6) l(2), of A] command_keeps(1) [OF 1(1,2) p(2) s(6)]
  show ?case using Cons.IH [OF 1(3)] f s by blast
qed simp

section \<open>Recycling\<close>

lemma recycleTensor_tmem:
  "tmem (des (recycleTensor A cfg t p) u) =
     (if u = t \<and> getTensorStorageType (des p u) (outputStatic cfg) = DYNAMIC then None else tmem (des p u))"
  "fixed (des (recycleTensor A cfg t p) u) = fixed (des p u)"
  by (auto simp: recycleTensor_def fixed_def)

lemma fold_recycleTensor_tmem:
  "tmem (des (fold (recycleTensor A cfg) ts p) u) =
     (if u \<in> set ts \<and> getTensorStorageType (des p u) (outputStatic cfg) = DYNAMIC then None else tmem (des p u)) \<and>
   fixed (des (fold (recycleTensor A cfg) ts p) u) = fixed (des p u)"
proof (induction ts arbitrary: p)
  case (Cons t ts)
  have "getTensorStorageType (des (recycleTensor A cfg t p) u) b = getTensorStorageType (des p u) b" for b
    by (rule fixed_storage) (rule recycleTensor_tmem(2))
  then show ?case using Cons.IH [of "recycleTensor A cfg t p"] by (cases "u = t") (simp_all add: recycleTensor_tmem)
qed simp

text \<open>The commands whose dynamic memory is recycled at the end.\<close>

definition recycled :: "PipelineConfig \<Rightarrow> OpCacheInfo list \<Rightarrow> Command list" where
  "recycled cfg infos = filter (\<lambda>c. cgroup c = index cfg) (concat (map executeBuffer infos))"

lemma recycleAll_tmem:
  "tmem (des (recycleAll A cfg infos p) u) =
     (if u \<in> tensorsOf (recycled cfg infos) \<and> getTensorStorageType (des p u) (outputStatic cfg) = DYNAMIC
      then None else tmem (des p u))"
proof -
  have "fold (recycleDynamicMemory A cfg) cs q =
      fold (recycleTensor A cfg) (concat (map (\<lambda>c. workOutputs c @ workInputs c) cs)) q" for cs q
    by (induction cs arbitrary: q) (simp_all add: recycleDynamicMemory_def)
  then have "recycleAll A cfg infos p =
      fold (recycleTensor A cfg) (concat (map (\<lambda>c. workOutputs c @ workInputs c) (recycled cfg infos))) p"
    unfolding recycleAll_def recycled_def by blast
  moreover have "set (concat (map (\<lambda>c. workOutputs c @ workInputs c) cs)) = tensorsOf cs" for cs
    by (auto simp: tensorsOf_def)
  ultimately show ?thesis by (simp only: fold_recycleTensor_tmem)
qed

lemma recycleAll_none:
  assumes "live_ok cfg (tensorsOf (recycled cfg infos)) [] p"
  shows "chunk_of (des (recycleAll A cfg infos p) u) = None"
proof -
  have "may_hold cfg (tensorsOf (recycled cfg infos)) [] (des p u) u" using assms by (simp add: live_ok_def)
  then show ?thesis using recycleAll_tmem [of A cfg infos p u] by (auto simp: may_hold_def chunk_of_def split: if_splits)
qed

text \<open>
  What a pipeline is given when it is planned: no tensor holds dynamic memory yet, and its tensors are
  as above.
\<close>

definition pipeline_ok :: "PipelineConfig \<Rightarrow> OpCacheInfo list \<Rightarrow> 's Planner \<Rightarrow> bool" where
  "pipeline_ok cfg infos p \<longleftrightarrow> (\<forall>t. chunk_of (des p t) = None) \<and>
     all_ok cfg (tensorsOf (activeCommands infos)) (tensorsOf (recycled cfg infos)) (outputsOf (activeCommands infos)) p"

lemma returns_all:
  assumes "pipeline_ok cfg infos p" "des p1 = des (computeRefCount (activeCommands infos) p)"
    "commandLoop A onResize cfg (activeCommands infos) p1 = (NO_ERROR, q)"
  shows "chunk_of (des (recycleAll A cfg infos q) u) = None"
proof -
  define cs where "cs = activeCommands infos"
  define W where "W = tensorsOf (recycled cfg infos)"
  have t: "tmem (des p1 t) = tmem (des p t)" "fixed (des p1 t) = fixed (des p t)" for t
    unfolding assms(2) by (rule computeRefCount_keeps)+
  have n: "chunk_of (des p t) = None" for t using assms(1) by (simp add: pipeline_ok_def)
  have "chunk_of (des p1 t) = None" for t using n [of t] t(1) [of t] by (simp only: chunk_of_def)
  then have l: "live_ok cfg W (readings cs @ []) p1" by (simp only: live_ok_def may_hold_def) simp
  have "all_ok cfg (tensorsOf cs) W (outputsOf cs) p" using assms(1) by (simp only: pipeline_ok_def cs_def W_def)
  then have a: "all_ok cfg (tensorsOf cs) W (outputsOf cs) p1"
    by (rule all_ok_mono) (simp_all only: t not_False_eq_True)
  have c: "counted (set (readings cs)) (readings cs @ []) p1"
    using counted_start [of cs p] unfolding counted_def assms(2) cs_def by simp
  have "live_ok cfg W [] q"
    by (rule commandLoop_live [OF assms(3) [folded cs_def] l a c order_refl order_refl order_refl])
  then show ?thesis unfolding W_def by (rule recycleAll_none)
qed

end
