(* ===== verification/Pipeline_Defer.thy ===== *)
theory Pipeline_Defer
  imports Pipeline_Plan
begin

text \<open>
  The deferred planner keeps the contract of a \<^verbatim>\<open>BufferAllocator\<close>; with it the properties of a
  pipeline's memory plan follow: it is computed, and tensors in use at the same command are apart.
\<close>

section \<open>The deferred planner keeps the contract\<close>

definition dvalid :: "Defer \<Rightarrow> nat list \<Rightarrow> bool" where
  "dvalid s H \<longleftrightarrow> (\<exists>L. dinv s H L \<and> sparse s L) \<and> \<not> mBarrrier s \<and> 0 < mAlign s"

definition dsteps :: "Defer \<times> nat list \<Rightarrow> Defer \<times> nat list \<Rightarrow> bool" where
  "dsteps x y \<longleftrightarrow> (\<exists>ks. drun x ks y)"

lemma drun_append: "drun y ls z \<Longrightarrow> drun x ks y \<Longrightarrow> drun x (ks @ ls) z"
proof (induction rule: drun.induct)
  case (step y ls z k w)
  then show ?case using drun.step [of x "ks @ ls" z k w] by simp
qed simp

lemma dstep_dsteps: "dstep x k y \<Longrightarrow> dsteps x y"
  using drun.step [OF drun.refl, of x k y] unfolding dsteps_def by blast

lemma dvalid_step:
  assumes "dvalid s H" "dstep (s, H) k (s', H')" "\<not> mBarrrier s'"
  shows "dvalid s' H'" "dsteps (s, H) (s', H')" "\<forall>d \<in> set H \<inter> set H'. nsize (mem s' d) = nsize (mem s d)"
proof -
  obtain L where L: "dinv s H L" "sparse s L" using assms(1) by (auto simp: dvalid_def)
  obtain L' where "step_post s L k s' H' L'" using dstep_sim [OF assms(2) L(1)] by blast
  then show "dvalid s' H'" using assms(1,3) L(2) by (auto simp: dvalid_def step_post_def)
  show "dsteps (s, H) (s', H')" using assms(2) by (rule dstep_dsteps)
  show "\<forall>d \<in> set H \<inter> set H'. nsize (mem s' d) = nsize (mem s d)" using dstep_keeps [OF assms(2) L(1)] by blast
qed

lemma alloc_barrier:
  assumes "dvalid s H" "alloc sz sep al s = (c, s')"
  shows "\<not> mBarrrier s'"
proof -
  obtain L where L: "rel s L" "\<not> mBarrrier s" using assms(1) by (auto simp: dvalid_def dinv_def)
  then show ?thesis using alloc_sim [OF L(1) assms(2)] by (auto simp: alloc_post_def same_plan_def)
qed

lemma free_barrier:
  assumes "dvalid s H" "c \<in> set H"
  shows "\<not> mBarrrier (snd (free (Some c) s))"
proof -
  obtain L where L: "rel s L" "\<not> mBarrrier s" "used s L = set (H @ pending s)"
    using assms(1) by (auto simp: dvalid_def dinv_def)
  then have "c \<in> used s L" using assms(2) by simp
  then obtain L' where "free_post s L {c} (free_node c s) L'" using free_node_sim [OF L(1)] by blast
  then show ?thesis using L(2) by (simp add: free_post_def same_plan_def free_def)
qed

interpretation planned: buffer_allocator deferAllocator dvalid dsteps "\<lambda>s c. nsize (mem s c)"
proof unfold_locales
  show "dsteps x x" for x unfolding dsteps_def using drun.refl [of x] by blast
  show "dsteps x y \<Longrightarrow> dsteps y z \<Longrightarrow> dsteps x z" for x y z
    unfolding dsteps_def using drun_append [of y _ z x] by blast
  show "distinct H" if "dvalid s H" for s H using that by (auto simp: dvalid_def dinv_def)
next
  fix s :: Defer and H k sep c s'
  assume v: "dvalid s H" and a: "bAlloc deferAllocator k sep s = (c, s')"
  have a: "alloc k sep 0 s = (c, s')" using a by (simp add: deferAllocator_def)
  have e: "dstep (s, H) (align_up k (mAlign s)) (s', c # H)" using dstep.alloc [OF a, of H] by simp
  note p = dvalid_step [OF v e alloc_barrier [OF v a]]
  have "nsize (mem s' c) = align_up k (mAlign s)" using alloc_size [of k sep 0 s] a by simp
  then have "k \<le> nsize (mem s' c)" using v align_up_ge by (simp add: dvalid_def)
  then show "dvalid s' (c # H) \<and> dsteps (s, H) (s', c # H) \<and> k \<le> nsize (mem s' c) \<and>
      (\<forall>d \<in> set H. nsize (mem s' d) = nsize (mem s d))" using p by auto
next
  fix s :: Defer and H c t
  assume v: "dvalid s H" and c: "c \<in> set H"
  have "bAttach deferAllocator c t s = attach c t s" by (simp add: deferAllocator_def)
  moreover have "\<not> mBarrrier (attach c t s)" using v by (simp add: attach_def dvalid_def)
  moreover have "(\<lambda>d. nsize (mem (attach c t s) d)) = (\<lambda>d. nsize (mem s d))" by (simp add: attach_def fun_eq_iff)
  ultimately show "dvalid (bAttach deferAllocator c t s) H \<and> dsteps (s, H) (bAttach deferAllocator c t s, H) \<and>
      (\<lambda>d. nsize (mem (bAttach deferAllocator c t s) d)) = (\<lambda>d. nsize (mem s d))"
    using dvalid_step(1,2) [OF v dstep.attach [OF c, of s t]] by simp
next
  fix s :: Defer and H c
  assume v: "dvalid s H" and c: "c \<in> set H"
  note p = dvalid_step [OF v dstep.free [OF c, of s] free_barrier [OF v c]]
  have "set (remove1 c H) \<subseteq> set H" by (rule set_remove1_subset)
  then show "dvalid (bFree deferAllocator c s) (remove1 c H) \<and> dsteps (s, H) (bFree deferAllocator c s, remove1 c H) \<and>
      (\<forall>d \<in> set (remove1 c H). nsize (mem (bFree deferAllocator c s) d) = nsize (mem s d))"
    using p by (auto simp: deferAllocator_def)
qed

lemma dvalid_reset: "0 < mAlign s \<Longrightarrow> dvalid (reset s) []"
  by (auto simp: dvalid_def reset_def dinv_def rel_def rel0_def linked_def flist_def frees_def used_def
      pending_def sparse_def intro!: exI [of _ "[]"])

section \<open>Plans that start from any valid state\<close>

lemma dsteps_layouts:
  assumes "dsteps (s, H) (t, [])" "dvalid s H" "dvalid t []"
  obtains L M where "dinv s H L" "lstep\<^sup>*\<^sup>* L M" "dinv t [] M" "sparse t M"
proof -
  obtain ks where ks: "drun (s, H) ks (t, [])" using assms(1) by (auto simp: dsteps_def)
  obtain L where L: "dinv s H L" "sparse s L" using assms(2) by (auto simp: dvalid_def)
  from drun_sim [OF ks, of L] L(1) obtain M where "run_post s L ks t [] M" by auto
  then show ?thesis using L that by (auto simp: run_post_def)
qed

lemma apply_buffer_code:
  assumes "apply_buffer onAlloc s b hosts = (code, t, b', hosts')"
  shows "code = NO_ERROR \<or> code = OUT_OF_MEMORY \<and> (\<exists>n al. fst (onAlloc n al) = 0)"
proof (cases "code = NO_ERROR")
  case False
  have "fst (onAlloc (mTotalSize s) (mAlign s)) = 0"
    using assms False by (auto simp: apply_buffer_def realloc_def Let_def split: if_splits prod.splits)
  then show ?thesis using apply_buffer_keeps(1) [OF assms] by blast
qed simp

lemma dvalid_computes:
  assumes "dvalid t []"
  obtains code t' b' hosts' where "compute onAlloc t b hosts = Some (code, t', b', hosts')"
    "code = NO_ERROR \<or> code = OUT_OF_MEMORY \<and> (\<exists>n al. fst (onAlloc n al) = 0)"
proof -
  obtain M where M: "dinv t [] M" "sparse t M" "\<not> mBarrrier t" using assms by (auto simp: dvalid_def)
  show ?thesis
  proof (cases "mChunks t = []")
    case True
    have "rel t M" using M(1) by (simp add: dinv_def)
    then have "M = []" using True head_in_ids [of M] by (cases M) (auto simp: rel_def rel0_def)
    then have "mFreeList t = []" "mTotalSize t = 0" using M(1) by (auto simp: dinv_def rel_def flist_def frees_def)
    then show ?thesis using that by (simp add: compute_def)
  next
    case False
    obtain u where u: "compute onAlloc t b hosts = Some (apply_buffer onAlloc u b hosts)"
      using compute_ok [OF M(1,3,2) False] by blast
    obtain code t' b' hosts' where a: "apply_buffer onAlloc u b hosts = (code, t', b', hosts')"
      by (cases "apply_buffer onAlloc u b hosts")
    show ?thesis using that u a apply_buffer_code [OF a] by simp
  qed
qed

lemma dsteps_disjoint:
  assumes "dsteps (s, H) (t, [])" "dvalid s H" "dvalid t []" "x \<in> set H" "y \<in> set H" "x \<noteq> y"
    "compute onAlloc t b hosts = Some (code, t', b', hosts')"
  shows "noffset (mem t' x) + nsize (mem s x) \<le> noffset (mem t' y) \<or>
      noffset (mem t' y) + nsize (mem s y) \<le> noffset (mem t' x)"
    "noffset (mem t' x) + nsize (mem s x) \<le> mTotalSize t'"
proof -
  obtain L M where L: "dinv s H L" "lstep\<^sup>*\<^sup>* L M" "dinv t [] M" "sparse t M" by (rule dsteps_layouts [OF assms(1-3)])
  have g: "lgood L" using L(1) by (simp add: dinv_def rel_def rel0_def)
  have nb: "\<not> mBarrrier t" using assms(3) by (simp add: dvalid_def)
  note x = used_chunk(2,5) [OF L(1) assms(4)] and y = used_chunk(2,5) [OF L(1) assms(5)]
  obtain code2 t2 b2 hosts2 where c: "compute onAlloc t b hosts = Some (code2, t2, b2, hosts2)" "mTotalSize t2 = ltotal M"
    and p: "\<And>x p. lplace M x = Some p \<Longrightarrow> noffset (mem t2 x) = p"
    by (rule finished_compute [OF L(3) nb L(4) finished_nonempty [OF L(1-3) assms(4)], of onAlloc b hosts]) (rule that)
  have e: "t2 = t'" using c(1) assms(7) by simp
  show "noffset (mem t' x) + nsize (mem s x) \<le> noffset (mem t' y) \<or>
      noffset (mem t' y) + nsize (mem s y) \<le> noffset (mem t' x)"
    using layout.run_disjoint [OF L(2) g x(1) y(1) assms(6)] p x(2) y(2) e by auto
  show "noffset (mem t' x) + nsize (mem s x) \<le> mTotalSize t'"
    using layout.run_inside [OF L(2) g x(1)] p x(2) c(2) e by auto
qed

section \<open>The pipeline on the deferred planner\<close>

text \<open>
  An execution, while it is resized, only uses the allocator as a client, and returns what it took;
  it neither changes the size of the chunks of others nor leaves a barrier open.
\<close>

definition resizes_well :: "(Command \<Rightarrow> Defer \<Rightarrow> ErrorCode \<times> Defer) \<Rightarrow> bool" where
  "resizes_well onResize \<longleftrightarrow> (\<forall>c s H. dvalid s H \<longrightarrow> dvalid (snd (onResize c s)) H \<and> dsteps (s, H) (snd (onResize c s), H) \<and>
     (\<forall>d \<in> set H. nsize (mem (snd (onResize c s)) d) = nsize (mem s d)))"

lemma balanced_resizes: "resizes_well onResize \<Longrightarrow> planned.balanced onResize"
  by (simp only: resizes_well_def planned.balanced_def)

text \<open>The state in which the commands are visited: counts computed, allocator reset.\<close>

definition planStart :: "OpCacheInfo list \<Rightarrow> Defer Planner \<Rightarrow> Defer Planner" where
  "planStart infos p = (computeRefCount (activeCommands infos) p)\<lparr>dyn := reset (dyn p)\<rparr>"

lemma allocForTensor_start:
  "allocForTensor onResize onAlloc cfg infos p b hosts =
     (let (code, p2) = commandLoop deferAllocator onResize cfg (activeCommands infos) (planStart infos p)
      in if code \<noteq> NO_ERROR then Some (code, p2, b, hosts)
         else
           (let p3 = recycleAll deferAllocator cfg infos p2
            in case compute onAlloc (dyn p3) b hosts of
                 None \<Rightarrow> None
               | Some (code, s, b', hosts') \<Rightarrow> Some (code, p3\<lparr>dyn := s\<rparr>, b', hosts')))"
  by (simp only: allocForTensor_def planStart_def Let_def computeRefCount_keeps)

lemma start_owned:
  assumes "pipeline_ok cfg infos p" "0 < mAlign (dyn p)"
  shows "planned.owned (planStart infos p) []"
proof -
  have "tmem (des (planStart infos p) t) = tmem (des p t)" for t by (simp add: planStart_def)
  then have n: "chunk_of (des (planStart infos p) t) = None" for t
    using assms(1) by (simp add: pipeline_ok_def chunk_of_def)
  have "tmem (des (planStart infos p) t) \<noteq> Some (DynamicMem c k)" for t c k
  proof
    assume "tmem (des (planStart infos p) t) = Some (DynamicMem c k)"
    then have "chunk_of (des (planStart infos p) t) = Some c" by (simp add: chunk_of_def)
    then show False using n by simp
  qed
  moreover have "dvalid (dyn (planStart infos p)) []" using assms(2) dvalid_reset by (simp add: planStart_def)
  ultimately show ?thesis using n by (simp add: planned.owned_def)
qed

text \<open>After a successful visit of the commands, the recycled state holds nothing.\<close>

lemma end_owned:
  assumes "pipeline_ok cfg infos p" "commandLoop deferAllocator onResize cfg (activeCommands infos) (planStart infos p) = (NO_ERROR, q)"
    "planned.owned (recycleAll deferAllocator cfg infos q) H"
  shows "H = []"
proof -
  have "des (planStart infos p) = des (computeRefCount (activeCommands infos) p)" by (simp add: planStart_def)
  then have "chunk_of (des (recycleAll deferAllocator cfg infos q) u) = None" for u
    by (rule returns_all [OF assms(1) _ assms(2)])
  then have "set H = {}" using assms(3) by (auto simp: planned.owned_def)
  then show ?thesis by simp
qed

section \<open>The visit of one command\<close>

lemma loop_owned:
  assumes "pipeline_ok cfg infos p" "0 < mAlign (dyn p)" "resizes_well onResize"
    "commandLoop deferAllocator onResize cfg (activeCommands infos) (planStart infos p) = (NO_ERROR, q)"
  shows "planned.owned (recycleAll deferAllocator cfg infos q) []"
proof -
  have "planned.leads (planStart infos p) q"
    using planned.commandLoop_leads [OF balanced_resizes [OF assms(3)], of "planStart infos p" cfg "activeCommands infos"] assms(4) by simp
  from planned.leads_trans [OF this planned.recycleAll_leads]
  obtain H where "planned.owned (recycleAll deferAllocator cfg infos q) H"
    using start_owned [OF assms(1,2)] unfolding planned.leads_def by blast
  then show ?thesis using end_owned [OF assms(1,4)] by blast
qed

lemma stateAt_leads:
  assumes "stateAt deferAllocator onResize cfg pre c p = Some r" "resizes_well onResize"
  shows "planned.leads p r"
proof -
  obtain q where q: "commandLoop deferAllocator onResize cfg pre p = (NO_ERROR, q)" "commandAlloc deferAllocator cfg c q = (True, r)"
    by (rule stateAt_Some [OF assms(1)])
  have "planned.leads p q"
    using planned.commandLoop_leads [OF balanced_resizes [OF assms(2)], of p cfg pre] q(1) by simp
  moreover have "planned.leads q r" using planned.commandAlloc_leads [of q cfg c] q(2) by simp
  ultimately show ?thesis by (rule planned.leads_trans)
qed

lemma stateAt_rest_leads:
  assumes "stateAt deferAllocator onResize cfg pre c p = Some r" "resizes_well onResize"
    "commandLoop deferAllocator onResize cfg (pre @ c # post) p = (NO_ERROR, q)"
  shows "planned.leads r q"
proof -
  note b = balanced_resizes [OF assms(2)]
  obtain a where a: "commandLoop deferAllocator onResize cfg pre p = (NO_ERROR, a)" "commandAlloc deferAllocator cfg c a = (True, r)"
    by (rule stateAt_Some [OF assms(1)])
  have "commandLoop deferAllocator onResize cfg (c # post) a = (NO_ERROR, q)" using assms(3) a(1) by (simp add: commandLoop_append)
  then obtain p2 where p2: "commandResize onResize cfg c r = (NO_ERROR, p2)"
    "commandLoop deferAllocator onResize cfg post (fold (releaseTensor deferAllocator cfg) (workInputs c) p2) = (NO_ERROR, q)"
    using a(2) by (elim commandLoop_Cons_ok) simp
  have 1: "planned.leads r p2" using planned.commandResize_leads [OF b, of r cfg c] p2(1) by simp
  have 2: "planned.leads p2 (fold (releaseTensor deferAllocator cfg) (workInputs c) p2)"
    by (rule planned.leads_fold [of "releaseTensor deferAllocator cfg"]) (rule planned.releaseTensor_leads)
  have "planned.leads (fold (releaseTensor deferAllocator cfg) (workInputs c) p2) q"
    using planned.commandLoop_leads [OF b, of "fold (releaseTensor deferAllocator cfg) (workInputs c) p2" cfg post] p2(2) by simp
  from planned.leads_trans [OF planned.leads_trans [OF 1 2] this] show ?thesis .
qed

lemma allocForTensor_ok:
  assumes "allocForTensor onResize onAlloc cfg infos p b hosts = Some (NO_ERROR, q, b', hosts')"
  obtains q1 where "commandLoop deferAllocator onResize cfg (activeCommands infos) (planStart infos p) = (NO_ERROR, q1)"
    "compute onAlloc (dyn (recycleAll deferAllocator cfg infos q1)) b hosts = Some (NO_ERROR, dyn q, b', hosts')"
proof -
  obtain code q1 where l: "commandLoop deferAllocator onResize cfg (activeCommands infos) (planStart infos p) = (code, q1)" by force
  have "code = NO_ERROR" using assms by (auto simp: allocForTensor_start l split: if_splits)
  then show ?thesis using assms l that [of q1] by (auto simp: allocForTensor_start Let_def split: option.splits)
qed

end
