(* ===== verification/Pipeline_Results.thy ===== *)
theory Pipeline_Results
  imports Pipeline_Defer
begin

text \<open>
  The properties of a pipeline's memory planning, each with a concrete pipeline of two commands: the
  first reads the input tensor 0 and writes tensor 1, the second reads tensor 1 and writes the output 2.
\<close>

section \<open>Release after the last reading\<close>

definition releasable :: "PipelineConfig \<Rightarrow> Describe \<Rightarrow> bool" where
  "releasable cfg d \<longleftrightarrow> tgroup d = index cfg \<and> tusage d = NORMAL \<and> hasBackend d \<and> \<not> isHandle d \<and>
     memoryType d \<notin> {MEMORY_HOST, MEMORY_OUTSIDE}"

lemma releasable_mono:
  "releasable cfg d \<Longrightarrow> fixed e = fixed d \<Longrightarrow> hasBackend d \<Longrightarrow> hasBackend e \<Longrightarrow> releasable cfg e"
  by (simp add: releasable_def fixed_def)

lemma allocTensor_backend:
  assumes "allocTensor A cfg t p = (res, q)" "hasBackend (des p u)"
  shows "hasBackend (des q u)"
  by (cases rule: allocTensor_cases [of p t cfg A]) (use assms in auto)

lemma allocTensors_backend:
  "allocTensors A cfg ts p = (res, q) \<Longrightarrow> hasBackend (des p u) \<Longrightarrow> hasBackend (des q u)"
proof (induction ts arbitrary: p)
  case (Cons t ts)
  obtain r p1 where 1: "allocTensor A cfg t p = (r, p1)" by force
  then show ?case using Cons allocTensor_backend [OF 1] by (cases r) simp_all
qed simp

lemma commandAlloc_backend:
  assumes "commandAlloc A cfg c p = (res, q)" "hasBackend (des p u)"
  shows "hasBackend (des q u)"
proof -
  obtain r p1 where 1: "(if allocInput cfg \<and> needAllocIO c then allocTensors A cfg (workInputs c) p else (True, p)) = (r, p1)"
    by force
  then have "hasBackend (des p1 u)" using allocTensors_backend assms(2) by (auto split: if_splits)
  then show ?thesis using assms(1) allocTensors_backend [of A cfg "workOutputs c" p1 res q u]
    unfolding commandAlloc_def 1 by (auto split: if_splits)
qed

lemma releaseTensor_backend [simp]: "hasBackend (des (releaseTensor A cfg t p) u) = hasBackend (des p u)"
  by (simp add: releaseTensor_def Let_def)

lemma fold_releaseTensor_backend [simp]: "hasBackend (des (fold (releaseTensor A cfg) ts p) u) = hasBackend (des p u)"
  by (induction ts arbitrary: p) simp_all

lemma fold_releaseTensor_other: "u \<notin> set ts \<Longrightarrow> des (fold (releaseTensor A cfg) ts p) u = des p u"
  by (induction ts arbitrary: p) (simp_all add: releaseTensor_other)

lemma commandLoop_backend:
  "commandLoop A onResize cfg cs p = (NO_ERROR, q) \<Longrightarrow> hasBackend (des p u) \<Longrightarrow> hasBackend (des q u)"
proof (induction cs arbitrary: p)
  case (Cons c cs)
  obtain p1 p2 where 1: "commandAlloc A cfg c p = (True, p1)" "commandResize onResize cfg c p1 = (NO_ERROR, p2)"
    "commandLoop A onResize cfg cs (fold (releaseTensor A cfg) (workInputs c) p2) = (NO_ERROR, q)"
    by (rule commandLoop_Cons_ok [OF Cons.prems(1)])
  have "hasBackend (des p2 u)" using commandAlloc_backend [OF 1(1) Cons.prems(2)] commandResize_des [OF 1(2)] by simp
  then show ?case using Cons.IH [OF 1(3)] by simp
qed simp

lemma fold_releaseTensor_last:
  assumes "counted U (ws @ R) p" "set ws \<subseteq> U" "t \<in> set ws" "t \<notin> set R" "releasable cfg (des p t)"
  shows "tmem (des (fold (releaseTensor A cfg) ws p) t) = None"
  using assms
proof (induction ws arbitrary: p)
  case (Cons x ws)
  let ?q = "releaseTensor A cfg x p"
  have c: "counted U (x # (ws @ R)) p" using Cons.prems(1) by simp
  show ?case
  proof (cases "t \<in> set ws")
    case True
    have "releasable cfg (des ?q t)"
      using Cons.prems(5) by (rule releasable_mono) (use Cons.prems(5) in \<open>simp_all add: releasable_def\<close>)
    then show ?thesis using Cons.IH [OF releaseTensor_counted [OF c] _ True Cons.prems(4)] Cons.prems(2) by simp
  next
    case False
    then have x: "x = t" using Cons.prems(3) by simp
    have "useCount (des p t) = 1"
      using c Cons.prems(2,4,5) False x by (simp add: counted_def releasable_def count_list_0_iff)
    then have "tmem (des ?q t) = None"
      using Cons.prems(5) x by (simp add: releaseTensor_def needRelease_def Let_def releasable_def)
    then show ?thesis using fold_releaseTensor_other [OF False, of A cfg ?q] by simp
  qed
qed simp

section \<open>When planning succeeds\<close>

text \<open>A tensor of the group can be served: it is not empty and, if static, the static allocator has room.\<close>

definition served :: "PipelineConfig \<Rightarrow> Describe \<Rightarrow> bool" where
  "served cfg d \<longleftrightarrow> (tgroup d = index cfg \<longrightarrow> tbytes d \<noteq> 0 \<and>
     (getTensorStorageType d (outputStatic cfg) = STATIC \<longrightarrow> staticAlloc cfg (tbytes d)))"

lemma served_fixed: "fixed d = fixed e \<Longrightarrow> served cfg d \<longleftrightarrow> served cfg e"
  using fixed_storage [of d e] by (simp add: served_def fixed_def)

lemma allocTensor_succeeds:
  assumes "served cfg (des p t)"
  shows "fst (allocTensor A cfg t p)"
proof (cases "tgroup (des p t) = index cfg \<and> tmem (des p t) = None")
  case True
  let ?k = "tbytes (des p t)" and ?st = "getTensorStorageType (des p t) (outputStatic cfg)"
  have s: "?k \<noteq> 0" "?st = STATIC \<Longrightarrow> staticAlloc cfg ?k" "?st \<noteq> DYNAMIC_IN_EXECUTION"
    using assms True by (simp_all add: served_def getTensorStorageType_def)
  have e: "allocTensor A cfg t p = onAcquireBuffer A cfg t ?st p" using True by (simp add: allocTensor_def Let_def)
  have b: "fst (allocBuffer A cfg ?k t ?st p) \<noteq> None"
    using s True by (cases ?st) (simp_all add: allocBuffer_def Let_def split: prod.split)
  obtain o1 p1 where o: "allocBuffer A cfg ?k t ?st p = (o1, p1)" by force
  then obtain m where "o1 = Some m" using b by (cases o1) simp_all
  then show ?thesis using o by (simp add: e onAcquireBuffer_def)
qed (auto simp: allocTensor_def Let_def)

lemma allocTensors_succeeds:
  assumes "\<And>t. served cfg (des p t)"
  shows "\<exists>q. allocTensors A cfg ts p = (True, q) \<and> (\<forall>t. served cfg (des q t))"
  using assms
proof (induction ts arbitrary: p)
  case (Cons t ts)
  obtain p1 where 1: "allocTensor A cfg t p = (True, p1)"
    using allocTensor_succeeds [OF Cons.prems, of A t] by (cases "allocTensor A cfg t p") auto
  have "served cfg (des p1 u)" for u using Cons.prems [of u] served_fixed [OF allocTensor_keeps(1) [OF 1, of u]] by simp
  from Cons.IH [OF this] 1 show ?case by simp
qed simp

lemma commandAlloc_succeeds:
  assumes "\<And>t. served cfg (des p t)"
  shows "\<exists>q. commandAlloc A cfg c p = (True, q) \<and> (\<forall>t. served cfg (des q t))"
proof -
  obtain p1 where 1: "(if allocInput cfg \<and> needAllocIO c then allocTensors A cfg (workInputs c) p else (True, p)) = (True, p1)"
    "\<forall>t. served cfg (des p1 t)"
    using allocTensors_succeeds [OF assms, of A "workInputs c"] assms by (cases "allocInput cfg \<and> needAllocIO c") auto
  obtain p2 where 2: "allocTensors A cfg (workOutputs c) p1 = (True, p2)" "\<forall>t. served cfg (des p2 t)"
    using allocTensors_succeeds [of cfg p1 A "workOutputs c"] 1(2) by blast
  show ?thesis using 1 2 by (cases "needAllocIO c") (simp_all add: commandAlloc_def)
qed

lemma commandLoop_succeeds:
  assumes "\<And>t. served cfg (des p t)" "\<And>c s. fst (onResize c s) = NO_ERROR"
  shows "\<exists>q. commandLoop A onResize cfg cs p = (NO_ERROR, q) \<and> (\<forall>t. served cfg (des q t))"
  using assms(1)
proof (induction cs arbitrary: p)
  case (Cons c cs)
  obtain p1 where 1: "commandAlloc A cfg c p = (True, p1)" "\<forall>t. served cfg (des p1 t)"
    using commandAlloc_succeeds [OF Cons.prems, of A c] by blast
  obtain code p2 where 2: "commandResize onResize cfg c p1 = (code, p2)" by force
  have "fst (commandResize onResize cfg c p1) = NO_ERROR"
    using assms(2) [of c "dyn p1"] by (simp add: commandResize_def split_beta)
  then have c: "code = NO_ERROR" using 2 by simp
  have f: "fixed (des (fold (releaseTensor A cfg) ts q) u) = fixed (des q u)" for ts q u
    by (induction ts arbitrary: q) simp_all
  have "served cfg (des (fold (releaseTensor A cfg) (workInputs c) p2) u)" for u
    using 1(2) served_fixed [OF f, of cfg "workInputs c" p2 u] commandResize_des [OF 2] by simp
  from Cons.IH [OF this] show ?case using 1(1) 2 c by simp
qed simp

lemma stateAt_exists:
  assumes "\<And>t. served cfg (des p t)" "\<And>c s. fst (onResize c s) = NO_ERROR"
  shows "\<exists>r. stateAt A onResize cfg pre c p = Some r"
proof -
  obtain q where q: "commandLoop A onResize cfg pre p = (NO_ERROR, q)" "\<forall>t. served cfg (des q t)"
    using commandLoop_succeeds [where A = A and onResize = onResize and cs = pre, OF assms] by blast
  obtain r where "commandAlloc A cfg c q = (True, r)" using commandAlloc_succeeds [of cfg q A c] q(2) by blast
  then show ?thesis using q(1) by (simp add: stateAt_def)
qed

text \<open>When every command was visited without an error, the plan is computed.\<close>

lemma allocForTensor_planned:
  assumes "pipeline_ok cfg infos p" "0 < mAlign (dyn p)" "resizes_well onResize"
    "commandLoop deferAllocator onResize cfg (activeCommands infos) (planStart infos p) = (NO_ERROR, q)"
  obtains res q' b' hosts' where "allocForTensor onResize onAlloc cfg infos p b hosts = Some (res, q', b', hosts')"
    "res = NO_ERROR \<or> res = OUT_OF_MEMORY \<and> (\<exists>n al. fst (onAlloc n al) = 0)" "\<And>t. chunk_of (des q' t) = None"
proof -
  let ?e = "recycleAll deferAllocator cfg infos q"
  have o: "planned.owned ?e []" by (rule loop_owned [OF assms])
  then have "dvalid (dyn ?e) []" by (simp add: planned.owned_def)
  then obtain res s b' hosts' where c: "compute onAlloc (dyn ?e) b hosts = Some (res, s, b', hosts')"
    "res = NO_ERROR \<or> res = OUT_OF_MEMORY \<and> (\<exists>n al. fst (onAlloc n al) = 0)"
    by (rule dvalid_computes [of _ onAlloc b hosts])
  have "chunk_of (des ?e t) = None" for t
    using o by (cases "chunk_of (des ?e t)") (auto simp: planned.owned_def)
  then show ?thesis using c that by (simp add: allocForTensor_start assms(4))
qed

section \<open>A concrete pipeline\<close>

definition w_tensor :: "TensorUsage \<Rightarrow> nat \<Rightarrow> Describe" where
  "w_tensor u n = \<lparr>tusage = u, useCount = 0, memoryType = MEMORY_BACKEND, tgroup = 0, hasBackend = True,
     isHandle = False, tbytes = n, tmem = None\<rparr>"

definition w_planner :: "Defer Planner" where
  "w_planner = \<lparr>des = (\<lambda>_. w_tensor NORMAL 10)(0 := w_tensor INPUT 30, 2 := w_tensor OUTPUT 50), dyn = initDefer 16\<rparr>"

definition w_first :: Command where
  "w_first = \<lparr>workInputs = [0], workOutputs = [1], needAllocIO = True, cgroup = 0\<rparr>"

definition w_second :: Command where
  "w_second = \<lparr>workInputs = [1], workOutputs = [2], needAllocIO = True, cgroup = 0\<rparr>"

definition w_infos :: "OpCacheInfo list" where
  "w_infos = [\<lparr>isConstant = False, executeBuffer = [w_first]\<rparr>, \<lparr>isConstant = False, executeBuffer = [w_second]\<rparr>]"

definition w_cfg :: PipelineConfig where
  "w_cfg = \<lparr>index = 0, allocInput = True, outputStatic = False, staticAlloc = (\<lambda>_. True)\<rparr>"

text \<open>An execution that needs 64 bytes of its own.\<close>

definition w_resize :: "Command \<Rightarrow> Defer \<Rightarrow> ErrorCode \<times> Defer" where
  "w_resize c s = (let (k, s1) = alloc 64 False 0 s in (NO_ERROR, snd (free (Some k) s1)))"

lemma w_resizes_well: "resizes_well w_resize"
  unfolding resizes_well_def
proof (intro allI impI)
  fix c :: Command and s H assume v: "dvalid s H"
  obtain k s1 where a: "alloc 64 False 0 s = (k, s1)" by force
  then have "bAlloc deferAllocator 64 False s = (k, s1)" by (simp add: deferAllocator_def)
  note l = planned.alloc_law [OF v this]
  have e: "snd (w_resize c s) = bFree deferAllocator k s1" by (simp add: w_resize_def a deferAllocator_def)
  have f: "dvalid (snd (w_resize c s)) H \<and> dsteps (s1, k # H) (snd (w_resize c s), H) \<and>
      (\<forall>d \<in> set H. nsize (mem (snd (w_resize c s)) d) = nsize (mem s1 d))"
    using planned.free_law [of s1 "k # H" k] l e by simp
  then show "dvalid (snd (w_resize c s)) H \<and> dsteps (s, H) (snd (w_resize c s), H) \<and>
      (\<forall>d \<in> set H. nsize (mem (snd (w_resize c s)) d) = nsize (mem s d))"
    using l planned.steps_trans [of "(s, H)" "(s1, k # H)"] by simp
qed

lemma w_active: "activeCommands w_infos = [w_first, w_second]"
  by (simp add: activeCommands_def w_infos_def)

lemma w_ok: "pipeline_ok w_cfg w_infos w_planner" "0 < mAlign (dyn w_planner)"
  unfolding pipeline_ok_def w_active
  by (simp_all add: all_ok_def tensor_ok_def recycled_def w_infos_def tensorsOf_def outputsOf_def
      w_first_def w_second_def w_planner_def w_tensor_def w_cfg_def chunk_of_def initDefer_def)

lemma w_states:
  "map_option (\<lambda>r. (tmem (des r 0), tmem (des r 1))) (stateAt deferAllocator w_resize w_cfg [] w_first (planStart w_infos w_planner)) =
     Some (Some (DynamicMem 0 30), Some (DynamicMem 1 10))"
  by code_simp

lemma w_served: "served w_cfg (des (planStart w_infos w_planner) t)"
proof (rule served_fixed [THEN iffD2])
  show "fixed (des (planStart w_infos w_planner) t) = fixed (des w_planner t)" by (simp add: planStart_def)
  show "served w_cfg (des w_planner t)"
    by (simp add: served_def w_planner_def w_tensor_def w_cfg_def getTensorStorageType_def)
qed

lemma w_no_error: "fst (w_resize c s) = NO_ERROR"
  by (simp add: w_resize_def split_beta)

lemma w_loop: "\<exists>q. commandLoop deferAllocator w_resize w_cfg (activeCommands w_infos) (planStart w_infos w_planner) = (NO_ERROR, q)"
  using commandLoop_succeeds [where onResize = w_resize, OF w_served w_no_error] by blast

lemma fold_count_dyn:
  "fold resetCount ts (p\<lparr>dyn := s\<rparr>) = (fold resetCount ts p)\<lparr>dyn := s\<rparr>"
  "fold addCount ts (p\<lparr>dyn := s\<rparr>) = (fold addCount ts p)\<lparr>dyn := s\<rparr>"
proof -
  have 1: "resetCount t (q\<lparr>dyn := s\<rparr>) = (resetCount t q)\<lparr>dyn := s\<rparr>" for t q by (simp add: resetCount_def)
  have 2: "addCount t (q\<lparr>dyn := s\<rparr>) = (addCount t q)\<lparr>dyn := s\<rparr>" for t q by (simp add: addCount_def)
  show "fold resetCount ts (p\<lparr>dyn := s\<rparr>) = (fold resetCount ts p)\<lparr>dyn := s\<rparr>"
    by (induction ts arbitrary: p) (simp_all only: fold_simps 1)
  show "fold addCount ts (p\<lparr>dyn := s\<rparr>) = (fold addCount ts p)\<lparr>dyn := s\<rparr>"
    by (induction ts arbitrary: p) (simp_all only: fold_simps 2)
qed

lemma planStart_counts: "planStart infos p = computeRefCount (activeCommands infos) (p\<lparr>dyn := reset (dyn p)\<rparr>)"
  by (simp only: planStart_def computeRefCount_def fold_count_dyn)

section \<open>The properties\<close>

text \<open>
  C5. A tensor keeps its memory until its last reading, whatever the allocator and the executions are:
  if a command of the pipeline produces a tensor of the group being planned, it gets memory for it, and
  that same memory is still the tensor's when any later command that reads it is resized.
\<close>

theorem pipeline_keeps_memory:
  assumes "activeCommands infos = pre @ c0 # mid @ c # post"
    "stateAt A onResize cfg pre c0 (computeRefCount (activeCommands infos) p) = Some r0"
    "stateAt A onResize cfg (pre @ c0 # mid) c (computeRefCount (activeCommands infos) p) = Some r"
    "needAllocIO c0" "t \<in> set (workOutputs c0)" "tgroup (des p t) = index cfg" "t \<in> set (workInputs c)"
  shows "\<exists>m. tmem (des r0 t) = Some m \<and> tmem (des r t) = Some m"
proof -
  let ?cs = "activeCommands infos" and ?p = "computeRefCount (activeCommands infos) p"
  obtain q where q: "commandLoop A onResize cfg pre ?p = (NO_ERROR, q)" "commandAlloc A cfg c0 q = (True, r0)"
    by (rule stateAt_Some [OF assms(2)])
  have n: "counted (set (readings ?cs)) (readings pre @ readings (c0 # mid @ c # post)) ?p"
    using counted_start [of ?cs p] assms(1) by simp
  have "fixed (des q t) = fixed (des ?p t)"
    by (rule commandLoop_keeps(3) [OF q(1) n]) (simp add: assms(1))
  then have "tgroup (des q t) = index cfg" using assms(6) fixedD(3) [of "des q t" "des p t"] by simp
  then obtain m where m: "tmem (des r0 t) = Some m" using commandAlloc_keeps(4) [OF q(2)] assms(4,5) by auto
  have "tmem (des r t) = Some m"
    by (rule pipeline_keeps [OF _ _ assms(2,3,7) m, of "set (readings ?cs)" post])
      (use counted_start [of ?cs p] in \<open>simp_all add: assms(1)\<close>)
  then show ?thesis using m by blast
qed

theorem pipeline_keeps_memory_witness:
  "\<exists>r0 r m. stateAt deferAllocator w_resize w_cfg [] w_first (planStart w_infos w_planner) = Some r0 \<and>
     stateAt deferAllocator w_resize w_cfg [w_first] w_second (planStart w_infos w_planner) = Some r \<and>
     tmem (des r0 1) = Some m \<and> tmem (des r 1) = Some m"
proof -
  obtain r0 where r0: "stateAt deferAllocator w_resize w_cfg [] w_first (planStart w_infos w_planner) = Some r0"
    using stateAt_exists [where onResize = w_resize, OF w_served w_no_error] by blast
  obtain r where r: "stateAt deferAllocator w_resize w_cfg ([] @ w_first # []) w_second (planStart w_infos w_planner) = Some r"
    using stateAt_exists [where onResize = w_resize, OF w_served w_no_error] by blast
  have "activeCommands w_infos = [] @ w_first # [] @ w_second # []" by (simp add: w_active)
  from pipeline_keeps_memory [OF this r0 [unfolded planStart_counts] r [unfolded planStart_counts], of 1] r0 r
  show ?thesis by (simp add: w_first_def w_second_def w_planner_def w_tensor_def w_cfg_def)
qed





text \<open>
  C16. Memory is given back as early as possible: after the command with the last reading of an
  intermediate tensor of the group, the tensor holds no memory, so later commands can reuse it.
\<close>

theorem pipeline_releases:
  assumes "activeCommands infos = pre @ c # post"
    "commandLoop A onResize cfg (pre @ [c]) (computeRefCount (activeCommands infos) p) = (NO_ERROR, q)"
    "t \<in> set (workInputs c)" "t \<notin> set (readings post)" "releasable cfg (des p t)"
    "hasBackend (des (computeRefCount (activeCommands infos) p) t)"
  shows "tmem (des q t) = None"
proof -
  let ?cs = "activeCommands infos" and ?p = "computeRefCount (activeCommands infos) p"
  obtain code a where a0: "commandLoop A onResize cfg pre ?p = (code, a)" by force
  then have "code = NO_ERROR" using assms(2) by (auto simp: commandLoop_append split: if_splits)
  then have a: "commandLoop A onResize cfg pre ?p = (NO_ERROR, a)" "commandLoop A onResize cfg [c] a = (NO_ERROR, q)"
    using a0 assms(2) by (simp_all add: commandLoop_append)
  obtain p1 p2 where 1: "commandAlloc A cfg c a = (True, p1)" "commandResize onResize cfg c p1 = (NO_ERROR, p2)"
    "commandLoop A onResize cfg [] (fold (releaseTensor A cfg) (workInputs c) p2) = (NO_ERROR, q)"
    by (rule commandLoop_Cons_ok [OF a(2)])
  let ?U = "set (readings ?cs)" and ?R = "workInputs c @ readings post"
  have n: "counted ?U (readings pre @ ?R) ?p" using counted_start [of ?cs p] assms(1) by simp
  have u: "set (readings pre) \<subseteq> ?U" "set (workInputs c) \<subseteq> ?U" using assms(1) by auto
  note k = commandLoop_keeps(1,3) [OF a(1) n u(1)]
  have d: "des p2 = des p1" using 1(2) by simp
  have f: "fixed (des p2 v) = fixed (des p v)" "counted ?U ?R p2" for v
    using commandAlloc_keeps(1,2) [OF 1(1)] k d counted_cong [of p2 a] by simp_all
  have "hasBackend (des p2 t)"
    using commandAlloc_backend [OF 1(1) commandLoop_backend [OF a(1) assms(6)]] d by simp
  then have "releasable cfg (des p2 t)" using assms(5) f(1) releasable_mono [of cfg "des p t" "des p2 t"]
    by (simp add: releasable_def)
  from fold_releaseTensor_last [OF f(2) u(2) assms(3,4) this, of A] show ?thesis using 1(3) by simp
qed

theorem pipeline_releases_witness:
  "\<exists>q. commandLoop deferAllocator w_resize w_cfg [w_first, w_second] (planStart w_infos w_planner) = (NO_ERROR, q) \<and>
     tmem (des q 1) = None"
proof -
  obtain l where l: "commandLoop deferAllocator w_resize w_cfg ([w_first] @ [w_second]) (planStart w_infos w_planner) = (NO_ERROR, l)"
    using w_loop w_active by auto
  have a: "activeCommands w_infos = [w_first] @ w_second # []" by (simp add: w_active)
  have b: "hasBackend (des (computeRefCount (activeCommands w_infos) (w_planner\<lparr>dyn := reset (dyn w_planner)\<rparr>)) 1)"
    by (simp add: w_active computeRefCount_def resetCount_def addCount_def w_first_def w_second_def w_planner_def w_tensor_def)
  have "1 \<in> set (workInputs w_second)" "1 \<notin> set (readings [])"
    "releasable w_cfg (des (w_planner\<lparr>dyn := reset (dyn w_planner)\<rparr>) 1)"
    by (simp_all add: w_second_def releasable_def w_planner_def w_tensor_def w_cfg_def)
  from pipeline_releases [OF a l [unfolded planStart_counts] this b] l show ?thesis by auto
qed



text \<open>
  The size of a memory object is an \<^verbatim>\<open>int\<close>: a tensor that has three gigabytes and asks for five
  keeps its three, because the truncated size is negative and compares as a huge \<^verbatim>\<open>size_t\<close>.
\<close>

theorem allocBuffer_truncated_size:
  "(let p = set_des 1 (tmem_update (\<lambda>_. Some (StaticMem (3 * 2 ^ 30)))) w_planner
    in allocBuffer deferAllocator w_cfg (5 * 2 ^ 30) 1 STATIC p = (Some (StaticMem (3 * 2 ^ 30)), p))"
  by (simp add: allocBuffer_def memSize_def Let_def)

end
