(* ===== verification/Shape_Tensor.thy ===== *)
theory Shape_Tensor
  imports MNN_Prelude
begin

text \<open>
  Tensors as shape inference sees them (\<^verbatim>\<open>include/MNN/Tensor.hpp\<close>, \<^verbatim>\<open>source/core/Tensor.cpp\<close>,
  \<^verbatim>\<open>source/core/TensorUtils.cpp\<close>): the number of dimensions, the extents, the element type, the
  dimension format and, for shape arguments, the integers behind \<^verbatim>\<open>host<int>()\<close>.

  An extent is a C \<^verbatim>\<open>int\<close>, here a mathematical integer: the two agree as long as no intermediate
  value leaves the 32-bit range. The array \<^verbatim>\<open>dim\<close> is a function, because the code also reads and
  writes extents beyond \<^verbatim>\<open>dimensions\<close> (they keep what an earlier operation left there).
  Sizes in bytes, which do overflow in practice, are computed modulo the machine width.
\<close>

section \<open>Data\<close>

datatype halide_type_code =
  halide_type_int | halide_type_uint | halide_type_float | halide_type_handle | halide_type_bfloat

datatype halide_type = HType (code: halide_type_code) (bits: int)

datatype MNN_DATA_FORMAT =
    MNN_DATA_FORMAT_NCHW | MNN_DATA_FORMAT_NHWC | MNN_DATA_FORMAT_NC4HW4 | MNN_DATA_FORMAT_NHWC4
  | MNN_DATA_FORMAT_UNKNOWN

datatype DataType =
    DT_INVALID | DT_FLOAT | DT_DOUBLE | DT_INT32 | DT_UINT8 | DT_INT16 | DT_INT8 | DT_STRING
  | DT_COMPLEX64 | DT_INT64 | DT_BOOL | DT_QINT8 | DT_QUINT8 | DT_QINT32 | DT_BFLOAT16 | DT_QINT16
  | DT_QUINT16 | DT_UINT16 | DT_COMPLEX128 | DT_HALF | DT_RESOURCE | DT_VARIANT

record Tensor =
  dimensions :: int
  extent :: "int \<Rightarrow> int"
  ttype :: halide_type
  dimensionFormat :: MNN_DATA_FORMAT
  host :: "(int \<Rightarrow> int) option"

abbreviation int32_t :: halide_type where "int32_t \<equiv> HType halide_type_int 32"
abbreviation int8_t :: halide_type where "int8_t \<equiv> HType halide_type_int 8"
abbreviation int16_t :: halide_type where "int16_t \<equiv> HType halide_type_int 16"
abbreviation uint8_t :: halide_type where "uint8_t \<equiv> HType halide_type_uint 8"
abbreviation uint16_t :: halide_type where "uint16_t \<equiv> HType halide_type_uint 16"
abbreviation float_t :: halide_type where "float_t \<equiv> HType halide_type_float 32"

type_synonym shape_fun = "Tensor list \<Rightarrow> Tensor list \<Rightarrow> Tensor list option"

definition MNN_MAX_TENSOR_DIM :: int where
  "MNN_MAX_TENSOR_DIM = 9"

section \<open>Accessors\<close>

abbreviation tlength :: "Tensor \<Rightarrow> int \<Rightarrow> int" where
  "tlength t i \<equiv> extent t i"

definition setLength :: "int \<Rightarrow> int \<Rightarrow> Tensor \<Rightarrow> Tensor" where
  "setLength i v t = t\<lparr>extent := (extent t)(i := v)\<rparr>"

text \<open>\<^verbatim>\<open>for (int i = a; i < b; ++i) t->setLength(i, f(i));\<close>\<close>

definition fill :: "int \<Rightarrow> int \<Rightarrow> (int \<Rightarrow> int) \<Rightarrow> Tensor \<Rightarrow> Tensor" where
  "fill a b f t = fold (\<lambda>i. setLength i (f i)) [a..b - 1] t"

text \<open>\<^verbatim>\<open>ptr[i]\<close> for \<^verbatim>\<open>ptr = t->host<int32_t>()\<close>; a null pointer has no content to read.\<close>

definition hostv :: "Tensor \<Rightarrow> int \<Rightarrow> int" where
  "hostv t i = (case host t of None \<Rightarrow> 0 | Some p \<Rightarrow> p i)"

definition shape :: "Tensor \<Rightarrow> int list" where
  "shape t = map (extent t) [0..dimensions t - 1]"

definition is_tensorflow :: "Tensor \<Rightarrow> bool" where
  "is_tensorflow t \<longleftrightarrow> dimensionFormat t = MNN_DATA_FORMAT_NHWC"

definition width :: "Tensor \<Rightarrow> int" where
  "width t = (if is_tensorflow t then extent t 2 else extent t 3)"

definition height :: "Tensor \<Rightarrow> int" where
  "height t = (if is_tensorflow t then extent t 1 else extent t 2)"

definition channel :: "Tensor \<Rightarrow> int" where
  "channel t = (if is_tensorflow t then extent t 3 else extent t 1)"

definition batch :: "Tensor \<Rightarrow> int" where
  "batch t = extent t 0"

fun setType :: "DataType \<Rightarrow> Tensor \<Rightarrow> Tensor" where
  "setType DT_DOUBLE t = t\<lparr>ttype := float_t\<rparr>"
| "setType DT_FLOAT t = t\<lparr>ttype := float_t\<rparr>"
| "setType DT_BFLOAT16 t = t\<lparr>ttype := HType halide_type_bfloat 16\<rparr>"
| "setType DT_QINT32 t = t\<lparr>ttype := int32_t\<rparr>"
| "setType DT_INT32 t = t\<lparr>ttype := int32_t\<rparr>"
| "setType DT_BOOL t = t\<lparr>ttype := int32_t\<rparr>"
| "setType DT_INT64 t = t\<lparr>ttype := int32_t\<rparr>"
| "setType DT_QINT8 t = t\<lparr>ttype := int8_t\<rparr>"
| "setType DT_INT8 t = t\<lparr>ttype := int8_t\<rparr>"
| "setType DT_QUINT8 t = t\<lparr>ttype := uint8_t\<rparr>"
| "setType DT_UINT8 t = t\<lparr>ttype := uint8_t\<rparr>"
| "setType DT_QUINT16 t = t\<lparr>ttype := uint16_t\<rparr>"
| "setType DT_UINT16 t = t\<lparr>ttype := uint16_t\<rparr>"
| "setType DT_QINT16 t = t\<lparr>ttype := int16_t\<rparr>"
| "setType DT_INT16 t = t\<lparr>ttype := int16_t\<rparr>"
| "setType _ t = t"

section \<open>Sizes\<close>

definition bytes :: "halide_type \<Rightarrow> int" where
  "bytes ty = (bits ty + 7) div 8"

definition dim_size :: "Tensor \<Rightarrow> int \<Rightarrow> int" where
  "dim_size t i =
     (if dimensionFormat t = MNN_DATA_FORMAT_NC4HW4 \<and> i = 1 then ALIGN_UP4 (extent t i)
      else extent t i)"

text \<open>\<^verbatim>\<open>usize\<close> multiplies in \<^verbatim>\<open>size_t\<close>, \<^verbatim>\<open>size\<close> casts the result to \<^verbatim>\<open>int\<close>.\<close>

definition usize :: "Tensor \<Rightarrow> int" where
  "usize t = fold (\<lambda>i n. (n * dim_size t i) mod 2 ^ 64) [0..dimensions t - 1] (bytes (ttype t))"

definition tsize :: "Tensor \<Rightarrow> int" where
  "tsize t = (usize t + 2 ^ 31) mod 2 ^ 32 - 2 ^ 31"

definition elementSize :: "Tensor \<Rightarrow> int" where
  "elementSize t = tsize t sdiv bytes (ttype t)"

section \<open>TensorUtils\<close>

definition adjustTensorForCompability :: "Tensor \<Rightarrow> Tensor" where
  "adjustTensorForCompability t =
     (if dimensions t < 4 then fill (dimensions t) 4 (\<lambda>_. 1) t else t)"

text \<open>\<^verbatim>\<open>memcpy(ob.dim, ib.dim, sizeof(halide_dimension_t) * n)\<close>\<close>

definition copyDims :: "int \<Rightarrow> Tensor \<Rightarrow> Tensor \<Rightarrow> Tensor" where
  "copyDims n ib ob = fill 0 n (extent ib) ob"

definition copyShape :: "Tensor \<Rightarrow> bool \<Rightarrow> bool \<Rightarrow> Tensor \<Rightarrow> Tensor" where
  "copyShape source copyFormat copyRef dest =
     (let d1 = dest\<lparr>dimensions := dimensions source\<rparr>;
          d2 = copyDims (dimensions source) source d1;
          d3 = (if copyFormat then d2\<lparr>dimensionFormat := dimensionFormat source\<rparr> else d2);
          d4 = (if copyRef then d3\<lparr>ttype := ttype source\<rparr> else d3)
      in adjustTensorForCompability d4)"

definition setShape :: "int list \<Rightarrow> Tensor \<Rightarrow> Tensor" where
  "setShape alldims t =
     fill 0 (int (length alldims)) (\<lambda>i. alldims ! nat i) (t\<lparr>dimensions := int (length alldims)\<rparr>)"

section \<open>Lemmas\<close>

lemma setLength_simps [simp]:
  "dimensions (setLength i v t) = dimensions t" "ttype (setLength i v t) = ttype t"
  "dimensionFormat (setLength i v t) = dimensionFormat t" "host (setLength i v t) = host t"
  "extent (setLength i v t) j = (if j = i then v else extent t j)"
  by (simp_all add: setLength_def)

lemma fold_setLength:
  "dimensions (fold (\<lambda>i. setLength i (f i)) xs t) = dimensions t"
  "ttype (fold (\<lambda>i. setLength i (f i)) xs t) = ttype t"
  "dimensionFormat (fold (\<lambda>i. setLength i (f i)) xs t) = dimensionFormat t"
  "host (fold (\<lambda>i. setLength i (f i)) xs t) = host t"
  "extent (fold (\<lambda>i. setLength i (f i)) xs t) j = (if j \<in> set xs then f j else extent t j)"
  by (induction xs arbitrary: t) auto

lemma fill_simps [simp]:
  "dimensions (fill a b f t) = dimensions t" "ttype (fill a b f t) = ttype t"
  "dimensionFormat (fill a b f t) = dimensionFormat t" "host (fill a b f t) = host t"
  "extent (fill a b f t) j = (if a \<le> j \<and> j < b then f j else extent t j)"
  by (simp_all add: fill_def fold_setLength)

lemma copyDims_simps [simp]:
  "dimensions (copyDims n s t) = dimensions t" "ttype (copyDims n s t) = ttype t"
  "dimensionFormat (copyDims n s t) = dimensionFormat t" "host (copyDims n s t) = host t"
  "extent (copyDims n s t) j = (if 0 \<le> j \<and> j < n then extent s j else extent t j)"
  by (simp_all add: copyDims_def)

lemma adjust_simps [simp]:
  "dimensions (adjustTensorForCompability t) = dimensions t"
  "ttype (adjustTensorForCompability t) = ttype t"
  "dimensionFormat (adjustTensorForCompability t) = dimensionFormat t"
  "host (adjustTensorForCompability t) = host t"
  "extent (adjustTensorForCompability t) j = (if dimensions t \<le> j \<and> j < 4 then 1 else extent t j)"
  by (auto simp: adjustTensorForCompability_def)

lemma copyShape_simps [simp]:
  "dimensions (copyShape s cf cr t) = dimensions s"
  "ttype (copyShape s cf cr t) = (if cr then ttype s else ttype t)"
  "dimensionFormat (copyShape s cf cr t) = (if cf then dimensionFormat s else dimensionFormat t)"
  "host (copyShape s cf cr t) = host t"
  "0 \<le> j \<Longrightarrow> j < dimensions s \<Longrightarrow> extent (copyShape s cf cr t) j = extent s j"
  by (simp_all add: copyShape_def Let_def)

lemma shape_eqI:
  assumes "dimensions s = dimensions t" "\<And>i. 0 \<le> i \<Longrightarrow> i < dimensions s \<Longrightarrow> extent s i = extent t i"
  shows "shape s = shape t"
  using assms by (auto simp: shape_def)

lemma length_shape [simp]: "length (shape t) = nat (dimensions t)"
  by (simp add: shape_def)

lemma nth_upto: "i < nat (b - a + 1) \<Longrightarrow> [a..b] ! i = a + int i"
proof (induction i arbitrary: a)
  case 0
  then show ?case by (simp add: upto_rec1)
next
  case (Suc i)
  then have "[a..b] = a # [a + 1..b]" by (intro upto_rec1) linarith
  then show ?case using Suc.IH [of "a + 1"] Suc.prems by simp
qed

lemma shape_nth: "i < nat (dimensions t) \<Longrightarrow> shape t ! i = extent t (int i)"
  by (simp add: shape_def nth_upto)

lemma set_shape: "set (shape t) = extent t ` {0..<dimensions t}"
  by (auto simp: shape_def)

lemma copyShape_shape [simp]: "shape (copyShape s cf cr t) = shape s"
  by (rule shape_eqI) simp_all

lemma setShape_shape [simp]: "shape (setShape xs t) = xs"
  by (rule nth_equalityI) (simp_all add: setShape_def shape_nth)

text \<open>All extents are non-negative: what \<^verbatim>\<open>computeOutputSize\<close> checks of its inputs.\<close>

definition nonneg :: "Tensor \<Rightarrow> bool" where
  "nonneg t \<longleftrightarrow> (\<forall>d \<in> set (shape t). 0 \<le> d)"

lemma nonneg_iff: "nonneg t \<longleftrightarrow> (\<forall>i. 0 \<le> i \<longrightarrow> i < dimensions t \<longrightarrow> 0 \<le> extent t i)"
  by (auto simp: nonneg_def set_shape)

subsection \<open>Sizes without overflow\<close>

lemma prod_fold:
  fixes f :: "int \<Rightarrow> int" and k :: int
  shows "fold (\<lambda>i n. n * f i) xs k = k * prod_list (map f xs)"
  by (induction xs arbitrary: k) (simp_all add: mult.assoc)

lemma fold_mod:
  fixes f :: "int \<Rightarrow> int" and k :: int
  shows "fold (\<lambda>i n. (n * f i) mod m) xs k mod m = (k * prod_list (map f xs)) mod m"
proof (induction xs arbitrary: k)
  case (Cons x xs)
  have "fold (\<lambda>i n. (n * f i) mod m) (x # xs) k mod m =
      ((k * f x) mod m * prod_list (map f xs)) mod m"
    using Cons by simp
  also have "\<dots> = (k * prod_list (map f (x # xs))) mod m"
    by (simp add: mod_mult_left_eq mult.assoc)
  finally show ?case .
qed simp

text \<open>The number of elements stored, channels rounded up to four in the packed format.\<close>

definition elements :: "Tensor \<Rightarrow> int" where
  "elements t = prod_list (map (dim_size t) [0..dimensions t - 1])"

lemma usize_mod:
  assumes "0 \<le> bytes (ttype t)" "bytes (ttype t) < 2 ^ 64"
  shows "usize t = (bytes (ttype t) * elements t) mod 2 ^ 64"
proof -
  have "usize t mod 2 ^ 64 = (bytes (ttype t) * elements t) mod 2 ^ 64"
    unfolding usize_def elements_def by (rule fold_mod)
  moreover have "fold (\<lambda>i n. (n * f i) mod 2 ^ 64) xs k mod 2 ^ 64 = fold (\<lambda>i n. (n * f i) mod 2 ^ 64) xs k"
    if "0 \<le> k" "k < 2 ^ 64" for f xs and k :: int
    using that by (induction xs arbitrary: k) simp_all
  ultimately show ?thesis using assms unfolding usize_def by metis
qed

lemma elementSize_exact:
  assumes "0 < bytes (ttype t)" "0 \<le> elements t" "bytes (ttype t) * elements t < 2 ^ 31"
  shows "tsize t = bytes (ttype t) * elements t" "elementSize t = elements t"
proof -
  let ?b = "bytes (ttype t)" and ?e = "elements t"
  show s: "tsize t = ?b * ?e"
  proof (cases "?e = 0")
    case True
    have "usize t mod 2 ^ 64 = (?b * ?e) mod 2 ^ 64"
      unfolding usize_def elements_def by (rule fold_mod)
    then have "usize t mod 2 ^ 64 = 0" using True by simp
    then have "2 ^ 64 dvd usize t" by (simp add: dvd_eq_mod_eq_0)
    moreover have "(2 :: int) ^ 32 dvd 2 ^ 64" by (rule le_imp_power_dvd) simp
    ultimately have "2 ^ 32 dvd usize t" by (rule dvd_trans [rotated])
    then obtain q where "usize t = 2 ^ 32 * q" by (elim dvdE)
    then show ?thesis using True by (simp add: tsize_def)
  next
    case False
    then have "?b * 1 \<le> ?b * ?e" using assms by (intro mult_left_mono) auto
    then have b: "?b < 2 ^ 31" using assms(3) by simp
    have "usize t = (?b * ?e) mod 2 ^ 64" using assms b by (intro usize_mod) auto
    also have "\<dots> = ?b * ?e" using assms by (intro mod_pos_pos_trivial) auto
    finally show ?thesis using assms by (simp add: tsize_def)
  qed
  show "elementSize t = ?e" using s assms by (simp add: elementSize_def sdiv_nonneg)
qed

end
