(* ===== verification/Shape_Broadcast.thy ===== *)
theory Shape_Broadcast
  imports Shape_Tensor
begin

text \<open>
  Shape inference of the broadcasting operators: \<^verbatim>\<open>SizeComputer::computeBroadCastDims\<close>
  (\<^verbatim>\<open>source/shape/SizeComputer.cpp\<close>) and the operators that use it (\<^verbatim>\<open>ShapeBinaryOp.cpp\<close>,
  \<^verbatim>\<open>ShapeSelect.cpp\<close>), and \<^verbatim>\<open>ShapeBroadcastTo.cpp\<close>. The specification is the usual rule: shapes
  are aligned at the last dimension, and in every column all extents other than 1 agree.
\<close>

section \<open>computeBroadCastDims\<close>

definition broadcast_max :: "Tensor list \<Rightarrow> int \<times> nat" where
  "broadcast_max inputs =
     fold (\<lambda>index (maxDimensions, maxIndex).
         if dimensions (inputs ! index) > maxDimensions then (dimensions (inputs ! index), index)
         else (maxDimensions, maxIndex))
       [1..<length inputs] (dimensions (inputs ! 0), 0)"

definition broadcast_dim :: "Tensor \<Rightarrow> int \<Rightarrow> (int \<Rightarrow> int) \<Rightarrow> int \<Rightarrow> (int \<Rightarrow> int) option" where
  "broadcast_dim input1 diffDimension outputDims i =
     (let dim1 = extent input1 (i - diffDimension)
      in if dim1 \<noteq> outputDims i \<and> (dim1 \<noteq> 1 \<and> outputDims i \<noteq> 1) then None
         else if dim1 = outputDims i then Some outputDims
         else if dim1 \<noteq> outputDims i \<and> (dim1 = 1 \<or> outputDims i = 1)
           then Some (outputDims(i := outputDims i * dim1))
         else None)"

definition broadcast_input ::
    "Tensor list \<Rightarrow> int \<Rightarrow> nat \<Rightarrow> (int \<Rightarrow> int) \<Rightarrow> nat \<Rightarrow> (int \<Rightarrow> int) option" where
  "broadcast_input inputs maxDimensions maxIndex outputDims index =
     (if index = maxIndex then Some outputDims
      else
        (let diffDimension = maxDimensions - dimensions (inputs ! index)
         in fold_opt (broadcast_dim (inputs ! index) diffDimension) outputDims
              [diffDimension..maxDimensions - 1]))"

definition computeBroadCastDims :: shape_fun where
  "computeBroadCastDims inputs outputs =
     (let (maxDimensions, maxIndex) = broadcast_max inputs
      in case fold_opt (broadcast_input inputs maxDimensions maxIndex) (extent (inputs ! maxIndex))
              [0..<length inputs] of
           None \<Rightarrow> None
         | Some outputDims \<Rightarrow>
             Some (outputs[0 := fill 0 maxDimensions outputDims
                                  ((outputs ! 0)\<lparr>dimensions := maxDimensions\<rparr>)]))"

section \<open>Operators\<close>

datatype BinaryOpOperation =
    BinaryOpOperation_ADD | BinaryOpOperation_SUB | BinaryOpOperation_MUL | BinaryOpOperation_DIV
  | BinaryOpOperation_MAX_TEMP | BinaryOpOperation_MIN_TEMP | BinaryOpOperation_POW
  | BinaryOpOperation_REALDIV | BinaryOpOperation_MINIMUM | BinaryOpOperation_MAXIMUM
  | BinaryOpOperation_GREATER | BinaryOpOperation_GREATER_EQUAL | BinaryOpOperation_LESS
  | BinaryOpOperation_FLOORDIV | BinaryOpOperation_SquaredDifference | BinaryOpOperation_EQUAL
  | BinaryOpOperation_LESS_EQUAL | BinaryOpOperation_FLOORMOD | BinaryOpOperation_MOD
  | BinaryOpOperation_ATAN2 | BinaryOpOperation_LOGICALOR | BinaryOpOperation_NOTEQUAL
  | BinaryOpOperation_BITWISE_AND | BinaryOpOperation_BITWISE_OR | BinaryOpOperation_BITWISE_XOR
  | BinaryOpOperation_LOGICALXOR | BinaryOpOperation_LEFTSHIFT | BinaryOpOperation_RIGHTSHIFT

definition outputBool :: "BinaryOpOperation \<Rightarrow> bool" where
  "outputBool operation \<longleftrightarrow> operation \<in> {BinaryOpOperation_GREATER_EQUAL, BinaryOpOperation_GREATER,
     BinaryOpOperation_LESS, BinaryOpOperation_LESS_EQUAL, BinaryOpOperation_EQUAL,
     BinaryOpOperation_NOTEQUAL}"

definition BinaryOpComputer :: "BinaryOpOperation \<Rightarrow> shape_fun" where
  "BinaryOpComputer opType inputs outputs =
     (let input0 = inputs ! 0; input1 = inputs ! 1;
          o1 = (outputs ! 0)\<lparr>ttype := (if outputBool opType then int32_t else ttype input0)\<rparr>
      in if code (ttype input0) \<noteq> code (ttype input1) then None
         else
           (let input0' = (if dimensions input0 < dimensions input1 then input1 else input0);
                o2 = o1\<lparr>dimensionFormat := dimensionFormat input0'\<rparr>
            in computeBroadCastDims inputs (outputs[0 := o2])))"

definition SelectSizeComputer :: shape_fun where
  "SelectSizeComputer inputs outputs =
     (let o1 = (outputs ! 0)\<lparr>ttype := ttype (inputs ! 1)\<rparr>
      in case computeBroadCastDims inputs (outputs[0 := o1]) of
           None \<Rightarrow> None
         | Some os \<Rightarrow>
             Some (os[0 := (os ! 0)\<lparr>dimensionFormat := dimensionFormat (inputs ! 1)\<rparr>]))"

text \<open>
  The second input of \<^verbatim>\<open>BroadcastTo\<close> is the target shape; \<open>axis\<close> says that the operator's
  \<^verbatim>\<open>Axis\<close> parameter is present and not zero.
\<close>

definition broadcast_to_dim :: "(int \<Rightarrow> int) \<Rightarrow> int \<Rightarrow> Tensor \<Rightarrow> int \<Rightarrow> Tensor option" where
  "broadcast_to_dim alignShape offset out i =
     (let dim1 = alignShape (i - offset); dim2 = extent out i
      in if dim1 \<noteq> dim2 \<and> (dim1 \<noteq> 1 \<and> dim2 \<noteq> 1) then None
         else if dim1 = dim2 then Some out
         else if dim1 \<noteq> 1 then Some (setLength i dim1 out)
         else Some out)"

definition ShapeBroadcastTo :: "bool \<Rightarrow> shape_fun" where
  "ShapeBroadcastTo axis inputs outputs =
     (let input = inputs ! 0; shp = inputs ! 1;
          inputDims = dimensions input; shapeDims = elementSize shp;
          dimension = (if inputDims > shapeDims then inputDims else shapeDims);
          out = (outputs ! 0)\<lparr>dimensions := dimension\<rparr>;
          res =
            (if axis then Some (fill 0 dimension (hostv shp) out)
             else if inputDims > shapeDims then
               fold_opt (broadcast_to_dim (hostv shp) (inputDims - shapeDims))
                 (fill 0 inputDims (extent input) out) [inputDims - shapeDims..dimension - 1]
             else
               fold_opt (broadcast_to_dim (extent input) (shapeDims - inputDims))
                 (fill 0 shapeDims (hostv shp) out) [shapeDims - inputDims..dimension - 1])
      in case res of None \<Rightarrow> None
         | Some o' \<Rightarrow> Some (outputs[0 := o'\<lparr>ttype := ttype input, dimensionFormat := dimensionFormat input\<rparr>]))"

section \<open>The broadcasting rule\<close>

text \<open>The extent of a tensor in column \<open>i\<close> of an output with \<open>n\<close> dimensions.\<close>

definition dim_at :: "int \<Rightarrow> Tensor \<Rightarrow> int \<Rightarrow> int" where
  "dim_at n t i = (if n - dimensions t \<le> i then extent t (i - (n - dimensions t)) else 1)"

text \<open>\<open>r\<close> is the broadcast of the extents in \<open>A\<close>.\<close>

definition broadcasts :: "int set \<Rightarrow> int \<Rightarrow> bool" where
  "broadcasts A r \<longleftrightarrow> (\<forall>d \<in> A. d = 1 \<or> d = r) \<and> (r = 1 \<or> r \<in> A)"

definition column :: "int \<Rightarrow> Tensor list \<Rightarrow> int \<Rightarrow> int set" where
  "column n ts i = (\<lambda>t. dim_at n t i) ` set ts"

lemma broadcasts_unique: "broadcasts A r \<Longrightarrow> broadcasts A r' \<Longrightarrow> r = r'"
  by (auto simp: broadcasts_def)

definition merge :: "int \<Rightarrow> int \<Rightarrow> int option" where
  "merge a b = (if b = a then Some a else if b = 1 \<or> a = 1 then Some (a * b) else None)"

lemma merge_broadcasts:
  assumes "broadcasts A a"
  shows "merge a b = Some r \<longleftrightarrow> broadcasts (insert b A) r"
  using assms by (auto simp: merge_def broadcasts_def)

lemma merge_None: "broadcasts A a \<Longrightarrow> merge a b = None \<Longrightarrow> \<not> broadcasts (insert b A) r"
  using merge_broadcasts [of A a b r] by simp

lemma broadcast_dim_merge:
  "broadcast_dim t d out i =
     map_option (\<lambda>v. out(i := v)) (merge (out i) (extent t (i - d)))"
  by (auto simp: broadcast_dim_def merge_def Let_def)

lemma fold_opt_columns:
  "distinct is \<Longrightarrow> fold_opt (\<lambda>out i. map_option (\<lambda>v. out(i := v)) (merge (out i) (g i))) out is =
     (if \<exists>i \<in> set is. merge (out i) (g i) = None then None
      else Some (\<lambda>i. if i \<in> set is then the (merge (out i) (g i)) else out i))"
proof (induction "is" arbitrary: out)
  case (Cons i "is")
  show ?case
  proof (cases "merge (out i) (g i)")
    case (Some v)
    have "\<And>j. j \<in> set is \<Longrightarrow> j \<noteq> i" using Cons.prems by auto
    then show ?thesis using Cons Some by (auto simp: fun_eq_iff)
  qed simp
qed simp

lemma broadcast_input_columns:
  assumes "index \<noteq> k" "0 \<le> dimensions (ins ! index)" "dimensions (ins ! index) \<le> n"
  shows "broadcast_input ins n k out index =
    (if \<exists>i. 0 \<le> i \<and> i < n \<and> merge (out i) (dim_at n (ins ! index) i) = None then None
     else Some (\<lambda>i. if 0 \<le> i \<and> i < n then the (merge (out i) (dim_at n (ins ! index) i)) else out i))"
proof -
  let ?t = "ins ! index"
  let ?d = "n - dimensions ?t"
  have m1: "merge a 1 = Some a" for a by (auto simp: merge_def)
  have o: "merge (out i) (dim_at n ?t i) = Some (out i)" if "i < ?d" for i
    using that m1 by (simp add: dim_at_def)
  have e: "merge (out i) (extent ?t (i - ?d)) = merge (out i) (dim_at n ?t i)" if "?d \<le> i" for i
    using that by (simp add: dim_at_def)
  have r: "set [?d..n - 1] = {i. ?d \<le> i \<and> i < n}" by auto
  have "broadcast_input ins n k out index =
     (if \<exists>i \<in> set [?d..n - 1]. merge (out i) (extent ?t (i - ?d)) = None then None
      else Some (\<lambda>i. if i \<in> set [?d..n - 1] then the (merge (out i) (extent ?t (i - ?d))) else out i))"
    using assms(1) by (simp add: broadcast_input_def Let_def broadcast_dim_merge [abs_def] fold_opt_columns
        del: set_upto)
  also have "(\<exists>i \<in> set [?d..n - 1]. merge (out i) (extent ?t (i - ?d)) = None) \<longleftrightarrow>
      (\<exists>i. 0 \<le> i \<and> i < n \<and> merge (out i) (dim_at n ?t i) = None)" (is "?l \<longleftrightarrow> ?r")
  proof
    assume ?l
    then obtain i where "?d \<le> i" "i < n" "merge (out i) (dim_at n ?t i) = None" unfolding r using e by auto
    moreover from this(1) have "0 \<le> i" using assms(3) by simp
    ultimately show ?r by blast
  next
    assume ?r
    then obtain i where i: "0 \<le> i" "i < n" "merge (out i) (dim_at n ?t i) = None" by blast
    then have "?d \<le> i" using o [of i] by (cases "?d \<le> i") auto
    then show ?l unfolding r using e i by auto
  qed
  also have "(\<lambda>i. if i \<in> set [?d..n - 1] then the (merge (out i) (extent ?t (i - ?d))) else out i) =
      (\<lambda>i. if 0 \<le> i \<and> i < n then the (merge (out i) (dim_at n ?t i)) else out i)"
  proof
    fix i
    show "(if i \<in> set [?d..n - 1] then the (merge (out i) (extent ?t (i - ?d))) else out i) =
      (if 0 \<le> i \<and> i < n then the (merge (out i) (dim_at n ?t i)) else out i)"
      unfolding r using e [of i] o [of i] assms(3) by (cases "?d \<le> i") simp_all
  qed
  finally show ?thesis .
qed

text \<open>One output column while the inputs \<open>xs\<close> are merged into it.\<close>

lemma broadcast_inputs:
  assumes "\<And>j. j \<in> set js \<Longrightarrow> 0 \<le> dimensions (ins ! j) \<and> dimensions (ins ! j) \<le> n"
    "k \<notin> set js" "\<And>i. 0 \<le> i \<Longrightarrow> i < n \<Longrightarrow> broadcasts (A i) (out i)"
  shows "case fold_opt (broadcast_input ins n k) out js of
      None \<Rightarrow> \<exists>i. 0 \<le> i \<and> i < n \<and> (\<forall>r. \<not> broadcasts (A i \<union> (\<lambda>j. dim_at n (ins ! j) i) ` set js) r)
    | Some out' \<Rightarrow> \<forall>i. 0 \<le> i \<and> i < n \<longrightarrow>
        broadcasts (A i \<union> (\<lambda>j. dim_at n (ins ! j) i) ` set js) (out' i)"
  using assms
proof (induction js arbitrary: out A)
  case (Cons j js)
  let ?g = "\<lambda>i. dim_at n (ins ! j) i"
  have b: "broadcast_input ins n k out j =
    (if \<exists>i. 0 \<le> i \<and> i < n \<and> merge (out i) (?g i) = None then None
     else Some (\<lambda>i. if 0 \<le> i \<and> i < n then the (merge (out i) (?g i)) else out i))"
    using Cons.prems(1,2) by (intro broadcast_input_columns) auto
  show ?case
  proof (cases "\<exists>i. 0 \<le> i \<and> i < n \<and> merge (out i) (?g i) = None")
    case True
    then obtain i where i: "0 \<le> i" "i < n" "merge (out i) (?g i) = None" by blast
    have "\<not> broadcasts (insert (?g i) (A i)) r" for r
      using merge_None [OF Cons.prems(3) [OF i(1,2)] i(3)] .
    moreover have "broadcasts (insert (?g i) (A i) \<union> B) r \<Longrightarrow> \<exists>r. broadcasts (insert (?g i) (A i)) r" for B r
      unfolding broadcasts_def by (metis UnI1)
    ultimately have "\<forall>r. \<not> broadcasts (A i \<union> (\<lambda>j. dim_at n (ins ! j) i) ` set (j # js)) r"
      by fastforce
    then show ?thesis using True b i by auto
  next
    case False
    let ?o = "\<lambda>i. if 0 \<le> i \<and> i < n then the (merge (out i) (?g i)) else out i"
    have o: "broadcasts (insert (?g i) (A i)) (?o i)" if "0 \<le> i" "i < n" for i
    proof -
      obtain v where v: "merge (out i) (?g i) = Some v" using False \<open>0 \<le> i\<close> \<open>i < n\<close> by auto
      then have "broadcasts (insert (?g i) (A i)) v"
        using merge_broadcasts [OF Cons.prems(3) [OF \<open>0 \<le> i\<close> \<open>i < n\<close>]] by blast
      then show ?thesis using v \<open>0 \<le> i\<close> \<open>i < n\<close> by simp
    qed
    have "fold_opt (broadcast_input ins n k) out (j # js) = fold_opt (broadcast_input ins n k) ?o js"
      using b False by auto
    moreover have "A i \<union> (\<lambda>j. dim_at n (ins ! j) i) ` set (j # js) =
        insert (?g i) (A i) \<union> (\<lambda>j. dim_at n (ins ! j) i) ` set js" for i by auto
    moreover have "case fold_opt (broadcast_input ins n k) ?o js of
      None \<Rightarrow> \<exists>i. 0 \<le> i \<and> i < n \<and>
        (\<forall>r. \<not> broadcasts (insert (?g i) (A i) \<union> (\<lambda>j. dim_at n (ins ! j) i) ` set js) r)
    | Some out' \<Rightarrow> \<forall>i. 0 \<le> i \<and> i < n \<longrightarrow>
        broadcasts (insert (?g i) (A i) \<union> (\<lambda>j. dim_at n (ins ! j) i) ` set js) (out' i)"
      by (rule Cons.IH) (use Cons.prems(1,2) o in auto)
    ultimately show ?thesis by (simp only:)
  qed
qed simp

lemma broadcast_skip:
  "fold_opt (broadcast_input ins n k) out js =
   fold_opt (broadcast_input ins n k) out (filter (\<lambda>j. j \<noteq> k) js)"
proof (induction js arbitrary: out)
  case (Cons j js)
  then show ?case by (cases "j = k") (simp_all add: broadcast_input_def split: option.split)
qed simp

lemma broadcast_max_prop:
  assumes "ins \<noteq> []" "broadcast_max ins = (n, k)"
  shows "k < length ins \<and> n = dimensions (ins ! k) \<and> (\<forall>t \<in> set ins. dimensions t \<le> n)"
proof -
  let ?f = "\<lambda>index (m, k). if dimensions (ins ! index) > m then (dimensions (ins ! index), index) else (m, k)"
  have "(\<forall>j \<in> set js. j < length ins) \<Longrightarrow> fold ?f js (m0, k0) = (m, k) \<Longrightarrow> k0 < length ins \<Longrightarrow>
      m0 = dimensions (ins ! k0) \<Longrightarrow>
      k < length ins \<and> m = dimensions (ins ! k) \<and> m0 \<le> m \<and> (\<forall>j \<in> set js. dimensions (ins ! j) \<le> m)"
    for js m0 k0 m
  proof (induction js arbitrary: m0 k0)
    case (Cons j js)
    then show ?case by (fastforce split: if_splits)
  qed simp
  from this [of "[1..<length ins]" "dimensions (ins ! 0)" 0 n] assms
  have k: "k < length ins" "n = dimensions (ins ! k)" "dimensions (ins ! 0) \<le> n"
    "\<forall>j \<in> set [1..<length ins]. dimensions (ins ! j) \<le> n"
    unfolding broadcast_max_def by auto
  have "dimensions (ins ! j) \<le> n" if "j < length ins" for j
    using k(3,4) that by (cases "j = 0") auto
  then show ?thesis using k(1,2) by (auto simp: in_set_conv_nth)
qed

lemma column_split:
  assumes "k < length ins"
  shows "column n ins i = {dim_at n (ins ! k) i} \<union>
    (\<lambda>j. dim_at n (ins ! j) i) ` set (filter (\<lambda>j. j \<noteq> k) [0..<length ins])"
proof -
  have "set ins = insert (ins ! k) ((!) ins ` set (filter (\<lambda>j. j \<noteq> k) [0..<length ins]))"
    using assms by (auto simp: image_iff) (auto simp: in_set_conv_nth)
  then have "column n ins i =
      (\<lambda>t. dim_at n t i) ` insert (ins ! k) ((!) ins ` set (filter (\<lambda>j. j \<noteq> k) [0..<length ins]))"
    by (simp only: column_def)
  then show ?thesis by (simp add: image_image)
qed

text \<open>
  The result of broadcasting any number of inputs: every column of the output is the broadcast of
  the inputs' extents in that column, and it fails when some column has no broadcast.
\<close>

lemma computeBroadCastDims_spec:
  assumes "ins \<noteq> []" "\<forall>t \<in> set ins. 0 \<le> dimensions t"
  shows "case computeBroadCastDims ins (out # os) of
      None \<Rightarrow> \<exists>i. 0 \<le> i \<and> i < Max (dimensions ` set ins) \<and>
        (\<forall>r. \<not> broadcasts (column (Max (dimensions ` set ins)) ins i) r)
    | Some os' \<Rightarrow> \<exists>out'. os' = out' # os \<and> dimensions out' = Max (dimensions ` set ins) \<and>
        ttype out' = ttype out \<and> dimensionFormat out' = dimensionFormat out \<and>
        (\<forall>i. 0 \<le> i \<and> i < dimensions out' \<longrightarrow>
          broadcasts (column (dimensions out') ins i) (extent out' i))"
proof -
  obtain n k where m: "broadcast_max ins = (n, k)" by force
  note k = broadcast_max_prop [OF assms(1) m]
  have n: "Max (dimensions ` set ins) = n"
    by (rule Max_eqI) (use k in auto)
  let ?js = "filter (\<lambda>j. j \<noteq> k) [0..<length ins]"
  let ?r = "fold_opt (broadcast_input ins n k) (extent (ins ! k)) [0..<length ins]"
  have "case fold_opt (broadcast_input ins n k) (extent (ins ! k)) ?js of
      None \<Rightarrow> \<exists>i. 0 \<le> i \<and> i < n \<and>
        (\<forall>r. \<not> broadcasts ({dim_at n (ins ! k) i} \<union> (\<lambda>j. dim_at n (ins ! j) i) ` set ?js) r)
    | Some out' \<Rightarrow> \<forall>i. 0 \<le> i \<and> i < n \<longrightarrow>
        broadcasts ({dim_at n (ins ! k) i} \<union> (\<lambda>j. dim_at n (ins ! j) i) ` set ?js) (out' i)"
    by (rule broadcast_inputs) (use assms k in \<open>auto simp: broadcasts_def dim_at_def\<close>)
  then have r: "case ?r of None \<Rightarrow> \<exists>i. 0 \<le> i \<and> i < n \<and> (\<forall>r. \<not> broadcasts (column n ins i) r)
    | Some out' \<Rightarrow> \<forall>i. 0 \<le> i \<and> i < n \<longrightarrow> broadcasts (column n ins i) (out' i)"
    unfolding broadcast_skip [of ins n k _ "[0..<length ins]"]
      column_split [OF conjunct1 [OF k]] .
  show ?thesis
  proof (cases ?r)
    case None
    then show ?thesis using r n m by (simp add: computeBroadCastDims_def)
  next
    case (Some d)
    then have "computeBroadCastDims ins (out # os) = Some (fill 0 n d (out\<lparr>dimensions := n\<rparr>) # os)"
      by (simp add: computeBroadCastDims_def m)
    then show ?thesis using r n Some by simp
  qed
qed

section \<open>BroadcastTo\<close>

lemma broadcast_to_fold:
  "fold_opt (broadcast_to_dim g d) out is =
     map_option (\<lambda>e. out\<lparr>extent := e\<rparr>)
       (fold_opt (\<lambda>e i. map_option (\<lambda>v. e(i := v)) (merge (e i) (g (i - d)))) (extent out) is)"
proof (induction "is" arbitrary: out)
  case (Cons i "is")
  have "broadcast_to_dim g d out i =
      map_option (\<lambda>v. out\<lparr>extent := (extent out)(i := v)\<rparr>) (merge (extent out i) (g (i - d)))"
    by (auto simp: broadcast_to_dim_def merge_def Let_def setLength_def fun_upd_idem)
  then show ?case using Cons
    by (cases "merge (extent out i) (g (i - d))") (simp_all add: option.map_comp o_def)
qed simp

text \<open>Merging the smaller shape \<open>s\<close> into the larger one \<open>t\<close>, as \<^verbatim>\<open>BroadcastTo\<close> does.\<close>

lemma broadcast_to_merge:
  assumes "0 \<le> dimensions s" "dimensions s \<le> n" "dimensions t = n"
    "\<And>i. 0 \<le> i \<Longrightarrow> i < n \<Longrightarrow> extent out i = extent t i"
  shows "case fold_opt (broadcast_to_dim (extent s) (n - dimensions s)) out [n - dimensions s..n - 1] of
      None \<Rightarrow> \<exists>i. 0 \<le> i \<and> i < n \<and> (\<forall>r. \<not> broadcasts {dim_at n s i, dim_at n t i} r)
    | Some out' \<Rightarrow> dimensions out' = dimensions out \<and> ttype out' = ttype out \<and>
        (\<forall>i. 0 \<le> i \<and> i < n \<longrightarrow> broadcasts {dim_at n s i, dim_at n t i} (extent out' i))"
proof -
  have "broadcast_input [s, t] n 1 (extent out) 0 =
      fold_opt (\<lambda>e i. map_option (\<lambda>v. e(i := v)) (merge (e i) (extent s (i - (n - dimensions s)))))
        (extent out) [n - dimensions s..n - 1]"
    by (simp add: broadcast_input_def Let_def broadcast_dim_merge [abs_def])
  then have f: "fold_opt (broadcast_to_dim (extent s) (n - dimensions s)) out [n - dimensions s..n - 1] =
      map_option (\<lambda>e. out\<lparr>extent := e\<rparr>) (fold_opt (broadcast_input [s, t] n 1) (extent out) [0])"
    by (simp add: broadcast_to_fold split: option.split)
  have "case fold_opt (broadcast_input [s, t] n 1) (extent out) [0] of
      None \<Rightarrow> \<exists>i. 0 \<le> i \<and> i < n \<and> (\<forall>r. \<not> broadcasts ({dim_at n t i} \<union> (\<lambda>j. dim_at n ([s, t] ! j) i) ` set [0]) r)
    | Some out' \<Rightarrow> \<forall>i. 0 \<le> i \<and> i < n \<longrightarrow>
        broadcasts ({dim_at n t i} \<union> (\<lambda>j. dim_at n ([s, t] ! j) i) ` set [0]) (out' i)"
    by (rule broadcast_inputs) (use assms in \<open>auto simp: broadcasts_def dim_at_def\<close>)
  then show ?thesis unfolding f
    by (cases "fold_opt (broadcast_input [s, t] n 1) (extent out) [0]") (auto simp: insert_commute)
qed

definition shape_tensor :: "Tensor \<Rightarrow> Tensor" where
  "shape_tensor t = t\<lparr>dimensions := elementSize t, extent := hostv t\<rparr>"

text \<open>
  C27. \<^verbatim>\<open>BinaryOp\<close> infers exactly the broadcast shape: it is rejected if and only if the type codes
  differ or some column of the right-aligned shapes has two different extents other than 1; otherwise
  the output has as many dimensions as the larger input, each extent is the broadcast of the column,
  and comparisons yield \<^verbatim>\<open>int32\<close>.
\<close>

theorem BinaryOp_broadcast:
  assumes "0 \<le> dimensions a" "0 \<le> dimensions b"
  shows "case BinaryOpComputer opType [a, b] [out] of
      None \<Rightarrow> code (ttype a) \<noteq> code (ttype b) \<or>
        (\<exists>i. 0 \<le> i \<and> i < max (dimensions a) (dimensions b) \<and>
          (\<forall>r. \<not> broadcasts (column (max (dimensions a) (dimensions b)) [a, b] i) r))
    | Some os \<Rightarrow> code (ttype a) = code (ttype b) \<and>
        (\<exists>out'. os = [out'] \<and> dimensions out' = max (dimensions a) (dimensions b) \<and>
          ttype out' = (if outputBool opType then int32_t else ttype a) \<and>
          (\<forall>i. 0 \<le> i \<and> i < dimensions out' \<longrightarrow>
            broadcasts (column (dimensions out') [a, b] i) (extent out' i)))"
proof (cases "code (ttype a) = code (ttype b)")
  case True
  let ?o = "out\<lparr>ttype := if outputBool opType then int32_t else ttype a,
    dimensionFormat := dimensionFormat (if dimensions a < dimensions b then b else a)\<rparr>"
  have "BinaryOpComputer opType [a, b] [out] = computeBroadCastDims [a, b] [?o]"
    using True by (simp add: BinaryOpComputer_def Let_def)
  moreover have "Max (dimensions ` set [a, b]) = max (dimensions a) (dimensions b)" by simp
  ultimately show ?thesis
    using computeBroadCastDims_spec [of "[a, b]" "[]" ?o] assms True
    by (cases "computeBroadCastDims [a, b] [?o]") (simp_all add: assms, fastforce)
qed (simp add: BinaryOpComputer_def Let_def)

definition w_tensor :: "int list \<Rightarrow> Tensor" where
  "w_tensor xs = setShape xs \<lparr>dimensions = 0, extent = (\<lambda>_. 0), ttype = float_t,
     dimensionFormat = MNN_DATA_FORMAT_NCHW, host = None\<rparr>"

lemma w_tensor_dims [simp]: "dimensions (w_tensor xs) = int (length xs)"
  by (simp add: w_tensor_def setShape_def)

theorem BinaryOp_broadcast_witness:
  "\<exists>out'. BinaryOpComputer BinaryOpOperation_ADD [w_tensor [2, 3, 1], w_tensor [3, 5]] [w_tensor []] = Some [out'] \<and>
     dimensions out' = 3 \<and> broadcasts (column 3 [w_tensor [2, 3, 1], w_tensor [3, 5]] 2) (extent out' 2) \<and>
     shape out' = [2, 3, 5]"
proof -
  have "map_option (map shape) (BinaryOpComputer BinaryOpOperation_ADD
      [w_tensor [2, 3, 1], w_tensor [3, 5]] [w_tensor []]) = Some [[2, 3, 5]]"
    by code_simp
  then show ?thesis
    using BinaryOp_broadcast [of "w_tensor [2, 3, 1]" "w_tensor [3, 5]" BinaryOpOperation_ADD "w_tensor []"]
    by auto
qed

text \<open>
  \<^verbatim>\<open>BroadcastTo\<close> (without its axis flag) follows the same rule for the input and the requested
  shape: it fails exactly when they do not broadcast, and otherwise yields their broadcast.
\<close>

theorem BroadcastTo_spec:
  assumes "0 \<le> dimensions input" "0 \<le> elementSize shp"
  shows "case ShapeBroadcastTo False [input, shp] [out] of
      None \<Rightarrow> \<exists>i. 0 \<le> i \<and> i < max (dimensions input) (elementSize shp) \<and>
        (\<forall>r. \<not> broadcasts (column (max (dimensions input) (elementSize shp)) [input, shape_tensor shp] i) r)
    | Some os \<Rightarrow> \<exists>out'. os = [out'] \<and> dimensions out' = max (dimensions input) (elementSize shp) \<and>
        ttype out' = ttype input \<and>
        (\<forall>i. 0 \<le> i \<and> i < dimensions out' \<longrightarrow>
          broadcasts (column (dimensions out') [input, shape_tensor shp] i) (extent out' i))"
proof (cases "dimensions input > elementSize shp")
  case True
  let ?n = "dimensions input"
  let ?o = "fill 0 ?n (extent input) (out\<lparr>dimensions := ?n\<rparr>)"
  have "case fold_opt (broadcast_to_dim (extent (shape_tensor shp)) (?n - dimensions (shape_tensor shp))) ?o
      [?n - dimensions (shape_tensor shp)..?n - 1] of
      None \<Rightarrow> \<exists>i. 0 \<le> i \<and> i < ?n \<and> (\<forall>r. \<not> broadcasts {dim_at ?n (shape_tensor shp) i, dim_at ?n input i} r)
    | Some out' \<Rightarrow> dimensions out' = dimensions ?o \<and> ttype out' = ttype ?o \<and>
        (\<forall>i. 0 \<le> i \<and> i < ?n \<longrightarrow> broadcasts {dim_at ?n (shape_tensor shp) i, dim_at ?n input i} (extent out' i))"
    by (rule broadcast_to_merge) (use assms True in \<open>auto simp: shape_tensor_def\<close>)
  then show ?thesis using True assms
    by (auto simp: ShapeBroadcastTo_def Let_def column_def shape_tensor_def insert_commute max_def
        split: option.splits)
next
  case False
  let ?n = "elementSize shp"
  let ?o = "fill 0 ?n (hostv shp) (out\<lparr>dimensions := ?n\<rparr>)"
  have "case fold_opt (broadcast_to_dim (extent input) (?n - dimensions input)) ?o
      [?n - dimensions input..?n - 1] of
      None \<Rightarrow> \<exists>i. 0 \<le> i \<and> i < ?n \<and> (\<forall>r. \<not> broadcasts {dim_at ?n input i, dim_at ?n (shape_tensor shp) i} r)
    | Some out' \<Rightarrow> dimensions out' = dimensions ?o \<and> ttype out' = ttype ?o \<and>
        (\<forall>i. 0 \<le> i \<and> i < ?n \<longrightarrow> broadcasts {dim_at ?n input i, dim_at ?n (shape_tensor shp) i} (extent out' i))"
    by (rule broadcast_to_merge) (use assms False in \<open>auto simp: shape_tensor_def\<close>)
  then show ?thesis using False assms
    by (auto simp: ShapeBroadcastTo_def Let_def column_def shape_tensor_def max_def split: option.splits)
qed

definition w_shape_arg :: "int list \<Rightarrow> Tensor" where
  "w_shape_arg xs = (w_tensor [int (length xs)])\<lparr>ttype := int32_t, host := Some (\<lambda>i. xs ! nat i)\<rparr>"

theorem BroadcastTo_spec_witness:
  "\<exists>out'. ShapeBroadcastTo False [w_tensor [3, 1], w_shape_arg [2, 1, 4]] [w_tensor []] = Some [out'] \<and>
     shape out' = [2, 3, 4] \<and>
     broadcasts (column 3 [w_tensor [3, 1], shape_tensor (w_shape_arg [2, 1, 4])] 1) (extent out' 1)"
proof -
  have e: "elementSize (w_shape_arg [2, 1, 4]) = 3" by code_simp
  have "map_option (map shape) (ShapeBroadcastTo False [w_tensor [3, 1], w_shape_arg [2, 1, 4]] [w_tensor []]) =
      Some [[2, 3, 4]]"
    by code_simp
  then show ?thesis
    using BroadcastTo_spec [of "w_tensor [3, 1]" "w_shape_arg [2, 1, 4]" "w_tensor []"] e by auto
qed

end
