(* ===== verification/Shape_Cache.thy ===== *)
theory Shape_Cache
  imports Shape_Broadcast
begin

text \<open>
  The shape pass over the operators of a network: the dispatcher \<^verbatim>\<open>SizeComputer::computeOutputSize\<close>
  (\<^verbatim>\<open>source/shape/SizeComputer.cpp\<close>), the resize cache of an operator (\<^verbatim>\<open>Schedule::OpResizeCache\<close>,
  \<^verbatim>\<open>source/core/Schedule.cpp\<close>), the loop of \<^verbatim>\<open>GeometryComputerUtils::shapeComputeAndGeometryTransform\<close>
  that uses both, and \<^verbatim>\<open>Interpreter::resizeTensor\<close>.

  A network is a store of tensors numbered by their index. The pass covers the operators that are not
  constant; what constant operators compute are the contents of the tensors, which the pass only reads.
\<close>

section \<open>The dispatcher\<close>

record Blob =
  bdims :: "int list option"
  bdataType :: DataType
  bdataFormat :: MNN_DATA_FORMAT

definition blobDims :: "int list option \<Rightarrow> Tensor \<Rightarrow> Tensor" where
  "blobDims ds t =
     (case ds of
        Some xs \<Rightarrow> fill 0 (int (length xs)) (\<lambda>i. xs ! nat i) (t\<lparr>dimensions := int (length xs)\<rparr>)
      | None \<Rightarrow> t\<lparr>dimensions := 0\<rparr>)"

definition computeShapeForBlob :: "Blob \<Rightarrow> Tensor \<Rightarrow> bool \<times> Tensor" where
  "computeShapeForBlob parameter output =
     (let out = blobDims (bdims parameter) output;
          zeroShape = (case bdims parameter of Some xs \<Rightarrow> (\<exists>x \<in> set xs. x \<le> 0) | None \<Rightarrow> False);
          out = setType (if bdataType parameter = DT_HALF then DT_FLOAT else bdataType parameter) out
      in (zeroShape, out\<lparr>dimensionFormat := bdataFormat parameter\<rparr>))"

definition loopOutput :: "Blob \<Rightarrow> Tensor \<Rightarrow> Tensor" where
  "loopOutput blob t =
     blobDims (bdims blob) (setType (bdataType blob) (t\<lparr>dimensionFormat := bdataFormat blob\<rparr>))"

text \<open>
  What the dispatcher distinguishes of an operator: \<^verbatim>\<open>nullptr\<close>, a blob, a loop with its description of the
  outputs, other control flow, and the others with the computer registered for their type.
\<close>

datatype OpKind = CopyOp | BlobOp Blob | LoopOp "Blob list option" | ControlFlow | ComputedOp "shape_fun option"

definition copyOutput :: "Tensor \<Rightarrow> Tensor \<Rightarrow> Tensor" where
  "copyOutput ib ob =
     (copyDims (dimensions ib) ib ob)\<lparr>dimensions := dimensions ib, ttype := ttype ib, dimensionFormat := dimensionFormat ib\<rparr>"

text \<open>\<open>inPlace\<close>: the first output is the first input.\<close>

definition defaultSize :: "bool \<Rightarrow> shape_fun" where
  "defaultSize inPlace inputs outputs =
     (if length inputs \<ge> 1 \<and> (length outputs = 1 \<or> length outputs = length inputs) then
        (if inPlace then Some outputs else Some (map (\<lambda>i. copyOutput (inputs ! i) (outputs ! i)) [0..<length outputs]))
      else None)"

definition computeOutputSize :: "OpKind \<Rightarrow> bool \<Rightarrow> shape_fun" where
  "computeOutputSize op inPlace inputs outputs =
     (case op of
        CopyOp \<Rightarrow> defaultSize inPlace inputs outputs
      | BlobOp b \<Rightarrow> Some (outputs[0 := snd (computeShapeForBlob b (outputs ! 0))])
      | LoopOp None \<Rightarrow> None
      | LoopOp (Some bs) \<Rightarrow> Some (map (\<lambda>i. loopOutput (bs ! i) (outputs ! i)) [0..<length outputs])
      | ControlFlow \<Rightarrow> None
      | ComputedOp computer \<Rightarrow>
          (if \<exists>t \<in> set inputs. \<exists>d \<in> set (shape t). d < 0 then None
           else case computer of Some f \<Rightarrow> f inputs outputs | None \<Rightarrow> defaultSize inPlace inputs outputs))"

section \<open>The resize cache\<close>

record ShapeInfo =
  infoOrder :: MNN_DATA_FORMAT
  infoDim :: "int list"
  infoType :: halide_type
  infoBuffer :: "int list"

record OpResizeCache =
  mInputInfos :: "ShapeInfo list"
  mComputed :: bool
  mCanCache :: bool
  mPass :: bool
  mNeedCompareContent :: "nat list"
  needComputeShape :: bool

record Net =
  tensorOf :: "nat \<Rightarrow> Tensor"
  virtualMem :: "nat \<Rightarrow> bool"
  shapeStage :: "nat \<Rightarrow> bool"

definition close :: "bool \<Rightarrow> OpResizeCache \<Rightarrow> OpResizeCache" where
  "close pass c = c\<lparr>mCanCache := False, mInputInfos := [], mPass := pass\<rparr>"

definition open_cache :: "OpResizeCache \<Rightarrow> OpResizeCache" where
  "open_cache c = c\<lparr>mCanCache := True\<rparr>"

definition addContentIndex :: "nat \<Rightarrow> OpResizeCache \<Rightarrow> OpResizeCache" where
  "addContentIndex i c = c\<lparr>mNeedCompareContent := mNeedCompareContent c @ [i]\<rparr>"

definition copyImmutable :: "OpResizeCache \<Rightarrow> OpResizeCache \<Rightarrow> OpResizeCache" where
  "copyImmutable other c = c\<lparr>mNeedCompareContent := mNeedCompareContent other\<rparr>"

text \<open>The elements stored in the first \<^verbatim>\<open>usize\<close> bytes of the host memory.\<close>

definition contents :: "Tensor \<Rightarrow> int list" where
  "contents t = map (hostv t) [0..usize t div bytes (ttype t) - 1]"

definition matchInfo :: "Net \<Rightarrow> ShapeInfo \<Rightarrow> nat \<Rightarrow> bool" where
  "matchInfo n s x =
     (let t = tensorOf n x
      in infoOrder s = dimensionFormat t \<and> infoType s = ttype t \<and> int (length (infoDim s)) = dimensions t \<and>
         (\<forall>v < length (infoDim s). infoDim s ! v = extent t (int v)) \<and> \<not> (virtualMem n x \<and> shapeStage n x))"

definition matchContent :: "ShapeInfo \<Rightarrow> Tensor \<Rightarrow> bool" where
  "matchContent s t \<longleftrightarrow> (\<forall>i < length (infoBuffer s). infoBuffer s ! i = hostv t (int i))"

text \<open>The result, and whether the inputs were compared.\<close>

definition matchCache :: "OpResizeCache \<Rightarrow> Net \<Rightarrow> nat list \<Rightarrow> bool \<times> bool" where
  "matchCache c n inputs =
     (if \<not> mCanCache c then (mPass c, False)
      else if \<not> mComputed c then (False, False)
      else if length (mInputInfos c) \<noteq> length inputs then (False, False)
      else ((\<forall>u < length inputs. matchInfo n (mInputInfos c ! u) (inputs ! u)) \<and>
            (\<forall>d \<in> set (mNeedCompareContent c). matchContent (mInputInfos c ! d) (tensorOf n (inputs ! d))), True))"

text \<open>The contents of a large tensor are not kept: the cache is closed.\<close>

fun insertContents :: "nat list \<Rightarrow> Tensor list \<Rightarrow> ShapeInfo list \<Rightarrow> ShapeInfo list option" where
  "insertContents [] inputs infos = Some infos"
| "insertContents (d # ds) inputs infos =
     (if usize (inputs ! d) > 10000 then None
      else insertContents ds inputs (infos[d := (infos ! d)\<lparr>infoBuffer := contents (inputs ! d)\<rparr>]))"

definition newInfos :: "ShapeInfo list \<Rightarrow> Tensor list \<Rightarrow> ShapeInfo list" where
  "newInfos old inputs =
     map (\<lambda>u. \<lparr>infoOrder = dimensionFormat (inputs ! u), infoDim = shape (inputs ! u), infoType = ttype (inputs ! u),
            infoBuffer = (if u < length old then infoBuffer (old ! u) else [])\<rparr>) [0..<length inputs]"

definition insertCache :: "Tensor list \<Rightarrow> OpResizeCache \<Rightarrow> OpResizeCache" where
  "insertCache inputs c =
     (if \<not> mCanCache c then c
      else
        (let c1 = c\<lparr>mComputed := True, mInputInfos := newInfos (mInputInfos c) inputs\<rparr>
         in case insertContents (mNeedCompareContent c) inputs (mInputInfos c1) of
              None \<Rightarrow> close False c1
            | Some infos \<Rightarrow> c1\<lparr>mInputInfos := infos\<rparr>))"

section \<open>The pass\<close>

record ShapeOp =
  opCompute :: shape_fun
  opInputs :: "nat list"
  opOutputs :: "nat list"
  computeCache :: OpResizeCache

text \<open>A computer writes the shape of a tensor, not its contents.\<close>

definition storeShapes :: "nat list \<Rightarrow> Tensor list \<Rightarrow> (nat \<Rightarrow> Tensor) \<Rightarrow> (nat \<Rightarrow> Tensor)" where
  "storeShapes xs ts f = fold (\<lambda>(x, t) f. f(x := t\<lparr>host := host (f x)\<rparr>)) (zip xs ts) f"

definition adjustAll :: "nat list \<Rightarrow> (nat \<Rightarrow> Tensor) \<Rightarrow> (nat \<Rightarrow> Tensor)" where
  "adjustAll xs f = fold (\<lambda>x f. f(x := adjustTensorForCompability (f x))) xs f"

definition shapeStep :: "ShapeOp \<Rightarrow> Net \<Rightarrow> ErrorCode \<times> ShapeOp \<times> Net" where
  "shapeStep op n =
     (let n1 = n\<lparr>shapeStage := (\<lambda>t. t \<notin> set (opOutputs op) \<and> shapeStage n t)\<rparr>;
          (matched, compared) = matchCache (computeCache op) n1 (opInputs op);
          needCompute = (\<not> matched);
          c1 = (if needCompute \<and> compared then close False (computeCache op) else computeCache op)
      in if needCompute then
           (case opCompute op (map (tensorOf n1) (opInputs op)) (map (tensorOf n1) (opOutputs op)) of
              None \<Rightarrow> (COMPUTE_SIZE_ERROR, op\<lparr>computeCache := c1\<rparr>, n1)
            | Some ts \<Rightarrow>
                (let f = adjustAll (opInputs op) (adjustAll (opOutputs op) (storeShapes (opOutputs op) ts (tensorOf n1)));
                     c2 = insertCache (map f (opInputs op)) c1
                 in (NO_ERROR, op\<lparr>computeCache := c2\<lparr>needComputeShape := True\<rparr>\<rparr>,
                     n1\<lparr>tensorOf := f, shapeStage := (\<lambda>t. t \<in> set (opOutputs op) \<or> shapeStage n1 t)\<rparr>)))
         else (NO_ERROR, op\<lparr>computeCache := c1\<lparr>needComputeShape := False\<rparr>\<rparr>, n1))"

fun shapePass :: "ShapeOp list \<Rightarrow> Net \<Rightarrow> ErrorCode \<times> ShapeOp list \<times> Net" where
  "shapePass [] n = (NO_ERROR, [], n)"
| "shapePass (op # ops) n =
     (let (code, op1, n1) = shapeStep op n
      in if code \<noteq> NO_ERROR then (code, op1 # ops, n1)
         else (let (code, ops1, n2) = shapePass ops n1 in (code, op1 # ops1, n2)))"

section \<open>Resizing an input\<close>

text \<open>The result says whether the session is marked for a resize.\<close>

definition resizeTensor :: "int list \<Rightarrow> Tensor \<Rightarrow> bool \<times> Tensor" where
  "resizeTensor dims t =
     (let dirty = (dimensions t \<noteq> int (length dims) \<or> (\<exists>i < length dims. extent t (int i) \<noteq> dims ! i))
      in if \<not> dirty then (False, t) else (True, setShape dims t))"

end
