(* ===== verification/Shape_Cache_Correct.thy ===== *)
theory Shape_Cache_Correct
  imports Shape_Cache
begin

text \<open>
  Caching does not change the result of shape inference. A locale states what a shape computer may read;
  under this contract an operator whose cache matches has the outputs it would compute, and the pass over
  a network gives the same shapes as a pass that computes everything.
\<close>

section \<open>Tensors of the same shape\<close>

definition sameShape :: "Tensor \<Rightarrow> Tensor \<Rightarrow> bool" where
  "sameShape t u \<longleftrightarrow> 0 \<le> dimensions t \<and> dimensions t = dimensions u \<and> ttype t = ttype u \<and>
     dimensionFormat t = dimensionFormat u \<and> (\<forall>i. 0 \<le> i \<longrightarrow> i < dimensions t \<longrightarrow> extent t i = extent u i)"

lemma sameShape_refl: "sameShape t t \<longleftrightarrow> 0 \<le> dimensions t"
  by (simp add: sameShape_def)

lemma sameShape_sym: "sameShape t u \<Longrightarrow> sameShape u t"
  by (simp add: sameShape_def)

lemma sameShape_trans: "sameShape t u \<Longrightarrow> sameShape u v \<Longrightarrow> sameShape t v"
  by (simp add: sameShape_def)

lemma sameShape_adjust: "0 \<le> dimensions t \<Longrightarrow> sameShape (adjustTensorForCompability t) t"
  by (simp add: sameShape_def)

lemma sameShape_host: "sameShape (t\<lparr>host := h\<rparr>) u \<longleftrightarrow> sameShape t u"
  by (simp add: sameShape_def)

lemma sameShape_usize: "sameShape t u \<Longrightarrow> usize t = usize u"
proof -
  assume s: "sameShape t u"
  have "fold (\<lambda>i n. (n * dim_size t i) mod 2 ^ 64) xs k = fold (\<lambda>i n. (n * dim_size u i) mod 2 ^ 64) xs k"
    if "set xs \<subseteq> {0..<dimensions t}" for xs k
    using that s by (induction xs arbitrary: k) (simp_all add: dim_size_def sameShape_def)
  moreover have "set [0..dimensions t - 1] \<subseteq> {0..<dimensions t}" by auto
  ultimately show ?thesis using s by (simp add: usize_def sameShape_def)
qed

lemma sameShape_contents:
  assumes "sameShape t u" "host t = host u"
  shows "contents t = contents u"
  using assms sameShape_usize [OF assms(1)] by (simp add: contents_def hostv_def sameShape_def)

text \<open>Inputs that agree in their shapes, and in the contents that are needed.\<close>

definition sameInputs :: "nat list \<Rightarrow> Tensor list \<Rightarrow> Tensor list \<Rightarrow> bool" where
  "sameInputs need ts us \<longleftrightarrow> list_all2 sameShape ts us \<and>
     (\<forall>d \<in> set need. d < length ts \<longrightarrow> contents (ts ! d) = contents (us ! d))"

section \<open>The contract of a shape computer\<close>

text \<open>
  A computer reads of its inputs no more than their shapes and the contents it lists, and its result does
  not depend on what the outputs held before.
\<close>

locale shape_computer =
  fixes F :: shape_fun and need :: "nat list" and ni no :: nat
  assumes reads_only: "sameInputs need ins ins' \<Longrightarrow> length ins = ni \<Longrightarrow> length outs = no \<Longrightarrow> length outs' = no \<Longrightarrow>
      rel_option (list_all2 sameShape) (F ins outs) (F ins' outs')"
    and keeps_length: "F ins outs = Some ts \<Longrightarrow> length ts = length outs"

section \<open>The default\<close>

lemma copyOutput_shape: "0 \<le> dimensions t \<Longrightarrow> sameShape (copyOutput t o1) t"
  by (simp add: copyOutput_def sameShape_def)

lemma copyOutput_same: "sameShape t u \<Longrightarrow> sameShape (copyOutput t o1) (copyOutput u o2)"
  by (simp add: copyOutput_def sameShape_def)

interpretation copying: shape_computer "defaultSize False" need ni no
proof unfold_locales
  fix ins ins' outs outs' :: "Tensor list"
  assume s: "sameInputs need ins ins'" and l: "length outs = no" "length outs' = no"
  have li: "length ins = length ins'" "\<And>i. i < length ins \<Longrightarrow> sameShape (ins ! i) (ins' ! i)"
    using s by (auto simp: sameInputs_def list_all2_conv_all_nth)
  show "rel_option (list_all2 sameShape) (defaultSize False ins outs) (defaultSize False ins' outs')"
  proof (cases "length ins \<ge> 1 \<and> (no = 1 \<or> no = length ins)")
    case True
    then have "sameShape (copyOutput (ins ! i) (outs ! i)) (copyOutput (ins' ! i) (outs' ! i))" if "i < no" for i
      by (intro copyOutput_same li(2)) (use True that in auto)
    then show ?thesis using True l li(1) by (simp add: defaultSize_def list_all2_conv_all_nth)
  qed (use l li(1) in \<open>auto simp: defaultSize_def\<close>)
qed (auto simp: defaultSize_def split: if_splits)

section \<open>Binary operators\<close>

lemma computeBroadCastDims_same:
  assumes "list_all2 sameShape ins ins'" "ins \<noteq> []" "ttype o1 = ttype o2" "dimensionFormat o1 = dimensionFormat o2"
  shows "rel_option (list_all2 sameShape) (computeBroadCastDims ins [o1]) (computeBroadCastDims ins' [o2])"
proof -
  have l: "length ins = length ins'" and n: "\<And>i. i < length ins \<Longrightarrow> sameShape (ins ! i) (ins' ! i)"
    using assms(1) by (auto simp: list_all2_conv_all_nth)
  have map: "map dimensions ins = map dimensions ins'"
    using l n by (intro nth_equalityI) (simp_all add: sameShape_def)
  let ?m = "Max (dimensions ` set ins)"
  have m: "Max (dimensions ` set ins') = ?m" using arg_cong [OF map, of set] by simp
  have le: "dimensions (ins ! i) \<le> ?m" if "i < length ins" for i using that by (intro Max_ge) auto
  have c: "column ?m ins i = column ?m ins' i" if "0 \<le> i" "i < ?m" for i
  proof -
    have "map (\<lambda>t. dim_at ?m t i) ins = map (\<lambda>t. dim_at ?m t i) ins'"
      using l n le that by (intro nth_equalityI) (simp_all add: sameShape_def dim_at_def)
    then have "set (map (\<lambda>t. dim_at ?m t i) ins) = set (map (\<lambda>t. dim_at ?m t i) ins')" by (rule arg_cong)
    then show ?thesis by (simp add: column_def)
  qed
  have w: "\<forall>t \<in> set ins. 0 \<le> dimensions t" "\<forall>t \<in> set ins'. 0 \<le> dimensions t"
    using n sameShape_sym [OF n] l by (auto simp: in_set_conv_nth sameShape_def)
  have ne: "ins' \<noteq> []" using l assms(2) by auto
  note s1 = computeBroadCastDims_spec [OF assms(2) w(1), where out = o1 and os = "[]"]
  note s2 = computeBroadCastDims_spec [OF ne w(2), where out = o2 and os = "[]", unfolded m]
  have "0 \<le> dimensions (ins ! 0)" "dimensions (ins ! 0) \<le> ?m" using w(1) le assms(2) by auto
  then have m0: "0 \<le> ?m" by linarith
  show ?thesis
  proof (cases "computeBroadCastDims ins [o1]"; cases "computeBroadCastDims ins' [o2]")
    fix r assume e: "computeBroadCastDims ins [o1] = None" "computeBroadCastDims ins' [o2] = Some r"
    obtain i where "0 \<le> i" "i < ?m" "\<forall>r. \<not> broadcasts (column ?m ins i) r" using s1 e(1) by auto
    moreover have "\<forall>i. 0 \<le> i \<and> i < ?m \<longrightarrow> (\<exists>r. broadcasts (column ?m ins' i) r)" using s2 e(2) by fastforce
    ultimately show ?thesis using c by auto
  next
    fix r assume e: "computeBroadCastDims ins [o1] = Some r" "computeBroadCastDims ins' [o2] = None"
    obtain i where "0 \<le> i" "i < ?m" "\<forall>r. \<not> broadcasts (column ?m ins' i) r" using s2 e(2) by auto
    moreover have "\<forall>i. 0 \<le> i \<and> i < ?m \<longrightarrow> (\<exists>r. broadcasts (column ?m ins i) r)" using s1 e(1) by fastforce
    ultimately show ?thesis using c by auto
  next
    fix r r' assume e: "computeBroadCastDims ins [o1] = Some r" "computeBroadCastDims ins' [o2] = Some r'"
    obtain t where t: "r = [t]" "dimensions t = ?m" "ttype t = ttype o1" "dimensionFormat t = dimensionFormat o1"
      "\<And>i. 0 \<le> i \<Longrightarrow> i < ?m \<Longrightarrow> broadcasts (column ?m ins i) (extent t i)" using s1 e(1) by auto
    obtain u where u: "r' = [u]" "dimensions u = ?m" "ttype u = ttype o2" "dimensionFormat u = dimensionFormat o2"
      "\<And>i. 0 \<le> i \<Longrightarrow> i < ?m \<Longrightarrow> broadcasts (column ?m ins' i) (extent u i)" using s2 e(2) by auto
    have "extent t i = extent u i" if "0 \<le> i" "i < ?m" for i
    proof (rule broadcasts_unique)
      show "broadcasts (column ?m ins i) (extent t i)" using t(5) that by simp
      show "broadcasts (column ?m ins i) (extent u i)" using u(5) c that by simp
    qed
    then have "sameShape t u" using t u m0 assms(3,4) by (simp add: sameShape_def)
    then show ?thesis using e t(1) u(1) by simp
  qed simp
qed

interpretation binary: shape_computer "BinaryOpComputer opType" need 2 1
proof unfold_locales
  fix ins ins' outs outs' :: "Tensor list"
  assume s: "sameInputs need ins ins'" and l: "length ins = 2" "length outs = 1" "length outs' = 1"
  obtain a b where i: "ins = [a, b]" using l(1) by (auto simp: length_Suc_conv numeral_2_eq_2)
  obtain a' b' where i': "ins' = [a', b']" and ab: "sameShape a a'" "sameShape b b'"
    using s by (auto simp: sameInputs_def i list_all2_Cons1)
  obtain o1 o2 where o: "outs = [o1]" "outs' = [o2]" using l(2,3) by (auto simp: length_Suc_conv)
  have ty: "ttype a' = ttype a" "ttype b' = ttype b" "dimensions a' = dimensions a" "dimensions b' = dimensions b"
    "dimensionFormat a' = dimensionFormat a" "dimensionFormat b' = dimensionFormat b"
    using ab by (simp_all add: sameShape_def)
  have f: "dimensionFormat (if dimensions a < dimensions b then b' else a') = dimensionFormat (if dimensions a < dimensions b then b else a)"
    using ty by simp
  have "list_all2 sameShape ins ins'" using ab by (simp add: i i')
  then have "rel_option (list_all2 sameShape) (computeBroadCastDims ins [x]) (computeBroadCastDims ins' [y])"
    if "ttype x = ttype y" "dimensionFormat x = dimensionFormat y" for x y
    by (rule computeBroadCastDims_same) (use that i in simp_all)
  then show "rel_option (list_all2 sameShape) (BinaryOpComputer opType ins outs) (BinaryOpComputer opType ins' outs')"
    unfolding BinaryOpComputer_def Let_def i i' o by (simp add: ty f)
next
  show "length ts = length outs" if "BinaryOpComputer opType ins outs = Some ts" for ins outs ts
    using that by (auto simp: BinaryOpComputer_def computeBroadCastDims_def Let_def split: if_splits prod.splits option.splits)
qed

section \<open>The dispatcher\<close>

lemma nonneg_same:
  assumes "list_all2 sameShape ins ins'"
  shows "(\<exists>t \<in> set ins. \<exists>d \<in> set (shape t). d < 0) \<longleftrightarrow> (\<exists>t \<in> set ins'. \<exists>d \<in> set (shape t). d < 0)"
proof -
  have "map shape ins = map shape ins'"
  proof (rule nth_equalityI)
    show "length (map shape ins) = length (map shape ins')" using list_all2_lengthD [OF assms] by simp
    fix i assume "i < length (map shape ins)"
    then have i: "i < length ins" "i < length ins'" using list_all2_lengthD [OF assms] by simp_all
    then have "sameShape (ins ! i) (ins' ! i)" using list_all2_nthD [OF assms] by simp
    then have "shape (ins ! i) = shape (ins' ! i)" by (intro shape_eqI) (simp_all add: sameShape_def)
    then show "map shape ins ! i = map shape ins' ! i" using i by simp
  qed
  then have "shape ` set ins = shape ` set ins'" by (metis list.set_map)
  then show ?thesis by (metis (no_types, lifting) image_iff)
qed

text \<open>The dispatcher keeps the contract of the computer it calls.\<close>

lemma dispatch_computer:
  assumes "shape_computer F need ni no"
  shows "shape_computer (computeOutputSize (ComputedOp (Some F)) False) need ni no"
proof -
  note f = shape_computer.reads_only [OF assms] shape_computer.keeps_length [OF assms]
  show ?thesis
  proof unfold_locales
    fix ins ins' outs outs' :: "Tensor list"
    assume s: "sameInputs need ins ins'" "length ins = ni" "length outs = no" "length outs' = no"
    then have "list_all2 sameShape ins ins'" by (simp add: sameInputs_def)
    from nonneg_same [OF this] f(1) [OF s]
    show "rel_option (list_all2 sameShape) (computeOutputSize (ComputedOp (Some F)) False ins outs)
        (computeOutputSize (ComputedOp (Some F)) False ins' outs')"
      by (simp add: computeOutputSize_def)
  qed (use f(2) in \<open>auto simp: computeOutputSize_def split: if_splits\<close>)
qed

section \<open>What a cache knows\<close>

definition describes :: "nat list \<Rightarrow> ShapeInfo list \<Rightarrow> Tensor list \<Rightarrow> bool" where
  "describes need infos ins \<longleftrightarrow> length infos = length ins \<and>
     (\<forall>u < length ins. 0 \<le> dimensions (ins ! u) \<and> infoOrder (infos ! u) = dimensionFormat (ins ! u) \<and>
        infoDim (infos ! u) = shape (ins ! u) \<and> infoType (infos ! u) = ttype (ins ! u)) \<and>
     (\<forall>d \<in> set need. d < length ins \<longrightarrow> infoBuffer (infos ! d) = contents (ins ! d))"

lemma insertContents_describes:
  assumes "insertContents ds ins infos = Some infos'"
  shows "length infos' = length infos \<and>
    (\<forall>u. infoOrder (infos' ! u) = infoOrder (infos ! u) \<and> infoDim (infos' ! u) = infoDim (infos ! u) \<and>
      infoType (infos' ! u) = infoType (infos ! u) \<and>
      (u < length infos \<longrightarrow> infoBuffer (infos' ! u) = (if u \<in> set ds then contents (ins ! u) else infoBuffer (infos ! u))))"
  using assms
proof (induction ds arbitrary: infos)
  case (Cons d ds)
  let ?i = "infos[d := (infos ! d)\<lparr>infoBuffer := contents (ins ! d)\<rparr>]"
  have e: "insertContents ds ins ?i = Some infos'" using Cons.prems by (simp split: if_splits)
  have n: "infoOrder (?i ! u) = infoOrder (infos ! u) \<and> infoDim (?i ! u) = infoDim (infos ! u) \<and>
      infoType (?i ! u) = infoType (infos ! u) \<and>
      (u < length infos \<longrightarrow> infoBuffer (?i ! u) = (if u = d then contents (ins ! d) else infoBuffer (infos ! u)))" for u
    by (cases "d < length infos"; cases "u = d") (simp_all add: list_update_beyond)
  show ?case using Cons.IH [OF e] n by (auto simp: n)
qed simp

lemma insertCache_describes:
  assumes "mCanCache (insertCache ins c)" "\<forall>t \<in> set ins. 0 \<le> dimensions t"
  shows "describes (mNeedCompareContent c) (mInputInfos (insertCache ins c)) ins"
proof -
  have c: "mCanCache c" using assms(1) by (auto simp: insertCache_def split: if_splits)
  obtain infos where i: "insertContents (mNeedCompareContent c) ins (newInfos (mInputInfos c) ins) = Some infos"
    using assms(1) c by (auto simp: insertCache_def close_def Let_def split: option.splits)
  then have e: "mInputInfos (insertCache ins c) = infos" using c by (simp add: insertCache_def)
  show ?thesis using insertContents_describes [OF i] assms(2) unfolding e
    by (simp add: describes_def newInfos_def)
qed

lemma insertCache_simps [simp]:
  "mNeedCompareContent (insertCache ins c) = mNeedCompareContent c" "mPass (close p c) = p" "\<not> mCanCache (close p c)"
  "mNeedCompareContent (close p c) = mNeedCompareContent c"
  by (simp_all add: insertCache_def close_def Let_def split: option.split)

lemma insertCache_pass: "mPass (insertCache ins c) \<longrightarrow> mPass c"
  by (simp add: insertCache_def close_def Let_def split: option.split)

text \<open>When a cache matches, the inputs are those it was filled with.\<close>

lemma match_same:
  assumes "fst (matchCache c n xs)" "mCanCache c" "describes (mNeedCompareContent c) (mInputInfos c) ins"
    "\<forall>d \<in> set (mNeedCompareContent c). d < length xs"
  shows "sameInputs (mNeedCompareContent c) ins (map (tensorOf n) xs)"
proof -
  let ?infos = "mInputInfos c"
  have m: "length ?infos = length xs" "\<forall>u < length xs. matchInfo n (?infos ! u) (xs ! u)"
    "\<forall>d \<in> set (mNeedCompareContent c). matchContent (?infos ! d) (tensorOf n (xs ! d))"
    using assms(1,2) by (auto simp: matchCache_def split: if_splits)
  have l: "length ins = length xs" using m(1) assms(3) by (simp add: describes_def)
  have s: "sameShape (ins ! u) (tensorOf n (xs ! u))" if u: "u < length xs" for u
  proof -
    have i: "0 \<le> dimensions (ins ! u)" "infoOrder (?infos ! u) = dimensionFormat (ins ! u)"
      "infoDim (?infos ! u) = shape (ins ! u)" "infoType (?infos ! u) = ttype (ins ! u)"
      using assms(3) u l by (simp_all add: describes_def)
    have k: "matchInfo n (?infos ! u) (xs ! u)" using m(2) u by simp
    then have d: "dimensions (ins ! u) = dimensions (tensorOf n (xs ! u))"
      using i by (simp add: matchInfo_def Let_def)
    have "extent (ins ! u) j = extent (tensorOf n (xs ! u)) j" if j: "0 \<le> j" "j < dimensions (ins ! u)" for j
    proof -
      have "nat j < length (infoDim (?infos ! u))" using j i(3) by simp
      then have "infoDim (?infos ! u) ! nat j = extent (tensorOf n (xs ! u)) (int (nat j))"
        using k unfolding matchInfo_def Let_def by blast
      then show ?thesis using i(3) j by (simp add: shape_nth)
    qed
    then show ?thesis using k i d by (simp add: sameShape_def matchInfo_def Let_def)
  qed
  have "contents (ins ! d) = contents (tensorOf n (xs ! d))" if d: "d \<in> set (mNeedCompareContent c)" for d
  proof -
    have dl: "d < length xs" using assms(4) d by simp
    have b: "infoBuffer (?infos ! d) = contents (ins ! d)" using assms(3) d dl l by (simp add: describes_def)
    have "usize (ins ! d) = usize (tensorOf n (xs ! d))" "ttype (ins ! d) = ttype (tensorOf n (xs ! d))"
      using s [OF dl] sameShape_usize by (auto simp: sameShape_def)
    then have le: "length (contents (ins ! d)) = length (contents (tensorOf n (xs ! d)))" by (simp add: contents_def)
    show ?thesis
    proof (rule nth_equalityI [OF le])
      fix i assume i: "i < length (contents (ins ! d))"
      have "contents (ins ! d) ! i = hostv (tensorOf n (xs ! d)) (int i)"
        using bspec [OF m(3) d] i b by (simp add: matchContent_def)
      also have "\<dots> = contents (tensorOf n (xs ! d)) ! i" using i le by (simp add: contents_def nth_upto)
      finally show "contents (ins ! d) ! i = contents (tensorOf n (xs ! d)) ! i" .
    qed
  qed
  then show ?thesis using s l assms(4) by (simp add: sameInputs_def list_all2_conv_all_nth)
qed

section \<open>The operators of a network\<close>

abbreviation needed :: "ShapeOp \<Rightarrow> nat list" where
  "needed op \<equiv> mNeedCompareContent (computeCache op)"

text \<open>
  An operator reads tensors that are there already, writes new ones, and its computer keeps the contract
  for the contents its cache compares.
\<close>

definition op_ok :: "nat set \<Rightarrow> ShapeOp \<Rightarrow> bool" where
  "op_ok K op \<longleftrightarrow> shape_computer (opCompute op) (needed op) (length (opInputs op)) (length (opOutputs op)) \<and>
     (\<forall>d \<in> set (needed op). d < length (opInputs op)) \<and> opInputs op \<noteq> [] \<and> set (opInputs op) \<subseteq> K \<and>
     distinct (opOutputs op) \<and> set (opOutputs op) \<inter> K = {}"

fun ops_ok :: "nat set \<Rightarrow> ShapeOp list \<Rightarrow> bool" where
  "ops_ok K [] = True"
| "ops_ok K (op # ops) = (op_ok K op \<and> ops_ok (K \<union> set (opOutputs op)) ops)"

text \<open>A cache that would match holds inputs from which the present outputs were computed.\<close>

definition cache_ok :: "ShapeOp \<Rightarrow> Net \<Rightarrow> bool" where
  "cache_ok op n \<longleftrightarrow> (mCanCache (computeCache op) \<or> \<not> mPass (computeCache op)) \<and>
     (mCanCache (computeCache op) \<longrightarrow> mComputed (computeCache op) \<longrightarrow>
      length (mInputInfos (computeCache op)) = length (opInputs op) \<longrightarrow>
      (\<exists>ins outs ts. describes (needed op) (mInputInfos (computeCache op)) ins \<and> length outs = length (opOutputs op) \<and>
         opCompute op ins outs = Some ts \<and> list_all2 sameShape ts (map (tensorOf n) (opOutputs op))))"

definition wfNet :: "nat set \<Rightarrow> Net \<Rightarrow> bool" where
  "wfNet K n \<longleftrightarrow> (\<forall>x \<in> K. 0 \<le> dimensions (tensorOf n x))"

lemma storeShapes_other: "x \<notin> set xs \<Longrightarrow> storeShapes xs ts f x = f x"
proof (induction xs arbitrary: ts f)
  case (Cons y ys)
  then show ?case by (cases ts) (simp_all add: storeShapes_def)
qed (simp add: storeShapes_def)

lemma storeShapes_nth:
  "distinct xs \<Longrightarrow> length ts = length xs \<Longrightarrow> i < length xs \<Longrightarrow> storeShapes xs ts f (xs ! i) = (ts ! i)\<lparr>host := host (f (xs ! i))\<rparr>"
proof (induction xs arbitrary: ts f i)
  case (Cons y ys)
  obtain u us where ts: "ts = u # us" using Cons.prems(2) by (cases ts) simp_all
  define g where "g = f(y := u\<lparr>host := host (f y)\<rparr>)"
  have e: "storeShapes (y # ys) ts f = storeShapes ys us g" by (simp add: storeShapes_def ts g_def)
  show ?case
  proof (cases i)
    case 0
    then show ?thesis using Cons.prems(1) storeShapes_other [of y ys us g] unfolding e by (simp add: ts g_def)
  next
    case (Suc j)
    then have "ys ! j \<noteq> y" using Cons.prems by (auto simp: nth_mem)
    then have "g (ys ! j) = f (ys ! j)" by (simp add: g_def)
    then show ?thesis using Cons.IH [of us j g] Cons.prems Suc unfolding e by (simp add: ts)
  qed
qed simp

lemma storeShapes_host: "host (storeShapes xs ts f x) = host (f x)"
proof (induction xs arbitrary: ts f)
  case (Cons y ys)
  show ?case
  proof (cases ts)
    case Nil
    then show ?thesis by (simp add: storeShapes_def)
  next
    case ts: (Cons u us)
    define g where "g = f(y := u\<lparr>host := host (f y)\<rparr>)"
    have "storeShapes (y # ys) ts f = storeShapes ys us g" by (simp add: storeShapes_def ts g_def)
    moreover have "host (g x) = host (f x)" by (simp add: g_def)
    ultimately show ?thesis using Cons.IH [of us g] by simp
  qed
qed (simp add: storeShapes_def)

lemma adjustAll_keeps:
  "host (adjustAll xs f x) = host (f x)" "dimensions (adjustAll xs f x) = dimensions (f x)"
  "0 \<le> dimensions (f x) \<Longrightarrow> sameShape (adjustAll xs f x) (f x)" "x \<notin> set xs \<Longrightarrow> adjustAll xs f x = f x"
proof -
  have "host (adjustAll xs f x) = host (f x) \<and> dimensions (adjustAll xs f x) = dimensions (f x) \<and>
    (0 \<le> dimensions (f x) \<longrightarrow> sameShape (adjustAll xs f x) (f x)) \<and> (x \<notin> set xs \<longrightarrow> adjustAll xs f x = f x)"
  proof (induction xs arbitrary: f)
    case (Cons y ys)
    define g where "g = f(y := adjustTensorForCompability (f y))"
    have e: "adjustAll (y # ys) f = adjustAll ys g" by (simp add: adjustAll_def g_def)
    have s: "sameShape (g x) (f x)" if "0 \<le> dimensions (f x)"
      using that sameShape_adjust [of "f y"] sameShape_refl [of "f x"] by (auto simp: g_def)
    have g: "host (g x) = host (f x)" "dimensions (g x) = dimensions (f x)" "x \<noteq> y \<Longrightarrow> g x = f x"
      by (simp_all add: g_def)
    show ?case
    proof (intro conjI impI)
      show "host (adjustAll (y # ys) f x) = host (f x)" "dimensions (adjustAll (y # ys) f x) = dimensions (f x)"
        using Cons.IH [of g] g unfolding e by simp_all
      show "sameShape (adjustAll (y # ys) f x) (f x)" if d: "0 \<le> dimensions (f x)"
      proof -
        have "sameShape (adjustAll ys g x) (g x)" using Cons.IH [of g] g(2) d by simp
        then show ?thesis unfolding e using s [OF d] by (rule sameShape_trans)
      qed
      show "adjustAll (y # ys) f x = f x" if "x \<notin> set (y # ys)"
        using Cons.IH [of g] g(3) that unfolding e by simp
    qed
  qed (simp add: adjustAll_def sameShape_refl)
  then show "host (adjustAll xs f x) = host (f x)" "dimensions (adjustAll xs f x) = dimensions (f x)"
    "0 \<le> dimensions (f x) \<Longrightarrow> sameShape (adjustAll xs f x) (f x)" "x \<notin> set xs \<Longrightarrow> adjustAll xs f x = f x" by auto
qed

lemma sameShapes_sym: "list_all2 sameShape ts us \<Longrightarrow> list_all2 sameShape us ts"
  using sameShape_sym by (simp add: list_all2_conv_all_nth)

lemma sameShapes_trans: "list_all2 sameShape ts us \<Longrightarrow> list_all2 sameShape us vs \<Longrightarrow> list_all2 sameShape ts vs"
  using sameShape_trans by (fastforce simp: list_all2_conv_all_nth)

lemma same_results:
  assumes "op_ok K op" "sameInputs (needed op) ins ins'" "length ins = length (opInputs op)"
    "length outs = length (opOutputs op)" "length outs' = length (opOutputs op)"
  shows "rel_option (list_all2 sameShape) (opCompute op ins outs) (opCompute op ins' outs')"
  using assms shape_computer.reads_only by (fastforce simp: op_ok_def)

lemma result_length: "op_ok K op \<Longrightarrow> opCompute op ins outs = Some ts \<Longrightarrow> length ts = length outs"
  using shape_computer.keeps_length by (fastforce simp: op_ok_def)

text \<open>Networks that agree on some tensors, and in all contents.\<close>

definition agreeOn :: "nat set \<Rightarrow> Net \<Rightarrow> Net \<Rightarrow> bool" where
  "agreeOn K n m \<longleftrightarrow> (\<forall>x \<in> K. sameShape (tensorOf n x) (tensorOf m x)) \<and> (\<forall>x. host (tensorOf n x) = host (tensorOf m x))"

lemma agree_inputs:
  assumes "agreeOn K n m" "set xs \<subseteq> K" "\<forall>d \<in> set need. d < length xs"
  shows "sameInputs need (map (tensorOf n) xs) (map (tensorOf m) xs)"
proof -
  have s: "sameShape (tensorOf n (xs ! i)) (tensorOf m (xs ! i))" if "i < length xs" for i
    using assms(1) subsetD [OF assms(2) nth_mem [OF that]] by (simp add: agreeOn_def)
  have "contents (tensorOf n (xs ! i)) = contents (tensorOf m (xs ! i))" if "i < length xs" for i
    using s [OF that] assms(1) by (intro sameShape_contents) (simp_all add: agreeOn_def)
  then show ?thesis using s assms(3) by (simp add: sameInputs_def list_all2_conv_all_nth)
qed

lemma agreeOn_wf: "agreeOn K n m \<Longrightarrow> wfNet K m"
  by (fastforce simp: agreeOn_def wfNet_def sameShape_def)

lemma agreeOn_refl: "wfNet K n \<Longrightarrow> agreeOn K n n"
  by (simp add: agreeOn_def wfNet_def sameShape_refl)

text \<open>The tensors after computing an operator.\<close>

definition computedNet :: "ShapeOp \<Rightarrow> Tensor list \<Rightarrow> (nat \<Rightarrow> Tensor) \<Rightarrow> (nat \<Rightarrow> Tensor)" where
  "computedNet op ts f = adjustAll (opInputs op) (adjustAll (opOutputs op) (storeShapes (opOutputs op) ts f))"

lemma computedNet_keeps:
  assumes "distinct (opOutputs op)" "length ts = length (opOutputs op)"
  shows "host (computedNet op ts f x) = host (f x)"
    "x \<notin> set (opOutputs op) \<Longrightarrow> 0 \<le> dimensions (f x) \<Longrightarrow> sameShape (computedNet op ts f x) (f x)"
    "i < length ts \<Longrightarrow> 0 \<le> dimensions (ts ! i) \<Longrightarrow> sameShape (ts ! i) (computedNet op ts f (opOutputs op ! i))"
proof -
  let ?s = "storeShapes (opOutputs op) ts f"
  let ?a = "adjustAll (opOutputs op) ?s"
  show "host (computedNet op ts f x) = host (f x)"
    by (simp add: computedNet_def adjustAll_keeps(1) storeShapes_host)
  have k: "sameShape (computedNet op ts f y) (?s y)" if "0 \<le> dimensions (?s y)" for y
  proof -
    have "sameShape (computedNet op ts f y) (?a y)"
      unfolding computedNet_def using that by (intro adjustAll_keeps(3)) (simp add: adjustAll_keeps(2))
    then show ?thesis using adjustAll_keeps(3) [where f = ?s and x = y and xs = "opOutputs op", OF that] by (rule sameShape_trans)
  qed
  show "sameShape (computedNet op ts f x) (f x)" if "x \<notin> set (opOutputs op)" "0 \<le> dimensions (f x)"
    using k [of x] that by (simp add: storeShapes_other)
  show "sameShape (ts ! i) (computedNet op ts f (opOutputs op ! i))" if "i < length ts" "0 \<le> dimensions (ts ! i)"
  proof -
    have e: "?s (opOutputs op ! i) = (ts ! i)\<lparr>host := host (f (opOutputs op ! i))\<rparr>"
      using storeShapes_nth assms that(1) by simp
    then have "sameShape (computedNet op ts f (opOutputs op ! i)) (?s (opOutputs op ! i))"
      using k [of "opOutputs op ! i"] that(2) by simp
    then show ?thesis unfolding e using sameShape_sym sameShape_host by blast
  qed
qed

text \<open>One operator: whether its cache matches or not, its outputs are those its computer gives.\<close>

definition stepResult :: "ShapeOp \<Rightarrow> Net \<Rightarrow> ErrorCode \<Rightarrow> Net \<Rightarrow> bool" where
  "stepResult op n err n' \<longleftrightarrow>
     (case opCompute op (map (tensorOf n) (opInputs op)) (map (tensorOf n) (opOutputs op)) of
        None \<Rightarrow> err = COMPUTE_SIZE_ERROR
      | Some ts \<Rightarrow> err = NO_ERROR \<and> list_all2 sameShape ts (map (tensorOf n') (opOutputs op))) \<and>
     (\<forall>x. host (tensorOf n' x) = host (tensorOf n x)) \<and>
     (\<forall>x. x \<notin> set (opOutputs op) \<longrightarrow> 0 \<le> dimensions (tensorOf n x) \<longrightarrow> sameShape (tensorOf n' x) (tensorOf n x))"

lemma cached_result:
  assumes "op_ok K op" "cache_ok op n" "fst (matchCache (computeCache op) n1 (opInputs op))" "tensorOf n1 = tensorOf n"
  shows "stepResult op n NO_ERROR n1"
proof -
  let ?c = "computeCache op" and ?cur = "map (tensorOf n) (opInputs op)" and ?outs = "map (tensorOf n) (opOutputs op)"
  have c: "mCanCache ?c" "mComputed ?c" "length (mInputInfos ?c) = length (opInputs op)"
    using assms(2,3) by (auto simp: cache_ok_def matchCache_def split: if_splits)
  obtain ins outs ts where i: "describes (needed op) (mInputInfos ?c) ins" "length outs = length (opOutputs op)"
    "opCompute op ins outs = Some ts" "list_all2 sameShape ts ?outs"
    using assms(2) c unfolding cache_ok_def by blast
  have "\<forall>d \<in> set (needed op). d < length (opInputs op)" using assms(1) by (simp add: op_ok_def)
  from match_same [OF assms(3) c(1) i(1) this] have s: "sameInputs (needed op) ins ?cur" by (simp add: assms(4))
  have l: "length ins = length (opInputs op)" using i(1) c(3) by (simp add: describes_def)
  have "rel_option (list_all2 sameShape) (Some ts) (opCompute op ?cur ?outs)"
    using same_results [OF assms(1) s l i(2), of ?outs] i(3) by simp
  then obtain us where u: "opCompute op ?cur ?outs = Some us" "list_all2 sameShape ts us" by (auto simp: option_rel_Some1)
  have "list_all2 sameShape us ?outs" using sameShapes_trans [OF sameShapes_sym [OF u(2)] i(4)] .
  then show ?thesis using u(1) by (simp add: stepResult_def assms(4) sameShape_refl)
qed

lemma insertCache_ok:
  assumes "mCanCache c \<or> \<not> mPass c"
  shows "mCanCache (insertCache ins c) \<or> \<not> mPass (insertCache ins c)"
  using assms by (auto simp: insertCache_def close_def Let_def split: option.split)

lemma computed_result:
  assumes "op_ok K op" "wfNet K n" "opCompute op (map (tensorOf n) (opInputs op)) (map (tensorOf n) (opOutputs op)) = Some ts"
    "tensorOf n' = computedNet op ts (tensorOf n)" "mCanCache c1 \<or> \<not> mPass c1" "mNeedCompareContent c1 = needed op"
    "op' = op\<lparr>computeCache := (insertCache (map (tensorOf n') (opInputs op)) c1)\<lparr>needComputeShape := b\<rparr>\<rparr>"
  shows "stepResult op n NO_ERROR n'" "cache_ok op' n'"
proof -
  let ?cur = "map (tensorOf n) (opInputs op)" and ?outs = "map (tensorOf n) (opOutputs op)"
  have o: "distinct (opOutputs op)" "set (opInputs op) \<subseteq> K" "set (opOutputs op) \<inter> K = {}"
    "\<forall>d \<in> set (needed op). d < length (opInputs op)" using assms(1) by (simp_all add: op_ok_def)
  have l: "length ts = length (opOutputs op)"
    using result_length [OF assms(1,3)] by simp
  note k = computedNet_keeps [OF o(1) l, where f = "tensorOf n", folded assms(4)]
  have "rel_option (list_all2 sameShape) (Some ts) (Some ts)"
    using same_results [OF assms(1) agree_inputs [OF agreeOn_refl [OF assms(2)] o(2,4)], of ?outs ?outs] assms(3) by simp
  then have wt: "0 \<le> dimensions (ts ! i)" if "i < length ts" for i
    using that list_all2_nthD [of sameShape ts ts i] by (simp add: sameShape_refl)
  have outs: "list_all2 sameShape ts (map (tensorOf n') (opOutputs op))"
    using k(3) wt l by (simp add: list_all2_conv_all_nth)
  show "stepResult op n NO_ERROR n'" using assms(3) outs k(1,2) by (simp add: stepResult_def)
  let ?new = "map (tensorOf n') (opInputs op)"
  have ag: "agreeOn K n n'"
  proof -
    have "sameShape (tensorOf n x) (tensorOf n' x)" if "x \<in> K" for x
      using k(2) [of x] sameShape_sym assms(2) o(3) that by (auto simp: wfNet_def)
    then show ?thesis using k(1) by (simp add: agreeOn_def)
  qed
  from agree_inputs [OF ag o(2,4)] have s: "sameInputs (needed op) ?cur ?new" .
  have "rel_option (list_all2 sameShape) (Some ts) (opCompute op ?new ?outs)"
    using same_results [OF assms(1) s, of ?outs ?outs] assms(3) by simp
  then obtain us where u: "opCompute op ?new ?outs = Some us" "list_all2 sameShape ts us" by (auto simp: option_rel_Some1)
  have u2: "list_all2 sameShape us (map (tensorOf n') (opOutputs op))"
    using sameShapes_trans [OF sameShapes_sym [OF u(2)] outs] .
  have w: "\<forall>t \<in> set ?new. 0 \<le> dimensions t"
    using agreeOn_wf [OF ag] o(2) by (auto simp: wfNet_def)
  have d: "mCanCache (insertCache ?new c1) \<Longrightarrow> describes (needed op) (mInputInfos (insertCache ?new c1)) ?new"
    using insertCache_describes [OF _ w, of c1] assms(6) by simp
  have "length ?outs = length (opOutputs op)" by simp
  then show "cache_ok op' n'"
    using insertCache_ok [OF assms(5), of ?new] d u(1) u2 assms(6) unfolding cache_ok_def assms(7)
    by (simp del: length_map) blast
qed

text \<open>Both ways of a step together, and what it keeps of the other operators.\<close>

lemma shapeStep_result:
  assumes "shapeStep op n = (err, op', n')" "op_ok K op" "cache_ok op n" "wfNet K n"
  shows "stepResult op n err n'" "cache_ok op' n'"
proof -
  let ?c = "computeCache op" and ?cur = "map (tensorOf n) (opInputs op)" and ?outs = "map (tensorOf n) (opOutputs op)"
  define n1 where "n1 = n\<lparr>shapeStage := (\<lambda>t. t \<notin> set (opOutputs op) \<and> shapeStage n t)\<rparr>"
  have t1: "tensorOf n1 = tensorOf n" by (simp add: n1_def)
  obtain b d where m: "matchCache ?c n1 (opInputs op) = (b, d)" by force
  define c1 where "c1 = (if \<not> b \<and> d then close False ?c else ?c)"
  have c1: "mCanCache c1 \<or> \<not> mPass c1" "mNeedCompareContent c1 = needed op"
    using assms(3) by (simp_all add: c1_def cache_ok_def)
  have s: "shapeStep op n = (if \<not> b then
      (case opCompute op ?cur ?outs of
         None \<Rightarrow> (COMPUTE_SIZE_ERROR, op\<lparr>computeCache := c1\<rparr>, n1)
       | Some ts \<Rightarrow>
           (NO_ERROR, op\<lparr>computeCache := (insertCache (map (computedNet op ts (tensorOf n)) (opInputs op)) c1)\<lparr>needComputeShape := True\<rparr>\<rparr>,
            n1\<lparr>tensorOf := computedNet op ts (tensorOf n), shapeStage := (\<lambda>t. t \<in> set (opOutputs op) \<or> shapeStage n1 t)\<rparr>))
      else (NO_ERROR, op\<lparr>computeCache := c1\<lparr>needComputeShape := False\<rparr>\<rparr>, n1))"
    unfolding shapeStep_def Let_def n1_def [symmetric] m prod.case c1_def [symmetric] t1 computedNet_def ..
  have keep: "cache_ok (op\<lparr>computeCache := c1\<rparr>) n1" "cache_ok (op\<lparr>computeCache := c1\<lparr>needComputeShape := False\<rparr>\<rparr>) n1"
    using assms(3) c1 by (auto simp: cache_ok_def t1 c1_def)
  have "stepResult op n err n' \<and> cache_ok op' n'"
  proof (cases b)
    case True
    then have "err = NO_ERROR" "op' = op\<lparr>computeCache := c1\<lparr>needComputeShape := False\<rparr>\<rparr>" "n' = n1" using assms(1) s by simp_all
    then show ?thesis using cached_result [OF assms(2,3) _ t1] m True keep(2) by simp
  next
    case False
    show ?thesis
    proof (cases "opCompute op ?cur ?outs")
      case None
      then have "err = COMPUTE_SIZE_ERROR" "op' = op\<lparr>computeCache := c1\<rparr>" "n' = n1" using assms(1) s False by simp_all
      then show ?thesis using None keep(1) t1 by (simp add: stepResult_def sameShape_refl)
    next
      case (Some ts)
      have e: "err = NO_ERROR" "tensorOf n' = computedNet op ts (tensorOf n)"
        "op' = op\<lparr>computeCache := (insertCache (map (tensorOf n') (opInputs op)) c1)\<lparr>needComputeShape := True\<rparr>\<rparr>"
        using assms(1) s False Some by auto
      show ?thesis using computed_result [OF assms(2,4) Some e(2) c1 e(3)] e(1) by simp
    qed
  qed
  then show "stepResult op n err n'" "cache_ok op' n'" by simp_all
qed

lemma cache_ok_frame:
  assumes "cache_ok op n" "\<And>x. x \<in> set (opOutputs op) \<Longrightarrow> 0 \<le> dimensions (tensorOf n x) \<Longrightarrow> sameShape (tensorOf n' x) (tensorOf n x)"
  shows "cache_ok op n'"
proof -
  have "list_all2 sameShape ts (map (tensorOf n') (opOutputs op))" if a: "list_all2 sameShape ts (map (tensorOf n) (opOutputs op))" for ts
  proof -
    have "sameShape (ts ! i) (tensorOf n' (opOutputs op ! i))" if i: "i < length ts" for i
    proof -
      have l: "length ts = length (opOutputs op)" using list_all2_lengthD [OF a] by simp
      have s: "sameShape (ts ! i) (tensorOf n (opOutputs op ! i))"
        using list_all2_nthD [OF a i] i l by simp
      then have "0 \<le> dimensions (tensorOf n (opOutputs op ! i))" by (simp add: sameShape_def)
      then have "sameShape (tensorOf n' (opOutputs op ! i)) (tensorOf n (opOutputs op ! i))" using assms(2) i l by simp
      from sameShape_trans [OF s sameShape_sym [OF this]] show ?thesis .
    qed
    then show ?thesis using a by (simp add: list_all2_conv_all_nth)
  qed
  then show ?thesis using assms(1) unfolding cache_ok_def by blast
qed

section \<open>The pass\<close>

definition written :: "ShapeOp list \<Rightarrow> nat set" where
  "written ops = (\<Union>op \<in> set ops. set (opOutputs op))"

lemma written_simps [simp]: "written [] = {}" "written (op # ops) = set (opOutputs op) \<union> written ops"
  by (simp_all add: written_def)

lemma ops_ok_disjoint: "ops_ok K ops \<Longrightarrow> written ops \<inter> K = {}"
  by (induction ops arbitrary: K) (auto simp: op_ok_def)

lemma shapeStep_keeps:
  assumes "shapeStep op n = (err, op', n')"
  shows "opOutputs op' = opOutputs op" "opInputs op' = opInputs op" "opCompute op' = opCompute op" "needed op' = needed op"
  using assms by (auto simp: shapeStep_def Let_def split: prod.splits if_splits option.splits)

lemma step_agree:
  assumes "stepResult op n err n'" "stepResult op m err' m'" "op_ok K op" "agreeOn K n m"
  shows "err = err'" "err = NO_ERROR \<Longrightarrow> agreeOn (K \<union> set (opOutputs op)) n' m'"
proof -
  let ?F = "\<lambda>n. opCompute op (map (tensorOf n) (opInputs op)) (map (tensorOf n) (opOutputs op))"
  have o: "set (opInputs op) \<subseteq> K" "set (opOutputs op) \<inter> K = {}" "\<forall>d \<in> set (needed op). d < length (opInputs op)"
    using assms(3) by (simp_all add: op_ok_def)
  have r: "rel_option (list_all2 sameShape) (?F n) (?F m)"
    by (rule same_results [OF assms(3) agree_inputs [OF assms(4) o(1,3)]]) simp_all
  show e: "err = err'" using r assms(1,2) by (cases "?F n"; cases "?F m") (auto simp: stepResult_def)
  show "agreeOn (K \<union> set (opOutputs op)) n' m'" if ok: "err = NO_ERROR"
  proof -
    obtain ts us where t: "?F n = Some ts" "?F m = Some us" "list_all2 sameShape ts us"
      using r assms(1,2) ok e by (cases "?F n"; cases "?F m") (auto simp: stepResult_def)
    have "list_all2 sameShape (map (tensorOf n') (opOutputs op)) ts" "list_all2 sameShape us (map (tensorOf m') (opOutputs op))"
      using assms(1,2) t sameShapes_sym by (simp_all add: stepResult_def)
    from sameShapes_trans [OF sameShapes_trans [OF this(1) t(3)] this(2)]
    have outs: "sameShape (tensorOf n' x) (tensorOf m' x)" if "x \<in> set (opOutputs op)" for x
      using that by (auto simp: list_all2_conv_all_nth in_set_conv_nth)
    have ins: "sameShape (tensorOf n' x) (tensorOf m' x)" if x: "x \<in> K" for x
    proof -
      have nx: "x \<notin> set (opOutputs op)" using o(2) x by blast
      have s: "sameShape (tensorOf n x) (tensorOf m x)" using assms(4) x by (simp add: agreeOn_def)
      then have d: "0 \<le> dimensions (tensorOf n x)" "0 \<le> dimensions (tensorOf m x)" by (simp_all add: sameShape_def)
      have "sameShape (tensorOf n' x) (tensorOf n x)" "sameShape (tensorOf m' x) (tensorOf m x)"
        using assms(1,2) nx d by (simp_all add: stepResult_def)
      from sameShape_trans [OF sameShape_trans [OF this(1) s] sameShape_sym [OF this(2)]] show ?thesis .
    qed
    show ?thesis using outs ins assms(1,2,4) by (auto simp: agreeOn_def stepResult_def)
  qed
qed

lemma step_frame:
  assumes "stepResult op n err n'" "cache_ok op2 n" "set (opOutputs op2) \<inter> set (opOutputs op) = {}"
  shows "cache_ok op2 n'"
proof (rule cache_ok_frame [OF assms(2)])
  fix x assume x: "x \<in> set (opOutputs op2)" "0 \<le> dimensions (tensorOf n x)"
  then have "x \<notin> set (opOutputs op)" using assms(3) by blast
  then show "sameShape (tensorOf n' x) (tensorOf n x)" using assms(1) x(2) by (simp add: stepResult_def)
qed

text \<open>The same operator without a cache.\<close>

definition uncached :: "ShapeOp \<Rightarrow> ShapeOp" where
  "uncached op = op\<lparr>computeCache := close False (computeCache op)\<rparr>"

lemma uncached_fields:
  "opOutputs (uncached op) = opOutputs op" "opInputs (uncached op) = opInputs op" "opCompute (uncached op) = opCompute op"
  by (simp_all add: uncached_def)

lemma uncached_simps [simp]:
  "op_ok K (uncached op) = op_ok K op" "cache_ok (uncached op) n" "opOutputs (uncached op) = opOutputs op"
  by (simp_all add: uncached_def op_ok_def cache_ok_def)

lemma stepResult_uncached [simp]: "stepResult (uncached op) n err n' = stepResult op n err n'"
  unfolding stepResult_def uncached_fields ..

lemma ops_ok_uncached [simp]: "ops_ok K (map uncached ops) = ops_ok K ops"
  by (induction ops arbitrary: K) simp_all

lemma shapePass_keeps:
  assumes "shapePass ops n = (err, ops', n')" "ops_ok K ops" "\<forall>op \<in> set ops. cache_ok op n" "wfNet K n"
  shows "(\<forall>op \<in> set ops'. cache_ok op n') \<and>
    (\<forall>x. x \<notin> written ops \<longrightarrow> 0 \<le> dimensions (tensorOf n x) \<longrightarrow> sameShape (tensorOf n' x) (tensorOf n x))"
  using assms
proof (induction ops arbitrary: K n err ops' n')
  case (Cons op ops)
  obtain e1 op1 n1 where s: "shapeStep op n = (e1, op1, n1)" by (cases "shapeStep op n")
  have o: "op_ok K op" "ops_ok (K \<union> set (opOutputs op)) ops" "cache_ok op n" using Cons.prems(2,3) by simp_all
  note r = shapeStep_result [OF s o(1,3) Cons.prems(4)]
  have k1: "sameShape (tensorOf n1 x) (tensorOf n x)" if "x \<notin> set (opOutputs op)" "0 \<le> dimensions (tensorOf n x)" for x
    using r(1) that by (simp add: stepResult_def)
  have c1: "\<forall>op2 \<in> set ops. cache_ok op2 n1"
  proof
    fix op2 assume i: "op2 \<in> set ops"
    have "set (opOutputs op2) \<inter> set (opOutputs op) = {}" using ops_ok_disjoint [OF o(2)] i by (auto simp: written_def)
    moreover have "cache_ok op2 n" using Cons.prems(3) i by simp
    ultimately show "cache_ok op2 n1" using step_frame [OF r(1)] by blast
  qed
  show ?case
  proof (cases "e1 = NO_ERROR")
    case False
    then have "ops' = op1 # ops" "n' = n1" using Cons.prems(1) s by simp_all
    then show ?thesis using c1 r(2) k1 by simp
  next
    case True
    obtain e2 ops2 n2 where p: "shapePass ops n1 = (e2, ops2, n2)" by (cases "shapePass ops n1")
    have e: "ops' = op1 # ops2" "n' = n2" using Cons.prems(1) s p True by simp_all
    have a: "agreeOn (K \<union> set (opOutputs op)) n1 n1"
      by (rule step_agree(2) [OF r(1) r(1) o(1) agreeOn_refl [OF Cons.prems(4)] True])
    note i = Cons.IH [OF p o(2) c1 agreeOn_wf [OF a]]
    have "cache_ok op1 n2"
    proof (rule cache_ok_frame [OF r(2)])
      fix x assume x: "x \<in> set (opOutputs op1)" "0 \<le> dimensions (tensorOf n1 x)"
      then have "x \<notin> written ops" using ops_ok_disjoint [OF o(2)] shapeStep_keeps(1) [OF s] by auto
      then show "sameShape (tensorOf n2 x) (tensorOf n1 x)" using i x(2) by simp
    qed
    moreover have "sameShape (tensorOf n2 x) (tensorOf n x)" if x: "x \<notin> written (op # ops)" "0 \<le> dimensions (tensorOf n x)" for x
    proof -
      have s1: "sameShape (tensorOf n1 x) (tensorOf n x)" using k1 x by simp
      then have "0 \<le> dimensions (tensorOf n1 x)" by (simp add: sameShape_def)
      then have "sameShape (tensorOf n2 x) (tensorOf n1 x)" using i x(1) by simp
      then show ?thesis using s1 by (rule sameShape_trans)
    qed
    ultimately show ?thesis using e i by simp
  qed
qed (simp add: sameShape_refl)

lemma shapePass_agree:
  assumes "shapePass ops n = (err, ops', n')" "shapePass (map uncached ops) m = (err', ops'', m')"
    "ops_ok K ops" "\<forall>op \<in> set ops. cache_ok op n" "agreeOn K n m"
  shows "err = err' \<and> (err = NO_ERROR \<longrightarrow> agreeOn (K \<union> written ops) n' m')"
  using assms
proof (induction ops arbitrary: K n m err ops' n' err' ops'' m')
  case (Cons op ops)
  obtain e1 op1 n1 where s: "shapeStep op n = (e1, op1, n1)" by (cases "shapeStep op n")
  obtain f1 oq1 m1 where u: "shapeStep (uncached op) m = (f1, oq1, m1)" by (cases "shapeStep (uncached op) m")
  have o: "op_ok K op" "ops_ok (K \<union> set (opOutputs op)) ops" "cache_ok op n" using Cons.prems(3,4) by simp_all
  have wm: "wfNet K m" by (rule agreeOn_wf [OF Cons.prems(5)])
  have wn: "wfNet K n" using Cons.prems(5) by (auto simp: agreeOn_def wfNet_def sameShape_def)
  note r = shapeStep_result [OF s o(1,3) wn]
  have "stepResult (uncached op) m f1 m1" by (rule shapeStep_result(1) [OF u _ _ wm]) (use o in simp_all)
  then have q: "stepResult op m f1 m1" by simp
  note a = step_agree [OF r(1) q o(1) Cons.prems(5)]
  show ?case
  proof (cases "e1 = NO_ERROR")
    case False
    then have "err = e1" "err' = f1" using Cons.prems(1,2) s u a(1) by (auto split: if_splits prod.splits)
    then show ?thesis using a(1) False by simp
  next
    case True
    obtain e2 ops2 n2 where p: "shapePass ops n1 = (e2, ops2, n2)" by (cases "shapePass ops n1")
    obtain f2 oqs2 m2 where pm: "shapePass (map uncached ops) m1 = (f2, oqs2, m2)" by (cases "shapePass (map uncached ops) m1")
    have f1: "f1 = NO_ERROR" using True a(1) by simp
    have e: "err = e2" "n' = n2" using Cons.prems(1) s p True by simp_all
    have f: "err' = f2" "m' = m2" using Cons.prems(2) u pm f1 by simp_all
    have "\<forall>op2 \<in> set ops. cache_ok op2 n1"
    proof
      fix op2 assume i: "op2 \<in> set ops"
      have "set (opOutputs op2) \<inter> set (opOutputs op) = {}" using ops_ok_disjoint [OF o(2)] i by (auto simp: written_def)
      moreover have "cache_ok op2 n" using Cons.prems(4) i by simp
      ultimately show "cache_ok op2 n1" using step_frame [OF r(1)] by blast
    qed
    from Cons.IH [OF p pm o(2) this a(2) [OF True]] show ?thesis using e f by (simp add: Un_assoc)
  qed
qed simp

lemma shapeStep_op_ok: "shapeStep op n = (err, op', n') \<Longrightarrow> op_ok K op' = op_ok K op"
  by (simp add: op_ok_def shapeStep_keeps)

lemma shapePass_ops_ok: "shapePass ops n = (err, ops', n') \<Longrightarrow> ops_ok K ops \<Longrightarrow> ops_ok K ops'"
proof (induction ops arbitrary: K n err ops' n')
  case (Cons op ops)
  obtain e1 op1 n1 where s: "shapeStep op n = (e1, op1, n1)" by (cases "shapeStep op n")
  obtain e2 ops2 n2 where p: "shapePass ops n1 = (e2, ops2, n2)" by (cases "shapePass ops n1")
  have "ops' = op1 # ops \<or> ops' = op1 # ops2" using Cons.prems(1) s p by (auto split: if_splits)
  then show ?case using Cons.prems(2) Cons.IH [OF p] shapeStep_op_ok [OF s] shapeStep_keeps(1) [OF s] by auto
qed simp

section \<open>Caches that match\<close>

lemma shapePass_host:
  "shapePass ops n = (err, ops', n') \<Longrightarrow> ops_ok K ops \<Longrightarrow> \<forall>op \<in> set ops. cache_ok op n \<Longrightarrow> wfNet K n \<Longrightarrow>
   host (tensorOf n' x) = host (tensorOf n x)"
proof (induction ops arbitrary: K n err ops' n')
  case (Cons op ops)
  obtain e1 op1 n1 where s: "shapeStep op n = (e1, op1, n1)" by (cases "shapeStep op n")
  have o: "op_ok K op" "ops_ok (K \<union> set (opOutputs op)) ops" "cache_ok op n" using Cons.prems(2,3) by simp_all
  note r = shapeStep_result(1) [OF s o(1,3) Cons.prems(4)]
  have h: "host (tensorOf n1 x) = host (tensorOf n x)" using r by (simp add: stepResult_def)
  show ?case
  proof (cases "e1 = NO_ERROR")
    case False
    then show ?thesis using Cons.prems(1) s h by simp
  next
    case True
    obtain e2 ops2 n2 where p: "shapePass ops n1 = (e2, ops2, n2)" by (cases "shapePass ops n1")
    have e: "n' = n2" using Cons.prems(1) s p True by simp
    have a: "agreeOn (K \<union> set (opOutputs op)) n1 n1"
      by (rule step_agree(2) [OF r r o(1) agreeOn_refl [OF Cons.prems(4)] True])
    have "cache_ok op2 n1" if i: "op2 \<in> set ops" for op2
    proof -
      have "set (opOutputs op2) \<inter> set (opOutputs op) = {}" using ops_ok_disjoint [OF o(2)] i by (auto simp: written_def)
      then show ?thesis using step_frame [OF r] Cons.prems(3) i by simp
    qed
    then show ?thesis using Cons.IH [OF p o(2) _ agreeOn_wf [OF a]] h e by simp
  qed
qed simp

definition fresh :: "ShapeOp \<Rightarrow> bool" where
  "fresh op \<longleftrightarrow> mCanCache (computeCache op) \<and> \<not> mComputed (computeCache op)"

text \<open>A cache that holds the present inputs.\<close>

definition warm :: "ShapeOp \<Rightarrow> Net \<Rightarrow> bool" where
  "warm op n \<longleftrightarrow> mCanCache (computeCache op) \<and> mComputed (computeCache op) \<and>
     (\<exists>ins. describes (needed op) (mInputInfos (computeCache op)) ins \<and>
        sameInputs (needed op) ins (map (tensorOf n) (opInputs op)))"

text \<open>The contents that are compared are at most 10000 bytes.\<close>

definition smallContents :: "ShapeOp \<Rightarrow> Net \<Rightarrow> bool" where
  "smallContents op n \<longleftrightarrow> (\<forall>d \<in> set (needed op). usize (tensorOf n (opInputs op ! d)) \<le> 10000)"

lemma fresh_cache_ok: "fresh op \<Longrightarrow> cache_ok op n"
  by (simp add: fresh_def cache_ok_def)

lemma insertContents_small: "\<forall>d \<in> set ds. usize (ins ! d) \<le> 10000 \<Longrightarrow> insertContents ds ins infos \<noteq> None"
  by (induction ds arbitrary: infos) (simp_all add: not_less)

lemma insertCache_small:
  assumes "mCanCache c" "\<forall>d \<in> set (mNeedCompareContent c). usize (ins ! d) \<le> 10000"
  shows "mCanCache (insertCache ins c)" "mComputed (insertCache ins c)"
  using assms insertContents_small [OF assms(2), of "newInfos (mInputInfos c) ins"]
  by (auto simp: insertCache_def Let_def split: option.split)

lemma fresh_step:
  assumes "shapeStep op n = (NO_ERROR, op', n')" "fresh op" "op_ok K op" "wfNet K n" "smallContents op' n'"
  shows "warm op' n'"
proof -
  let ?c = "computeCache op"
  have o: "set (opInputs op) \<subseteq> K" "\<forall>d \<in> set (needed op). d < length (opInputs op)" using assms(3) by (simp_all add: op_ok_def)
  have m: "matchCache ?c x (opInputs op) = (False, False)" for x using assms(2) by (simp add: fresh_def matchCache_def)
  have e: "computeCache op' = (insertCache (map (tensorOf n') (opInputs op)) ?c)\<lparr>needComputeShape := True\<rparr>" "opInputs op' = opInputs op"
    using assms(1) by (auto simp: shapeStep_def m Let_def split: option.splits)
  have "stepResult op n NO_ERROR n'" by (rule shapeStep_result(1) [OF assms(1,3) fresh_cache_ok [OF assms(2)] assms(4)])
  then have "agreeOn (K \<union> set (opOutputs op)) n' n'"
    using step_agree(2) [OF _ _ assms(3) agreeOn_refl [OF assms(4)]] by blast
  then have s: "sameInputs (needed op) (map (tensorOf n') (opInputs op)) (map (tensorOf n') (opInputs op))"
    by (rule agree_inputs) (use o in auto)
  have "wfNet (K \<union> set (opOutputs op)) n'" by (rule agreeOn_wf) fact
  then have w: "\<forall>t \<in> set (map (tensorOf n') (opInputs op)). 0 \<le> dimensions t" using o(1) by (auto simp: wfNet_def)
  have b: "\<forall>d \<in> set (needed op). usize (map (tensorOf n') (opInputs op) ! d) \<le> 10000"
    using assms(5) o(2) e by (simp add: smallContents_def)
  have c: "mCanCache ?c" using assms(2) by (simp add: fresh_def)
  note k = insertCache_small [OF c b]
  show ?thesis using k insertCache_describes [OF k(1) w] s by (auto simp: warm_def e)
qed

lemma sameInputs_trans:
  assumes "sameInputs need ts us" "sameInputs need us vs"
  shows "sameInputs need ts vs"
proof -
  have "length ts = length us" using assms(1) by (simp add: sameInputs_def list_all2_conv_all_nth)
  then show ?thesis using assms sameShapes_trans unfolding sameInputs_def by (metis (no_types, lifting))
qed

lemma warm_frame:
  assumes "warm op n" "agreeOn (set (opInputs op)) n n'" "\<forall>d \<in> set (needed op). d < length (opInputs op)"
  shows "warm op n'"
  using assms(1) sameInputs_trans [OF _ agree_inputs [OF assms(2) order_refl assms(3)]] by (auto simp: warm_def)

text \<open>A warm cache matches, so the operator is not computed again.\<close>

lemma warm_match:
  assumes "warm op n" "\<forall>x \<in> set (opInputs op). \<not> virtualMem n x" "\<forall>d \<in> set (needed op). d < length (opInputs op)"
  shows "fst (matchCache (computeCache op) n (opInputs op))"
proof -
  let ?infos = "mInputInfos (computeCache op)"
  obtain ins where d: "describes (needed op) ?infos ins" and s: "sameInputs (needed op) ins (map (tensorOf n) (opInputs op))"
    using assms(1) by (auto simp: warm_def)
  have l: "length ins = length (opInputs op)" "length ?infos = length (opInputs op)"
    using s d by (simp_all add: sameInputs_def describes_def list_all2_conv_all_nth)
  have sh: "sameShape (ins ! u) (tensorOf n (opInputs op ! u))" if "u < length (opInputs op)" for u
    using s that l by (simp add: sameInputs_def list_all2_conv_all_nth)
  have "matchInfo n (?infos ! u) (opInputs op ! u)" if u: "u < length (opInputs op)" for u
  proof -
    have i: "infoOrder (?infos ! u) = dimensionFormat (ins ! u)" "infoDim (?infos ! u) = shape (ins ! u)"
      "infoType (?infos ! u) = ttype (ins ! u)" using d u l by (simp_all add: describes_def)
    have "\<not> virtualMem n (opInputs op ! u)" using assms(2) u by simp
    then show ?thesis using i sh [OF u] by (simp add: matchInfo_def Let_def sameShape_def shape_nth)
  qed
  moreover have "matchContent (?infos ! k) (tensorOf n (opInputs op ! k))" if k: "k \<in> set (needed op)" for k
  proof -
    have kl: "k < length (opInputs op)" using assms(3) k by simp
    have "infoBuffer (?infos ! k) = contents (tensorOf n (opInputs op ! k))"
      using d s k kl l by (simp add: describes_def sameInputs_def)
    then show ?thesis by (simp add: matchContent_def contents_def nth_upto)
  qed
  ultimately show ?thesis using assms(1) l by (simp add: matchCache_def warm_def)
qed

lemma warm_step:
  assumes "warm op n" "\<forall>x \<in> set (opInputs op). \<not> virtualMem n x" "\<forall>d \<in> set (needed op). d < length (opInputs op)"
  shows "\<exists>op' n'. shapeStep op n = (NO_ERROR, op', n') \<and> tensorOf n' = tensorOf n \<and> virtualMem n' = virtualMem n \<and>
    \<not> needComputeShape (computeCache op')"
proof -
  define n1 where "n1 = n\<lparr>shapeStage := (\<lambda>t. t \<notin> set (opOutputs op) \<and> shapeStage n t)\<rparr>"
  have "warm op n1" using assms(1) by (simp add: warm_def n1_def)
  then have "fst (matchCache (computeCache op) n1 (opInputs op))"
    by (rule warm_match) (use assms(2,3) in \<open>simp_all add: n1_def\<close>)
  then obtain d where m: "matchCache (computeCache op) n1 (opInputs op) = (True, d)" by (cases "matchCache (computeCache op) n1 (opInputs op)") simp
  show ?thesis unfolding shapeStep_def Let_def n1_def [symmetric] m by (simp add: n1_def)
qed

lemma shapeStep_virtual: "shapeStep op n = (err, op', n') \<Longrightarrow> virtualMem n' = virtualMem n"
  by (auto simp: shapeStep_def Let_def split: prod.splits if_splits option.splits)

lemma shapePass_virtual: "shapePass ops n = (err, ops', n') \<Longrightarrow> virtualMem n' = virtualMem n"
proof (induction ops arbitrary: n err ops' n')
  case (Cons op ops)
  obtain e1 op1 n1 where s: "shapeStep op n = (e1, op1, n1)" by (cases "shapeStep op n")
  obtain e2 ops2 n2 where p: "shapePass ops n1 = (e2, ops2, n2)" by (cases "shapePass ops n1")
  show ?case using Cons.prems s p Cons.IH [OF p] shapeStep_virtual [OF s] by (auto split: if_splits)
qed simp

definition content_ok :: "ShapeOp \<Rightarrow> bool" where
  "content_ok op \<longleftrightarrow> (\<forall>d \<in> set (needed op). d < length (opInputs op))"

lemma warm_pass:
  assumes "\<forall>op \<in> set ops. warm op n \<and> content_ok op \<and> (\<forall>x \<in> set (opInputs op). \<not> virtualMem n x)"
  shows "\<exists>ops' n'. shapePass ops n = (NO_ERROR, ops', n') \<and> tensorOf n' = tensorOf n \<and>
    (\<forall>op \<in> set ops'. \<not> needComputeShape (computeCache op))"
  using assms
proof (induction ops arbitrary: n)
  case (Cons op ops)
  obtain op1 n1 where s: "shapeStep op n = (NO_ERROR, op1, n1)" "tensorOf n1 = tensorOf n" "virtualMem n1 = virtualMem n"
    "\<not> needComputeShape (computeCache op1)"
    using warm_step [of op n] Cons.prems by (auto simp: content_ok_def)
  have "\<forall>op2 \<in> set ops. warm op2 n1 \<and> content_ok op2 \<and> (\<forall>x \<in> set (opInputs op2). \<not> virtualMem n1 x)"
    using Cons.prems s(2,3) by (simp add: warm_def)
  from Cons.IH [OF this] s show ?case by auto
qed simp

lemma fresh_pass:
  assumes "shapePass ops n = (NO_ERROR, ops', n')" "ops_ok K ops" "wfNet K n" "\<forall>op \<in> set ops. fresh op"
    "\<forall>op \<in> set ops'. smallContents op n'"
  shows "\<forall>op \<in> set ops'. warm op n' \<and> content_ok op"
  using assms
proof (induction ops arbitrary: K n ops' n')
  case (Cons op ops)
  obtain e1 op1 n1 where s: "shapeStep op n = (e1, op1, n1)" by (cases "shapeStep op n")
  obtain e2 ops2 n2 where p: "shapePass ops n1 = (e2, ops2, n2)" by (cases "shapePass ops n1")
  have e: "e1 = NO_ERROR" "e2 = NO_ERROR" "ops' = op1 # ops2" "n' = n2"
    using Cons.prems(1) s p by (auto split: if_splits)
  have o: "op_ok K op" "ops_ok (K \<union> set (opOutputs op)) ops" "fresh op" using Cons.prems(2,4) by simp_all
  have c: "cache_ok op n" by (rule fresh_cache_ok [OF o(3)])
  note r = shapeStep_result(1) [OF s o(1) c Cons.prems(3)]
  have a: "agreeOn (K \<union> set (opOutputs op)) n1 n1"
    by (rule step_agree(2) [OF r r o(1) agreeOn_refl [OF Cons.prems(3)] e(1)])
  have w1: "wfNet (K \<union> set (opOutputs op)) n1" by (rule agreeOn_wf [OF a])
  have f: "\<forall>op \<in> set ops. cache_ok op n1" using Cons.prems(4) fresh_cache_ok by simp
  have p': "shapePass ops n1 = (NO_ERROR, ops2, n')" using p e by simp
  have frame: "sameShape (tensorOf n1 x) (tensorOf n' x)" if "x \<in> K" for x
  proof -
    have "x \<notin> written ops" using ops_ok_disjoint [OF o(2)] that by blast
    moreover have "0 \<le> dimensions (tensorOf n1 x)" using w1 that by (simp add: wfNet_def)
    ultimately show ?thesis using shapePass_keeps [OF p' o(2) f w1] sameShape_sym by blast
  qed
  have h: "host (tensorOf n1 x) = host (tensorOf n' x)" for x using shapePass_host [OF p' o(2) f w1] by simp
  have ag: "agreeOn K n1 n'" using frame h by (simp add: agreeOn_def)
  have k: "opInputs op1 = opInputs op" "needed op1 = needed op" using shapeStep_keeps [OF s] by simp_all
  have i: "set (opInputs op) \<subseteq> K" "content_ok op1" using o(1) k by (simp_all add: op_ok_def content_ok_def)
  have "smallContents op1 n1"
    unfolding smallContents_def
  proof
    fix d assume d: "d \<in> set (needed op1)"
    then have "opInputs op1 ! d \<in> K" using i k nth_mem by (fastforce simp: content_ok_def)
    then have "usize (tensorOf n1 (opInputs op1 ! d)) = usize (tensorOf n' (opInputs op1 ! d))" using frame sameShape_usize by blast
    moreover have "usize (tensorOf n' (opInputs op1 ! d)) \<le> 10000" using Cons.prems(5) e d by (simp add: smallContents_def)
    ultimately show "usize (tensorOf n1 (opInputs op1 ! d)) \<le> 10000" by simp
  qed
  then have "warm op1 n1" using fresh_step [OF _ o(3,1) Cons.prems(3)] s e(1) by simp
  then have "warm op1 n'"
    by (rule warm_frame) (use ag i k in \<open>auto simp: agreeOn_def content_ok_def\<close>)
  moreover have "\<forall>op \<in> set ops2. warm op n' \<and> content_ok op"
    by (rule Cons.IH [OF p' o(2) w1]) (use Cons.prems(4,5) e in simp_all)
  ultimately show ?case using e(3) i(2) by simp
qed simp

section \<open>The properties\<close>


text \<open>Two operators: tensor 2 is the sum of tensors 0 and 1, tensor 3 has the shape of tensor 2.\<close>

definition w_cache :: OpResizeCache where
  "w_cache = \<lparr>mInputInfos = [], mComputed = False, mCanCache = True, mPass = False, mNeedCompareContent = [], needComputeShape = True\<rparr>"

definition w_ops :: "ShapeOp list" where
  "w_ops = [\<lparr>opCompute = BinaryOpComputer BinaryOpOperation_ADD, opInputs = [0, 1], opOutputs = [2], computeCache = w_cache\<rparr>,
     \<lparr>opCompute = defaultSize False, opInputs = [2], opOutputs = [3], computeCache = w_cache\<rparr>]"

definition w_net :: Net where
  "w_net = \<lparr>tensorOf = (\<lambda>_. setShape [] \<lparr>dimensions = 0, extent = (\<lambda>_. 1), ttype = float_t, dimensionFormat = MNN_DATA_FORMAT_NCHW, host = None\<rparr>)
       (0 := w_tensor [2, 1], 1 := w_tensor [1, 3]), virtualMem = (\<lambda>_. False), shapeStage = (\<lambda>_. False)\<rparr>"

lemma w_ops_ok: "ops_ok {0, 1} w_ops"
  using binary.shape_computer_axioms [of BinaryOpOperation_ADD "[]"] copying.shape_computer_axioms [of "[]" 1 1]
  by (simp add: w_ops_def op_ok_def w_cache_def numeral_2_eq_2)

lemma w_net_ok: "wfNet {0, 1} w_net" "\<forall>op \<in> set w_ops. cache_ok op w_net"
  by (simp_all add: wfNet_def w_net_def w_ops_def cache_ok_def w_cache_def setShape_def)

lemma w_computes: "BinaryOpComputer BinaryOpOperation_ADD [w_tensor [2, 1], w_tensor [1, 3]] [u] \<noteq> None"
  by (simp add: BinaryOpComputer_def computeBroadCastDims_def broadcast_max_def broadcast_input_def broadcast_dim_def
      upto_rec1 w_tensor_def setShape_def fill_def setLength_def nat_numeral)

lemma w_step_ok:
  assumes "opCompute op (map (tensorOf n) (opInputs op)) (map (tensorOf n) (opOutputs op)) \<noteq> None" "op_ok K op" "cache_ok op n" "wfNet K n"
  shows "fst (shapeStep op n) = NO_ERROR"
proof -
  obtain e op1 n1 where s: "shapeStep op n = (e, op1, n1)" by (cases "shapeStep op n")
  show ?thesis using shapeStep_result(1) [OF s assms(2-4)] assms(1) s by (auto simp: stepResult_def split: option.splits)
qed

lemma w_pass: "\<exists>ops n. shapePass w_ops w_net = (NO_ERROR, ops, n)"
proof -
  obtain a b where w: "w_ops = [a, b]" and a: "opCompute a = BinaryOpComputer BinaryOpOperation_ADD" "opInputs a = [0, 1]" "opOutputs a = [2]"
    and b: "opCompute b = defaultSize False" "opInputs b = [2]" "opOutputs b = [3]"
    by (simp add: w_ops_def)
  have o: "op_ok {0, 1} a" "op_ok ({0, 1} \<union> {2}) b" "cache_ok a w_net" "cache_ok b w_net"
    using w_ops_ok w_net_ok(2) a(3) unfolding w by simp_all
  have "opCompute a (map (tensorOf w_net) (opInputs a)) (map (tensorOf w_net) (opOutputs a)) \<noteq> None"
    using w_computes by (simp add: a w_net_def)
  from w_step_ok [OF this o(1,3) w_net_ok(1)]
  obtain a1 n1 where s1: "shapeStep a w_net = (NO_ERROR, a1, n1)" by (cases "shapeStep a w_net") simp
  note r = shapeStep_result [OF s1 o(1,3) w_net_ok(1)]
  have "agreeOn ({0, 1} \<union> set (opOutputs a)) n1 n1"
    by (rule step_agree(2) [OF r(1) r(1) o(1) agreeOn_refl [OF w_net_ok(1)]]) simp
  then have wf: "wfNet ({0, 1} \<union> {2}) n1" using agreeOn_wf a(3) by fastforce
  have "cache_ok b n1" by (rule step_frame [OF r(1) o(4)]) (simp add: a(3) b(3))
  from w_step_ok [OF _ o(2) this wf] have "fst (shapeStep b n1) = NO_ERROR" by (simp add: b defaultSize_def)
  then obtain b1 n2 where "shapeStep b n1 = (NO_ERROR, b1, n2)" by (cases "shapeStep b n1") simp
  then have "shapePass [a, b] w_net = (NO_ERROR, [a1, b1], n2)" using s1 by simp
  then show ?thesis unfolding w by blast
qed



lemma shapePass_needed:
  "shapePass ops n = (err, ops', n') \<Longrightarrow> op \<in> set ops' \<Longrightarrow> \<exists>op0 \<in> set ops. needed op = needed op0"
proof (induction ops arbitrary: n err ops' n')
  case (Cons o1 ops)
  obtain e1 op1 n1 where s: "shapeStep o1 n = (e1, op1, n1)" by (cases "shapeStep o1 n")
  obtain e2 ops2 n2 where p: "shapePass ops n1 = (e2, ops2, n2)" by (cases "shapePass ops n1")
  have "ops' = op1 # ops \<or> ops' = op1 # ops2" using Cons.prems(1) s p by (auto split: if_splits)
  then show ?case using Cons.prems(2) Cons.IH [OF p] shapeStep_keeps(4) [OF s] by auto
qed simp




end
