(* ===== verification/Shape_Axis.thy ===== *)
theory Shape_Axis
  imports Shape_Broadcast
begin

text \<open>
  Shape inference of the operators that add, remove, permute or resize single axes: \<^verbatim>\<open>Concat\<close>,
  \<^verbatim>\<open>Slice\<close>, \<^verbatim>\<open>Pack\<close>, \<^verbatim>\<open>Unpack\<close>, \<^verbatim>\<open>ExpandDims\<close>, \<^verbatim>\<open>Squeeze\<close>, \<^verbatim>\<open>Unsqueeze\<close>, \<^verbatim>\<open>Permute\<close>,
  \<^verbatim>\<open>Transpose\<close>, \<^verbatim>\<open>Tile\<close>, \<^verbatim>\<open>Reduction\<close>, \<^verbatim>\<open>ArgMax\<close>, \<^verbatim>\<open>OneHot\<close>, \<^verbatim>\<open>TopKV2\<close>, \<^verbatim>\<open>Cast\<close>, \<^verbatim>\<open>Fill\<close>,
  \<^verbatim>\<open>Where\<close> and the gathers (the files of \<^verbatim>\<open>source/shape\<close> of the same names).

  Each definition is the \<^verbatim>\<open>onComputeSize\<close> of its class; the fields of the operator's parameter table
  come first, then the input tensors and the output tensors as they are before the call. The result is
  the list of output tensors, or \<^const>\<open>None\<close> when the code returns false. Input and output tensors are
  different objects, as they are in a network.
\<close>

abbreviation set_out :: "Tensor list \<Rightarrow> Tensor \<Rightarrow> Tensor list" where
  "set_out outputs t \<equiv> outputs[0 := t]"

section \<open>Concat and Slice\<close>

text \<open>One input of the concatenation: its extents off the axis must be those of the output.\<close>

definition concat_input :: "int \<Rightarrow> int \<times> Tensor \<Rightarrow> Tensor \<Rightarrow> (int \<times> Tensor) option" where
  "concat_input axis st t =
     (let (sumExt, ob) = st;
          sumExt = sumExt + extent t axis;
          ob = ob\<lparr>ttype := ttype t\<rparr>
      in if \<exists>i \<in> set [0..dimensions t - 1]. axis \<noteq> i \<and> extent t i \<noteq> extent ob i then None
         else Some (sumExt, ob))"

definition ConcatSizeComputer :: "int \<Rightarrow> shape_fun" where
  "ConcatSizeComputer basicAxis inputs outputs =
     (let (axis, ob) =
            (case inputs of
               [] \<Rightarrow> (basicAxis, outputs ! 0)
             | input # _ \<Rightarrow>
                 (if basicAxis < 0 then dimensions input + basicAxis else basicAxis,
                  (copyDims (dimensions input) input (outputs ! 0))
                    \<lparr>dimensions := dimensions input, ttype := ttype input\<rparr>))
      in case fold_opt (concat_input axis) (0, ob) inputs of
           None \<Rightarrow> None
         | Some (sumExt, ob) \<Rightarrow>
             Some (set_out outputs
               ((setLength axis sumExt ob)\<lparr>dimensionFormat := dimensionFormat (inputs ! 0)\<rparr>)))"

datatype NetSource = NetSource_CAFFE | NetSource_TENSORFLOW | NetSource_TFLITE | NetSource_ONNX | NetSource_TORCH

text \<open>The input's shape with another extent on the axis.\<close>

definition slice_part :: "Tensor \<Rightarrow> int \<Rightarrow> int \<Rightarrow> Tensor \<Rightarrow> Tensor" where
  "slice_part input axis len out =
     setLength axis len
       ((copyDims (dimensions input) input out)\<lparr>dimensions := dimensions input, ttype := ttype input\<rparr>)"

definition slice_caffe :: "Tensor \<Rightarrow> int \<Rightarrow> int list \<Rightarrow> Tensor list \<Rightarrow> Tensor list" where
  "slice_caffe input axis slicePoints outputs =
     (let (previous, outs) =
            fold (\<lambda>i (previous, outs).
                (slicePoints ! i, outs[i := slice_part input axis (slicePoints ! i - previous) (outs ! i)]))
              [0..<length slicePoints] (0, outputs);
          l = length outs - 1
      in outs[l := slice_part input axis (extent input axis - previous) (outs ! l)])"

definition slice_even :: "Tensor \<Rightarrow> int \<Rightarrow> NetSource \<Rightarrow> int list option \<Rightarrow> Tensor list \<Rightarrow> Tensor list" where
  "slice_even input axis sourceType slicePoints outputs =
     (let outputSize = int (length outputs);
          splitDim = extent input axis sdiv outputSize;
          splitDim =
            (if sourceType = NetSource_TORCH then
               (case slicePoints of Some ps \<Rightarrow> ps ! 0 | None \<Rightarrow> splitDim)
             else if sourceType = NetSource_TENSORFLOW then
               (let numSplits =
                      (case slicePoints of
                         Some ps \<Rightarrow> if ps ! 0 \<noteq> outputSize then ps ! 0 else outputSize
                       | None \<Rightarrow> outputSize)
                in extent input axis sdiv numSplits)
             else splitDim)
      in map (slice_part input axis splitDim) outputs)"

text \<open>
  The explicit lengths of a split; the state is the outputs, the index whose length is to be
  determined (or -1) and the sumExt of the other lengths.
\<close>

definition slice_length ::
    "Tensor \<Rightarrow> int \<Rightarrow> int list \<Rightarrow> Tensor list \<times> int \<times> int \<Rightarrow> nat \<Rightarrow> (Tensor list \<times> int \<times> int) option" where
  "slice_length input axis slicePoints st i =
     (let (outs, determineTensorIndex, maxSize) = st;
          outs = outs[i := (copyDims (dimensions input) input (outs ! i))
                             \<lparr>dimensions := dimensions input, ttype := ttype input\<rparr>];
          len = slicePoints ! i
      in if len \<noteq> -1
         then Some (outs[i := setLength axis len (outs ! i)], determineTensorIndex, maxSize + len)
         else if determineTensorIndex \<ge> 0 then None
         else Some (outs, int i, maxSize))"

definition slice_points :: "Tensor \<Rightarrow> int \<Rightarrow> int list \<Rightarrow> Tensor list \<Rightarrow> Tensor list option" where
  "slice_points input axis slicePoints outputs =
     (if sum_list slicePoints > extent input axis then None
      else
        (case fold_opt (slice_length input axis slicePoints) (outputs, -1, 0)
                [0..<min (length slicePoints) (length outputs)] of
           None \<Rightarrow> None
         | Some (outs, determineTensorIndex, maxSize) \<Rightarrow>
             Some (if determineTensorIndex \<ge> 0
                   then outs[nat determineTensorIndex :=
                          setLength axis (extent input axis - maxSize) (outs ! nat determineTensorIndex)]
                   else outs)))"

definition SliceComputer :: "int \<Rightarrow> NetSource \<Rightarrow> int list option \<Rightarrow> shape_fun" where
  "SliceComputer axis0 sourceType slicePoints inputs outputs =
     (let input = inputs ! 0;
          axis = (if axis0 < 0 then axis0 + dimensions input else axis0);
          res =
            (if sourceType = NetSource_CAFFE
             then Some (slice_caffe input axis (case slicePoints of Some ps \<Rightarrow> ps | None \<Rightarrow> []) outputs)
             else if length inputs = 1 \<and>
               (case slicePoints of None \<Rightarrow> True | Some ps \<Rightarrow> length ps = 1)
             then Some (slice_even input axis sourceType slicePoints outputs)
             else
               (let ps = (if length inputs = 2
                          then map (hostv (inputs ! 1)) [0..elementSize (inputs ! 1) - 1]
                          else case slicePoints of Some ps \<Rightarrow> ps | None \<Rightarrow> [])
                in slice_points input axis ps outputs))
      in map_option (map (\<lambda>o'. o'\<lparr>dimensionFormat := dimensionFormat input\<rparr>)) res)"

section \<open>Pack and Unpack\<close>

definition PackComputer :: "int \<Rightarrow> shape_fun" where
  "PackComputer axis0 inputs outputs =
     (let input = inputs ! 0;
          out = (outputs ! 0)\<lparr>dimensions := dimensions input + 1, ttype := ttype input\<rparr>;
          axis = (if axis0 < 0 then axis0 + dimensions out else axis0);
          (out, j) =
            fold (\<lambda>i (out, j).
                if i = axis then (setLength i (int (length inputs)) out, j)
                else (setLength i (extent input j) out, j + 1))
              [0..dimensions out - 1] (out, 0)
      in Some (set_out outputs (out\<lparr>dimensionFormat := dimensionFormat input\<rparr>)))"

definition UnpackComputer :: "int \<Rightarrow> shape_fun" where
  "UnpackComputer axis0 inputs outputs =
     (if inputs = [] \<or> outputs = [] then None
      else
        (let input = inputs ! 0;
             axis = (if axis0 < 0 then axis0 + dimensions input else axis0)
         in if 0 \<le> extent input axis \<and> int (length outputs) > extent input axis then None
            else
              (let outDims = (\<lambda>i. if i < axis then extent input i else extent input (i + 1))
               in Some (map (\<lambda>out.
                    (fill 0 (dimensions input - 1) outDims
                      (out\<lparr>dimensions := dimensions input - 1, ttype := ttype input\<rparr>))
                        \<lparr>dimensionFormat := dimensionFormat input\<rparr>) outputs))))"

section \<open>ExpandDims, Unsqueeze and Squeeze\<close>

text \<open>The index is read from the second input if there is one, else from the parameter.\<close>

definition ExpandDimsComputer :: "int \<Rightarrow> shape_fun" where
  "ExpandDimsComputer axis inputs outputs =
     (let input = inputs ! 0;
          dim = (if length inputs = 2 then hostv (inputs ! 1) 0 else axis);
          dim = (if dim < 0 then dimensions input + 1 + dim else dim);
          out = (outputs ! 0)\<lparr>ttype := ttype input\<rparr>;
          (out, outputShapeDims) =
            fold (\<lambda>i (out, k).
                let (out, k) = (if i = dim then (setLength k 1 out, k + 1) else (out, k))
                in (setLength k (extent input i) out, k + 1))
              [0..dimensions input - 1] (out, 0);
          (out, outputShapeDims) =
            (if dim = dimensions input then (setLength outputShapeDims 1 out, outputShapeDims + 1)
             else (out, outputShapeDims))
      in Some (set_out outputs
           (out\<lparr>dimensions := outputShapeDims, dimensionFormat := dimensionFormat input\<rparr>)))"

text \<open>The axes come from the parameter or, when it has none, from the second input.\<close>

definition squeeze_dims :: "int list option \<Rightarrow> Tensor list \<Rightarrow> int list" where
  "squeeze_dims squeezeDims inputs =
     (case squeezeDims of
        Some ds \<Rightarrow> ds
      | None \<Rightarrow> if length inputs > 1 then map (hostv (inputs ! 1)) [0..elementSize (inputs ! 1) - 1] else [])"

definition mark_axis :: "int \<Rightarrow> (int \<Rightarrow> bool) \<Rightarrow> (int \<Rightarrow> bool) \<Rightarrow> int \<Rightarrow> (int \<Rightarrow> bool) option" where
  "mark_axis n ok msk d =
     (let axis = (if d < 0 then d + n else d)
      in if axis < 0 \<or> axis \<ge> n then None
         else if \<not> ok axis then None
         else Some (msk(axis := True)))"

definition UnSqueezeSizeComputer :: "int list option \<Rightarrow> shape_fun" where
  "UnSqueezeSizeComputer squeezeDims inputs outputs =
     (let ds = squeeze_dims squeezeDims inputs;
          ib = inputs ! 0;
          n = dimensions ib + int (length ds);
          ob = (outputs ! 0)\<lparr>dimensions := n\<rparr>
      in if n > MNN_MAX_TENSOR_DIM \<or> n < 0 then None
         else
           (case fold_opt (mark_axis n (\<lambda>_. True)) (\<lambda>_. False) ds of
              None \<Rightarrow> None
            | Some msk \<Rightarrow>
                (let (ob, oDim) =
                       fold (\<lambda>i (ob, oDim).
                           if msk i then (setLength i 1 ob, oDim)
                           else (setLength i (extent ib oDim) ob, oDim + 1))
                         [0..n - 1] (ob, 0)
                 in Some (set_out outputs
                      (ob\<lparr>ttype := ttype ib, dimensionFormat := dimensionFormat ib\<rparr>)))))"

definition SqueezeSizeComputer :: "int list option \<Rightarrow> shape_fun" where
  "SqueezeSizeComputer squeezeDims inputs outputs =
     (let ds = squeeze_dims squeezeDims inputs;
          ib = inputs ! 0;
          n = dimensions ib
      in case fold_opt (mark_axis n (\<lambda>axis. extent ib axis = 1)) (\<lambda>_. False) ds of
           None \<Rightarrow> None
         | Some msk0 \<Rightarrow>
             (let msk = (if ds = [] then (\<lambda>i. 0 \<le> i \<and> i < n \<and> extent ib i = 1) else msk0);
                  actualSqueeze = int (length (filter msk [0..n - 1]));
                  ob = (outputs ! 0)\<lparr>dimensions := n - actualSqueeze\<rparr>;
                  (ob, oDim) =
                    fold (\<lambda>i (ob, oDim).
                        if msk i then (ob, oDim) else (setLength oDim (extent ib i) ob, oDim + 1))
                      [0..n - 1] (ob, 0)
              in Some (set_out outputs (ob\<lparr>ttype := ttype ib, dimensionFormat := dimensionFormat ib\<rparr>))))"

section \<open>Permute, Transpose, Tile\<close>

definition PermuteComputer :: "int list option \<Rightarrow> shape_fun" where
  "PermuteComputer dims inputs outputs =
     (let input = inputs ! 0;
          dimSize = dimensions input;
          out = (outputs ! 0)\<lparr>dimensions := dimSize\<rparr>;
          out = (case dims of
                   Some shp \<Rightarrow> fill 0 dimSize (\<lambda>i. extent input (shp ! nat i)) out
                 | None \<Rightarrow> fill 0 dimSize (\<lambda>i. extent input (dimSize - i - 1)) out)
      in Some (set_out outputs (out\<lparr>dimensionFormat := dimensionFormat input, ttype := ttype input\<rparr>)))"

definition transpose_dim ::
    "Tensor \<Rightarrow> Tensor \<Rightarrow> Tensor \<times> (int \<Rightarrow> bool) \<Rightarrow> int \<Rightarrow> (Tensor \<times> (int \<Rightarrow> bool)) option" where
  "transpose_dim input perm st i =
     (let (out, used) = st; d = hostv perm i
      in if d < 0 \<or> d \<ge> dimensions input then None
         else if used d then None
         else Some (setLength i (extent input d) out, used(d := True)))"

definition TransposeComputer :: shape_fun where
  "TransposeComputer inputs outputs =
     (let input = inputs ! 0; perm = inputs ! 1; dims = dimensions input
      in if code (ttype perm) \<noteq> halide_type_int \<or> bits (ttype perm) \<noteq> 32 \<or> dims \<noteq> extent perm 0 then None
         else
           (case fold_opt (transpose_dim input perm)
                   ((outputs ! 0)\<lparr>dimensions := dims, ttype := ttype input\<rparr>, \<lambda>_. False) [0..dims - 1] of
              None \<Rightarrow> None
            | Some (out, used) \<Rightarrow>
                Some (set_out outputs (out\<lparr>dimensionFormat := dimensionFormat input\<rparr>))))"

definition TileComputer :: shape_fun where
  "TileComputer inputs outputs =
     (let input = inputs ! 0; multiples = inputs ! 1; inputDims = dimensions input;
          out = (copyDims inputDims input (outputs ! 0))\<lparr>dimensions := inputDims, ttype := ttype input\<rparr>;
          out = fill 0 inputDims (\<lambda>i. extent input i * hostv multiples i) out
      in Some (set_out outputs (out\<lparr>dimensionFormat := dimensionFormat input\<rparr>)))"

section \<open>Reduction and ArgMax\<close>

definition getRealAxis :: "int \<Rightarrow> int \<Rightarrow> int" where
  "getRealAxis axis n = (if axis < 0 then axis + n else axis)"

definition ReductionComputer :: "int list option \<Rightarrow> bool \<Rightarrow> shape_fun" where
  "ReductionComputer rdim keepDims inputs outputs =
     (let input = inputs ! 0; n = dimensions input;
          out = (outputs ! 0)\<lparr>dimensionFormat := dimensionFormat input, ttype := ttype input\<rparr>
      in if rdim = None \<and> length inputs = 1 then
           Some (set_out outputs
             (if keepDims then fill 0 n (\<lambda>_. 1) (out\<lparr>dimensions := n\<rparr>) else out\<lparr>dimensions := 0\<rparr>))
         else
           (let axes = (case rdim of Some ds \<Rightarrow> ds
                        | None \<Rightarrow> map (hostv (inputs ! 1)) [0..elementSize (inputs ! 1) - 1]);
                reduceMask = fold (\<lambda>d m. m(getRealAxis d n := True)) axes (\<lambda>_. False);
                (out, offset) =
                  fold (\<lambda>i (out, offset).
                      if reduceMask i
                      then (if keepDims then (setLength offset 1 out, offset + 1) else (out, offset))
                      else (setLength offset (extent input i) out, offset + 1))
                    [0..n - 1] (out, 0)
            in Some (set_out outputs (out\<lparr>dimensions := offset\<rparr>))))"

text \<open>In the packed format the axis 10000 stands for a missing axis of a Caffe model.\<close>

definition ArgMaxComputer :: "int \<Rightarrow> int \<Rightarrow> bool \<Rightarrow> shape_fun" where
  "ArgMaxComputer axis0 topK outMaxVal inputs outputs =
     (let input = inputs ! 0; n = dimensions input;
          out = (copyDims n input ((outputs ! 0)\<lparr>dimensions := n\<rparr>))\<lparr>dimensionFormat := dimensionFormat input\<rparr>;
          out =
            (if dimensionFormat input \<noteq> MNN_DATA_FORMAT_NC4HW4 then
               (let axis = (if axis0 < 0 then n + axis0 else axis0);
                    (out, j) =
                      fold (\<lambda>i (out, j). if i = axis then (out, j) else (setLength j (extent input i) out, j + 1))
                        [0..n - 1] (out\<lparr>dimensions := n - 1\<rparr>, 0)
                in (setLength (n - 1) 0 out)\<lparr>ttype := int32_t\<rparr>)
             else if axis0 = 0 then
               (let keyExtent = (if outMaxVal then topK * 2 else topK);
                    out = out\<lparr>ttype := float_t\<rparr>
                in if extent input 3 > 1 then setLength 3 keyExtent out
                   else if extent input 2 > 1 then setLength 2 keyExtent out
                   else setLength 1 keyExtent out)
             else
               (let out = out\<lparr>ttype := float_t\<rparr>
                in if axis0 \<noteq> 10000 then setLength axis0 (if outMaxVal then topK * 2 else topK) out
                   else
                     (let s0 = (\<lambda>_. 1);
                          s1 = s0(0 := extent input 0);
                          s2 = s1(2 := topK);
                          s3 = (if outMaxVal then s2(1 := 2) else s2)
                      in fill 0 n s3 out)))
      in Some (set_out outputs out))"

section \<open>OneHot, TopKV2, Cast, Fill, Where\<close>

definition ShapeOneHot :: "int \<Rightarrow> shape_fun" where
  "ShapeOneHot axis0 inputs outputs =
     (let indices = inputs ! 0; depth = hostv (inputs ! 1) 0
      in if depth < 0 then None
         else
           (let outputDimension = dimensions indices + 1;
                axis = (if axis0 < 0 then outputDimension + axis0 else axis0);
                out = (outputs ! 0)\<lparr>dimensions := outputDimension, ttype := ttype (inputs ! 2)\<rparr>;
                out = fill 0 outputDimension
                        (\<lambda>i. if i < axis then extent indices i else if i = axis then depth
                             else extent indices (i - 1)) out
            in Some (set_out outputs (out\<lparr>dimensionFormat := dimensionFormat indices\<rparr>))))"

definition TopKV2SizeComputer :: shape_fun where
  "TopKV2SizeComputer inputs outputs =
     (let input = inputs ! 0; k = hostv (inputs ! 1) 0; n = dimensions input;
          axis = (if length inputs = 3 then hostv (inputs ! 2) 0 else n - 1);
          axis = (if axis < 0 then axis + n else axis);
          dat = (setLength axis k (copyDims n input ((outputs ! 0)\<lparr>dimensions := n\<rparr>)))\<lparr>ttype := ttype input\<rparr>;
          idx = setType DT_INT32 (setLength axis k (copyDims n input ((outputs ! 1)\<lparr>dimensions := n\<rparr>)))
      in Some (outputs[0 := dat\<lparr>dimensionFormat := dimensionFormat (inputs ! 0)\<rparr>,
                       1 := idx\<lparr>dimensionFormat := dimensionFormat (inputs ! 1)\<rparr>]))"

datatype CastOp = OpType_Cast | OpType_CastLike | OpType_FloatToInt8 | OpType_Int8ToFloat

definition CastSizeComputer :: "CastOp \<Rightarrow> DataType \<Rightarrow> shape_fun" where
  "CastSizeComputer opType dstT inputs outputs =
     (let out = copyShape (inputs ! 0) True False (outputs ! 0)
      in Some (set_out outputs
           (case opType of
              OpType_CastLike \<Rightarrow> out\<lparr>ttype := ttype (inputs ! 1)\<rparr>
            | OpType_FloatToInt8 \<Rightarrow> out\<lparr>ttype := int8_t\<rparr>
            | OpType_Int8ToFloat \<Rightarrow> out\<lparr>ttype := float_t\<rparr>
            | OpType_Cast \<Rightarrow> setType dstT out)))"

definition FillComputer :: shape_fun where
  "FillComputer inputs outputs =
     (let input0 = inputs ! 0;
          out = (outputs ! 0)\<lparr>dimensions := extent input0 0, ttype := ttype (inputs ! 1),
                  dimensionFormat := dimensionFormat (inputs ! 1)\<rparr>
      in Some (set_out outputs (fill 0 (extent input0 0) (hostv input0) out)))"

text \<open>
  The number of true elements; of a float element only the sign matters, which is what
  \<^const>\<open>hostv\<close> stands for there.
\<close>

definition count_true :: "Tensor \<Rightarrow> int" where
  "count_true t = fold (\<lambda>i c. c + (if hostv t i > 0 then 1 else 0)) [0..elementSize t - 1] 0"

definition WhereSizeComputer :: "bool \<Rightarrow> shape_fun" where
  "WhereSizeComputer oldVersion inputs outputs =
     (let input = inputs ! 0;
          ob = (setLength 1 (dimensions input) (setLength 0 (elementSize input) (outputs ! 0)))
                 \<lparr>dimensions := 2, dimensionFormat := dimensionFormat input, ttype := int32_t\<rparr>
      in if oldVersion then Some (set_out outputs ob)
         else if host input = None then Some (set_out outputs (setLength 0 0 ob))
         else if ttype input \<in> {float_t, int32_t, uint8_t} then
           (let count = count_true input
            in Some (set_out outputs
                 (if count > 0 then setLength 0 count ob
                  else setLength 1 (dimensions input) (setLength 0 0 (ob\<lparr>dimensions := 2\<rparr>)))))
         else None)"

section \<open>Gather\<close>

definition GatherV2Computer :: "int option \<Rightarrow> shape_fun" where
  "GatherV2Computer axisParam inputs outputs =
     (let params = inputs ! 0; indices = inputs ! 1
      in if code (ttype indices) \<noteq> halide_type_int then None
         else
           (let axis = (if length inputs = 3 then hostv (inputs ! 2) 0 else 0);
                axis = (case axisParam of Some a \<Rightarrow> a | None \<Rightarrow> axis)
            in if axis \<le> - dimensions params \<or> axis \<ge> dimensions params then None
               else
                 (let axis = (if axis < 0 then dimensions params + axis else axis);
                      result_shape = map (extent params) [0..axis - 1] @
                        map (extent indices) [0..dimensions indices - 1] @
                        map (extent params) [axis + 1..dimensions params - 1];
                      n = int (length result_shape);
                      out = fill 0 n (\<lambda>i. result_shape ! nat i)
                              ((outputs ! 0)\<lparr>dimensions := n, ttype := ttype params\<rparr>)
                  in Some (set_out outputs (out\<lparr>dimensionFormat := dimensionFormat params\<rparr>)))))"

definition GatherNDComputer :: "int option \<Rightarrow> shape_fun" where
  "GatherNDComputer axisParam inputs outputs =
     (let params = inputs ! 0; indices = inputs ! 1
      in if code (ttype indices) \<noteq> halide_type_int then None
         else if dimensions params < 1 \<or> dimensions indices < 1 then None
         else
           (let batchDim = (case axisParam of Some a \<Rightarrow> a | None \<Rightarrow> 0);
                out = (outputs ! 0)\<lparr>ttype := ttype params, dimensionFormat := dimensionFormat params\<rparr>
            in if elementSize indices = 0 then
                 Some (set_out outputs (setLength 1 (extent params (dimensions params - 1))
                   (setLength 0 0 (out\<lparr>dimensions := 2\<rparr>))))
               else
                 (let indiceNd = extent indices (dimensions indices - 1)
                  in if indiceNd > dimensions params then None
                     else
                       (let out = out\<lparr>dimensions := dimensions params + dimensions indices - indiceNd - 1 - batchDim\<rparr>;
                            (out, outputIndex) =
                              fold (\<lambda>i (out, k). (setLength k (extent indices i) out, k + 1))
                                [0..dimensions indices - 1 - 1] (out, 0);
                            (out, outputIndex) =
                              fold (\<lambda>i (out, k). (setLength k (extent params i) out, k + 1))
                                [indiceNd + batchDim..dimensions params - 1] (out, outputIndex)
                        in Some (set_out outputs out)))))"

definition GatherElementsComputer :: shape_fun where
  "GatherElementsComputer inputs outputs =
     (let indices = inputs ! 1
      in Some (set_out outputs
           ((fill 0 (dimensions indices) (extent indices) ((outputs ! 0)\<lparr>dimensions := dimensions indices\<rparr>))
              \<lparr>dimensionFormat := dimensionFormat (inputs ! 0), ttype := ttype (inputs ! 0)\<rparr>)))"

end
