(* ===== verification/Shape_Axis_Correct.thy ===== *)
theory Shape_Axis_Correct
  imports Shape_Axis "HOL-Library.Multiset"
begin

text \<open>
  Correctness of the axis operators: what \<^verbatim>\<open>Concat\<close>, \<^verbatim>\<open>Transpose\<close> and \<^verbatim>\<open>Reduction\<close> accept and
  return, and the round trips \<^verbatim>\<open>Slice\<close>/\<^verbatim>\<open>Concat\<close>, \<^verbatim>\<open>Pack\<close>/\<^verbatim>\<open>Unpack\<close> and \<^verbatim>\<open>Unsqueeze\<close>/\<^verbatim>\<open>Squeeze\<close>.
\<close>

section \<open>Loops that write consecutive extents\<close>

definition write_from :: "int \<Rightarrow> int list \<Rightarrow> Tensor \<Rightarrow> Tensor" where
  "write_from k ys t = fill k (k + int (length ys)) (\<lambda>i. ys ! nat (i - k)) t"

lemma write_from_simps [simp]:
  "dimensions (write_from k ys t) = dimensions t" "ttype (write_from k ys t) = ttype t"
  "dimensionFormat (write_from k ys t) = dimensionFormat t" "host (write_from k ys t) = host t"
  "extent (write_from k ys t) i = (if k \<le> i \<and> i < k + int (length ys) then ys ! nat (i - k) else extent t i)"
  by (simp_all add: write_from_def)

lemma tensor_eqI:
  fixes s t :: Tensor
  assumes "dimensions s = dimensions t" "\<And>i. extent s i = extent t i" "ttype s = ttype t"
    "dimensionFormat s = dimensionFormat t" "host s = host t"
  shows "s = t"
  using assms by (intro Tensor.equality) auto

lemma write_from_Nil [simp]: "write_from k [] t = t"
  by (rule tensor_eqI) simp_all

lemma write_from_append: "write_from (k + int (length xs)) ys (write_from k xs t) = write_from k (xs @ ys) t"
  by (rule tensor_eqI) (auto simp: nth_append nat_less_iff, (smt (verit) nat_diff_distrib nat_int of_nat_0_le_iff)+)

lemma write_from_single: "write_from k [v] t = setLength k v t"
  by (rule tensor_eqI) (auto simp: setLength_simps)

lemma fold_write_from:
  "fold (\<lambda>i (out, k). (write_from k (g i) out, k + int (length (g i)))) xs (out, k) =
     (write_from k (concat (map g xs)) out, k + int (length (concat (map g xs))))"
proof (induction xs arbitrary: out k)
  case (Cons x xs)
  then show ?case by (simp add: write_from_append add.assoc)
qed simp

lemma fold_prod_cong:
  "(\<And>i s. i \<in> set xs \<Longrightarrow> f i s = g i s) \<Longrightarrow> fold f xs s = fold g xs s"
  by (rule fold_cong) auto

lemma shape_write: "dimensions t = int (length ys) \<Longrightarrow> shape (write_from 0 ys t) = ys"
  by (rule nth_equalityI) (simp_all add: shape_nth)

lemma extent_shape:
  assumes "0 \<le> i" "i < dimensions t"
  shows "extent t i = shape t ! nat i"
  using assms by (simp add: shape_nth)

lemma concat_filter: "concat (map (\<lambda>i. if P i then [] else [f i]) xs) = map f (filter (\<lambda>i. \<not> P i) xs)"
  by (induction xs) auto

text \<open>Updating other fields does not change the shape.\<close>

lemma shape_update [simp]:
  "shape (t\<lparr>ttype := ty\<rparr>) = shape t" "shape (t\<lparr>dimensionFormat := f\<rparr>) = shape t"
  "shape (t\<lparr>host := h\<rparr>) = shape t"
  by (simp_all add: shape_def)

section \<open>Reduction\<close>

definition reduced :: "int list \<Rightarrow> Tensor \<Rightarrow> int \<Rightarrow> bool" where
  "reduced axes t i \<longleftrightarrow> i \<in> (\<lambda>d. getRealAxis d (dimensions t)) ` set axes"

lemma mask_fold: "fold (\<lambda>d m. m(r d := True)) ds m0 i \<longleftrightarrow> m0 i \<or> i \<in> r ` set ds"
  by (induction ds arbitrary: m0) auto

text \<open>
  \<^verbatim>\<open>Reduction\<close> over constant axes yields the input's extents with the reduced axes (negative ones
  counted from the end) removed, or replaced by 1 when the dimensions are kept.
\<close>

theorem Reduction_shape:
  "\<exists>out'. ReductionComputer (Some axes) keepDims [input] [out] = Some [out'] \<and>
     shape out' = (if keepDims
       then map (\<lambda>i. if reduced axes input i then 1 else extent input i) [0..dimensions input - 1]
       else map (extent input) (filter (\<lambda>i. \<not> reduced axes input i) [0..dimensions input - 1])) \<and>
     ttype out' = ttype input"
proof -
  let ?n = "dimensions input"
  let ?m = "fold (\<lambda>d m. m(getRealAxis d ?n := True)) axes (\<lambda>_. False)"
  let ?o = "out\<lparr>dimensionFormat := dimensionFormat input, ttype := ttype input\<rparr>"
  let ?g = "\<lambda>i. if ?m i then (if keepDims then [1] else []) else [extent input i]"
  let ?f = "\<lambda>i (out, k). if ?m i then (if keepDims then (setLength k 1 out, k + 1) else (out, k))
    else (setLength k (extent input i) out, k + 1)"
  have m: "?m i \<longleftrightarrow> reduced axes input i" for i by (auto simp: mask_fold reduced_def)
  have "fold ?f [0..?n - 1] (?o, 0) =
      fold (\<lambda>i (out, k). (write_from k (?g i) out, k + int (length (?g i)))) [0..?n - 1] (?o, 0)"
    by (rule fold_prod_cong) (auto simp: write_from_single)
  also have "\<dots> = (write_from 0 (concat (map ?g [0..?n - 1])) ?o, int (length (concat (map ?g [0..?n - 1]))))"
    using fold_write_from [of ?g "[0..?n - 1]" ?o 0] by simp
  finally have "ReductionComputer (Some axes) keepDims [input] [out] =
      Some [(write_from 0 (concat (map ?g [0..?n - 1])) ?o)
        \<lparr>dimensions := int (length (concat (map ?g [0..?n - 1])))\<rparr>]"
    by (simp add: ReductionComputer_def Let_def)
  moreover have "shape ((write_from 0 ys ?o)\<lparr>dimensions := int (length ys)\<rparr>) = ys" for ys
    by (rule nth_equalityI) (simp_all add: shape_nth)
  moreover have "concat (map ?g xs) = (if keepDims
       then map (\<lambda>i. if reduced axes input i then 1 else extent input i) xs
       else map (extent input) (filter (\<lambda>i. \<not> reduced axes input i) xs))" for xs
    unfolding m by (induction xs) auto
  ultimately show ?thesis by simp
qed

section \<open>Transpose\<close>

text \<open>The loop accepts exactly the indices that are in range and not used before.\<close>

lemma transpose_loop:
  assumes "distinct is"
  shows "fold_opt (transpose_dim input perm) (out, used) is =
    (if (\<forall>i \<in> set is. 0 \<le> hostv perm i \<and> hostv perm i < dimensions input \<and> \<not> used (hostv perm i)) \<and>
        distinct (map (hostv perm) is)
     then Some (fold (\<lambda>i. setLength i (extent input (hostv perm i))) is out,
            \<lambda>d. used d \<or> d \<in> hostv perm ` set is)
     else None)"
  using assms
proof (induction "is" arbitrary: out used)
  case (Cons i "is")
  let ?d = "hostv perm i" and ?p = "hostv perm" and ?n = "dimensions input"
  let ?c = "\<lambda>used is. (\<forall>i \<in> set is. 0 \<le> ?p i \<and> ?p i < ?n \<and> \<not> used (?p i)) \<and> distinct (map ?p is)"
  show ?case
  proof (cases "0 \<le> ?d \<and> ?d < ?n \<and> \<not> used ?d")
    case True
    let ?u = "used(?d := True)"
    have "transpose_dim input perm (out, used) i = Some (setLength i (extent input ?d) out, ?u)"
      using True by (simp add: transpose_dim_def Let_def)
    moreover have "?c ?u is \<longleftrightarrow> ?c used (i # is)" using True by (auto simp: image_iff)
    moreover have "(\<lambda>d. ?u d \<or> d \<in> ?p ` set is) = (\<lambda>d. used d \<or> d \<in> ?p ` set (i # is))" by auto
    ultimately show ?thesis using Cons.IH [of "setLength i (extent input ?d) out" ?u] Cons.prems
      by (simp only: fold_opt.simps option.case distinct.simps fold_simps comp_def simp_thms)
  next
    case False
    then have "transpose_dim input perm (out, used) i = None" by (auto simp: transpose_dim_def Let_def)
    then show ?thesis using False by auto
  qed
qed simp

definition perm_ok :: "Tensor \<Rightarrow> Tensor \<Rightarrow> bool" where
  "perm_ok input perm \<longleftrightarrow> ttype perm = int32_t \<and> extent perm 0 = dimensions input \<and>
     distinct (map (hostv perm) [0..dimensions input - 1]) \<and>
     hostv perm ` {0..<dimensions input} \<subseteq> {0..<dimensions input}"

lemma perm_ok_mset:
  assumes "perm_ok input perm"
  shows "mset (map (hostv perm) [0..dimensions input - 1]) = mset [0..dimensions input - 1]"
proof -
  let ?n = "dimensions input"
  have d: "distinct (map (hostv perm) [0..?n - 1])" and
    r: "\<forall>i \<in> set [0..?n - 1]. 0 \<le> hostv perm i \<and> hostv perm i < ?n"
    using assms by (auto simp: perm_ok_def image_subset_iff)
  have "set (map (hostv perm) [0..?n - 1]) = set [0..?n - 1]"
  proof (rule card_subset_eq)
    show "set (map (hostv perm) [0..?n - 1]) \<subseteq> set [0..?n - 1]" using r by auto
    have "card (set (map (hostv perm) [0..?n - 1])) = length (map (hostv perm) [0..?n - 1])"
      using d by (rule distinct_card)
    then show "card (set (map (hostv perm) [0..?n - 1])) = card (set [0..?n - 1])"
      using distinct_card [of "[0..?n - 1]"] by simp
  qed simp
  then show ?thesis using d by (metis distinct_upto set_eq_iff_mset_eq_distinct)
qed

text \<open>
  \<^verbatim>\<open>Transpose\<close> accepts exactly the 32-bit integer tensors that hold a permutation of the axes, and
  then permutes the extents accordingly; the multiset of extents, and with it the number of elements,
  stays the same.
\<close>

theorem Transpose_permutes:
  "case TransposeComputer [input, perm] [out] of
     None \<Rightarrow> \<not> perm_ok input perm
   | Some os \<Rightarrow> perm_ok input perm \<and> (\<exists>out'. os = [out'] \<and>
       shape out' = map (\<lambda>i. extent input (hostv perm i)) [0..dimensions input - 1] \<and>
       mset (shape out') = mset (shape input) \<and> prod_list (shape out') = prod_list (shape input))"
proof (cases "perm_ok input perm")
  case True
  let ?n = "dimensions input"
  let ?f = "\<lambda>i. extent input (hostv perm i)"
  let ?o = "(fold (\<lambda>i. setLength i (?f i)) [0..?n - 1] (out\<lparr>dimensions := ?n, ttype := ttype input\<rparr>))
    \<lparr>dimensionFormat := dimensionFormat input\<rparr>"
  have d: "distinct (map (hostv perm) [0..?n - 1])" and
    r: "\<forall>i \<in> set [0..?n - 1]. 0 \<le> hostv perm i \<and> hostv perm i < ?n"
    using True by (auto simp: perm_ok_def image_subset_iff)
  have "TransposeComputer [input, perm] [out] = Some [?o]"
    using True d r by (simp add: TransposeComputer_def Let_def perm_ok_def transpose_loop del: set_upto)
  moreover have s: "shape ?o = map ?f [0..?n - 1]"
    by (simp add: shape_def fold_setLength)
  moreover have "mset (map (hostv perm) [0..?n - 1]) = mset [0..?n - 1]"
    using True by (rule perm_ok_mset)
  then have "mset (map (extent input) (map (hostv perm) [0..?n - 1])) = mset (map (extent input) [0..?n - 1])"
    by (metis mset_map)
  then have "mset (shape ?o) = mset (shape input)" unfolding s by (simp add: shape_def o_def)
  moreover from this have "prod_list (shape ?o) = prod_list (shape input)"
    by (metis prod_mset_prod_list)
  ultimately show ?thesis using True by simp
next
  case False
  have "TransposeComputer [input, perm] [out] = None"
    using False by (cases "ttype perm")
      (auto simp: TransposeComputer_def Let_def perm_ok_def transpose_loop)
  then show ?thesis using False by simp
qed

section \<open>Concat and Slice\<close>

lemma concat_loop:
  "fold_opt (concat_input axis) (s, ob) ts =
    (if \<forall>t \<in> set ts. \<forall>i \<in> {0..<dimensions t}. i \<noteq> axis \<longrightarrow> extent t i = extent ob i
     then Some (s + sum_list (map (\<lambda>t. extent t axis) ts),
       if ts = [] then ob else ob\<lparr>ttype := ttype (last ts)\<rparr>)
     else None)"
proof (induction ts arbitrary: s ob)
  case (Cons t ts)
  show ?case
  proof (cases "\<forall>i \<in> {0..<dimensions t}. i \<noteq> axis \<longrightarrow> extent t i = extent ob i")
    case True
    then have "concat_input axis (s, ob) t = Some (s + extent t axis, ob\<lparr>ttype := ttype t\<rparr>)"
      by (auto simp: concat_input_def Let_def)
    then show ?thesis using Cons.IH [of "s + extent t axis" "ob\<lparr>ttype := ttype t\<rparr>"] True
      by (cases ts) (auto simp: add.assoc)
  next
    case False
    then have "concat_input axis (s, ob) t = None" by (auto simp: concat_input_def Let_def)
    then show ?thesis using False by auto
  qed
qed simp

text \<open>The axis an operator means, and inputs that agree off the axis.\<close>

definition real_axis :: "int \<Rightarrow> Tensor \<Rightarrow> int" where
  "real_axis axis t = (if axis < 0 then dimensions t + axis else axis)"

definition agree_off :: "int \<Rightarrow> Tensor \<Rightarrow> Tensor \<Rightarrow> bool" where
  "agree_off a s t \<longleftrightarrow> (\<forall>i \<in> {0..<dimensions s}. i \<noteq> a \<longrightarrow> extent s i = extent t i)"

lemma Concat_eval:
  assumes "\<forall>t \<in> set ts. dimensions t = dimensions t0"
  shows "case ConcatSizeComputer axis (t0 # ts) [out] of
      None \<Rightarrow> \<exists>t \<in> set ts. \<not> agree_off (real_axis axis t0) t t0
    | Some os \<Rightarrow> (\<forall>t \<in> set ts. agree_off (real_axis axis t0) t t0) \<and>
        (\<exists>out'. os = [out'] \<and> dimensions out' = dimensions t0 \<and> ttype out' = ttype (last (t0 # ts)) \<and>
          (\<forall>i \<in> {0..<dimensions t0}. extent out' i =
            (if i = real_axis axis t0 then sum_list (map (\<lambda>t. extent t i) (t0 # ts)) else extent t0 i)))"
proof -
  let ?a = "real_axis axis t0"
  let ?ob = "(copyDims (dimensions t0) t0 out)\<lparr>dimensions := dimensions t0, ttype := ttype t0\<rparr>"
  have a: "ConcatSizeComputer axis (t0 # ts) [out] =
      (case fold_opt (concat_input ?a) (0, ?ob) (t0 # ts) of None \<Rightarrow> None
       | Some (s, ob) \<Rightarrow> Some [(setLength ?a s ob)\<lparr>dimensionFormat := dimensionFormat t0\<rparr>])"
    by (simp add: ConcatSizeComputer_def real_axis_def [symmetric] del: fold_opt.simps if_split
        cong: option.case_cong)
  have c: "(\<forall>t \<in> set (t0 # ts). \<forall>i \<in> {0..<dimensions t}. i \<noteq> ?a \<longrightarrow> extent t i = extent ?ob i) \<longleftrightarrow>
      (\<forall>t \<in> set ts. agree_off ?a t t0)"
    using assms by (auto simp: agree_off_def)
  show ?thesis unfolding a concat_loop c by (auto simp: agree_off_def)
qed

text \<open>
  \<^verbatim>\<open>Concat\<close> of tensors with the same number of dimensions: it fails exactly when two inputs differ
  in an extent off the axis; otherwise the output has the common extents, and on the axis the sum of the
  inputs' extents.
\<close>

theorem Concat_shape:
  assumes "\<forall>t \<in> set ts. dimensions t = dimensions t0"
  shows "case ConcatSizeComputer axis (t0 # ts) [out] of
      None \<Rightarrow> \<exists>t \<in> set ts. \<not> agree_off (real_axis axis t0) t t0
    | Some os \<Rightarrow> (\<forall>t \<in> set ts. agree_off (real_axis axis t0) t t0) \<and>
        (\<exists>out'. os = [out'] \<and> dimensions out' = dimensions t0 \<and> ttype out' = ttype (last (t0 # ts)) \<and>
          (\<forall>i \<in> {0..<dimensions t0}. extent out' i =
            (if i = real_axis axis t0 then sum_list (map (\<lambda>t. extent t i) (t0 # ts)) else extent t0 i)))"
  using assms by (rule Concat_eval)

theorem Concat_shape_witness:
  "\<exists>out'. ConcatSizeComputer (-1) [w_tensor [2, 3], w_tensor [2, 4]] [w_tensor []] = Some [out'] \<and>
     extent out' 1 = 7 \<and> extent out' 0 = 2"
proof -
  have s: "map_option (map shape) (ConcatSizeComputer (-1) [w_tensor [2, 3], w_tensor [2, 4]] [w_tensor []]) =
      Some [[2, 7]]" by code_simp
  have "\<forall>t \<in> set [w_tensor [2, 4]]. dimensions t = dimensions (w_tensor [2, 3])" by simp
  note Concat_shape [OF this, of "-1" "w_tensor []"]
  moreover have "real_axis (-1) (w_tensor [2, 3]) = 1" by (simp add: real_axis_def)
  moreover have "extent (w_tensor [2, 3]) 1 = 3" "extent (w_tensor [2, 4]) 1 = 4" "extent (w_tensor [2, 3]) 0 = 2"
    by code_simp+
  ultimately show ?thesis using s by (fastforce split: option.splits)
qed

definition caffe_len :: "int list \<Rightarrow> int \<Rightarrow> nat \<Rightarrow> int" where
  "caffe_len ps e i = (if i < length ps then ps ! i else e) - (if i = 0 then 0 else ps ! (i - 1))"

lemma slice_caffe_loop:
  assumes "k \<le> length ps" "length ps < length outs"
  shows "fold (\<lambda>i (previous, outs).
      (ps ! i, outs[i := slice_part input axis (ps ! i - previous) (outs ! i)])) [0..<k] (0, outs) =
    (if k = 0 then 0 else ps ! (k - 1),
     map (\<lambda>i. if i < k then slice_part input axis (caffe_len ps e i) (outs ! i) else outs ! i) [0..<length outs])"
  using assms
proof (induction k)
  case 0
  then show ?case by (simp add: map_nth)
next
  case (Suc k)
  let ?m = "map (\<lambda>i. if i < k then slice_part input axis (caffe_len ps e i) (outs ! i) else outs ! i) [0..<length outs]"
  have "?m[k := slice_part input axis (caffe_len ps e k) (?m ! k)] =
      map (\<lambda>i. if i < Suc k then slice_part input axis (caffe_len ps e i) (outs ! i) else outs ! i) [0..<length outs]"
    using Suc.prems by (intro nth_equalityI) (auto simp: nth_list_update less_Suc_eq)
  moreover have "ps ! k - (if k = 0 then 0 else ps ! (k - 1)) = caffe_len ps e k"
    using Suc.prems by (simp add: caffe_len_def)
  ultimately show ?case using Suc by simp
qed

lemma slice_caffe_eval:
  assumes "length outs = length ps + 1"
  shows "slice_caffe input axis ps outs =
    map (\<lambda>i. slice_part input axis (caffe_len ps (extent input axis) i) (outs ! i)) [0..<length outs]"
proof -
  let ?e = "extent input axis"
  have l: "caffe_len ps ?e (length ps) = ?e - (if length ps = 0 then 0 else ps ! (length ps - 1))"
    by (simp add: caffe_len_def)
  show ?thesis
    unfolding slice_caffe_def using slice_caffe_loop [of "length ps" ps outs input axis ?e] assms l
    by (intro nth_equalityI) (auto simp: nth_list_update Let_def nth_append less_Suc_eq)
qed

lemma caffe_len_sum: "sum_list (map (caffe_len ps e) [0..<length ps + 1]) = e"
proof -
  have "sum_list (map (caffe_len ps e) [0..<k]) = (if k = 0 then 0 else ps ! (k - 1))" if "k \<le> length ps" for k
    using that by (induction k) (auto simp: caffe_len_def)
  from this [of "length ps"] show ?thesis by (simp add: caffe_len_def)
qed

text \<open>
  Slicing and concatenating again gives back the shape: for any Caffe slice points, the parts that
  \<^verbatim>\<open>Slice\<close> produces are accepted by \<^verbatim>\<open>Concat\<close> on the same axis, and the result has the input's shape
  and type.
\<close>

theorem Slice_Concat_roundtrip:
  assumes "length outs = length ps + 1" "- dimensions input \<le> axis" "axis < dimensions input"
  shows "\<exists>parts out'. SliceComputer axis NetSource_CAFFE (Some ps) [input] outs = Some parts \<and>
    length parts = length outs \<and> ConcatSizeComputer axis parts [out] = Some [out'] \<and>
    shape out' = shape input \<and> ttype out' = ttype input"
proof -
  define a where "a = real_axis axis input"
  have a: "0 \<le> a" "a < dimensions input" using assms by (auto simp: a_def real_axis_def)
  let ?fmt = "\<lambda>o'. o'\<lparr>dimensionFormat := dimensionFormat input\<rparr>"
  define part where "part i = ?fmt (slice_part input a (caffe_len ps (extent input a) i) (outs ! i))" for i
  have r: "(if axis < 0 then axis + dimensions input else axis) = a" by (simp add: a_def real_axis_def)
  have parts: "SliceComputer axis NetSource_CAFFE (Some ps) [input] outs = Some (map part [0..<length outs])"
    using slice_caffe_eval [OF assms(1), of input a]
    by (simp add: SliceComputer_def r part_def [abs_def] o_def Let_def)
  have p: "dimensions (part i) = dimensions input" "ttype (part i) = ttype input"
    "extent (part i) a = caffe_len ps (extent input a) i"
    "j \<noteq> a \<Longrightarrow> 0 \<le> j \<Longrightarrow> j < dimensions input \<Longrightarrow> extent (part i) j = extent input j" for i j
    by (auto simp: part_def slice_part_def)
  have c: "[0..<length outs] = 0 # [Suc 0..<length outs]" by (rule upt_conv_Cons) (simp add: assms(1))
  let ?ts = "map part [Suc 0..<length outs]"
  have ra: "real_axis axis (part 0) = a" using p(1) by (simp add: a_def real_axis_def)
  have off: "\<forall>t \<in> set ?ts. agree_off a t (part 0)" using p by (auto simp: agree_off_def)
  have s: "sum_list (map (\<lambda>t. extent t a) (part 0 # ?ts)) = extent input a"
  proof -
    have "map (\<lambda>t. extent t a) (part 0 # ?ts) = map (caffe_len ps (extent input a)) [0..<length ps + 1]"
      unfolding assms(1) [symmetric] c using p(3) by simp
    then show ?thesis using caffe_len_sum by metis
  qed
  have "case ConcatSizeComputer axis (part 0 # ?ts) [out] of
      None \<Rightarrow> \<exists>t \<in> set ?ts. \<not> agree_off a t (part 0)
    | Some os \<Rightarrow> (\<forall>t \<in> set ?ts. agree_off a t (part 0)) \<and>
        (\<exists>out'. os = [out'] \<and> dimensions out' = dimensions (part 0) \<and>
          ttype out' = ttype (last (part 0 # ?ts)) \<and>
          (\<forall>i \<in> {0..<dimensions (part 0)}. extent out' i =
            (if i = a then sum_list (map (\<lambda>t. extent t i) (part 0 # ?ts)) else extent (part 0) i)))"
    using Concat_eval [of ?ts "part 0" axis out] unfolding ra by (simp add: p(1))
  then obtain out' where o: "ConcatSizeComputer axis (part 0 # ?ts) [out] = Some [out']"
    "dimensions out' = dimensions input" "ttype out' = ttype (last (part 0 # ?ts))"
    "\<forall>i \<in> {0..<dimensions input}. extent out' i =
       (if i = a then sum_list (map (\<lambda>t. extent t i) (part 0 # ?ts)) else extent (part 0) i)"
    using off p(1) by (auto split: option.splits)
  have "ttype out' = ttype input"
    using o(3) p(2) last_in_set [of "part 0 # ?ts"] by fastforce
  moreover have "shape out' = shape input"
    using o(2,4) s p(4) by (intro shape_eqI) auto
  moreover have "map part [0..<length outs] = part 0 # ?ts" by (simp add: c)
  moreover have "length (part 0 # ?ts) = length outs" using c by (metis length_Cons length_map length_upt minus_nat.diff_0)
  ultimately show ?thesis using parts o(1) by metis
qed

theorem Slice_Concat_roundtrip_witness:
  "\<exists>parts out'. SliceComputer (-1) NetSource_CAFFE (Some [3, 8]) [w_tensor [2, 10]] [w_tensor [], w_tensor [], w_tensor []] =
      Some parts \<and> length parts = 3 \<and> ConcatSizeComputer (-1) parts [w_tensor []] = Some [out'] \<and>
    shape out' = [2, 10]"
proof -
  have "shape (w_tensor [2, 10]) = [2, 10]" by code_simp
  then show ?thesis
    using Slice_Concat_roundtrip [of "[w_tensor [], w_tensor [], w_tensor []]" "[3, 8]" "w_tensor [2, 10]" "-1" "w_tensor []"]
    by (auto simp: numeral_3_eq_3)
qed

section \<open>Loops that spread extents over unmarked axes\<close>

definition unmarked :: "(int \<Rightarrow> bool) \<Rightarrow> int \<Rightarrow> int" where
  "unmarked m n = int (length (filter (\<lambda>j. \<not> m j) [0..n - 1]))"

lemma unmarked_0 [simp]: "unmarked m 0 = 0"
  by (simp add: unmarked_def)

lemma unmarked_Suc: "0 \<le> n \<Longrightarrow> unmarked m (n + 1) = unmarked m n + (if m n then 0 else 1)"
  by (simp add: unmarked_def upto_rec2)

lemma unmarked_nonneg [simp]: "0 \<le> unmarked m n"
  by (simp add: unmarked_def)

lemma fill_Suc: "a \<le> b \<Longrightarrow> fill a (b + 1) f t = setLength b (f b) (fill a b f t)"
  by (rule tensor_eqI) auto

lemma spread_loop:
  "0 \<le> n \<Longrightarrow> fold (\<lambda>i (ob, k). if m i then (setLength i (v i) ob, k) else (setLength i (src k) ob, k + 1))
     [0..n - 1] (ob, 0) =
   (fill 0 n (\<lambda>i. if m i then v i else src (unmarked m i)) ob, unmarked m n)"
proof (induction n rule: int_ge_induct)
  case base
  show ?case by (simp add: fill_def)
next
  case (step n)
  then have "[0..n + 1 - 1] = [0..n - 1] @ [n]" by (simp add: upto_rec2)
  then show ?case using step by (simp add: fill_Suc unmarked_Suc)
qed

lemma spread_collect:
  "0 \<le> n \<Longrightarrow> map (\<lambda>i. src (unmarked m i)) (filter (\<lambda>i. \<not> m i) [0..n - 1]) = map src [0..unmarked m n - 1]"
proof (induction n rule: int_ge_induct)
  case (step n)
  then have "[0..n + 1 - 1] = [0..n - 1] @ [n]" by (simp add: upto_rec2)
  then show ?case using step by (simp add: unmarked_Suc upto_rec2 [of 0 "unmarked m n"])
qed simp

section \<open>Pack and Unpack\<close>

lemma unmarked_single: "0 \<le> i \<Longrightarrow> 0 \<le> a \<Longrightarrow> unmarked (\<lambda>j. j = a) i = (if i \<le> a then i else i - 1)"
proof (induction i rule: int_ge_induct)
  case (step i)
  then show ?case by (simp add: unmarked_Suc)
qed simp

text \<open>
  Packing tensors along a new axis and unpacking that axis again gives back their shape: every
  tensor \<^verbatim>\<open>Unpack\<close> returns has the shape and type of the first packed input, and no more outputs than
  packed inputs can be unpacked.
\<close>

theorem Pack_Unpack_roundtrip:
  assumes "0 \<le> axis" "axis \<le> dimensions (ins ! 0)" "outs \<noteq> []"
  shows "\<exists>p. PackComputer axis ins [out] = Some [p] \<and> dimensions p = dimensions (ins ! 0) + 1 \<and>
    extent p axis = int (length ins) \<and>
    (case UnpackComputer axis [p] outs of
       None \<Rightarrow> length ins < length outs
     | Some ts \<Rightarrow> length ts = length outs \<and> length outs \<le> length ins \<and>
         (\<forall>t \<in> set ts. shape t = shape (ins ! 0) \<and> ttype t = ttype (ins ! 0)))"
proof -
  let ?t = "ins ! 0"
  let ?n = "dimensions ?t"
  let ?f = "\<lambda>i. if i = axis then int (length ins) else extent ?t (unmarked (\<lambda>j. j = axis) i)"
  define p where "p = (fill 0 (?n + 1) ?f (out\<lparr>dimensions := ?n + 1, ttype := ttype ?t\<rparr>))
    \<lparr>dimensionFormat := dimensionFormat ?t\<rparr>"
  have pack: "PackComputer axis ins [out] = Some [p]"
    using assms spread_loop [of "?n + 1" "\<lambda>i. i = axis" "\<lambda>_. int (length ins)" "extent ?t"
        "out\<lparr>dimensions := ?n + 1, ttype := ttype ?t\<rparr>"]
    by (simp add: PackComputer_def p_def Let_def)
  have pa: "dimensions p = ?n + 1" "ttype p = ttype ?t" "extent p axis = int (length ins)"
    using assms by (simp_all add: p_def)
  have pi: "extent p (if i < axis then i else i + 1) = extent ?t i" if "0 \<le> i" "i < ?n" for i
    using that assms by (simp add: p_def unmarked_single)
  let ?g = "\<lambda>i. if i < axis then extent p i else extent p (i + 1)"
  let ?u = "\<lambda>o'. (fill 0 ?n ?g (o'\<lparr>dimensions := ?n, ttype := ttype ?t\<rparr>))\<lparr>dimensionFormat := dimensionFormat p\<rparr>"
  have u: "UnpackComputer axis [p] outs = (if length outs > length ins then None else Some (map ?u outs))"
    using assms pa by (simp add: UnpackComputer_def Let_def)
  have "shape (?u o') = shape ?t" for o'
  proof (rule shape_eqI)
    fix i assume "0 \<le> i" "i < dimensions (?u o')"
    then show "extent (?u o') i = extent ?t i" using pi [of i] by (simp split: if_splits)
  qed simp
  then show ?thesis using pack pa u by (auto simp: Let_def)
qed

theorem Pack_Unpack_roundtrip_witness:
  "\<exists>p. PackComputer 1 [w_tensor [4, 5], w_tensor [4, 5]] [w_tensor []] = Some [p] \<and> shape p = [4, 2, 5] \<and>
    (case UnpackComputer 1 [p] [w_tensor []] of None \<Rightarrow> False | Some ts \<Rightarrow> \<forall>t \<in> set ts. shape t = [4, 5])"
proof -
  have s: "map_option (map shape) (PackComputer 1 [w_tensor [4, 5], w_tensor [4, 5]] [w_tensor []]) = Some [[4, 2, 5]]"
    "shape (w_tensor [4, 5]) = [4, 5]" by code_simp+
  then show ?thesis
    using Pack_Unpack_roundtrip [of 1 "[w_tensor [4, 5], w_tensor [4, 5]]" "[w_tensor []]" "w_tensor []"]
    by (auto split: option.splits)
qed

section \<open>Unsqueeze and Squeeze\<close>

lemma mark_loop:
  "fold_opt (mark_axis n ok) m ds =
    (if \<forall>d \<in> set ds. 0 \<le> getRealAxis d n \<and> getRealAxis d n < n \<and> ok (getRealAxis d n)
     then Some (\<lambda>i. m i \<or> i \<in> (\<lambda>d. getRealAxis d n) ` set ds) else None)"
proof (induction ds arbitrary: m)
  case (Cons d ds)
  have "mark_axis n ok m d =
    (if 0 \<le> getRealAxis d n \<and> getRealAxis d n < n \<and> ok (getRealAxis d n)
     then Some (m(getRealAxis d n := True)) else None)"
    by (auto simp: mark_axis_def getRealAxis_def Let_def)
  then show ?case using Cons by (auto simp: fun_eq_iff)
qed simp

lemma unmarked_card:
  assumes "0 \<le> n" "A \<subseteq> {0..<n}"
  shows "unmarked (\<lambda>i. i \<in> A) n = n - int (card A)"
proof -
  have "set (filter (\<lambda>i. i \<in> A) [0..n - 1]) = A" using assms(2) by auto
  then have "length (filter (\<lambda>i. i \<in> A) [0..n - 1]) = card A"
    by (metis distinct_card distinct_filter distinct_upto)
  moreover have "length (filter (\<lambda>i. i \<in> A) [0..n - 1]) + length (filter (\<lambda>i. i \<notin> A) [0..n - 1]) = nat n"
    using sum_length_filter_compl [of "\<lambda>i. i \<in> A" "[0..n - 1]"] by simp
  ultimately show ?thesis using assms(1) by (simp add: unmarked_def)
qed

definition axes_ok :: "int \<Rightarrow> int list \<Rightarrow> bool" where
  "axes_ok n ds \<longleftrightarrow> distinct (map (\<lambda>d. getRealAxis d n) ds) \<and> (\<lambda>d. getRealAxis d n) ` set ds \<subseteq> {0..<n}"

lemma UnSqueeze_eval:
  assumes "0 \<le> dimensions t" "n = dimensions t + int (length ds)" "n \<le> 9"
    "(\<lambda>d. getRealAxis d n) ` set ds \<subseteq> {0..<n}"
  shows "UnSqueezeSizeComputer (Some ds) [t] [out] =
    Some [(fill 0 n (\<lambda>i. if i \<in> (\<lambda>d. getRealAxis d n) ` set ds then 1
            else extent t (unmarked (\<lambda>i. i \<in> (\<lambda>d. getRealAxis d n) ` set ds) i)) (out\<lparr>dimensions := n\<rparr>))
          \<lparr>ttype := ttype t, dimensionFormat := dimensionFormat t\<rparr>]"
proof -
  have "fold_opt (mark_axis n (\<lambda>_. True)) (\<lambda>_. False) ds = Some (\<lambda>i. i \<in> (\<lambda>d. getRealAxis d n) ` set ds)"
    using assms(4) by (auto simp: mark_loop)
  moreover have "0 \<le> n" using assms by simp
  ultimately show ?thesis
    using assms(2,3) spread_loop [of n "\<lambda>i. i \<in> (\<lambda>d. getRealAxis d n) ` set ds" "\<lambda>_. 1" "extent t" "out\<lparr>dimensions := n\<rparr>"]
    by (simp add: UnSqueezeSizeComputer_def squeeze_dims_def Let_def MNN_MAX_TENSOR_DIM_def)
qed

lemma Squeeze_eval:
  assumes "ds \<noteq> []" "n = dimensions u" "A = (\<lambda>d. getRealAxis d n) ` set ds" "A \<subseteq> {0..<n}"
    "\<forall>a \<in> A. extent u a = 1"
  shows "\<exists>out'. SqueezeSizeComputer (Some ds) [u] [out] = Some [out'] \<and>
    shape out' = map (extent u) (filter (\<lambda>i. i \<notin> A) [0..n - 1]) \<and> ttype out' = ttype u"
proof -
  let ?m = "\<lambda>i. i \<in> A"
  have m: "fold_opt (mark_axis n (\<lambda>axis. extent u axis = 1)) (\<lambda>_. False) ds = Some ?m"
    using assms(3-5) by (auto simp: mark_loop)
  let ?k = "n - int (length (filter ?m [0..n - 1]))"
  let ?o = "out\<lparr>dimensions := ?k\<rparr>"
  let ?g = "\<lambda>i. if ?m i then [] else [extent u i]"
  let ?ys = "map (extent u) (filter (\<lambda>i. i \<notin> A) [0..n - 1])"
  have c: "concat (map ?g [0..n - 1]) = ?ys" by (rule concat_filter)
  have "fold (\<lambda>i (ob, k). if ?m i then (ob, k) else (setLength k (extent u i) ob, k + 1)) [0..n - 1] (?o, 0) =
      fold (\<lambda>i (out, k). (write_from k (?g i) out, k + int (length (?g i)))) [0..n - 1] (?o, 0)"
    by (rule fold_prod_cong) (auto simp: write_from_single)
  also have "\<dots> = (write_from 0 ?ys ?o, int (length ?ys))"
    using fold_write_from [of ?g "[0..n - 1]" ?o 0] unfolding c by simp
  finally have e: "SqueezeSizeComputer (Some ds) [u] [out] =
      Some [(write_from 0 ?ys ?o)\<lparr>ttype := ttype u, dimensionFormat := dimensionFormat u\<rparr>]"
    using m assms(1,2) by (simp add: SqueezeSizeComputer_def squeeze_dims_def Let_def)
  obtain d where "d \<in> set ds" using assms(1) by (cases ds) auto
  then have "0 \<le> n" using assms(3,4) by fastforce
  then have "int (length ?ys) = ?k"
    using sum_length_filter_compl [of ?m "[0..n - 1]"] by simp
  then have "shape (write_from 0 ?ys ?o) = ?ys" by (intro shape_write) simp
  then show ?thesis using e by simp
qed

text \<open>
  \<^verbatim>\<open>Squeeze\<close> undoes \<^verbatim>\<open>Unsqueeze\<close>: inserting axes (distinct, in range, possibly negative) into a tensor
  and squeezing the same axes gives back the original shape and type.
\<close>

theorem Unsqueeze_Squeeze_roundtrip:
  assumes "0 \<le> dimensions t" "dimensions t + int (length ds) \<le> 9" "ds \<noteq> []"
    "axes_ok (dimensions t + int (length ds)) ds"
  shows "\<exists>u out'. UnSqueezeSizeComputer (Some ds) [t] [out] = Some [u] \<and>
    dimensions u = dimensions t + int (length ds) \<and>
    SqueezeSizeComputer (Some ds) [u] [out2] = Some [out'] \<and> shape out' = shape t \<and> ttype out' = ttype t"
proof -
  define n where "n = dimensions t + int (length ds)"
  define A where "A = (\<lambda>d. getRealAxis d n) ` set ds"
  have A: "A \<subseteq> {0..<n}" and d: "distinct (map (\<lambda>d. getRealAxis d n) ds)"
    using assms(4) by (auto simp: axes_ok_def n_def A_def)
  define u where "u = (fill 0 n (\<lambda>i. if i \<in> A then 1 else extent t (unmarked (\<lambda>i. i \<in> A) i))
    (out\<lparr>dimensions := n\<rparr>))\<lparr>ttype := ttype t, dimensionFormat := dimensionFormat t\<rparr>"
  have u: "UnSqueezeSizeComputer (Some ds) [t] [out] = Some [u]"
  proof -
    have "n \<le> 9" using assms(2) by (simp add: n_def)
    from UnSqueeze_eval [OF assms(1) n_def this A [unfolded A_def], of out] show ?thesis
      unfolding u_def A_def .
  qed
  have du: "dimensions u = n" "ttype u = ttype t" by (simp_all add: u_def)
  have eu: "extent u i = (if i \<in> A then 1 else extent t (unmarked (\<lambda>i. i \<in> A) i))" if "0 \<le> i" "i < n" for i
    using that by (simp add: u_def)
  have "\<forall>a \<in> A. extent u a = 1" using A eu by auto
  then obtain out' where o: "SqueezeSizeComputer (Some ds) [u] [out2] = Some [out']"
    "shape out' = map (extent u) (filter (\<lambda>i. i \<notin> A) [0..n - 1])" "ttype out' = ttype u"
    using Squeeze_eval [of ds n u A out2] assms(3) du A by (auto simp: A_def)
  have "map (extent u) (filter (\<lambda>i. i \<notin> A) [0..n - 1]) =
      map (\<lambda>i. extent t (unmarked (\<lambda>i. i \<in> A) i)) (filter (\<lambda>i. i \<notin> A) [0..n - 1])"
    by (rule map_cong) (auto simp: eu)
  also have "\<dots> = map (extent t) [0..unmarked (\<lambda>i. i \<in> A) n - 1]"
    using spread_collect [of n "extent t" "\<lambda>i. i \<in> A"] assms(1) by (simp add: n_def)
  also have "unmarked (\<lambda>i. i \<in> A) n = dimensions t"
  proof -
    have "card A = length ds" using distinct_card [OF d] by (simp add: A_def)
    then show ?thesis using unmarked_card [OF _ A] assms(1) by (simp add: n_def)
  qed
  finally have "shape out' = shape t" using o(2) by (simp add: shape_def)
  then show ?thesis using u o du by (auto simp: n_def)
qed

theorem Unsqueeze_Squeeze_roundtrip_witness:
  "\<exists>u out'. UnSqueezeSizeComputer (Some [0, -1]) [w_tensor [4, 5]] [w_tensor []] = Some [u] \<and> shape u = [1, 4, 5, 1] \<and>
     SqueezeSizeComputer (Some [0, -1]) [u] [w_tensor []] = Some [out'] \<and> shape out' = [4, 5]"
proof -
  have s: "map_option (map shape) (UnSqueezeSizeComputer (Some [0, -1]) [w_tensor [4, 5]] [w_tensor []]) = Some [[1, 4, 5, 1]]"
    "shape (w_tensor [4, 5]) = [4, 5]" by code_simp+
  have "axes_ok 4 [0, -1]" by (simp add: axes_ok_def getRealAxis_def)
  then show ?thesis using s
    Unsqueeze_Squeeze_roundtrip [of "w_tensor [4, 5]" "[0, -1]" "w_tensor []" "w_tensor []"] by auto
qed

text \<open>
  \<^verbatim>\<open>Unsqueeze\<close> does not check that its axes are distinct (\<^verbatim>\<open>Squeeze\<close> counts distinct ones): with a
  repeated axis the output has one dimension too many for the marked axes, and its last extent is read
  from beyond the dimensions of the input.
\<close>

theorem Unsqueeze_repeated_axis:
  "\<exists>u. UnSqueezeSizeComputer (Some [0, 0]) [(w_tensor [7])\<lparr>extent := (\<lambda>i. if i = 0 then 7 else stale)\<rparr>] [w_tensor []] =
     Some [u] \<and> shape u = [1, 7, stale]"
proof -
  let ?t = "(w_tensor [7])\<lparr>extent := (\<lambda>i. if i = 0 then 7 else stale)\<rparr>"
  have "[0..2] = [0, 1, 2 :: int]" "[0..1] = [0, 1 :: int]" by code_simp+
  then show ?thesis
    using UnSqueeze_eval [of ?t 3 "[0, 0]" "w_tensor []"]
    by (simp add: getRealAxis_def shape_def unmarked_def)
qed

end
