(* ===== verification/Shape_Layout.thy ===== *)
theory Shape_Layout
  imports Shape_Axis
begin

text \<open>
  Shape inference of the operators that rearrange whole tensors: \<^verbatim>\<open>Reshape\<close>, \<^verbatim>\<open>Flatten\<close>,
  \<^verbatim>\<open>StridedSlice\<close>, \<^verbatim>\<open>SliceTf\<close>, \<^verbatim>\<open>Padding\<close>, \<^verbatim>\<open>Crop\<close>, \<^verbatim>\<open>SpaceToDepth\<close>, \<^verbatim>\<open>DepthToSpace\<close>,
  \<^verbatim>\<open>SpaceToBatchND\<close>, \<^verbatim>\<open>BatchToSpaceND\<close>, \<^verbatim>\<open>ConvertTensor\<close>, \<^verbatim>\<open>Shape\<close>, \<^verbatim>\<open>Raster\<close> and \<^verbatim>\<open>Size\<close>
  (the files of \<^verbatim>\<open>source/shape\<close> of the same names).
\<close>

unbundle bit_operations_syntax

section \<open>Flatten and Reshape\<close>

definition prod_range :: "Tensor \<Rightarrow> int \<Rightarrow> int \<Rightarrow> int" where
  "prod_range t a b = fold (\<lambda>i p. p * extent t i) [a..b - 1] 1"

definition FlattenComputer :: "int \<Rightarrow> int \<Rightarrow> shape_fun" where
  "FlattenComputer axis0 endAxis0 inputs outputs =
     (if inputs = [] \<or> outputs = [] then None
      else
        (let input = inputs ! 0; dim = dimensions input;
             axis = (if axis0 < 0 then axis0 + dim else axis0);
             endAxis = (if endAxis0 < 0 then endAxis0 + dim else endAxis0);
             out = outputs ! 0;
             out =
               (if endAxis = 0 then
                  setLength 1 (prod_range input axis dim)
                    (setLength 0 (prod_range input 0 axis) (out\<lparr>dimensions := 2\<rparr>))
                else
                  (let out = out\<lparr>dimensions := dim - endAxis + axis\<rparr>;
                       out = fill 0 axis (extent input) out;
                       out = setLength axis (prod_range input axis (endAxis + 1)) out
                   in if dim > endAxis + 1 then fill (endAxis + 1) dim (extent input) out else out))
         in Some (set_out outputs (out\<lparr>ttype := ttype input, dimensionFormat := dimensionFormat input\<rparr>))))"

text \<open>
  The requested shape: a constant of the operator, or the content of the second input.
  \<open>stack\<close> is what the uninitialised local array \<^verbatim>\<open>shapes\<close> holds, \<open>dimType\<close> the format the
  parameter table names.
\<close>

definition reshape_dims ::
    "(int \<Rightarrow> int) \<Rightarrow> int list \<Rightarrow> MNN_DATA_FORMAT \<Rightarrow> Tensor list \<Rightarrow> (int \<times> (int \<Rightarrow> int) \<times> bool) option" where
  "reshape_dims stack dims dimType inputs =
     (if length inputs = 1 then
        Some (int (length dims), (\<lambda>i. if 0 \<le> i \<and> i < int (length dims) then dims ! nat i else stack i), False)
      else
        (let inputShape = inputs ! 1;
             fromTf = (dimensionFormat inputShape = MNN_DATA_FORMAT_NHWC);
             dimSize = elementSize inputShape;
             dim = hostv inputShape
         in if ttype inputShape = int32_t \<or> ttype inputShape = HType halide_type_int 64 then
              Some (dimSize,
                if dimensionFormat (inputs ! 0) = MNN_DATA_FORMAT_NC4HW4 \<and> dimType = MNN_DATA_FORMAT_NHWC
                then stack(0 := dim 0, 1 := dim 3, 2 := dim 1, 3 := dim 2)
                else (\<lambda>i. if 0 \<le> i \<and> i < dimSize then dim i else stack i),
                fromTf)
            else None))"

definition reshape_dim :: "Tensor \<Rightarrow> bool \<Rightarrow> (int \<Rightarrow> int) \<Rightarrow> int \<Rightarrow> Tensor \<times> int \<Rightarrow> Tensor \<times> int" where
  "reshape_dim input fromTf shapes i st =
     (let (out, determinAxis) = st; reshapeDim = shapes i
      in if reshapeDim = -1 then (setLength i 1 out, i)
         else if reshapeDim = 0 \<and> \<not> fromTf then (setLength i (extent input i) out, determinAxis)
         else (setLength i reshapeDim out, determinAxis))"

definition ReshapeComputer :: "(int \<Rightarrow> int) \<Rightarrow> int list \<Rightarrow> MNN_DATA_FORMAT \<Rightarrow> shape_fun" where
  "ReshapeComputer stack dims dimType inputs outputs =
     (let input = inputs ! 0
      in case reshape_dims stack dims dimType inputs of
           None \<Rightarrow> None
         | Some (dimSize, shapes, fromTf) \<Rightarrow>
             (let out = (outputs ! 0)\<lparr>ttype := ttype input, dimensions := dimSize\<rparr>;
                  totalSizeInput = prod_range input 0 (dimensions input);
                  (out, determinAxis) = fold (reshape_dim input fromTf shapes) [0..dimSize - 1] (out, -1);
                  totalSizeOutput = prod_range out 0 dimSize;
                  (out, totalSizeOutput) =
                    (if determinAxis \<ge> 0 then
                       (let e = (if totalSizeOutput \<noteq> 0 then totalSizeInput sdiv totalSizeOutput else 0)
                        in (setLength determinAxis e out, totalSizeOutput * e))
                     else (out, totalSizeOutput))
              in if totalSizeInput \<noteq> totalSizeOutput then None
                 else Some (set_out outputs (out\<lparr>dimensionFormat := dimensionFormat input\<rparr>))))"

section \<open>StridedSlice\<close>

record SliceInfo =
  begins :: "int \<Rightarrow> int"
  ends :: "int \<Rightarrow> int"
  strides :: "int \<Rightarrow> int"
  beginMasks :: "int \<Rightarrow> int"
  endMasks :: "int \<Rightarrow> int"
  shrinkAxisMasks :: "int \<Rightarrow> int"
  newAxisMasks :: "int \<Rightarrow> int"
  strideSize :: int

definition mask_bit :: "int \<Rightarrow> int \<Rightarrow> int" where
  "mask_bit m i = m AND (2 ^ nat i)"

definition mask_array :: "int \<Rightarrow> int \<Rightarrow> int \<Rightarrow> int" where
  "mask_array m n i = (if 0 \<le> i \<and> i < n then mask_bit m i else 0)"

definition sliceInit :: "int \<Rightarrow> int \<Rightarrow> int \<Rightarrow> int \<Rightarrow> int \<Rightarrow> Tensor \<Rightarrow> SliceInfo" where
  "sliceInit beginMask endMask shrinkAxisMask newAxisMask n input =
     \<lparr>begins = (\<lambda>_. 0),
      ends = (\<lambda>i. if 0 \<le> i \<and> i < dimensions input then extent input i else 0),
      strides = (\<lambda>i. if 0 \<le> i \<and> i < dimensions input then 1 else 0),
      beginMasks = mask_array beginMask n, endMasks = mask_array endMask n,
      shrinkAxisMasks = mask_array shrinkAxisMask n, newAxisMasks = mask_array newAxisMask n,
      strideSize = n\<rparr>"

text \<open>Models from ONNX and Torch name the sliced axes in an optional fourth input.\<close>

definition sliceAxes_step :: "Tensor list \<Rightarrow> (int \<Rightarrow> int) \<Rightarrow> SliceInfo \<Rightarrow> int \<Rightarrow> SliceInfo option" where
  "sliceAxes_step inputs inputShape s i =
     (let inputDim = dimensions (inputs ! 0);
          temp_axis = (if length inputs \<ge> 4
                       then (let a = hostv (inputs ! 3) i in if a < 0 then a + inputDim else a) else i);
          s = (if length inputs = 5 then s\<lparr>strides := (strides s)(temp_axis := hostv (inputs ! 4) i)\<rparr> else s)
      in if length inputs = 5 \<and> strides s temp_axis = 0 then None
         else
           (let shp = inputShape temp_axis;
                b = hostv (inputs ! 1) i; b = (if b < 0 then b + shp else b);
                e = hostv (inputs ! 2) i; e = (if e < 0 then e + shp else e)
            in Some (s\<lparr>begins := (begins s)(temp_axis := b), ends := (ends s)(temp_axis := e)\<rparr>)))"

definition sliceAxes :: "Tensor list \<Rightarrow> (int \<Rightarrow> int) \<Rightarrow> SliceInfo \<Rightarrow> SliceInfo option" where
  "sliceAxes inputs inputShape s =
     map_option (strideSize_update (\<lambda>_. dimensions (inputs ! 0)))
       (fold_opt (sliceAxes_step inputs inputShape) s [0..strideSize s - 1])"

text \<open>An ellipsis of a TensorFlow model is expanded to full ranges.\<close>

definition ellipsis_pos :: "int \<Rightarrow> int \<Rightarrow> int" where
  "ellipsis_pos ellipsisMask n =
     (case filter (\<lambda>i. mask_bit ellipsisMask i \<noteq> 0) [0..n - 1] of [] \<Rightarrow> -1 | i # _ \<Rightarrow> i)"

definition ellipsis_step ::
    "Tensor list \<Rightarrow> (int \<Rightarrow> int) \<Rightarrow> SliceInfo \<Rightarrow> int \<Rightarrow> int \<Rightarrow> int \<Rightarrow> SliceInfo \<times> int \<Rightarrow> SliceInfo \<times> int" where
  "ellipsis_step inputs inputShape s0 ellipsisPos ellpsisSize i st =
     (let (s, strideIdx) = st;
          strideIdx = (if i = ellipsisPos then strideIdx + 1 else strideIdx)
      in if i \<ge> ellipsisPos \<and> i \<le> ellipsisPos + ellpsisSize then
           (s\<lparr>begins := (begins s)(i := 0), ends := (ends s)(i := inputShape i), strides := (strides s)(i := 1)\<rparr>,
            strideIdx)
         else
           (s\<lparr>begins := (begins s)(i := hostv (inputs ! 1) strideIdx),
              ends := (ends s)(i := hostv (inputs ! 2) strideIdx),
              strides := (if length inputs \<ge> 4 then (strides s)(i := hostv (inputs ! 3) strideIdx) else strides s),
              beginMasks := (beginMasks s)(i := beginMasks s0 strideIdx),
              endMasks := (endMasks s)(i := endMasks s0 strideIdx),
              shrinkAxisMasks := (shrinkAxisMasks s)(i := shrinkAxisMasks s0 strideIdx),
              newAxisMasks := (newAxisMasks s)(i := newAxisMasks s0 strideIdx)\<rparr>,
            strideIdx + 1))"

definition sliceEllipsis :: "int \<Rightarrow> Tensor list \<Rightarrow> (int \<Rightarrow> int) \<Rightarrow> SliceInfo \<Rightarrow> SliceInfo" where
  "sliceEllipsis ellipsisMask inputs inputShape s =
     (let inputDim = dimensions (inputs ! 0);
          pos = ellipsis_pos ellipsisMask (strideSize s);
          z = s\<lparr>beginMasks := (\<lambda>i. if 0 \<le> i \<and> i < inputDim then 0 else beginMasks s i),
                endMasks := (\<lambda>i. if 0 \<le> i \<and> i < inputDim then 0 else endMasks s i),
                shrinkAxisMasks := (\<lambda>i. if 0 \<le> i \<and> i < inputDim then 0 else shrinkAxisMasks s i),
                newAxisMasks := (\<lambda>i. if 0 \<le> i \<and> i < inputDim then 0 else newAxisMasks s i)\<rparr>
      in (fst (fold (ellipsis_step inputs inputShape s pos (inputDim - strideSize s)) [0..inputDim - 1] (z, 0)))
           \<lparr>strideSize := inputDim\<rparr>)"

definition slicePlain_step :: "Tensor list \<Rightarrow> SliceInfo \<Rightarrow> int \<Rightarrow> SliceInfo option" where
  "slicePlain_step inputs s i =
     (let s = s\<lparr>begins := (begins s)(i := hostv (inputs ! 1) i), ends := (ends s)(i := hostv (inputs ! 2) i),
                strides := (strides s)(i := hostv (inputs ! 3) i)\<rparr>
      in if strides s i = 0 then None else Some s)"

definition beginAndEndShapeLimit :: "int \<Rightarrow> int \<Rightarrow> bool \<Rightarrow> int" where
  "beginAndEndShapeLimit shp dimSize exclusive =
     (let maxShape = (if exclusive then dimSize else dimSize - 1);
          minShape = (if exclusive then - dimSize - 1 else - dimSize);
          shp = (if shp > maxShape then maxShape else shp);
          shp = (if shp < minShape then minShape else shp)
      in if shp < 0 then shp + dimSize else shp)"

text \<open>The number of elements one dimension contributes; \<^const>\<open>None\<close> is the early return.\<close>

definition slice_bounds :: "SliceInfo \<Rightarrow> int \<Rightarrow> int \<Rightarrow> int \<times> int \<times> int" where
  "slice_bounds s inputDim i =
     (let stridedShape = (if shrinkAxisMasks s i > 0 then 1 else strides s i);
          beginShape =
            (if beginMasks s i > 0 then (if stridedShape < 0 then inputDim - 1 else 0)
             else if stridedShape < 0 then beginAndEndShapeLimit (begins s i) inputDim False
             else min inputDim (begins s i));
          beginShape =
            (if beginShape < 0 then UP_DIV (- beginShape) inputDim * inputDim + beginShape else beginShape);
          endShape =
            (if endMasks s i > 0 then (if stridedShape < 0 then -1 else inputDim)
             else if stridedShape < 0 then max (-1) (min inputDim (ends s i))
             else beginAndEndShapeLimit (ends s i) inputDim True)
      in (beginShape, endShape, stridedShape))"

definition slice_size :: "SliceInfo \<Rightarrow> int \<Rightarrow> int \<Rightarrow> int option" where
  "slice_size s inputDim i =
     (let (beginShape, endShape, stridedShape) = slice_bounds s inputDim i
      in if endShape < beginShape then
           (if stridedShape = 0 then None
            else if stridedShape < 0 then Some ((beginShape - endShape - 1) sdiv (- stridedShape) + 1)
            else Some ((beginShape - beginShape - 1) sdiv stridedShape + 1))
         else Some ((endShape - beginShape - 1) sdiv stridedShape + 1))"

text \<open>State: the output extents so far and the number of input dimensions dealt with.\<close>

definition slice_dim :: "SliceInfo \<Rightarrow> (int \<Rightarrow> int) \<Rightarrow> int list \<times> int \<Rightarrow> int \<Rightarrow> (int list \<times> int) option" where
  "slice_dim s inputShape st i =
     (let (outputShapeShrinked, strideDealDims) = st
      in if newAxisMasks s i > 0 then Some (outputShapeShrinked @ [1], strideDealDims)
         else
           (case slice_size s (inputShape strideDealDims) i of
              None \<Rightarrow> None
            | Some sz \<Rightarrow>
                Some (if shrinkAxisMasks s i = 0 then outputShapeShrinked @ [sz] else outputShapeShrinked,
                      strideDealDims + 1)))"

definition StridedSliceComputer :: "int \<Rightarrow> int \<Rightarrow> int \<Rightarrow> int \<Rightarrow> int \<Rightarrow> int \<Rightarrow> shape_fun" where
  "StridedSliceComputer beginMask endMask shrinkAxisMask ellipsisMask newAxisMask fromType inputs outputs =
     (let input = inputs ! 0; inputDim = dimensions input; out = outputs ! 0
      in if inputDim \<le> 0 \<or> inputDim > MNN_MAX_TENSOR_DIM then None
         else if fromType = 0 \<and> length inputs = 5 then
           Some (set_out outputs ((copyShape input True False out)
             \<lparr>ttype := ttype input, dimensionFormat := dimensionFormat input\<rparr>))
         else if ellipsisMask \<noteq> 0 \<and> ellipsisMask AND (ellipsisMask - 1) \<noteq> 0 then None
         else
           (let inputShape = (\<lambda>i. if 0 \<le> i \<and> i < inputDim then extent input i else 0);
                s = sliceInit beginMask endMask shrinkAxisMask newAxisMask (extent (inputs ! 1) 0) input;
                info =
                  (if fromType = 1 then sliceAxes inputs inputShape s
                   else if fromType = 0 then
                     (if ellipsisMask > 0 then Some (sliceEllipsis ellipsisMask inputs inputShape s)
                      else fold_opt (slicePlain_step inputs) s [0..strideSize s - 1])
                   else Some s)
            in case info of None \<Rightarrow> None
               | Some s \<Rightarrow>
                   (case fold_opt (slice_dim s inputShape) ([], 0) [0..strideSize s - 1] of
                      None \<Rightarrow> None
                    | Some (dims, strideDealDims) \<Rightarrow>
                        (let dims = dims @ map (extent input) [strideDealDims..inputDim - 1];
                             n = int (length dims);
                             out = fill 0 n (\<lambda>i. dims ! nat i) (out\<lparr>dimensions := n, ttype := ttype input\<rparr>)
                         in Some (set_out outputs (out\<lparr>dimensionFormat := dimensionFormat input\<rparr>))))))"

section \<open>SliceTf, Padding, Crop\<close>

definition sliceTf_dim :: "Tensor list \<Rightarrow> Tensor \<Rightarrow> int \<Rightarrow> Tensor option" where
  "sliceTf_dim inputs out i =
     (let input = inputs ! 0; dim = hostv (inputs ! 2) i; begin = hostv (inputs ! 1) i;
          begin = (if begin < 0 then begin + extent input i else begin)
      in if begin < 0 \<or> begin > extent input i then None
         else
           (let dim = (if dim = -1 then extent input i - begin else dim)
            in if dim < 0 \<or> begin + dim > extent input i then None else Some (setLength i dim out)))"

definition SliceTfComputer :: shape_fun where
  "SliceTfComputer inputs outputs =
     (let input = inputs ! 0
      in case fold_opt (sliceTf_dim inputs)
              ((outputs ! 0)\<lparr>dimensions := dimensions input, ttype := ttype input\<rparr>) [0..dimensions input - 1] of
           None \<Rightarrow> None
         | Some out \<Rightarrow>
             Some (map (\<lambda>o'. o'\<lparr>dimensionFormat := dimensionFormat input\<rparr>) (set_out outputs out)))"

definition PaddingComputer :: shape_fun where
  "PaddingComputer inputs outputs =
     (if (length inputs \<noteq> 2 \<and> length inputs \<noteq> 3) \<or> length outputs \<noteq> 1 then None
      else
        (let input = inputs ! 0; paddings = inputs ! 1;
             out = copyShape input True False ((outputs ! 0)\<lparr>ttype := ttype input\<rparr>)
         in if elementSize paddings < dimensions out * 2 then None
            else Some (set_out outputs (fill 0 (dimensions input)
                   (\<lambda>i. extent input i + hostv paddings (2 * i) + hostv paddings (2 * i + 1)) out))))"

definition CropSizeComputer :: "int \<Rightarrow> shape_fun" where
  "CropSizeComputer axis inputs outputs =
     (let input0 = inputs ! 0; input1 = inputs ! 1; n = dimensions input1;
          ob = copyDims n input1 ((outputs ! 0)\<lparr>dimensions := n\<rparr>);
          ob = fold (\<lambda>i ob. if i < axis then setLength i (extent input0 i) ob else ob) [0..n - 1] ob
      in Some (set_out outputs (ob\<lparr>ttype := ttype input0, dimensionFormat := dimensionFormat input0\<rparr>)))"

section \<open>Moving space to depth or batch\<close>

definition SpaceToDepthSizeComputer :: "int \<Rightarrow> shape_fun" where
  "SpaceToDepthSizeComputer blockSize inputs outputs =
     (let ib = inputs ! 0; h = (if is_tensorflow ib then 1 else 2); w = (if is_tensorflow ib then 2 else 3)
      in if dimensions ib \<noteq> 4 then None
         else if blockSize \<le> 0 then None
         else if extent ib h smod blockSize \<noteq> 0 \<or> extent ib w smod blockSize \<noteq> 0 then None
         else
           (let ob = setLength 0 (extent ib 0) ((outputs ! 0)\<lparr>dimensions := dimensions ib, ttype := ttype ib\<rparr>);
                ob =
                  (if is_tensorflow ib then
                     setLength 3 (extent ib 3 * (blockSize * blockSize))
                       (setLength 2 (extent ib 2 sdiv blockSize) (setLength 1 (extent ib 1 sdiv blockSize) ob))
                   else
                     setLength 1 (extent ib 1 * (blockSize * blockSize))
                       (setLength 2 (extent ib 2 sdiv blockSize) (setLength 3 (extent ib 3 sdiv blockSize) ob)))
            in Some (set_out outputs (ob\<lparr>dimensionFormat := dimensionFormat ib\<rparr>))))"

definition DepthToSpaceSizeComputer :: "int \<Rightarrow> shape_fun" where
  "DepthToSpaceSizeComputer blockSize inputs outputs =
     (let ib = inputs ! 0;
          ob = setLength 0 (extent ib 0) ((outputs ! 0)\<lparr>dimensions := dimensions ib, ttype := ttype ib\<rparr>);
          ob =
            (if is_tensorflow ib then
               setLength 3 (extent ib 3 sdiv (blockSize * blockSize))
                 (setLength 2 (extent ib 2 * blockSize) (setLength 1 (extent ib 1 * blockSize) ob))
             else
               setLength 1 (extent ib 1 sdiv (blockSize * blockSize))
                 (setLength 2 (extent ib 2 * blockSize) (setLength 3 (extent ib 3 * blockSize) ob)))
      in Some (set_out outputs (ob\<lparr>dimensionFormat := dimensionFormat ib\<rparr>)))"

text \<open>
  Block sizes and paddings come from the second and third input or from constants of the operator;
  either way they are \<open>blockSize\<close> values and two paddings for each.
\<close>

definition block_args ::
    "int \<Rightarrow> (int \<Rightarrow> int) \<Rightarrow> (int \<Rightarrow> int) \<Rightarrow> Tensor list \<Rightarrow> int \<times> (int \<Rightarrow> int) \<times> (int \<Rightarrow> int)" where
  "block_args blockSize blockData paddingData inputs =
     (if length inputs = 3 then (extent (inputs ! 1) 0, hostv (inputs ! 1), hostv (inputs ! 2))
      else (blockSize, blockData, paddingData))"

definition SpaceToBatchNDSizeComputer ::
    "int \<Rightarrow> (int \<Rightarrow> int) \<Rightarrow> (int \<Rightarrow> int) \<Rightarrow> shape_fun" where
  "SpaceToBatchNDSizeComputer blockSize0 blockData0 paddingData0 inputs outputs =
     (let input = inputs ! 0;
          (blockSize, blockData, paddingData) = block_args blockSize0 blockData0 paddingData0 inputs;
          spatialStart = (if is_tensorflow input then 1 else 2)
      in if blockSize + spatialStart > dimensions input then None
         else if \<exists>i \<in> set [0..blockSize - 1]. blockData i \<le> 0 then None
         else
           (let bat = fold (\<lambda>i b. b * blockData i) [0..blockSize - 1] (batch input);
                out = setLength 0 bat ((outputs ! 0)\<lparr>ttype := ttype input, dimensions := dimensions input,
                        dimensionFormat := dimensionFormat input\<rparr>);
                len = (\<lambda>k i. (extent input (k + i) + paddingData (2 * i) + paddingData (2 * i + 1)) sdiv blockData i);
                out =
                  (if \<not> is_tensorflow input then
                     fold (\<lambda>i. setLength (i + 2) (len 2 i)) [0..blockSize - 1] (setLength 1 (extent input 1) out)
                   else
                     setLength (1 + blockSize) (extent input (1 + blockSize))
                       (fold (\<lambda>i. setLength (i + 1) (len 1 i)) [0..blockSize - 1] out))
            in Some (set_out outputs out)))"

definition BatchToSpaceNDSizeComputer ::
    "int \<Rightarrow> (int \<Rightarrow> int) \<Rightarrow> (int \<Rightarrow> int) \<Rightarrow> shape_fun" where
  "BatchToSpaceNDSizeComputer blockSize0 blockData0 paddingData0 inputs outputs =
     (let input = inputs ! 0;
          (blockSize, blockData, paddingData) = block_args blockSize0 blockData0 paddingData0 inputs;
          bat = fold (\<lambda>i b. b sdiv blockData i) [0..blockSize - 1] (batch input);
          out = (setLength 0 bat (outputs ! 0))\<lparr>dimensions := dimensions input, ttype := ttype input,
                  dimensionFormat := dimensionFormat input\<rparr>;
          len = (\<lambda>k i. extent input (k + i) * blockData i - paddingData (2 * i) - paddingData (2 * i + 1));
          out =
            (if \<not> is_tensorflow input then
               fold (\<lambda>i. setLength (i + 2) (len 2 i)) [0..blockSize - 1] (setLength 1 (extent input 1) out)
             else
               fold (\<lambda>i. setLength (i + 1) (len 1 i)) [0..blockSize - 1]
                 (setLength (1 + blockSize) (extent input (1 + blockSize)) out))
      in Some (set_out outputs out))"

section \<open>ConvertTensor, Shape, Raster, Size\<close>

definition plainFormat :: "MNN_DATA_FORMAT \<Rightarrow> MNN_DATA_FORMAT" where
  "plainFormat f = (if f = MNN_DATA_FORMAT_NC4HW4 then MNN_DATA_FORMAT_NCHW else f)"

definition TensorConvertSizeComputer :: "MNN_DATA_FORMAT \<Rightarrow> shape_fun" where
  "TensorConvertSizeComputer dest inputs outputs =
     (let ib = inputs ! 0; n = dimensions ib;
          sourceFmt = plainFormat (dimensionFormat ib); destFmt = plainFormat dest;
          ob = (outputs ! 0)\<lparr>dimensionFormat := dest, ttype := ttype ib, dimensions := n\<rparr>
      in if n = 2 \<or> sourceFmt = destFmt then Some (set_out outputs (fill 0 n (extent ib) ob))
         else
           (let ob = setLength 0 (extent ib 0) ob;
                ob =
                  (if sourceFmt = MNN_DATA_FORMAT_NCHW \<and> destFmt = MNN_DATA_FORMAT_NHWC then
                     fill 1 (n - 1) (\<lambda>i. extent ib (i + 1)) (setLength (n - 1) (extent ib 1) ob)
                   else if destFmt = MNN_DATA_FORMAT_NCHW \<and> sourceFmt = MNN_DATA_FORMAT_NHWC then
                     fill 2 n (\<lambda>i. extent ib (i - 1)) (setLength 1 (extent ib (n - 1)) ob)
                   else ob)
            in Some (set_out outputs ob)))"

text \<open>\<open>start\<close> and \<open>last\<close> are the optional bounds of the parameter table.\<close>

definition resolveShapeRange :: "int option \<Rightarrow> int option \<Rightarrow> int \<Rightarrow> int \<times> int" where
  "resolveShapeRange start stop rank =
     (let s = (case start of None \<Rightarrow> 0 | Some v \<Rightarrow> if v < 0 then v + rank else v);
          e = (case stop of None \<Rightarrow> rank | Some v \<Rightarrow> if v < 0 then v + rank else v);
          s = max 0 (min s rank)
      in (s, max s (min e rank)))"

definition ShapeSizeComputer :: "int option \<Rightarrow> int option \<Rightarrow> MNN_DATA_FORMAT \<Rightarrow> shape_fun" where
  "ShapeSizeComputer start stop defaultDimentionFormat inputs outputs =
     (let ib = inputs ! 0;
          ob = (setType DT_INT32 ((outputs ! 0)\<lparr>dimensions := 1\<rparr>))\<lparr>dimensionFormat := defaultDimentionFormat\<rparr>;
          rank = (if dimensionFormat ib = MNN_DATA_FORMAT_NC4HW4 \<and> defaultDimentionFormat = MNN_DATA_FORMAT_NHWC
                  then 4 else dimensions ib);
          (s, e) = resolveShapeRange start stop rank
      in Some (set_out outputs (setLength 0 (e - s) ob)))"

datatype RasterAttr = RShape "int list option" | RCode halide_type_code | RBits int | RFormat MNN_DATA_FORMAT | ROther

definition raster_attr :: "RasterAttr \<Rightarrow> Tensor \<Rightarrow> Tensor" where
  "raster_attr a t =
     (case a of
        RShape None \<Rightarrow> t\<lparr>dimensions := 0\<rparr>
      | RShape (Some ds) \<Rightarrow> fill 0 (int (length ds)) (\<lambda>i. ds ! nat i) (t\<lparr>dimensions := int (length ds)\<rparr>)
      | RCode c \<Rightarrow> t\<lparr>ttype := HType c (bits (ttype t))\<rparr>
      | RBits b \<Rightarrow> t\<lparr>ttype := HType (code (ttype t)) b\<rparr>
      | RFormat f \<Rightarrow> t\<lparr>dimensionFormat := f\<rparr>
      | ROther \<Rightarrow> t)"

definition ShapeRasterComputer :: "RasterAttr list option \<Rightarrow> shape_fun" where
  "ShapeRasterComputer attrs inputs outputs =
     (case attrs of
        None \<Rightarrow>
          Some (set_out outputs (copyShape (inputs ! 0) True False ((outputs ! 0)\<lparr>ttype := ttype (inputs ! 0)\<rparr>)))
      | Some as \<Rightarrow>
          (let out = (if inputs \<noteq> [] then (outputs ! 0)\<lparr>ttype := ttype (inputs ! 0),
                        dimensionFormat := dimensionFormat (inputs ! 0)\<rparr> else outputs ! 0)
           in Some (set_out outputs (fold raster_attr as out))))"

definition SizeOpComputer :: "MNN_DATA_FORMAT \<Rightarrow> shape_fun" where
  "SizeOpComputer defaultDimentionFormat inputs outputs =
     Some (set_out outputs
       ((setType DT_INT32 ((outputs ! 0)\<lparr>dimensions := 0\<rparr>))\<lparr>dimensionFormat := defaultDimentionFormat\<rparr>))"

end
