(* ===== verification/Shape_Layout_Correct.thy ===== *)
theory Shape_Layout_Correct
  imports Shape_Layout
begin

text \<open>
  Correctness of the operators of \<^verbatim>\<open>Shape_Layout\<close>: reshaping keeps the number of elements,
  moving space to depth or batch can be undone, converting the dimension format can be undone,
  and a strided slice has one element per index it visits.
\<close>

section \<open>Products of extents\<close>

lemma map_extent_fill [simp]: "map (extent (fill 0 n f t)) [0..n - 1] = map f [0..n - 1]"
  by (rule map_cong) auto

lemma sdiv_mult_self: "b \<noteq> 0 \<Longrightarrow> ((q :: int) * b) sdiv b = q"
  using sdiv_mult_cancel [of b q] sdiv_mult_cancel [of "- b" q] by (cases "0 < b") auto

lemma prod_range_list: "prod_range t 0 n = prod_list (map (extent t) [0..n - 1])"
  using prod_fold [of "extent t" "[0..n - 1]" 1] by (simp add: prod_range_def)

lemma prod_range_shape: "prod_range t 0 (dimensions t) = prod_list (shape t)"
  by (simp add: prod_range_list shape_def)

lemma prod_range_split:
  assumes "a \<le> b" "b \<le> c"
  shows "prod_range t a b * prod_range t b c = prod_range t a c"
proof -
  have "[a..c - 1] = [a..b - 1] @ [b..c - 1]"
  proof (cases "a = b \<or> b = c")
    case False
    then show ?thesis using assms upto_split1 [of a b "c - 1"] by simp
  qed (use assms in auto)
  then show ?thesis by (simp add: prod_range_def prod_fold)
qed

lemma prod_list_update_one:
  fixes f :: "int \<Rightarrow> int"
  assumes "distinct xs" "k \<in> set xs" "f k = 1"
  shows "prod_list (map (f(k := e)) xs) = prod_list (map f xs) * e"
  using assms
proof (induction xs)
  case (Cons x xs)
  show ?case
  proof (cases "x = k")
    case True
    then have "map (f(k := e)) xs = map f xs" using Cons.prems by auto
    then have "prod_list (map (f(k := e)) xs) = prod_list (map f xs)" by (rule arg_cong)
    moreover have "(f(k := e)) x = e" "f x = 1" using True Cons.prems by simp_all
    ultimately show ?thesis by (simp only: list.map prod_list.Cons) (simp add: mult.commute)
  next
    case False
    then show ?thesis using Cons by simp
  qed
qed simp

lemma prod_range_setLength:
  assumes "0 \<le> k" "k < n" "extent t k = 1"
  shows "prod_range (setLength k e t) 0 n = prod_range t 0 n * e"
proof -
  have "extent (setLength k e t) = (extent t)(k := e)" by auto
  then show ?thesis using prod_list_update_one [of "[0..n - 1]" k "extent t" e] assms
    by (simp add: prod_range_list)
qed

section \<open>Reshape\<close>

text \<open>The extents before the free one is determined, and the position of the last \<^verbatim>\<open>-1\<close>.\<close>

definition asked :: "Tensor \<Rightarrow> bool \<Rightarrow> (int \<Rightarrow> int) \<Rightarrow> int \<Rightarrow> int" where
  "asked input fromTf shapes i =
     (if shapes i = -1 then 1 else if shapes i = 0 \<and> \<not> fromTf then extent input i else shapes i)"

definition free_axis :: "(int \<Rightarrow> int) \<Rightarrow> int \<Rightarrow> int" where
  "free_axis shapes n = fold (\<lambda>i d. if shapes i = -1 then i else d) [0..n - 1] (-1)"

lemma reshape_loop:
  "fold (reshape_dim input fromTf shapes) xs (out, d) =
    (fold (\<lambda>i. setLength i (asked input fromTf shapes i)) xs out,
     fold (\<lambda>i d. if shapes i = -1 then i else d) xs d)"
proof (induction xs arbitrary: out d)
  case (Cons i xs)
  have "reshape_dim input fromTf shapes i (out, d) =
      (setLength i (asked input fromTf shapes i) out, if shapes i = -1 then i else d)"
    by (simp add: reshape_dim_def asked_def Let_def)
  then show ?case using Cons by (simp del: fun_upd_apply)
qed simp

lemma free_axis_range:
  assumes "0 \<le> free_axis shapes n"
  shows "free_axis shapes n < n" "shapes (free_axis shapes n) = -1"
proof -
  have "fold (\<lambda>i d. if shapes i = -1 then i else d) xs d = d \<or>
      fold (\<lambda>i d. if shapes i = -1 then i else d) xs d \<in> {i \<in> set xs. shapes i = -1}" for xs and d :: int
  proof (induction xs arbitrary: d)
    case (Cons i xs)
    show ?case using Cons.IH [of i] Cons.IH [of d] by (cases "shapes i = -1") auto
  qed simp
  from this [of "[0..n - 1]" "-1"] show "free_axis shapes n < n" "shapes (free_axis shapes n) = -1"
    using assms by (auto simp: free_axis_def)
qed

lemma Reshape_eval:
  assumes "reshape_dims stack dims ty ins = Some (n, shapes, fromTf)"
  defines "a \<equiv> asked (ins ! 0) fromTf shapes"
    and "tot \<equiv> prod_list (shape (ins ! 0))"
    and "k \<equiv> free_axis shapes n"
  defines "p \<equiv> prod_list (map a [0..n - 1])"
  defines "e \<equiv> (if p \<noteq> 0 then tot sdiv p else 0)"
  defines "b \<equiv> (if 0 \<le> k then a(k := e) else a)"
  shows "ReshapeComputer stack dims ty ins [out] =
    (if tot = prod_list (map b [0..n - 1])
     then Some [(fill 0 n b (out\<lparr>ttype := ttype (ins ! 0), dimensions := n\<rparr>))\<lparr>dimensionFormat := dimensionFormat (ins ! 0)\<rparr>]
     else None)"
proof -
  let ?o = "out\<lparr>ttype := ttype (ins ! 0), dimensions := n\<rparr>"
  have l: "fold (reshape_dim (ins ! 0) fromTf shapes) [0..n - 1] (?o, -1) = (fill 0 n a ?o, k)"
    unfolding reshape_loop fill_def a_def k_def free_axis_def by simp
  have "map (extent (fill 0 n a ?o)) [0..n - 1] = map a [0..n - 1]" by simp
  then have p: "prod_range (fill 0 n a ?o) 0 n = p" by (simp only: prod_range_list p_def)
  have t: "prod_range (ins ! 0) 0 (dimensions (ins ! 0)) = tot" by (simp add: prod_range_shape tot_def)
  have ak: "a k = 1" if "0 \<le> k" using free_axis_range [of shapes n] that by (simp add: a_def k_def asked_def)
  have kn: "k < n" if "0 \<le> k" using free_axis_range [of shapes n] that by (simp add: k_def)
  have pb: "prod_list (map b [0..n - 1]) = (if 0 \<le> k then p * e else p)"
    using prod_list_update_one [of "[0..n - 1]" k a e] ak kn by (simp add: b_def p_def)
  have s: "setLength k e (fill 0 n a ?o) = fill 0 n (a(k := e)) ?o" if "0 \<le> k"
    using kn [OF that] that by (auto intro!: Tensor.equality)
  have "ReshapeComputer stack dims ty ins [out] =
    (if 0 \<le> k
     then if tot \<noteq> p * e then None else Some [(setLength k e (fill 0 n a ?o))\<lparr>dimensionFormat := dimensionFormat (ins ! 0)\<rparr>]
     else if tot \<noteq> p then None else Some [(fill 0 n a ?o)\<lparr>dimensionFormat := dimensionFormat (ins ! 0)\<rparr>])"
    unfolding ReshapeComputer_def by (cases "0 \<le> k"; cases "p = 0"; simp add: assms(1) l p t e_def Let_def)
  then show ?thesis unfolding pb using s by (simp add: b_def)
qed


text \<open>
  A constant target shape with exactly one \<^verbatim>\<open>-1\<close>, whose other entries are positive and have a product
  dividing the number of elements, is accepted, and the free extent is the quotient.
\<close>

theorem Reshape_infers_free_axis:
  assumes "k < length dims" "dims ! k = -1" "\<forall>i < length dims. i \<noteq> k \<longrightarrow> 0 < dims ! i"
    and "prod_list (shape t) = q * prod_list (dims[k := 1])"
  shows "\<exists>out'. ReshapeComputer stack dims dimType [t] [out] = Some [out'] \<and> shape out' = dims[k := q]"
proof -
  let ?n = "int (length dims)"
  define shapes where "shapes = (\<lambda>i. if 0 \<le> i \<and> i < ?n then dims ! nat i else stack i)"
  have r: "reshape_dims stack dims dimType [t] = Some (?n, shapes, False)"
    by (simp add: reshape_dims_def shapes_def)
  let ?a = "asked t False shapes"
  have ak: "?a i = (if i = int k then 1 else dims ! nat i)" if "0 \<le> i" "i < ?n" for i
  proof (cases "i = int k")
    case True
    then show ?thesis using assms(2) that by (simp add: asked_def shapes_def)
  next
    case False
    then have "0 < dims ! nat i" using assms(3) that by auto
    then show ?thesis using False that by (simp add: asked_def shapes_def)
  qed
  have "shapes i = -1 \<longleftrightarrow> i = int k" if "0 \<le> i" "i < ?n" for i
  proof
    assume s: "shapes i = -1"
    show "i = int k"
    proof (rule ccontr)
      assume "i \<noteq> int k"
      then have "0 < dims ! nat i" using assms(3) that by auto
      then show False using s that by (simp add: shapes_def)
    qed
  qed (use assms(2) that in \<open>simp add: shapes_def\<close>)
  then have "fold (\<lambda>i d. if shapes i = -1 then i else d) xs d = (if int k \<in> set xs then int k else d)"
    if "set xs \<subseteq> {0..<?n}" for xs and d :: int
    using that by (induction xs arbitrary: d) auto
  from this [of "[0..?n - 1]" "-1"] have f: "free_axis shapes ?n = int k"
    using assms(1) by (auto simp: free_axis_def subset_iff)
  have l: "map g [0..?n - 1] = xs" if "length xs = length dims" "\<And>i. i < length dims \<Longrightarrow> g (int i) = xs ! i" for g and xs :: "int list"
    using that by (intro nth_equalityI) (auto simp: nth_upto)
  have p: "map ?a [0..?n - 1] = dims[k := 1]" by (rule l) (auto simp: ak nth_list_update)
  have "x \<noteq> 0" if x: "x \<in> set (dims[k := 1])" for x
  proof -
    obtain i where i: "i < length dims" "dims[k := 1] ! i = x" using x unfolding in_set_conv_nth by auto
    show ?thesis
    proof (cases "i = k")
      case True
      then show ?thesis using i by simp
    next
      case False
      then have "0 < dims ! i" using assms(3) i(1) by simp
      then show ?thesis using i(2) False by auto
    qed
  qed
  then have p0: "prod_list (dims[k := 1]) \<noteq> 0" by (auto simp: prod_list_zero_iff)
  have e: "prod_list (shape t) sdiv prod_list (dims[k := 1]) = q"
    using p0 assms(4) by (simp add: sdiv_mult_self)
  have b: "map (?a(int k := q)) [0..?n - 1] = dims[k := q]" by (rule l) (auto simp: ak nth_list_update)
  have "prod_list (dims[k := q]) = prod_list (dims[k := 1]) * q"
    using prod_list_update_one [of "[0..?n - 1]" "int k" ?a q] assms(1) ak [of "int k"] p b by simp
  then show ?thesis using Reshape_eval [OF r, of out] f p p0 e b assms(4)
    by (simp add: shape_def mult.commute split del: if_split)
qed

theorem Reshape_infers_free_axis_witness:
  "\<exists>out'. ReshapeComputer (\<lambda>_. 0) [3, -1, 2] MNN_DATA_FORMAT_NCHW [w_tensor [4, 6]] [w_tensor []] = Some [out'] \<and>
     shape out' = [3, 4, 2]"
proof -
  have "prod_list (shape (w_tensor [4, 6])) = 4 * prod_list ([3, -1, 2][1 := 1])" by code_simp
  moreover have "\<forall>i < length [3, -1, 2 :: int]. i \<noteq> 1 \<longrightarrow> 0 < [3, -1, 2 :: int] ! i"
    by (auto simp: less_Suc_eq numeral_3_eq_3)
  ultimately show ?thesis
    using Reshape_infers_free_axis [of 1 "[3, -1, 2]" "w_tensor [4, 6]" 4 "\<lambda>_. 0" MNN_DATA_FORMAT_NCHW "w_tensor []"]
    by simp
qed

section \<open>Space to depth\<close>

lemma sdiv_smod_exact: "(a :: int) smod b = 0 \<Longrightarrow> a sdiv b * b = a"
  using sdiv_mult_smod_eq [of a b] by simp

text \<open>
  \<^verbatim>\<open>SpaceToDepth\<close> fails exactly when the input is not four-dimensional, the block size is not positive or
  it does not divide the height and the width; otherwise \<^verbatim>\<open>DepthToSpace\<close> with the same block size gives
  back the input shape, in both dimension formats.
\<close>

theorem SpaceToDepth_roundtrip:
  "case SpaceToDepthSizeComputer b [t] [out] of
     None \<Rightarrow> dimensions t \<noteq> 4 \<or> b \<le> 0 \<or> height t smod b \<noteq> 0 \<or> width t smod b \<noteq> 0
   | Some os \<Rightarrow> \<exists>d out'. os = [d] \<and> DepthToSpaceSizeComputer b [d] [out2] = Some [out'] \<and>
       shape out' = shape t \<and> ttype out' = ttype t \<and> dimensionFormat out' = dimensionFormat t"
proof (cases "dimensions t \<noteq> 4 \<or> b \<le> 0 \<or> height t smod b \<noteq> 0 \<or> width t smod b \<noteq> 0")
  case True
  then show ?thesis by (auto simp: SpaceToDepthSizeComputer_def Let_def height_def width_def)
next
  case False
  have r: "[0..3] = [0, 1, 2, 3 :: int]" by code_simp
  have "0 < b * b" using False by simp
  then have c: "x * (b * b) sdiv (b * b) = x" for x by (rule sdiv_mult_cancel)
  show ?thesis
    using False sdiv_smod_exact [of "height t" b] sdiv_smod_exact [of "width t" b]
    by (cases "dimensionFormat t = MNN_DATA_FORMAT_NHWC") (simp_all add: SpaceToDepthSizeComputer_def DepthToSpaceSizeComputer_def Let_def height_def width_def
        is_tensorflow_def shape_def r c)
qed

theorem SpaceToDepth_roundtrip_witness:
  "\<exists>d out'. SpaceToDepthSizeComputer 2 [w_tensor [1, 3, 4, 6]] [w_tensor []] = Some [d] \<and> shape d = [1, 12, 2, 3] \<and>
    DepthToSpaceSizeComputer 2 [d] [w_tensor []] = Some [out'] \<and> shape out' = [1, 3, 4, 6]"
proof -
  have s: "map_option (map shape) (SpaceToDepthSizeComputer 2 [w_tensor [1, 3, 4, 6]] [w_tensor []]) = Some [[1, 12, 2, 3]]"
    "shape (w_tensor [1, 3, 4, 6]) = [1, 3, 4, 6]" by code_simp+
  then obtain d where d: "SpaceToDepthSizeComputer 2 [w_tensor [1, 3, 4, 6]] [w_tensor []] = Some [d]" "shape d = [1, 12, 2, 3]"
    by auto
  have "\<exists>out'. DepthToSpaceSizeComputer 2 [d] [w_tensor []] = Some [out'] \<and> shape out' = shape (w_tensor [1, 3, 4, 6])"
    using SpaceToDepth_roundtrip [where b = 2 and t = "w_tensor [1, 3, 4, 6]" and out = "w_tensor []" and ?out2.0 = "w_tensor []"] d(1) by auto
  then show ?thesis using d s(2) by metis
qed

section \<open>Space to batch\<close>

lemma fold_sdiv_mult:
  fixes f :: "int \<Rightarrow> int"
  assumes "\<forall>i \<in> set xs. 0 < f i"
  shows "fold (\<lambda>i b. b sdiv f i) xs (b * prod_list (map f xs)) = b"
  using assms
proof (induction xs arbitrary: b)
  case (Cons x xs)
  have "b * (f x * prod_list (map f xs)) = b * prod_list (map f xs) * f x" by simp
  then have "(b * (f x * prod_list (map f xs))) sdiv f x = b * prod_list (map f xs)"
    using Cons.prems sdiv_mult_cancel [of "f x"] by (metis list.set_intros(1))
  then show ?case using Cons by simp
qed simp

lemma fold_setLength_shift:
  "dimensions (fold (\<lambda>i. setLength (i + k) (f i)) xs t) = dimensions t"
  "ttype (fold (\<lambda>i. setLength (i + k) (f i)) xs t) = ttype t"
  "dimensionFormat (fold (\<lambda>i. setLength (i + k) (f i)) xs t) = dimensionFormat t"
  "extent (fold (\<lambda>i. setLength (i + k) (f i)) xs t) j = (if j - k \<in> set xs then f (j - k) else extent t j)"
  by (induction xs arbitrary: t) auto

text \<open>
  \<^verbatim>\<open>BatchToSpaceND\<close> undoes \<^verbatim>\<open>SpaceToBatchND\<close>: for positive block sizes that divide the padded
  spatial extents, blocks and paddings given as constants, and a tensor that has exactly a batch axis,
  a channel axis and one axis for each block size, cropping what was padded gives back the shape.
\<close>

theorem SpaceToBatch_roundtrip:
  assumes "0 \<le> n" "dimensions t = n + 2" "\<forall>i \<in> {0..<n}. 0 < block i"
    and "\<forall>i \<in> {0..<n}. (extent t (i + (if is_tensorflow t then 1 else 2)) + pad (2 * i) + pad (2 * i + 1)) smod block i = 0"
  shows "\<exists>s out'. SpaceToBatchNDSizeComputer n block pad [t] [out] = Some [s] \<and>
    BatchToSpaceNDSizeComputer n block pad [s] [out2] = Some [out'] \<and>
    shape out' = shape t \<and> ttype out' = ttype t"
proof -
  let ?tf = "is_tensorflow t"
  let ?k = "if ?tf then 1 else 2 :: int"
  let ?c = "if ?tf then 1 + n else 1 :: int"
  let ?len = "\<lambda>i. (extent t (i + ?k) + pad (2 * i) + pad (2 * i + 1)) sdiv block i"
  define P where "P = prod_list (map block [0..n - 1])"
  obtain s where s: "SpaceToBatchNDSizeComputer n block pad [t] [out] = Some [s]"
    and d: "dimensions s = n + 2" "ttype s = ttype t" "is_tensorflow s = ?tf"
    and e: "extent s 0 = extent t 0 * P" "extent s ?c = extent t ?c"
      "\<And>i. 0 \<le> i \<Longrightarrow> i < n \<Longrightarrow> extent s (i + ?k) = ?len i"
  proof (rule that)
    let ?s = "the (SpaceToBatchNDSizeComputer n block pad [t] [out]) ! 0"
    have "\<not> block i \<le> 0" if "i \<in> set [0..n - 1]" for i using assms(3) that by (auto simp: not_le)
    then have g: "\<not> n + ?k > dimensions t" "\<not> (\<exists>i \<in> set [0..n - 1]. block i \<le> 0)"
      using assms(2) by auto
    have P: "fold (\<lambda>i b. b * block i) [0..n - 1] (extent t 0) = extent t 0 * P" by (simp add: prod_fold P_def)
    note q = SpaceToBatchNDSizeComputer_def block_args_def Let_def batch_def P fold_setLength_shift is_tensorflow_def
    show "SpaceToBatchNDSizeComputer n block pad [t] [out] = Some [?s]"
      using g by (cases ?tf) (simp_all add: q add.commute)
    show "dimensions ?s = n + 2" "ttype ?s = ttype t" "is_tensorflow ?s = ?tf" "extent ?s 0 = extent t 0 * P"
      "extent ?s ?c = extent t ?c"
      using g assms(1,2) by (cases ?tf; simp add: q)+
    show "extent ?s (i + ?k) = ?len i" if "0 \<le> i" "i < n" for i
      using g assms(1,2) that by (cases ?tf) (simp_all add: q add.commute)
  qed
  have b: "fold (\<lambda>i b. b sdiv block i) [0..n - 1] (extent t 0 * P) = extent t 0"
    unfolding P_def using assms(3) by (intro fold_sdiv_mult) simp
  obtain out' where o: "BatchToSpaceNDSizeComputer n block pad [s] [out2] = Some [out']"
    and d': "dimensions out' = n + 2" "ttype out' = ttype t"
    and e': "extent out' 0 = extent t 0" "extent out' ?c = extent t ?c"
      "\<And>i. 0 \<le> i \<Longrightarrow> i < n \<Longrightarrow> extent out' (i + ?k) = ?len i * block i - pad (2 * i) - pad (2 * i + 1)"
  proof (rule that)
    let ?o = "the (BatchToSpaceNDSizeComputer n block pad [s] [out2]) ! 0"
    note q = BatchToSpaceNDSizeComputer_def block_args_def Let_def batch_def b fold_setLength_shift d e
    show "BatchToSpaceNDSizeComputer n block pad [s] [out2] = Some [?o]"
      by (cases ?tf) (simp_all add: q)
    show "dimensions ?o = n + 2" "ttype ?o = ttype t" "extent ?o 0 = extent t 0" "extent ?o ?c = extent t ?c"
      using assms(1) e(2) by (cases ?tf; simp add: q)+
    show "extent ?o (i + ?k) = ?len i * block i - pad (2 * i) - pad (2 * i + 1)" if "0 \<le> i" "i < n" for i
      using that e(3) [OF that] by (cases ?tf) (simp_all add: q add.commute)
  qed
  have m: "?len i * block i = extent t (i + ?k) + pad (2 * i) + pad (2 * i + 1)" if "0 \<le> i" "i < n" for i
    using assms(3,4) that by (intro sdiv_smod_exact) simp_all
  have "shape out' = shape t"
  proof (rule shape_eqI)
    fix j assume j: "0 \<le> j" "j < dimensions out'"
    consider "j = 0" | "j = ?c" | i where "0 \<le> i" "i < n" "j = i + ?k"
      using j d'(1) that(3) [of "j - ?k"] by (cases ?tf) force+
    then show "extent out' j = extent t j" by cases (simp_all only: e' m)
  qed (simp add: d' assms(2))
  then show ?thesis using s o d' by auto
qed

theorem SpaceToBatch_roundtrip_witness:
  "\<exists>s out'. SpaceToBatchNDSizeComputer 2 (\<lambda>_. 2) (\<lambda>_. 1) [w_tensor [3, 5, 4, 6]] [w_tensor []] = Some [s] \<and>
    BatchToSpaceNDSizeComputer 2 (\<lambda>_. 2) (\<lambda>_. 1) [s] [w_tensor []] = Some [out'] \<and> shape out' = [3, 5, 4, 6]"
proof -
  have "shape (w_tensor [3, 5, 4, 6]) = [3, 5, 4, 6]" by code_simp
  moreover have "\<forall>i \<in> {0..<2}. (extent (w_tensor [3, 5, 4, 6]) (i + (if is_tensorflow (w_tensor [3, 5, 4, 6]) then 1 else 2))
      + 1 + 1) smod 2 = 0"
  proof -
    have "{0..<2} = {0, 1 :: int}" by auto
    then show ?thesis by (simp add: w_tensor_def setShape_def is_tensorflow_def)
  qed
  ultimately show ?thesis
    using SpaceToBatch_roundtrip [of 2 "w_tensor [3, 5, 4, 6]" "\<lambda>_. 2" "\<lambda>_. 1" "w_tensor []" "w_tensor []"] by auto
qed

section \<open>Dimension formats\<close>

definition chw_format :: "MNN_DATA_FORMAT \<Rightarrow> bool" where
  "chw_format f \<longleftrightarrow> f \<in> {MNN_DATA_FORMAT_NCHW, MNN_DATA_FORMAT_NHWC, MNN_DATA_FORMAT_NC4HW4}"

lemma TensorConvert_eval:
  assumes "2 \<le> dimensions t" "chw_format (dimensionFormat t)" "chw_format f"
  defines "s \<equiv> plainFormat (dimensionFormat t)" and "d \<equiv> plainFormat f" and "n \<equiv> dimensions t"
  shows "\<exists>u. TensorConvertSizeComputer f [t] [out] = Some [u] \<and> dimensions u = n \<and> ttype u = ttype t \<and>
    dimensionFormat u = f \<and>
    (\<forall>i. 0 \<le> i \<longrightarrow> i < n \<longrightarrow> extent u i =
      (if n = 2 \<or> s = d \<or> i = 0 then extent t i
       else if s = MNN_DATA_FORMAT_NCHW then (if i = n - 1 then extent t 1 else extent t (i + 1))
       else if i = 1 then extent t (n - 1) else extent t (i - 1)))"
proof -
  have n: "2 \<le> n" using assms(1) by (simp add: n_def)
  have "s \<in> {MNN_DATA_FORMAT_NCHW, MNN_DATA_FORMAT_NHWC}" "d \<in> {MNN_DATA_FORMAT_NCHW, MNN_DATA_FORMAT_NHWC}"
    using assms(2,3) by (auto simp: s_def d_def chw_format_def plainFormat_def)
  then consider (same) "n = 2 \<or> s = d" | (to_hwc) "n \<noteq> 2" "s = MNN_DATA_FORMAT_NCHW" "d = MNN_DATA_FORMAT_NHWC"
    | (to_chw) "n \<noteq> 2" "s = MNN_DATA_FORMAT_NHWC" "d = MNN_DATA_FORMAT_NCHW" by auto
  then show ?thesis
  proof cases
    case same
    then show ?thesis by (simp add: TensorConvertSizeComputer_def Let_def s_def [symmetric] d_def [symmetric] n_def [symmetric]) auto
  next
    case to_hwc
    then show ?thesis using n by (simp add: TensorConvertSizeComputer_def Let_def s_def [symmetric] d_def [symmetric] n_def [symmetric])
  next
    case to_chw
    then show ?thesis using n by (simp add: TensorConvertSizeComputer_def Let_def s_def [symmetric] d_def [symmetric] n_def [symmetric])
  qed
qed

text \<open>
  Converting a tensor to another dimension format and back to its own (\<^verbatim>\<open>NCHW\<close>, \<^verbatim>\<open>NHWC\<close> and the packed
  \<^verbatim>\<open>NC4HW4\<close>) gives back its shape, for every number of dimensions from two on; the batch, channel,
  height and width of a four-dimensional tensor are the same in the intermediate format.
\<close>

theorem TensorConvert_roundtrip:
  assumes "2 \<le> dimensions t" "chw_format (dimensionFormat t)" "chw_format f"
  shows "\<exists>u out'. TensorConvertSizeComputer f [t] [out] = Some [u] \<and> dimensionFormat u = f \<and>
    TensorConvertSizeComputer (dimensionFormat t) [u] [out2] = Some [out'] \<and>
    shape out' = shape t \<and> ttype out' = ttype t \<and> dimensionFormat out' = dimensionFormat t \<and>
    (dimensions t = 4 \<longrightarrow>
      batch u = batch t \<and> channel u = channel t \<and> height u = height t \<and> width u = width t)"
proof -
  obtain u where u: "TensorConvertSizeComputer f [t] [out] = Some [u]" "dimensions u = dimensions t" "ttype u = ttype t"
    "dimensionFormat u = f"
    and eu: "\<And>i. 0 \<le> i \<Longrightarrow> i < dimensions t \<Longrightarrow> extent u i =
      (if dimensions t = 2 \<or> plainFormat (dimensionFormat t) = plainFormat f \<or> i = 0 then extent t i
       else if plainFormat (dimensionFormat t) = MNN_DATA_FORMAT_NCHW
       then (if i = dimensions t - 1 then extent t 1 else extent t (i + 1))
       else if i = 1 then extent t (dimensions t - 1) else extent t (i - 1))"
    using TensorConvert_eval [OF assms, of out] by blast
  obtain o' where o: "TensorConvertSizeComputer (dimensionFormat t) [u] [out2] = Some [o']" "dimensions o' = dimensions u"
    "ttype o' = ttype u" "dimensionFormat o' = dimensionFormat t"
    and eo: "\<And>i. 0 \<le> i \<Longrightarrow> i < dimensions u \<Longrightarrow> extent o' i =
      (if dimensions u = 2 \<or> plainFormat f = plainFormat (dimensionFormat t) \<or> i = 0 then extent u i
       else if plainFormat f = MNN_DATA_FORMAT_NCHW
       then (if i = dimensions u - 1 then extent u 1 else extent u (i + 1))
       else if i = 1 then extent u (dimensions u - 1) else extent u (i - 1))"
    using TensorConvert_eval [of u "dimensionFormat t" out2] assms u by auto
  have p: "plainFormat g \<in> {MNN_DATA_FORMAT_NCHW, MNN_DATA_FORMAT_NHWC}" if "chw_format g" for g
    using that by (auto simp: chw_format_def plainFormat_def)
  have "shape o' = shape t"
  proof (rule shape_eqI)
    fix i assume i: "0 \<le> i" "i < dimensions o'"
    show "extent o' i = extent t i"
      using i u(2) o(2) p [OF assms(2)] p [OF assms(3)] assms(1) by (simp add: eo eu split: if_splits) auto
  qed (simp add: o u)
  moreover have "batch u = batch t \<and> channel u = channel t \<and> height u = height t \<and> width u = width t"
    if "dimensions t = 4"
    using that assms(2,3) u(4) eu [of 0] eu [of 1] eu [of 2] eu [of 3]
    by (auto simp: batch_def channel_def height_def width_def is_tensorflow_def chw_format_def plainFormat_def)
  ultimately show ?thesis using u o by auto
qed

theorem TensorConvert_roundtrip_witness:
  "\<exists>u out'. TensorConvertSizeComputer MNN_DATA_FORMAT_NHWC [w_tensor [1, 3, 224, 200]] [w_tensor []] = Some [u] \<and>
    channel u = 3 \<and> TensorConvertSizeComputer MNN_DATA_FORMAT_NCHW [u] [w_tensor []] = Some [out'] \<and>
    shape out' = [1, 3, 224, 200]"
proof -
  have "shape (w_tensor [1, 3, 224, 200]) = [1, 3, 224, 200]" "channel (w_tensor [1, 3, 224, 200]) = 3"
    "dimensionFormat (w_tensor [1, 3, 224, 200]) = MNN_DATA_FORMAT_NCHW" by code_simp+
  then show ?thesis
    using TensorConvert_roundtrip [of "w_tensor [1, 3, 224, 200]" MNN_DATA_FORMAT_NHWC "w_tensor []" "w_tensor []"]
    by (auto simp: chw_format_def)
qed

section \<open>Strided slices\<close>

lemma le_div_pos: "0 < s \<Longrightarrow> (a :: int) \<le> b div s \<longleftrightarrow> a * s \<le> b"
proof -
  assume s: "0 < s"
  have d: "b div s * s + b mod s = b" "0 \<le> b mod s" using s by simp_all
  have "a * s \<le> b" if "a \<le> b div s" using mult_right_mono [OF that, of s] s d by linarith
  moreover have "a \<le> b div s" if "a * s \<le> b" using zdiv_mono1 [OF that s] s by simp
  ultimately show "a \<le> b div s \<longleftrightarrow> a * s \<le> b" by blast
qed

text \<open>An index counted from the end when negative, and the steps a slice takes before it leaves its range.\<close>

definition norm_index :: "int \<Rightarrow> int \<Rightarrow> int" where
  "norm_index D i = (if i < 0 then i + D else i)"

definition slice_visits :: "int \<Rightarrow> int \<Rightarrow> int \<Rightarrow> int \<Rightarrow> nat set" where
  "slice_visits D b e s =
     (if 0 < s then {k. norm_index D b + int k * s < norm_index D e} else {k. norm_index D b + int k * s > e})"

text \<open>The ranges that are not empty: an upward slice may count both ends from the end of the axis, a
  downward slice runs to a non-negative end or to \<^verbatim>\<open>-1\<close>, before the first element.\<close>

definition slice_arg_ok :: "int \<Rightarrow> int \<Rightarrow> int \<Rightarrow> int \<Rightarrow> bool" where
  "slice_arg_ok D b e s \<longleftrightarrow>
     (if 0 < s then - D \<le> b \<and> b \<le> D \<and> - D \<le> e \<and> e \<le> D \<and> norm_index D b < norm_index D e
      else s < 0 \<and> - D \<le> b \<and> b < D \<and> -1 \<le> e \<and> e < norm_index D b)"

lemma card_steps:
  assumes "0 < s" "0 < d"
  shows "int (card {k :: nat. int k * s < d}) = (d - 1) sdiv s + 1"
proof -
  have "0 \<le> (d - 1) div s" using assms by (simp add: pos_imp_zdiv_nonneg_iff)
  moreover have "int k * s < d \<longleftrightarrow> k < nat ((d - 1) div s + 1)" for k
    using le_div_pos [OF assms(1), of "int k" "d - 1"] by auto
  ultimately show ?thesis using assms by (simp add: sdiv_nonneg lessThan_def [symmetric])
qed

lemma slice_bounds_plain:
  assumes "slice_arg_ok D (begins s i) (ends s i) (strides s i)" "0 < D"
    and "beginMasks s i = 0" "endMasks s i = 0" "shrinkAxisMasks s i = 0"
  shows "slice_bounds s D i = (norm_index D (begins s i),
    if 0 < strides s i then norm_index D (ends s i) else ends s i, strides s i)"
proof -
  have u: "UP_DIV (- b) D * D + b = b + D" if "- D \<le> b" "b < 0" for b
  proof -
    have "(- b + D - 1) div D = 1" by (rule int_div_pos_eq [where r = "- b - 1"]) (use that in auto)
    then show ?thesis using that assms(2) by (simp add: UP_DIV_def sdiv_nonneg)
  qed
  consider "0 < strides s i" "- D \<le> begins s i" "begins s i \<le> D" "- D \<le> ends s i" "ends s i \<le> D"
    | "strides s i < 0" "- D \<le> begins s i" "begins s i < D" "-1 \<le> ends s i" "ends s i < norm_index D (begins s i)"
    using assms(1) by (auto simp: slice_arg_ok_def split: if_splits)
  then show ?thesis
  proof cases
    case 1
    then show ?thesis using assms(2-5) u [of "begins s i"]
      by (simp add: slice_bounds_def Let_def beginAndEndShapeLimit_def norm_index_def)
  next
    case 2
    then show ?thesis using assms(2-5)
      by (simp add: slice_bounds_def Let_def beginAndEndShapeLimit_def norm_index_def split: if_splits)
  qed
qed

lemma slice_size_counts:
  assumes "slice_arg_ok D (begins s i) (ends s i) (strides s i)" "0 < D"
    and "beginMasks s i = 0" "endMasks s i = 0" "shrinkAxisMasks s i = 0"
  shows "slice_size s D i = Some (int (card (slice_visits D (begins s i) (ends s i) (strides s i))))"
proof (cases "0 < strides s i")
  case True
  let ?b = "norm_index D (begins s i)" and ?e = "norm_index D (ends s i)"
  have "?b < ?e" using assms(1) True by (simp add: slice_arg_ok_def)
  moreover have "{k. ?b + int k * strides s i < ?e} = {k. int k * strides s i < ?e - ?b}" by auto
  ultimately show ?thesis
    using slice_bounds_plain [OF assms] card_steps [OF True, of "?e - ?b"] True
    by (simp add: slice_size_def slice_visits_def)
next
  case False
  let ?b = "norm_index D (begins s i)"
  have "strides s i < 0" "ends s i < ?b" using assms(1) False by (auto simp: slice_arg_ok_def)
  moreover have "{k. ?b + int k * strides s i > ends s i} = {k. int k * (- strides s i) < ?b - ends s i}"
    by (auto simp: algebra_simps)
  ultimately show ?thesis
    using slice_bounds_plain [OF assms] card_steps [of "- strides s i" "?b - ends s i"]
    by (simp add: slice_size_def slice_visits_def)
qed

lemma slicePlain_loop:
  assumes "\<forall>i \<in> set xs. hostv (inputs ! 3) i \<noteq> 0"
  shows "fold_opt (slicePlain_step inputs) s xs =
    Some (s\<lparr>begins := (\<lambda>i. if i \<in> set xs then hostv (inputs ! 1) i else begins s i),
            ends := (\<lambda>i. if i \<in> set xs then hostv (inputs ! 2) i else ends s i),
            strides := (\<lambda>i. if i \<in> set xs then hostv (inputs ! 3) i else strides s i)\<rparr>)"
  using assms
proof (induction xs arbitrary: s)
  case (Cons x xs)
  then show ?case by (simp add: slicePlain_step_def Let_def) (auto simp: fun_eq_iff)
qed simp

lemma slice_dim_loop:
  assumes "\<And>i. 0 \<le> i \<Longrightarrow> i < n \<Longrightarrow> newAxisMasks s i = 0 \<and> shrinkAxisMasks s i = 0 \<and> slice_size s (inputShape i) i = Some (f i)"
    "0 \<le> n"
  shows "fold_opt (slice_dim s inputShape) ([], 0) [0..n - 1] = Some (map f [0..n - 1], n)"
proof -
  have "k \<le> n \<Longrightarrow> fold_opt (slice_dim s inputShape) ([], 0) [0..k - 1] = Some (map f [0..k - 1], k)" if "0 \<le> k" for k
    using that
  proof (induction k rule: int_ge_induct)
    case (step k)
    have "[0..k + 1 - 1] = [0..k - 1] @ [k]" using step.hyps by (simp add: upto_rec2)
    then show ?case using step assms(1) [of k] by (simp add: fold_opt_append slice_dim_def)
  qed simp
  then show ?thesis using assms(2) by blast
qed



text \<open>
  Empty ranges are not empty slices: with equal begin and end the extent is one for a stride of two
  or more, and two for the stride \<^verbatim>\<open>-1\<close>; only the stride one gives zero.
\<close>

theorem StridedSlice_empty_range:
  "map_option (map shape) (StridedSliceComputer 0 0 0 0 0 0
      [w_tensor [5], w_shape_arg [3], w_shape_arg [3], w_shape_arg [1]] [w_tensor []]) = Some [[0]] \<and>
   map_option (map shape) (StridedSliceComputer 0 0 0 0 0 0
      [w_tensor [5], w_shape_arg [3], w_shape_arg [3], w_shape_arg [2]] [w_tensor []]) = Some [[1]] \<and>
   map_option (map shape) (StridedSliceComputer 0 0 0 0 0 0
      [w_tensor [5], w_shape_arg [3], w_shape_arg [3], w_shape_arg [-1]] [w_tensor []]) = Some [[2]]"
  by code_simp

section \<open>Slices given by begin and size\<close>

definition sliceTf_ok :: "int \<Rightarrow> int \<Rightarrow> int \<Rightarrow> bool" where
  "sliceTf_ok D b sz \<longleftrightarrow> 0 \<le> norm_index D b \<and> norm_index D b \<le> D \<and>
     (sz = -1 \<or> 0 \<le> sz \<and> norm_index D b + sz \<le> D)"

lemma sliceTf_dim_eval:
  "sliceTf_dim [t, bt, st] out i =
    (if sliceTf_ok (extent t i) (hostv bt i) (hostv st i)
     then Some (setLength i (if hostv st i = -1 then extent t i - norm_index (extent t i) (hostv bt i) else hostv st i) out)
     else None)"
  by (auto simp: sliceTf_dim_def Let_def sliceTf_ok_def norm_index_def numeral_2_eq_2)

lemma sliceTf_loop:
  "fold_opt (sliceTf_dim [t, bt, st]) out xs =
    (if \<forall>i \<in> set xs. sliceTf_ok (extent t i) (hostv bt i) (hostv st i)
     then Some (fold (\<lambda>i. setLength i (if hostv st i = -1 then extent t i - norm_index (extent t i) (hostv bt i) else hostv st i)) xs out)
     else None)"
  by (induction xs arbitrary: out) (simp_all add: sliceTf_dim_eval)

text \<open>
  \<^verbatim>\<open>SliceTf\<close> fails exactly when, on some axis, the begin lies outside the input or the requested size
  reaches beyond its end; otherwise every extent is the requested one (the rest of the axis for \<^verbatim>\<open>-1\<close>),
  and the slice lies within the input.
\<close>

theorem SliceTf_within_input:
  "case SliceTfComputer [t, bt, st] [out] of
     None \<Rightarrow> \<exists>i \<in> {0..<dimensions t}. \<not> sliceTf_ok (extent t i) (hostv bt i) (hostv st i)
   | Some os \<Rightarrow> \<exists>out'. os = [out'] \<and> dimensions out' = dimensions t \<and> ttype out' = ttype t \<and>
       (\<forall>i \<in> {0..<dimensions t}. sliceTf_ok (extent t i) (hostv bt i) (hostv st i) \<and>
          (hostv st i \<noteq> -1 \<longrightarrow> extent out' i = hostv st i) \<and>
          0 \<le> extent out' i \<and> norm_index (extent t i) (hostv bt i) + extent out' i \<le> extent t i)"
proof (cases "\<forall>i \<in> {0..<dimensions t}. sliceTf_ok (extent t i) (hostv bt i) (hostv st i)")
  case True
  then have "\<forall>i \<in> set [0..dimensions t - 1]. sliceTf_ok (extent t i) (hostv bt i) (hostv st i)" by simp
  then show ?thesis using True
    by (auto simp: SliceTfComputer_def Let_def sliceTf_loop fold_setLength sliceTf_ok_def)
next
  case False
  then have "\<not> (\<forall>i \<in> set [0..dimensions t - 1]. sliceTf_ok (extent t i) (hostv bt i) (hostv st i))" by auto
  then have "SliceTfComputer [t, bt, st] [out] = None"
    unfolding SliceTfComputer_def Let_def sliceTf_loop by simp
  then show ?thesis using False by simp
qed

theorem SliceTf_within_input_witness:
  "\<exists>out'. SliceTfComputer [w_tensor [6, 5], w_shape_arg [-4, 2], w_shape_arg [3, -1]] [w_tensor []] = Some [out'] \<and>
     shape out' = [3, 3] \<and> norm_index 6 (-4) + extent out' 0 \<le> 6"
proof -
  let ?in = "[w_tensor [6, 5], w_shape_arg [-4, 2], w_shape_arg [3, -1]]"
  have s: "map_option (map shape) (SliceTfComputer ?in [w_tensor []]) = Some [[3, 3]]" by code_simp
  have x: "extent (w_tensor [6, 5]) 0 = 6" "hostv (w_shape_arg [-4, 2]) 0 = -4" by code_simp+
  from s obtain o' where o: "SliceTfComputer ?in [w_tensor []] = Some [o']" "shape o' = [3, 3]" by auto
  have "\<forall>i \<in> {0..<2}. norm_index (extent (w_tensor [6, 5]) i) (hostv (w_shape_arg [-4, 2]) i) + extent o' i
      \<le> extent (w_tensor [6, 5]) i"
    using SliceTf_within_input [of "w_tensor [6, 5]" "w_shape_arg [-4, 2]" "w_shape_arg [3, -1]" "w_tensor []"] o by simp
  from this [THEN bspec, of 0] show ?thesis using o x by simp
qed

section \<open>Flatten\<close>

lemma prod_range_cong:
  assumes "\<And>i. a \<le> i \<Longrightarrow> i < b \<Longrightarrow> extent s i = extent t i"
  shows "prod_range s a b = prod_range t a b"
  unfolding prod_range_def by (rule fold_cong) (simp_all add: assms)

text \<open>
  \<^verbatim>\<open>Flatten\<close> in the ONNX form (two output dimensions) and in the form that flattens up to the last axis
  keeps the number of elements, for every starting axis, also a negative one.
\<close>

theorem Flatten_keeps_elements:
  assumes "0 \<le> norm_index (dimensions t) axis" "norm_index (dimensions t) axis < dimensions t" "1 < dimensions t"
    and "endAxis \<in> {0, -1}"
  shows "\<exists>out'. FlattenComputer axis endAxis [t] [out] = Some [out'] \<and> prod_list (shape out') = prod_list (shape t) \<and>
    dimensions out' = (if endAxis = 0 then 2 else norm_index (dimensions t) axis + 1)"
proof -
  let ?n = "dimensions t"
  define a where "a = norm_index ?n axis"
  have a: "0 \<le> a" "a < ?n" using assms(1,2) by (simp_all add: a_def)
  have ax: "(if axis < 0 then axis + ?n else axis) = a" by (simp add: a_def norm_index_def)
  have sp: "prod_range t 0 a * prod_range t a ?n = prod_list (shape t)"
    using a by (simp add: prod_range_split prod_range_shape)
  have c: "endAxis = 0 \<or> endAxis = -1" using assms(4) by simp
  then show ?thesis
  proof
    assume e: "endAxis = 0"
    have r: "[0..1] = [0, 1 :: int]" by code_simp
    show ?thesis using e ax sp by (simp add: FlattenComputer_def Let_def shape_def r a_def)
  next
    assume e: "endAxis = -1"
    define o1 where "o1 = setLength a (prod_range t a ?n) (fill 0 a (extent t) (out\<lparr>dimensions := 1 + a\<rparr>))"
    have f: "FlattenComputer axis endAxis [t] [out] = Some [o1\<lparr>ttype := ttype t, dimensionFormat := dimensionFormat t\<rparr>]"
      using e ax assms(3) by (simp add: FlattenComputer_def Let_def o1_def add.commute)
    have "prod_range o1 0 a = prod_range t 0 a" "prod_range o1 a (a + 1) = prod_range t a ?n"
      by (rule prod_range_cong) (simp_all add: o1_def prod_range_def)
    then have "prod_range o1 0 (a + 1) = prod_list (shape t)"
      using prod_range_split [of 0 a "a + 1" o1] a sp by simp
    moreover have "dimensions o1 = a + 1" by (simp add: o1_def)
    ultimately have "prod_list (shape o1) = prod_list (shape t)" using prod_range_shape [of o1] by simp
    then show ?thesis using f e \<open>dimensions o1 = a + 1\<close> by (simp add: a_def shape_def)
  qed
qed

theorem Flatten_keeps_elements_witness:
  "\<exists>out'. FlattenComputer (-2) (-1) [w_tensor [2, 3, 4]] [w_tensor []] = Some [out'] \<and>
     prod_list (shape out') = 24 \<and> dimensions out' = 2"
proof -
  have "prod_list (shape (w_tensor [2, 3, 4])) = 24" by code_simp
  then show ?thesis
    using Flatten_keeps_elements [of "w_tensor [2, 3, 4]" "-2" "-1" "w_tensor []"] by (simp add: norm_index_def)
qed

text \<open>
  When axes follow the flattened ones, \<^verbatim>\<open>Flatten\<close> writes their extents at their old positions: the
  output keeps a stale extent (whatever the output tensor held) in place of the following axis.
\<close>

theorem Flatten_stale_extent:
  "\<exists>out'. FlattenComputer 1 2 [w_tensor [2, 3, 4, 5]] [(w_tensor [])\<lparr>extent := (\<lambda>_. stale)\<rparr>] = Some [out'] \<and>
     shape out' = [2, 12, stale]"
proof -
  have r: "[0..2] = [0, 1, 2 :: int]" "[1..2] = [1, 2 :: int]" by code_simp+
  show ?thesis by (simp add: FlattenComputer_def Let_def shape_def r prod_range_def w_tensor_def setShape_def)
qed

end
