(* ===== verification/Shape_Window.thy ===== *)
theory Shape_Window
  imports Shape_Axis
begin

text \<open>
  Shape inference of the operators that slide a window over an image: \<^verbatim>\<open>Convolution\<close> and its relatives
  (\<^verbatim>\<open>Dilation2D\<close>, \<^verbatim>\<open>Conv2DBackPropFilter\<close>, \<^verbatim>\<open>Im2Col\<close>, \<^verbatim>\<open>Col2Im\<close>), \<^verbatim>\<open>Deconvolution\<close>,
  \<^verbatim>\<open>Convolution3D\<close>, \<^verbatim>\<open>ConvTranspose3D\<close>, \<^verbatim>\<open>Pooling\<close>, \<^verbatim>\<open>Pooling3D\<close>, the quantized pools, and the
  resizing operators \<^verbatim>\<open>Interp\<close>, \<^verbatim>\<open>Resize\<close> and \<^verbatim>\<open>ImageProcess\<close> (files of \<^verbatim>\<open>source/shape\<close>).
\<close>

section \<open>Arithmetic\<close>

text \<open>
  \<^verbatim>\<open>ceil((float)a / (float)b)\<close>: for \<open>a\<close> and \<open>b\<close> below \<open>2 ^ 24\<close> both conversions are exact and the
  rounded quotient has the same ceiling as the exact one, which is what the definition gives.
\<close>

definition ceil_div :: "int \<Rightarrow> int \<Rightarrow> int" where
  "ceil_div a b = - ((- a) div b)"

lemma ceil_div_bounds:
  assumes "0 < b"
  shows "a \<le> ceil_div a b * b" "ceil_div a b * b < a + b"
proof -
  have "(- a) div b * b + (- a) mod b = - a" by simp
  moreover have "0 \<le> (- a) mod b" "(- a) mod b < b" using assms by simp_all
  moreover have "ceil_div a b * b = - ((- a) div b * b)" by (simp add: ceil_div_def)
  ultimately show "a \<le> ceil_div a b * b" "ceil_div a b * b < a + b" by linarith+
qed

datatype PadMode = PadMode_CAFFE | PadMode_VALID | PadMode_SAME
datatype PoolPadType = PoolPadType_CAFFE | PoolPadType_VALID | PoolPadType_SAME

record Convolution2DCommon =
  padX :: int
  padY :: int
  kernelX :: int
  kernelY :: int
  strideX :: int
  strideY :: int
  dilateX :: int
  dilateY :: int
  padMode :: PadMode
  group :: int
  outputCount :: int
  inputCount :: int
  pads :: "int list option"
  outPads :: "int list option"
  hasOutputShape :: bool

section \<open>Convolution\<close>

text \<open>The kernel and the number of output channels come from a second input when the table has none.\<close>

definition conv_kernel :: "Convolution2DCommon \<Rightarrow> Tensor list \<Rightarrow> int \<times> int \<times> int" where
  "conv_kernel layer inputs =
     (if length inputs > 1 \<and> outputCount layer = 0
      then (extent (inputs ! 1) 0, extent (inputs ! 1) 3, extent (inputs ! 1) 2)
      else (outputCount layer, kernelX layer, kernelY layer))"

definition conv_valid :: "Convolution2DCommon \<Rightarrow> Tensor \<Rightarrow> bool" where
  "conv_valid layer input =
     (let ic = inputCount layer;
          depthwiseMatch = (ic = outputCount layer \<and> ic = group layer \<and> ic = channel input);
          commonChannelMatch = (ic = channel input \<or> ic * group layer = channel input)
      in ic = 0 \<or> depthwiseMatch \<or> commonChannelMatch)"

text \<open>Output width and height from the input's, for a dilated kernel.\<close>

definition conv_output :: "Convolution2DCommon \<Rightarrow> int \<Rightarrow> int \<Rightarrow> int \<Rightarrow> int \<Rightarrow> int \<times> int" where
  "conv_output layer w h kernel_width kernel_height =
     (case padMode layer of
        PadMode_SAME \<Rightarrow> (ceil_div w (strideX layer), ceil_div h (strideY layer))
      | PadMode_VALID \<Rightarrow>
          (ceil_div (w - kernel_width + 1) (strideX layer), ceil_div (h - kernel_height + 1) (strideY layer))
      | PadMode_CAFFE \<Rightarrow>
          (case pads layer of
             Some ps \<Rightarrow>
               (let input_width = w + ps ! 1 + ps ! 3; input_height = h + ps ! 0 + ps ! 2
                in (if input_width < kernel_width then 0
                    else (input_width - kernel_width) sdiv strideX layer + 1,
                    if input_height < kernel_height then 0
                    else (input_height - kernel_height) sdiv strideY layer + 1))
           | None \<Rightarrow>
               (let input_width = w + padX layer * 2; input_height = h + padY layer * 2
                in ((input_width - kernel_width) sdiv strideX layer + 1,
                    (input_height - kernel_height) sdiv strideY layer + 1))))"

text \<open>Channels, height and width written in the order of the dimension format.\<close>

definition set_chw :: "MNN_DATA_FORMAT \<Rightarrow> int \<Rightarrow> int \<Rightarrow> int \<Rightarrow> Tensor \<Rightarrow> Tensor" where
  "set_chw format c h w t =
     (if format = MNN_DATA_FORMAT_NHWC then setLength 2 w (setLength 1 h (setLength 3 c t))
      else setLength 3 w (setLength 2 h (setLength 1 c t)))"

text \<open>
  \<open>checked\<close> is whether the operator is \<^verbatim>\<open>OpType_Convolution\<close>, whose channels are checked;
  \<open>outputDataType\<close> is the output type of a quantized convolution, if the table has one.
\<close>

definition ConvolutionSizeComputer :: "bool \<Rightarrow> Convolution2DCommon \<Rightarrow> DataType option \<Rightarrow> shape_fun" where
  "ConvolutionSizeComputer checked layer outputDataType inputs outputs =
     (let input = inputs ! 0;
          (oc, kX, kY) = conv_kernel layer inputs;
          kernel_width = dilateX layer * (kX - 1) + 1;
          kernel_height = dilateY layer * (kY - 1) + 1
      in if dimensions input \<le> 1 then None
         else if length inputs = 1 \<and> \<not> conv_valid layer input \<and> checked then None
         else
           (let (ow, oh) = conv_output layer (width input) (height input) kernel_width kernel_height;
                out = (outputs ! 0)\<lparr>dimensions := dimensions input, ttype := ttype input\<rparr>;
                out = (case outputDataType of
                         Some ty \<Rightarrow> if ty \<noteq> DT_INT8 then setType ty out else out
                       | None \<Rightarrow> out);
                out = setLength 0 (extent input 0) out;
                out = set_chw (dimensionFormat input) oc oh ow out
            in Some (set_out outputs (out\<lparr>dimensionFormat := dimensionFormat input\<rparr>))))"

definition Dilation2DSizeComputer :: "Convolution2DCommon \<Rightarrow> DataType option \<Rightarrow> shape_fun" where
  "Dilation2DSizeComputer = ConvolutionSizeComputer False"

definition Conv2DBackpropFilterSizeComputer :: "Convolution2DCommon \<Rightarrow> shape_fun" where
  "Conv2DBackpropFilterSizeComputer common inputs outputs =
     (let kernel = (outputs ! 0)\<lparr>dimensions := 4, ttype := float_t, dimensionFormat := MNN_DATA_FORMAT_NCHW\<rparr>
      in Some (set_out outputs
           (setLength 3 (kernelX common) (setLength 2 (kernelY common)
             (setLength 1 (channel (inputs ! 0) sdiv group common)
               (setLength 0 (channel (inputs ! 1)) kernel))))))"

text \<open>The result of the inner convolution is not checked: on failure the output is as it was.\<close>

definition Im2ColSizeComputer :: "Convolution2DCommon \<Rightarrow> DataType option \<Rightarrow> shape_fun" where
  "Im2ColSizeComputer layer outputDataType inputs outputs =
     (let outs = (case ConvolutionSizeComputer False layer outputDataType inputs outputs of
                    Some os \<Rightarrow> os | None \<Rightarrow> outputs);
          out = outs ! 0; input = inputs ! 0;
          oh = height out; ow = width out
      in Some (set_out outs
           (setLength 1 (batch input * oh * ow)
             (setLength 0 (channel input * kernelY layer * kernelX layer) (out\<lparr>dimensions := 2\<rparr>)))))"

definition Col2ImSizeComputer :: "Convolution2DCommon \<Rightarrow> shape_fun" where
  "Col2ImSizeComputer layer inputs outputs =
     (let input = inputs ! 0; outputShape = inputs ! 1;
          (oh, ow) = (if elementSize outputShape = 2 then (hostv outputShape 0, hostv outputShape 1) else (1, 1));
          (bat, colSize) =
            (if dimensions input = 3 then (extent input 0, extent input 1) else (1, extent input 0))
      in Some (set_out outputs
           (setLength 3 ow (setLength 2 oh (setLength 1 (colSize sdiv (kernelY layer * kernelX layer))
             (setLength 0 bat ((outputs ! 0)\<lparr>dimensions := 4\<rparr>)))))))"

definition deconv_output :: "Convolution2DCommon \<Rightarrow> int \<Rightarrow> int \<Rightarrow> int \<times> int" where
  "deconv_output layer w h =
     (if padMode layer = PadMode_SAME then (w * strideX layer, h * strideY layer)
      else
        (let ow = (w - 1) * strideX layer + dilateX layer * (kernelX layer - 1) + 1;
             oh = (h - 1) * strideY layer + dilateY layer * (kernelY layer - 1) + 1;
             (ow, oh) =
               (case pads layer of
                  Some ps \<Rightarrow> (ow - ps ! 1 - ps ! 3, oh - ps ! 0 - ps ! 2)
                | None \<Rightarrow> (ow - padX layer * 2, oh - padY layer * 2))
         in case outPads layer of Some ps \<Rightarrow> (ow + ps ! 1, oh + ps ! 0) | None \<Rightarrow> (ow, oh)))"

definition DeconvolutionSizeComputer :: "Convolution2DCommon \<Rightarrow> shape_fun" where
  "DeconvolutionSizeComputer layer inputs outputs =
     (let input = inputs ! 0;
          (outputHeight, outputWidth) =
            (if hasOutputShape layer then (hostv (last inputs) 1, hostv (last inputs) 2) else (0, 0));
          (ow, oh) =
            (if outputHeight > 0 \<and> outputWidth > 0 then (outputWidth, outputHeight)
             else deconv_output layer (width input) (height input));
          out = setLength 0 (extent input 0) ((outputs ! 0)\<lparr>ttype := ttype input, dimensions := dimensions input\<rparr>);
          out = set_chw (dimensionFormat input) (outputCount layer) oh ow out
      in Some (set_out outputs (out\<lparr>dimensionFormat := dimensionFormat input\<rparr>)))"

section \<open>Three dimensions\<close>

record Convolution3DCommon =
  dilates3 :: "int list option"
  strides3 :: "int list"
  kernels3 :: "int list"
  pads3 :: "int list option"
  outPads3 :: "int list option"
  padMode3 :: PadMode
  outputCount3 :: int

definition conv3d_length :: "Convolution3DCommon \<Rightarrow> int \<Rightarrow> int \<Rightarrow> int" where
  "conv3d_length layer inputLength i =
     (let stride = strides3 layer ! nat i
      in if padMode3 layer = PadMode_SAME then UP_DIV inputLength stride
         else
           (let ps = the (pads3 layer); padl = ps ! nat i; kernel = kernels3 layer ! nat i;
                dialate = the (dilates3 layer) ! nat i;
                padr = (if length ps = 6 then ps ! nat (i + 3) else padl);
                dialatedKernel = (kernel - 1) * dialate + 1
            in (inputLength + padl + padr - dialatedKernel) sdiv stride + 1))"

definition conv3d_dim :: "(int \<Rightarrow> int \<Rightarrow> int) \<Rightarrow> Tensor \<Rightarrow> Tensor \<Rightarrow> int \<Rightarrow> Tensor option" where
  "conv3d_dim len input out i =
     (let inputLength = extent input (i + 2)
      in if inputLength \<le> 0 then None else Some (setLength (i + 2) (len inputLength i) out))"

definition Convolution3DSizeComputer :: "Convolution3DCommon \<Rightarrow> shape_fun" where
  "Convolution3DSizeComputer layer inputs outputs =
     (let input = inputs ! 0
      in if dimensions input \<noteq> 5 then None
         else
           (case fold_opt (conv3d_dim (conv3d_length layer) input)
                   (setLength 1 (outputCount3 layer)
                     (setLength 0 (extent input 0) ((outputs ! 0)\<lparr>dimensions := dimensions input\<rparr>))) [0..2] of
              None \<Rightarrow> None
            | Some out \<Rightarrow>
                Some (set_out outputs (out\<lparr>ttype := ttype input, dimensionFormat := dimensionFormat input\<rparr>))))"

definition deconv3d_length :: "Convolution3DCommon \<Rightarrow> int \<Rightarrow> int \<Rightarrow> int" where
  "deconv3d_length layer inputLength i =
     (let stride = strides3 layer ! nat i
      in if padMode3 layer = PadMode_SAME then inputLength * stride
         else
           (let kernel = kernels3 layer ! nat i;
                (padL, padR) =
                  (case pads3 layer of
                     None \<Rightarrow> (0, 0)
                   | Some ps \<Rightarrow> (ps ! nat i, if length ps = 6 then ps ! nat (i + 3) else ps ! nat i));
                dialate = (case dilates3 layer of None \<Rightarrow> 1 | Some ds \<Rightarrow> ds ! nat i);
                dialatedKernel = (kernel - 1) * dialate + 1;
                outputLength = (inputLength - 1) * stride + dialatedKernel - padR - padL
            in case outPads3 layer of None \<Rightarrow> outputLength | Some ps \<Rightarrow> outputLength + ps ! nat i))"

definition ConvTranspose3DSizeComputer :: "Convolution3DCommon \<Rightarrow> shape_fun" where
  "ConvTranspose3DSizeComputer layer inputs outputs =
     (let input = inputs ! 0; convolutinDim = dimensions input - 2
      in case fold_opt (conv3d_dim (deconv3d_length layer) input)
              (setLength 1 (outputCount3 layer)
                (setLength 0 (extent input 0) ((outputs ! 0)\<lparr>dimensions := dimensions input\<rparr>)))
              [0..convolutinDim - 1] of
           None \<Rightarrow> None
         | Some out \<Rightarrow>
             Some (set_out outputs (out\<lparr>ttype := ttype input, dimensionFormat := dimensionFormat input\<rparr>)))"

section \<open>Pooling\<close>

record Pool =
  ppadX :: int
  ppadY :: int
  isGlobal :: bool
  pkernelX :: int
  pkernelY :: int
  pstrideX :: int
  pstrideY :: int
  padType :: PoolPadType
  ceilModel :: bool
  ppads :: "int list option"

text \<open>The padded width and height of the input.\<close>

definition pool_input :: "Pool \<Rightarrow> int \<Rightarrow> int \<Rightarrow> int \<times> int" where
  "pool_input layer w h =
     (case ppads layer of
        Some ps \<Rightarrow>
          (if length ps = 4 then w + (ps ! 1 + ps ! 3) else w,
           if length ps = 2 then h + (ps ! 0 + ps ! 1)
           else if length ps = 4 then h + (ps ! 0 + ps ! 2) else h)
      | None \<Rightarrow> (w + ppadX layer * 2, h + ppadY layer * 2))"

definition pool_length :: "Pool \<Rightarrow> int \<Rightarrow> int \<Rightarrow> int \<Rightarrow> int" where
  "pool_length layer len kernel0 stride =
     (let kernel = min kernel0 len
      in case padType layer of
           PoolPadType_SAME \<Rightarrow> ceil_div len stride
         | PoolPadType_VALID \<Rightarrow> ceil_div (len - kernel + 1) stride
         | PoolPadType_CAFFE \<Rightarrow>
             if ceilModel layer then UP_DIV (len - kernel) stride + 1 else (len - kernel) sdiv stride + 1)"

definition pool_set :: "Tensor \<Rightarrow> int \<Rightarrow> int \<Rightarrow> halide_type \<Rightarrow> Tensor \<Rightarrow> Tensor" where
  "pool_set input outw outh ty t =
     (let t = (copyDims (dimensions input) input t)\<lparr>dimensions := dimensions input\<rparr>;
          t = (if is_tensorflow input then setLength 1 outh (setLength 2 outw t)
               else setLength 2 outh (setLength 3 outw t))
      in t\<lparr>dimensionFormat := dimensionFormat input, ttype := ty\<rparr>)"

text \<open>A second output receives the indices of the maxima.\<close>

definition PoolSizeComputer :: "Pool \<Rightarrow> shape_fun" where
  "PoolSizeComputer layer inputs outputs =
     (let input = inputs ! 0
      in if \<not> isGlobal layer \<and> padType layer \<noteq> PoolPadType_CAFFE \<and> (ppadX layer \<noteq> 0 \<or> ppadY layer \<noteq> 0)
         then None
         else
           (let (outw, outh) =
                  (if isGlobal layer then (1, 1)
                   else
                     (let (w, h) = pool_input layer (width input) (height input)
                      in (pool_length layer w (pkernelX layer) (pstrideX layer),
                          pool_length layer h (pkernelY layer) (pstrideY layer))))
            in if outw \<le> 0 \<or> outh \<le> 0 then None
               else
                 (let outs = set_out outputs (pool_set input outw outh (ttype input) (outputs ! 0))
                  in Some (if length outputs = 2
                           then outs[1 := pool_set input outw outh int32_t (outputs ! 1)] else outs))))"

record Pool3D =
  isGlobal3 :: bool
  pstrides3 :: "int list"
  pkernels3 :: "int list"
  ppads3 :: "int list"
  padType3 :: PoolPadType

definition pool3d_dim :: "Pool3D \<Rightarrow> Tensor \<Rightarrow> int \<Rightarrow> Tensor \<Rightarrow> int \<Rightarrow> Tensor option" where
  "pool3d_dim layer input offset out i =
     (let inputLength = extent input (i + 2);
          kernel = pkernels3 layer ! nat i; stride = pstrides3 layer ! nat i;
          outputLength =
            (case padType3 layer of
               PoolPadType_CAFFE \<Rightarrow> (inputLength + 2 * (ppads3 layer ! nat i) - kernel) sdiv stride + 1
             | PoolPadType_SAME \<Rightarrow> UP_DIV inputLength stride
             | PoolPadType_VALID \<Rightarrow> (inputLength - kernel) sdiv stride + 1)
      in if outputLength \<le> 0 then None else Some (setLength (i + offset) outputLength out))"

definition Pool3DSizeComputer :: "Pool3D \<Rightarrow> shape_fun" where
  "Pool3DSizeComputer layer inputs outputs =
     (let input = inputs ! 0; n = dimensions input;
          maxCheckDim = (if isGlobal3 layer then 1 else n - 1)
      in if \<exists>i \<in> set [1..maxCheckDim]. extent input i \<le> 0 then None
         else
           (let out = copyDims n input ((outputs ! 0)\<lparr>dimensions := n\<rparr>);
                res =
                  (if isGlobal3 layer then
                     Some (if is_tensorflow input then fill 1 (n - 1) (\<lambda>_. 1) out else fill 2 n (\<lambda>_. 1) out)
                   else fold_opt (pool3d_dim layer input (if is_tensorflow input then 1 else 2)) out [0..n - 2 - 1])
            in case res of None \<Rightarrow> None
               | Some out \<Rightarrow>
                   Some (set_out outputs (out\<lparr>dimensionFormat := dimensionFormat input, ttype := ttype input\<rparr>))))"

text \<open>Quantized pooling: the default output size 1 stays for an unsupported pad type.\<close>

definition quantized_pool :: "Pool \<Rightarrow> Tensor \<Rightarrow> int \<times> int" where
  "quantized_pool layer input =
     (case padType layer of
        PoolPadType_SAME \<Rightarrow> (ceil_div (width input) (pstrideX layer), ceil_div (height input) (pstrideY layer))
      | PoolPadType_VALID \<Rightarrow>
          (ceil_div (width input - pkernelX layer + 1) (pstrideX layer),
           ceil_div (height input - pkernelY layer + 1) (pstrideY layer))
      | PoolPadType_CAFFE \<Rightarrow> (1, 1))"

definition QuantizedAvgPoolComputer :: "Pool \<Rightarrow> shape_fun" where
  "QuantizedAvgPoolComputer layer inputs outputs =
     (let input = inputs ! 0;
          (ow, oh) = quantized_pool layer input;
          out = setType DT_UINT8 ((outputs ! 0)\<lparr>dimensions := dimensions input\<rparr>);
          out = setLength 1 (extent input 1) (setLength 3 ow (setLength 2 oh (setLength 0 (extent input 0) out)));
          out = (if is_tensorflow input then setLength 3 (channel input) (setLength 2 ow (setLength 1 oh out)) else out)
      in Some (set_out outputs (out\<lparr>dimensionFormat := dimensionFormat input\<rparr>)))"

definition QuantizedMaxPoolComputer :: "Pool \<Rightarrow> shape_fun" where
  "QuantizedMaxPoolComputer layer inputs outputs =
     (let input = inputs ! 0;
          (ow, oh) = quantized_pool layer input
      in if ow \<le> 0 \<or> oh \<le> 0 then None
         else
           (let out = setType DT_UINT8 ((outputs ! 0)\<lparr>dimensions := dimensions input\<rparr>);
                out = setLength 3 (extent input 3) (setLength 2 ow (setLength 1 oh (setLength 0 (extent input 0) out)))
            in Some (set_out outputs (out\<lparr>dimensionFormat := dimensionFormat input\<rparr>))))"

section \<open>Resizing\<close>

text \<open>
  Scales are IEEE floats. The model is parametric in them: \<open>scaled s x\<close> is the C expression
  \<^verbatim>\<open>(int)(s * (float)x)\<close>, \<open>fscale\<close> reads the i-th float of a tensor and \<open>ftrunc\<close> converts a float to int.
\<close>

definition set_hw :: "MNN_DATA_FORMAT \<Rightarrow> int \<Rightarrow> int \<Rightarrow> Tensor \<Rightarrow> Tensor" where
  "set_hw format h w t =
     (if format = MNN_DATA_FORMAT_NHWC then setLength 1 h (setLength 2 w t) else setLength 2 h (setLength 3 w t))"

definition InterpComputer ::
    "('f \<Rightarrow> int \<Rightarrow> int) \<Rightarrow> ('f \<Rightarrow> int) \<Rightarrow> (Tensor \<Rightarrow> int \<Rightarrow> 'f) \<Rightarrow> int \<Rightarrow> int \<Rightarrow> 'f \<Rightarrow> 'f \<Rightarrow> shape_fun" where
  "InterpComputer scaled ftrunc fscale outputWidth outputHeight widthScale heightScale inputs outputs =
     (let input = inputs ! 0; n = dimensions input;
          out = (copyDims n input (outputs ! 0))\<lparr>dimensions := n, ttype := ttype input,
                  dimensionFormat := dimensionFormat input\<rparr>
      in if length inputs = 2 \<and> extent (inputs ! 1) 0 = n then
           Some (set_out outputs
             (if code (ttype (inputs ! 1)) = halide_type_int then fill 0 n (hostv (inputs ! 1)) out
              else fill 0 n (\<lambda>i. scaled (fscale (inputs ! 1) i) (extent input i)) out))
         else
           (let size =
                  (if length inputs = 1 then
                     (if outputWidth = 0 \<or> outputHeight = 0
                      then Some (scaled widthScale (width input), scaled heightScale (height input))
                      else Some (outputWidth, outputHeight))
                   else
                     (let shp = inputs ! 1
                      in if extent shp 0 \<noteq> 2 then None
                         else if code (ttype shp) = halide_type_float
                         then Some (ftrunc (fscale shp 1), ftrunc (fscale shp 0))
                         else Some (hostv shp 1, hostv shp 0)))
            in case size of None \<Rightarrow> None
               | Some (w, h) \<Rightarrow>
                   if w = 0 \<and> h = 0 then None
                   else Some (set_out outputs (set_hw (dimensionFormat input) h w out))))"

definition ResizeComputer :: "('f \<Rightarrow> int \<Rightarrow> int) \<Rightarrow> 'f \<Rightarrow> 'f \<Rightarrow> shape_fun" where
  "ResizeComputer scaled xScale yScale inputs outputs =
     (let input = inputs ! 0;
          out = copyShape input True False (outputs ! 0);
          out = setLength 2 (scaled yScale (extent input 2)) (setLength 3 (scaled xScale (extent input 3)) out)
      in Some (set_out outputs (out\<lparr>ttype := ttype input\<rparr>)))"

definition ImageProcessComputer :: "int list \<Rightarrow> DataType \<Rightarrow> shape_fun" where
  "ImageProcessComputer shp outputType inputs outputs =
     (if length inputs = 3 then Some (set_out outputs (setLength 0 1 ((outputs ! 0)\<lparr>dimensions := 1\<rparr>)))
      else
        (let input = inputs ! 0;
             out = copyShape input True False (outputs ! 0);
             out = set_chw (dimensionFormat input) (shp ! 1) (shp ! 2) (shp ! 3) out
         in Some (set_out outputs (setType outputType out))))"

end
