(* ===== verification/Shape_Matrix.thy ===== *)
theory Shape_Matrix
  imports Shape_Axis
begin

text \<open>
  Shape inference of matrix products, decompositions, attention and recurrent layers
  (\<^verbatim>\<open>ShapeMatMul.cpp\<close>, \<^verbatim>\<open>ShapeInnerProduct.cpp\<close>, \<^verbatim>\<open>ShapeDet.cpp\<close>, \<^verbatim>\<open>ShapeSvd.cpp\<close>,
  \<^verbatim>\<open>ShapeAttention.cpp\<close>, \<^verbatim>\<open>ShapeSplitGelu.cpp\<close>, \<^verbatim>\<open>ShapeLSTM.cpp\<close>, \<^verbatim>\<open>ShapeRNNSequenceGRU.cpp\<close>, and
  \<^verbatim>\<open>OpCommonUtils::computeMatMulSize\<close>).
\<close>

section \<open>Matrix products\<close>

text \<open>The sizes \<open>e\<close>, \<open>l\<close> and \<open>h\<close> of a product of an e times l by an l times h matrix.\<close>

definition computeMatMulSize :: "bool \<Rightarrow> bool \<Rightarrow> Tensor \<Rightarrow> Tensor \<Rightarrow> (int \<times> int \<times> int) option" where
  "computeMatMulSize transposeA transposeB A B =
     (let i0Dim = dimensions A; i1Dim = dimensions B
      in if i0Dim < 1 \<or> i1Dim < 1 then None
         else
           (let (w0, h0, transposeA) =
                  (if i0Dim = 1 then (extent A 0, 1, False)
                   else (extent A (i0Dim - 1), extent A (i0Dim - 2), transposeA));
                (w1, h1, transposeB) =
                  (if i1Dim = 1 then (1, extent B 0, False)
                   else (extent B (i1Dim - 1), extent B (i1Dim - 2), transposeB));
                (w0, h0) = (if transposeA then (h0, w0) else (w0, h0));
                (w1, h1) = (if transposeB then (h1, w1) else (w1, h1))
            in if w0 \<noteq> h1 then None else Some (h0, w0, w1)))"

definition matmul_dim :: "Tensor \<Rightarrow> int \<Rightarrow> Tensor \<Rightarrow> int \<Rightarrow> Tensor option" where
  "matmul_dim input1 diffDimension out i =
     (let dim1 = extent input1 (i - diffDimension)
      in if dim1 \<noteq> extent out i \<and> (dim1 \<noteq> 1 \<and> extent out i \<noteq> 1) then None
         else if dim1 = extent out i then Some out
         else if dim1 \<noteq> extent out i \<and> (dim1 = 1 \<or> extent out i = 1)
           then Some (setLength i (extent out i * dim1) out)
         else None)"

definition MatMulSizeComputer :: "bool \<Rightarrow> bool \<Rightarrow> shape_fun" where
  "MatMulSizeComputer transposeA transposeB inputs outputs =
     (let a = inputs ! 0; b = inputs ! 1; out = (outputs ! 0)\<lparr>ttype := ttype a\<rparr>
      in case computeMatMulSize transposeA transposeB a b of
           None \<Rightarrow> None
         | Some (e, l, h) \<Rightarrow>
             (let (o0Dim, input0, input1) =
                    (if dimensions b > dimensions a then (dimensions b, b, a) else (dimensions a, a, b));
                  maxDimensions = o0Dim - 2;
                  diffDimension = dimensions input0 - dimensions input1;
                  out = fill 0 maxDimensions (extent input0) (out\<lparr>dimensions := o0Dim\<rparr>)
              in case fold_opt (matmul_dim input1 diffDimension) out [diffDimension..maxDimensions - 1] of
                   None \<Rightarrow> None
                 | Some out \<Rightarrow>
                     (let out = setLength (o0Dim - 1) h (setLength (o0Dim - 2) e out);
                          eValid = (dimensions a > 1); hValid = (dimensions b > 1);
                          (squeezeDim, out) = (if \<not> eValid then (1, setLength (o0Dim - 2) h out) else (0, out));
                          (squeezeDim, out) =
                            (if \<not> hValid then (squeezeDim + 1, setLength (o0Dim - 1) e out) else (squeezeDim, out));
                          out = (if squeezeDim > 0 then out\<lparr>dimensions := o0Dim - squeezeDim\<rparr> else out)
                      in Some (set_out outputs (out\<lparr>dimensionFormat := dimensionFormat a\<rparr>)))))"

definition InnerProductComputer :: "int \<Rightarrow> shape_fun" where
  "InnerProductComputer outputCount inputs outputs =
     (let input = inputs ! 0;
          out = (outputs ! 0)\<lparr>dimensions := dimensions input, ttype := float_t, dimensionFormat := dimensionFormat input\<rparr>
      in Some (set_out outputs (setLength 1 outputCount (setLength 0 (extent input 0) out))))"

definition DetComputer :: shape_fun where
  "DetComputer inputs outputs =
     (if length inputs \<noteq> 1 then None
      else
        (let ib = inputs ! 0; dim = dimensions ib
         in if dim < 2 \<or> extent ib (dim - 1) \<noteq> extent ib (dim - 2) then None
            else
              (let ob = (outputs ! 0)\<lparr>dimensions := dim - 2\<rparr>;
                   ob = (if dim > 2 then copyDims (dim - 2) ib ob else ob)
               in Some (set_out outputs (ob\<lparr>ttype := ttype ib, dimensionFormat := dimensionFormat ib\<rparr>)))))"

definition SvdComputer :: shape_fun where
  "SvdComputer inputs outputs =
     (let input = inputs ! 0; row = extent input 0; col = extent input 1; single_num = col;
          fin = (\<lambda>t. t\<lparr>ttype := ttype input, dimensionFormat := dimensionFormat input\<rparr>);
          w = setLength 0 single_num ((outputs ! 0)\<lparr>dimensions := 1\<rparr>);
          u = setLength 1 single_num (setLength 0 row ((outputs ! 1)\<lparr>dimensions := 2\<rparr>));
          vt = setLength 1 col (setLength 0 single_num ((outputs ! 2)\<lparr>dimensions := 2\<rparr>))
      in Some (outputs[0 := fin w, 1 := fin u, 2 := fin vt]))"

section \<open>Attention\<close>

definition like_input :: "Tensor \<Rightarrow> int list \<Rightarrow> Tensor \<Rightarrow> Tensor" where
  "like_input input ds t =
     (fill 0 (int (length ds)) (\<lambda>i. ds ! nat i) t)
       \<lparr>dimensions := int (length ds), ttype := ttype input, dimensionFormat := dimensionFormat input\<rparr>"

definition FmhaV2SizeComputer :: shape_fun where
  "FmhaV2SizeComputer inputs outputs =
     (let i0 = inputs ! 0
      in Some (set_out outputs (like_input i0 [extent i0 0, extent i0 1, extent i0 2 sdiv 3] (outputs ! 0))))"

definition FmhcaSizeComputer :: shape_fun where
  "FmhcaSizeComputer inputs outputs =
     (let i0 = inputs ! 0
      in Some (set_out outputs (like_input i0 [extent i0 0, extent i0 1, extent i0 2] (outputs ! 0))))"

definition AttentionSizeComputer :: shape_fun where
  "AttentionSizeComputer inputs outputs =
     (let i0 = inputs ! 0
      in Some (set_out outputs (like_input i0 [extent i0 0, extent i0 1, extent i0 2 * extent i0 3] (outputs ! 0))))"

definition LinearAttentionSizeComputer :: "int \<Rightarrow> int \<Rightarrow> shape_fun" where
  "LinearAttentionSizeComputer num_v_heads head_v_dim inputs outputs =
     (let i0 = inputs ! 0
      in Some (set_out outputs
           (like_input i0 [extent i0 0, extent i0 2, num_v_heads, head_v_dim] (outputs ! 0))))"

definition SplitGeLUSizeComputer :: shape_fun where
  "SplitGeLUSizeComputer inputs outputs =
     (let i0 = inputs ! 0
      in Some (set_out outputs (like_input i0 [extent i0 0, extent i0 1, extent i0 2 sdiv 2] (outputs ! 0))))"

definition SeqLen2SpatialSizeComputer :: shape_fun where
  "SeqLen2SpatialSizeComputer inputs outputs =
     (let i0 = inputs ! 0
      in Some (set_out outputs
           ((fill 0 (dimensions i0) (extent i0) ((outputs ! 0)\<lparr>dimensions := dimensions i0\<rparr>))
              \<lparr>ttype := ttype i0, dimensionFormat := dimensionFormat i0\<rparr>)))"

section \<open>Recurrent layers\<close>

text \<open>The extents of one output and the format of the input; the element type is left as it is.\<close>

definition rnn_out :: "Tensor \<Rightarrow> int list \<Rightarrow> Tensor \<Rightarrow> Tensor" where
  "rnn_out X ds t =
     (fill 0 (int (length ds)) (\<lambda>i. ds ! nat i) (t\<lparr>dimensions := int (length ds)\<rparr>))
       \<lparr>dimensionFormat := dimensionFormat X\<rparr>"

definition LSTMComputer :: "int \<Rightarrow> shape_fun" where
  "LSTMComputer outputCount inputs outputs =
     (if length outputs = 1 then
        (let input = inputs ! 0;
             out = (copyDims (dimensions input) input (outputs ! 0))\<lparr>dimensions := 4\<rparr>;
             out = setLength 2 1 (setLength 3 outputCount out)
         in Some (set_out outputs (out\<lparr>ttype := float_t, dimensionFormat := dimensionFormat input\<rparr>)))
      else
        (let X = inputs ! 0; seqLength = extent X 0; batchSize = extent X 1; direction = extent (inputs ! 1) 0
         in Some (outputs[0 := rnn_out X [seqLength, direction, batchSize, outputCount] (outputs ! 0),
                          1 := rnn_out X [direction, batchSize, outputCount] (outputs ! 1),
                          2 := rnn_out X [direction, batchSize, outputCount] (outputs ! 2)])))"

definition LSTMBlockCellComputer :: shape_fun where
  "LSTMBlockCellComputer inputs outputs = Some (map (copyShape (inputs ! 1) False False) outputs)"

definition RNNComputer :: "int \<Rightarrow> shape_fun" where
  "RNNComputer outputCount inputs outputs =
     (let X = inputs ! 0; seqLength = extent X 0; batchSize = extent X 1; direction = extent (inputs ! 1) 0
      in Some (outputs[0 := rnn_out X [seqLength, direction, batchSize, outputCount] (outputs ! 0),
                       1 := rnn_out X [direction, batchSize, outputCount] (outputs ! 1)]))"

definition RNNSequenceGRUComputer :: "int \<Rightarrow> bool \<Rightarrow> bool \<Rightarrow> shape_fun" where
  "RNNSequenceGRUComputer numUnits keepAllOutputs isBidirectionalRNN inputs outputs =
     (let input = inputs ! 0; dir = (if isBidirectionalRNN then 2 else 1);
          out = (outputs ! 0)\<lparr>dimensionFormat := dimensionFormat input\<rparr>;
          hidden = [dir, extent input 1, numUnits]
      in if keepAllOutputs then
           (let outs = set_out outputs
                  ((setShape [extent input 0, dir, extent input 1, numUnits] out)\<lparr>ttype := ttype input\<rparr>)
            in Some (if length outputs > 1
                     then outs[1 := (setShape hidden (outputs ! 1))
                                      \<lparr>ttype := ttype input, dimensionFormat := dimensionFormat input\<rparr>]
                     else outs))
         else Some (set_out outputs ((setShape hidden out)\<lparr>ttype := ttype input\<rparr>)))"

end
