(* ===== verification/Shape_Matrix_Correct.thy ===== *)
theory Shape_Matrix_Correct
  imports Shape_Matrix
begin

text \<open>
  Correctness of matrix products: the inner sizes must agree, the leading axes broadcast, and vectors
  are rows or columns that disappear from the result.
\<close>

text \<open>The size of a leading axis, aligned at the matrices; one where a tensor has none.\<close>

definition lead :: "int \<Rightarrow> Tensor \<Rightarrow> int \<Rightarrow> int" where
  "lead n t i = (if i - (n - dimensions t) < 0 then 1 else extent t (i - (n - dimensions t)))"

definition meets :: "int \<Rightarrow> int \<Rightarrow> bool" where
  "meets x y \<longleftrightarrow> x = y \<or> x = 1 \<or> y = 1"

definition joined :: "int \<Rightarrow> int \<Rightarrow> int" where
  "joined x y = (if x = y then x else x * y)"

lemma matmul_loop:
  assumes "distinct xs"
  shows "case fold_opt (matmul_dim b d) out xs of
      None \<Rightarrow> \<exists>i \<in> set xs. \<not> meets (extent out i) (extent b (i - d))
    | Some out' \<Rightarrow> (\<forall>i \<in> set xs. meets (extent out i) (extent b (i - d))) \<and> dimensions out' = dimensions out \<and>
        ttype out' = ttype out \<and>
        (\<forall>i. extent out' i = (if i \<in> set xs then joined (extent out i) (extent b (i - d)) else extent out i))"
  using assms
proof (induction xs arbitrary: out)
  case (Cons x xs)
  let ?y = "extent b (x - d)"
  show ?case
  proof (cases "meets (extent out x) ?y")
    case False
    then have "matmul_dim b d out x = None" by (auto simp: matmul_dim_def meets_def Let_def)
    then show ?thesis using False by simp
  next
    case True
    let ?o = "setLength x (joined (extent out x) ?y) out"
    have "matmul_dim b d out x = Some ?o"
    proof (cases "extent out x = ?y")
      case True
      then have "?o = out" by (intro Tensor.equality) (auto simp: joined_def)
      then show ?thesis using True by (simp add: matmul_dim_def)
    next
      case False
      then show ?thesis using True by (auto simp: matmul_dim_def meets_def Let_def joined_def mult.commute)
    qed
    moreover have "\<forall>i \<in> set xs. extent ?o i = extent out i" using Cons.prems by auto
    ultimately show ?thesis using True Cons.prems Cons.IH [of ?o]
      by (auto split: option.splits simp: meets_def)
  qed
qed simp

lemma fold_opt_matmul_None:
  "distinct xs \<Longrightarrow> fold_opt (matmul_dim b d) out xs = None \<longleftrightarrow> (\<exists>i \<in> set xs. \<not> meets (extent out i) (extent b (i - d)))"
  using matmul_loop [where xs = xs and b = b and d = d and out = out] by (auto split: option.splits)

text \<open>Rows and columns of the two matrices after the requested transpositions.\<close>

definition rows :: "bool \<Rightarrow> Tensor \<Rightarrow> int" where
  "rows tr t = extent t (dimensions t - (if tr then 1 else 2))"

definition cols :: "bool \<Rightarrow> Tensor \<Rightarrow> int" where
  "cols tr t = extent t (dimensions t - (if tr then 2 else 1))"

lemma computeMatMulSize_matrices:
  assumes "2 \<le> dimensions a" "2 \<le> dimensions b"
  shows "computeMatMulSize tA tB a b =
    (if cols tA a = rows tB b then Some (rows tA a, cols tA a, cols tB b) else None)"
  using assms by (cases tA; cases tB; simp add: computeMatMulSize_def Let_def rows_def cols_def)

text \<open>
  C31. The product of two tensors of at least two dimensions: it fails exactly when the inner sizes differ
  or some pair of aligned leading axes does not broadcast; otherwise the result has the larger number of
  dimensions, the broadcast leading extents, the rows of the first and the columns of the second matrix.
\<close>

theorem MatMul_shape:
  assumes "2 \<le> dimensions a" "2 \<le> dimensions b" "n = max (dimensions a) (dimensions b)"
  shows "case MatMulSizeComputer tA tB [a, b] [out] of
      None \<Rightarrow> cols tA a \<noteq> rows tB b \<or> (\<exists>i \<in> {0..<n - 2}. \<not> meets (lead n a i) (lead n b i))
    | Some os \<Rightarrow> cols tA a = rows tB b \<and> (\<forall>i \<in> {0..<n - 2}. meets (lead n a i) (lead n b i)) \<and>
        (\<exists>out'. os = [out'] \<and> dimensions out' = n \<and> ttype out' = ttype a \<and>
          (\<forall>i \<in> {0..<n - 2}. extent out' i = joined (lead n a i) (lead n b i)) \<and>
          extent out' (n - 2) = rows tA a \<and> extent out' (n - 1) = cols tB b)"
proof (cases "cols tA a = rows tB b")
  case False
  then have "computeMatMulSize tA tB a b = None" by (simp add: computeMatMulSize_matrices assms(1,2))
  then show ?thesis using False by (simp add: MatMulSizeComputer_def Let_def)
next
  case True
  have mm: "computeMatMulSize tA tB a b = Some (rows tA a, cols tA a, cols tB b)"
    using True by (simp add: computeMatMulSize_matrices assms(1,2))
  define big where "big = (if dimensions b > dimensions a then b else a)"
  define small where "small = (if dimensions b > dimensions a then a else b)"
  define d where "d = n - dimensions small"
  define o0 where "o0 = fill 0 (n - 2) (extent big) (out\<lparr>ttype := ttype a, dimensions := n\<rparr>)"
  have bd: "dimensions big = n" "dimensions small \<le> n" "0 \<le> d" "2 \<le> dimensions small"
    using assms by (auto simp: big_def small_def d_def)
  let ?xs = "[d..n - 2 - 1]"
  let ?r = "fold_opt (matmul_dim small d) o0 ?xs"
  let ?fin = "\<lambda>o'. (setLength (n - 1) (cols tB b) (setLength (n - 2) (rows tA a) o'))\<lparr>dimensionFormat := dimensionFormat a\<rparr>"
  have ev: "MatMulSizeComputer tA tB [a, b] [out] = (case ?r of None \<Rightarrow> None | Some o' \<Rightarrow> Some [?fin o'])"
    using assms mm by (auto simp: MatMulSizeComputer_def Let_def o0_def big_def small_def d_def max_def split: option.splits)
  have lm: "(\<forall>i \<in> {0..<n - 2}. meets (lead n a i) (lead n b i)) \<longleftrightarrow> (\<forall>i \<in> set ?xs. meets (extent o0 i) (extent small (i - d)))"
  proof -
    have "meets (lead n a i) (lead n b i) \<longleftrightarrow> (i \<in> set ?xs \<longrightarrow> meets (extent o0 i) (extent small (i - d)))"
      if "0 \<le> i" "i < n - 2" for i
      using that assms by (auto simp: o0_def big_def small_def d_def lead_def meets_def max_def)
    then show ?thesis using bd(3) by fastforce
  qed
  have lj: "joined (lead n a i) (lead n b i) =
      (if i \<in> set ?xs then joined (extent big i) (extent small (i - d)) else extent big i)" if "0 \<le> i" "i < n - 2" for i
    using that assms by (auto simp: big_def small_def d_def lead_def joined_def max_def mult.commute)
  show ?thesis
  proof (cases ?r)
    case None
    then show ?thesis using ev lm fold_opt_matmul_None [of ?xs small d o0] by auto
  next
    case (Some o')
    then have o': "\<forall>i \<in> set ?xs. meets (extent o0 i) (extent small (i - d))" "dimensions o' = n" "ttype o' = ttype a"
      "\<forall>i. extent o' i = (if i \<in> set ?xs then joined (extent o0 i) (extent small (i - d)) else extent o0 i)"
      using matmul_loop [where xs = ?xs and b = small and d = d and out = o0] by (simp_all add: o0_def)
    have "extent (?fin o') i = joined (lead n a i) (lead n b i)" if "0 \<le> i" "i < n - 2" for i
      using that o'(4) lj [OF that] by (simp add: o0_def)
    then show ?thesis using True Some ev lm o' by simp
  qed
qed

theorem MatMul_shape_witness:
  "\<exists>out'. MatMulSizeComputer False True [w_tensor [5, 1, 2, 3], w_tensor [7, 4, 3]] [w_tensor []] = Some [out'] \<and>
     shape out' = [5, 7, 2, 4] \<and> extent out' 2 = rows False (w_tensor [5, 1, 2, 3])"
proof -
  let ?a = "w_tensor [5, 1, 2, 3]" and ?b = "w_tensor [7, 4, 3]"
  have s: "map_option (map shape) (MatMulSizeComputer False True [?a, ?b] [w_tensor []]) = Some [[5, 7, 2, 4]]" by code_simp
  then obtain o' where o: "MatMulSizeComputer False True [?a, ?b] [w_tensor []] = Some [o']" "shape o' = [5, 7, 2, 4]" by auto
  have "extent o' 2 = rows False ?a"
    using MatMul_shape [of ?a ?b 4 False True "w_tensor []"] o(1) by simp
  then show ?thesis using o by blast
qed

end
