(* ===== verification/Shape_Misc.thy ===== *)
theory Shape_Misc
  imports Shape_Window
begin

text \<open>
  Shape inference of the remaining operators of \<^verbatim>\<open>source/shape\<close>: ranges, samplers, detection heads, set
  operations and quantization.
\<close>

section \<open>Ranges and samples\<close>

text \<open>
  \<^verbatim>\<open>computeSize<int32_t>\<close> works in \<^verbatim>\<open>float\<close>; for values below \<open>2 ^ 24\<close> its result is the exact
  ceiling below. The size of a range of floats is the parameter \<open>rangeSizeF\<close>.
\<close>

definition range_size :: "int \<Rightarrow> int \<Rightarrow> int \<Rightarrow> int" where
  "range_size start limit delta =
     (if delta > 0 then (if limit < start then 0 else ceil_div \<bar>limit - start\<bar> \<bar>delta\<bar>)
      else if limit > start then 0 else ceil_div \<bar>limit - start\<bar> \<bar>delta\<bar>)"

definition RangeComputer :: "(Tensor list \<Rightarrow> int) \<Rightarrow> shape_fun" where
  "RangeComputer rangeSizeF inputs outputs =
     (let (output_size, out) =
            (case code (ttype (inputs ! 0)) of
               halide_type_int \<Rightarrow>
                 (range_size (hostv (inputs ! 0) 0) (hostv (inputs ! 1) 0) (hostv (inputs ! 2) 0),
                  setType DT_INT32 (outputs ! 0))
             | halide_type_float \<Rightarrow> (rangeSizeF inputs, setType DT_FLOAT (outputs ! 0))
             | _ \<Rightarrow> (0, outputs ! 0))
      in Some (set_out outputs
           ((setLength 0 output_size (out\<lparr>dimensions := 1\<rparr>))\<lparr>dimensionFormat := dimensionFormat (inputs ! 0)\<rparr>)))"

definition LinSpaceSizeComputer :: shape_fun where
  "LinSpaceSizeComputer inputs outputs =
     Some (set_out outputs
       ((setType DT_FLOAT (setLength 0 (hostv (inputs ! 2) 0) ((outputs ! 0)\<lparr>dimensions := 1\<rparr>)))
          \<lparr>dimensionFormat := dimensionFormat (inputs ! 0)\<rparr>))"

definition RandomUniformComputer :: "DataType \<Rightarrow> shape_fun" where
  "RandomUniformComputer ty inputs outputs =
     (let n = elementSize (inputs ! 0)
      in Some (set_out outputs
           (fill 0 n (hostv (inputs ! 0)) ((setType ty (outputs ! 0))\<lparr>dimensions := n\<rparr>))))"

definition GridSampleSizeComputer :: shape_fun where
  "GridSampleSizeComputer inputs outputs =
     (let i0 = inputs ! 0; i1 = inputs ! 1;
          ob = (outputs ! 0)\<lparr>ttype := ttype i0, dimensionFormat := dimensionFormat i0\<rparr>
      in if length inputs > 2 then
           Some (set_out outputs
             (fill 0 (extent (inputs ! 2) 0) (hostv (inputs ! 2)) (ob\<lparr>dimensions := extent (inputs ! 2) 0\<rparr>)))
         else if extent i0 0 \<noteq> extent i1 0 then None
         else
           (let ob = setLength 3 (extent i1 2) (setLength 2 (extent i1 1)
                  (setLength 1 (extent i0 1) (setLength 0 (extent i0 0) (ob\<lparr>dimensions := dimensions i1\<rparr>))))
            in Some (set_out outputs (if dimensions i1 = 5 then setLength 4 (extent i1 3) ob else ob))))"

definition CropAndResizeComputer :: shape_fun where
  "CropAndResizeComputer inputs outputs =
     (let image = inputs ! 0; boxes = inputs ! 1; box_index = inputs ! 2; crop_size = inputs ! 3;
          num_boxes = (if extent boxes 0 = 0 \<and> extent box_index 0 = 0 then 0 else extent boxes 0);
          out = setLength 3 (extent image 3) (setLength 2 (hostv crop_size 1)
                  (setLength 1 (hostv crop_size 0) (setLength 0 num_boxes ((outputs ! 0)\<lparr>dimensions := 4\<rparr>))))
      in Some (set_out outputs (out\<lparr>dimensionFormat := dimensionFormat image, ttype := ttype image\<rparr>)))"

definition NonMaxSuppressionV2Computer :: shape_fun where
  "NonMaxSuppressionV2Computer inputs outputs =
     (let num_boxes = extent (inputs ! 0) 0;
          output_size = (if length inputs > 2 \<and> host (inputs ! 2) \<noteq> None
                         then min (hostv (inputs ! 2) 0) num_boxes else num_boxes);
          out = setLength 0 output_size (setType DT_INT32 ((outputs ! 0)\<lparr>dimensions := 1\<rparr>))
      in Some (set_out outputs (out\<lparr>dimensionFormat := dimensionFormat (inputs ! 0)\<rparr>)))"

definition StftOpComputer :: "bool \<Rightarrow> shape_fun" where
  "StftOpComputer absParam inputs outputs =
     (let batch_size = extent (inputs ! 0) 0; signal_length = extent (inputs ! 0) 1;
          frame_length = extent (inputs ! 2) 0;
          nstfts = (signal_length - frame_length) sdiv hostv (inputs ! 1) 0 + 1;
          dft_unique_bins = (if absParam then frame_length sdiv 2 + 1 else frame_length);
          out = setLength 2 dft_unique_bins (setLength 1 nstfts
                  (setLength 0 batch_size (setLength 3 2 ((outputs ! 0)\<lparr>dimensions := 4\<rparr>))))
      in Some (set_out outputs (out\<lparr>dimensionFormat := dimensionFormat (inputs ! 0)\<rparr>)))"

section \<open>Detection heads\<close>

definition ProposalComputer :: "int \<Rightarrow> shape_fun" where
  "ProposalComputer afterNmsTopN inputs outputs =
     (let n = afterNmsTopN * extent (inputs ! 0) 0;
          put = (\<lambda>c t. setLength 0 n (setLength 1 c (setLength 2 1 (setLength 3 1 t))));
          outs = set_out outputs
            ((put 5 (outputs ! 0))\<lparr>ttype := float_t, dimensionFormat := dimensionFormat (inputs ! 0)\<rparr>)
      in Some (if length outputs > 1 then outs[1 := put 1 (outputs ! 1)] else outs))"

definition DetectionOutputComputer :: "int \<Rightarrow> shape_fun" where
  "DetectionOutputComputer keepTopK inputs outputs =
     Some (set_out outputs
       ((setLength 3 6 (setLength 2 keepTopK (setLength 1 1 (setLength 0 1 (outputs ! 0)))))
          \<lparr>dimensionFormat := MNN_DATA_FORMAT_NC4HW4, ttype := float_t\<rparr>))"

definition detection_out :: "int list \<Rightarrow> Tensor \<Rightarrow> Tensor" where
  "detection_out ds t =
     (fill 0 (int (length ds)) (\<lambda>i. ds ! nat i) (t\<lparr>dimensions := int (length ds)\<rparr>))\<lparr>ttype := float_t\<rparr>"

definition DetectionPostProcessSize :: "int \<Rightarrow> int \<Rightarrow> shape_fun" where
  "DetectionPostProcessSize maxDetections maxClassesPerDetection inputs outputs =
     (let numDetectedBoxes = maxDetections * maxClassesPerDetection; bathSize = batch (inputs ! 0)
      in Some (outputs[0 := detection_out [bathSize, numDetectedBoxes, 4] (outputs ! 0),
                       1 := detection_out [bathSize, numDetectedBoxes] (outputs ! 1),
                       2 := detection_out [bathSize, numDetectedBoxes] (outputs ! 2),
                       3 := detection_out [1] (outputs ! 3)]))"

text \<open>
  The anchors of a prior box: aspect ratios already seen (within \<open>10\<close> to the power \<open>-6\<close>, by the
  parameter \<open>same\<close> on floats) are skipped; \<open>recip\<close> is \<^verbatim>\<open>1.0f / ratio\<close>.
\<close>

definition aspect_ratios :: "('f \<Rightarrow> 'f \<Rightarrow> bool) \<Rightarrow> ('f \<Rightarrow> 'f) \<Rightarrow> 'f \<Rightarrow> bool \<Rightarrow> 'f list \<Rightarrow> 'f list" where
  "aspect_ratios same recip one flip ratios =
     fold (\<lambda>ratio vs.
         if \<exists>v \<in> set vs. same v ratio then vs
         else if flip then vs @ [ratio, recip ratio] else vs @ [ratio]) ratios [one]"

definition PriorBoxComputer ::
    "('f \<Rightarrow> 'f \<Rightarrow> bool) \<Rightarrow> ('f \<Rightarrow> 'f) \<Rightarrow> 'f \<Rightarrow> bool \<Rightarrow> 'f list \<Rightarrow> int \<Rightarrow> int \<Rightarrow> shape_fun" where
  "PriorBoxComputer same recip one flip ratios minSizeCount maxSizeCount inputs outputs =
     (let w = width (inputs ! 0); h = height (inputs ! 0);
          priorCount = minSizeCount * int (length (aspect_ratios same recip one flip ratios)) + maxSizeCount;
          out = setLength 3 1 (setLength 2 (4 * w * h * priorCount) (setLength 1 2 (setLength 0 1 (outputs ! 0))))
      in Some (set_out outputs (out\<lparr>ttype := float_t, dimensionFormat := MNN_DATA_FORMAT_NC4HW4\<rparr>)))"

definition roi_out :: "int \<Rightarrow> int \<Rightarrow> Tensor list \<Rightarrow> Tensor \<Rightarrow> Tensor" where
  "roi_out pooledWidth pooledHeight inputs t =
     (setLength 0 (batch (inputs ! 1)) (setLength 2 pooledHeight (setLength 3 pooledWidth
       (copyDims (dimensions (inputs ! 0)) (inputs ! 0) t))))
         \<lparr>ttype := float_t, dimensionFormat := dimensionFormat (inputs ! 0)\<rparr>"

definition ROIPoolingComputer :: "int \<Rightarrow> int \<Rightarrow> shape_fun" where
  "ROIPoolingComputer pooledWidth pooledHeight inputs outputs =
     Some (if length inputs = 2 then set_out outputs (roi_out pooledWidth pooledHeight inputs (outputs ! 0))
           else if length inputs = 3 then
             set_out outputs ((copyShape (inputs ! 0) True False (outputs ! 0))\<lparr>ttype := ttype (inputs ! 0)\<rparr>)
           else outputs)"

definition ROIAlignComputer :: "int \<Rightarrow> int \<Rightarrow> shape_fun" where
  "ROIAlignComputer pooledWidth pooledHeight inputs outputs =
     Some (if length inputs = 2 \<or> length inputs = 3
           then set_out outputs (roi_out pooledWidth pooledHeight inputs (outputs ! 0))
           else if length inputs = 4 then
             set_out outputs ((copyShape (inputs ! 0) True False (outputs ! 0))\<lparr>ttype := ttype (inputs ! 0)\<rparr>)
           else outputs)"

section \<open>Sets, scatters and quantization\<close>

definition ShapeScatterNd :: shape_fun where
  "ShapeScatterNd inputs outputs =
     (let updates = inputs ! 1; shp = inputs ! 2; n = extent shp 0
      in Some (set_out outputs
           ((fill 0 n (hostv shp) ((outputs ! 0)\<lparr>dimensions := n\<rparr>))
              \<lparr>ttype := ttype updates, dimensionFormat := dimensionFormat updates\<rparr>)))"

definition ShapeSetDiff1D :: shape_fun where
  "ShapeSetDiff1D inputs outputs =
     (let a = inputs ! 0; b = inputs ! 1
      in if code (ttype a) \<noteq> halide_type_int \<or> code (ttype b) \<noteq> halide_type_int then None
         else if host a = None \<or> host b = None then None
         else
           (let outputNum =
                  fold (\<lambda>i n. if \<exists>j \<in> set [0..elementSize b - 1]. hostv a i = hostv b j then n else n + 1)
                    [0..elementSize a - 1] 0;
                ob = (outputs ! 0)\<lparr>dimensions := 1, dimensionFormat := dimensionFormat a, ttype := ttype a\<rparr>
            in Some (set_out outputs (setLength 0 outputNum ob))))"

definition ShapeUnique :: shape_fun where
  "ShapeUnique inputs outputs =
     (let input = inputs ! 0; eleSize = elementSize input
      in if bytes (ttype input) \<noteq> 4 then None
         else if host input = None then None
         else
           (let n = int (length (remdups (map (hostv input) [0..eleSize - 1])));
                o0 = setLength 0 n ((outputs ! 0)\<lparr>dimensions := 1, dimensionFormat := dimensionFormat input,
                       ttype := ttype input\<rparr>);
                vec = (\<lambda>k t. (setLength 0 k (t\<lparr>dimensions := 1\<rparr>))
                         \<lparr>dimensionFormat := dimensionFormat input, ttype := int32_t\<rparr>);
                outs = set_out outputs o0;
                outs = (if length outputs > 1
                        then outs[1 := (copyShape o0 True False (outputs ! 1))\<lparr>ttype := int32_t\<rparr>] else outs);
                outs = (if length outputs > 2 then outs[2 := vec eleSize (outputs ! 2)] else outs);
                outs = (if length outputs > 3 then outs[3 := vec n (outputs ! 3)] else outs)
            in Some outs))"

definition UnravelIndexSize :: shape_fun where
  "UnravelIndexSize inputs outputs =
     (let indices = inputs ! 0; dims = inputs ! 1; out = setType DT_INT32 (outputs ! 0)
      in Some (set_out outputs
           (if dimensions indices = 0 then setLength 0 (extent dims 0) (out\<lparr>dimensions := 1\<rparr>)
            else setLength 1 (elementSize indices) (setLength 0 (extent dims 0) (out\<lparr>dimensions := 2\<rparr>)))))"

definition ShapeHistogram :: "int \<Rightarrow> shape_fun" where
  "ShapeHistogram outMaxVal inputs outputs =
     Some (set_out outputs
       ((setLength 0 outMaxVal ((outputs ! 0)\<lparr>dimensions := 1\<rparr>))
          \<lparr>ttype := float_t, dimensionFormat := dimensionFormat (inputs ! 0)\<rparr>))"

definition SegmentMeanSizeComputer :: shape_fun where
  "SegmentMeanSizeComputer inputs outputs =
     (let input = inputs ! 0; dataDim = dimensions input; S = extent input 0;
          out = setLength 0 (hostv (inputs ! 1) (S - 1) + 1) ((outputs ! 0)\<lparr>dimensions := dataDim\<rparr>)
      in Some (set_out outputs ((fill 1 dataDim (extent input) out)\<lparr>dimensionFormat := dimensionFormat input\<rparr>)))"

definition DynamicQuantComputer :: shape_fun where
  "DynamicQuantComputer inputs outputs =
     (if length inputs \<noteq> 1 then None
      else
        (let input = inputs ! 0; n = dimensions input;
             out = (fill 0 n (extent input) ((outputs ! 0)\<lparr>dimensions := n\<rparr>))
                     \<lparr>dimensionFormat := dimensionFormat input, ttype := int8_t\<rparr>;
             scale = (setLength 0 1 ((outputs ! 1)\<lparr>dimensions := 1\<rparr>))
                       \<lparr>dimensionFormat := dimensionFormat input, ttype := float_t\<rparr>;
             zeroPoint = (setLength 0 1 ((outputs ! 2)\<lparr>dimensions := 1\<rparr>))\<lparr>ttype := float_t\<rparr>
         in Some (outputs[0 := out, 1 := scale, 2 := zeroPoint])))"

definition ShapeDequantize :: shape_fun where
  "ShapeDequantize inputs outputs =
     Some (set_out outputs ((copyShape (inputs ! 0) True False (outputs ! 0))\<lparr>ttype := float_t\<rparr>))"

definition CosineSimilaritySize :: shape_fun where
  "CosineSimilaritySize inputs outputs =
     (let x1 = inputs ! 0; dim = hostv (inputs ! 2) 0; n = dimensions x1;
          out = fold (\<lambda>i out. if i = dim then out
                       else setLength (if i > dim then i - 1 else i) (extent x1 i) out)
                  [0..n - 1] ((outputs ! 0)\<lparr>dimensions := n - 1\<rparr>)
      in Some (set_out outputs (out\<lparr>ttype := ttype x1, dimensionFormat := MNN_DATA_FORMAT_NCHW\<rparr>)))"

text \<open>Moments is compiled only with the deprecated operators.\<close>

definition MomentsComputer :: "int list option \<Rightarrow> bool \<Rightarrow> shape_fun" where
  "MomentsComputer mdim keepDims inputs outputs =
     (let input = inputs ! 0
      in case mdim of
           None \<Rightarrow>
             (let f = (\<lambda>t. t\<lparr>ttype := ttype input, dimensions := 0, dimensionFormat := MNN_DATA_FORMAT_NCHW\<rparr>)
              in Some (outputs[0 := f (outputs ! 0), 1 := f (outputs ! 1)]))
         | Some ds \<Rightarrow>
             (let outputShape =
                    concat (map (\<lambda>i. if i \<notin> set ds then [extent input i] else if keepDims then [1] else [])
                      [0..dimensions input - 1]);
                  n = int (length outputShape);
                  f = (\<lambda>t. (fill 0 n (\<lambda>i. outputShape ! nat i) (t\<lparr>ttype := ttype input, dimensions := n\<rparr>))
                             \<lparr>dimensionFormat := MNN_DATA_FORMAT_NC4HW4\<rparr>)
              in Some (outputs[0 := f (outputs ! 0), 1 := f (outputs ! 1)])))"

end
