(* ===== verification/Region_Model.thy ===== *)
theory Region_Model
  imports Shape_Tensor
begin

text \<open>
  Regions (\<^verbatim>\<open>source/core/TensorUtils.hpp\<close>, \<^verbatim>\<open>source/core/TensorUtils.cpp\<close>): strided copies of up to
  three loops, the form to which the geometry stage reduces every operator that only moves data.
  A C array \<^verbatim>\<open>int32_t[3]\<close> is a list of length three; memory is a function from positions to values;
  a tensor is a number, and \<^verbatim>\<open>nullptr\<close> is \<^const>\<open>None\<close>. Positions are mathematical integers.
\<close>

section \<open>Data\<close>

record View =
  v_offset :: int
  v_stride :: "int list"

record Region =
  r_src :: View
  r_dst :: View
  r_size :: "int list"
  r_origin :: "nat option"

definition view0 :: View where
  "view0 = \<lparr>v_offset = 0, v_stride = [1, 1, 1]\<rparr>"

definition region0 :: Region where
  "region0 = \<lparr>r_src = view0, r_dst = view0, r_size = [1, 1, 1], r_origin = None\<rparr>"

abbreviation rsize :: "Region \<Rightarrow> nat \<Rightarrow> int" where "rsize r i \<equiv> r_size r ! i"
abbreviation sstride :: "Region \<Rightarrow> nat \<Rightarrow> int" where "sstride r i \<equiv> v_stride (r_src r) ! i"
abbreviation dstride :: "Region \<Rightarrow> nat \<Rightarrow> int" where "dstride r i \<equiv> v_stride (r_dst r) ! i"
abbreviation soffset :: "Region \<Rightarrow> int" where "soffset r \<equiv> v_offset (r_src r)"
abbreviation doffset :: "Region \<Rightarrow> int" where "doffset r \<equiv> v_offset (r_dst r)"

text \<open>The arrays of a region have three elements.\<close>

definition wf_region :: "Region \<Rightarrow> bool" where
  "wf_region r \<longleftrightarrow> length (r_size r) = 3 \<and> length (v_stride (r_src r)) = 3 \<and> length (v_stride (r_dst r)) = 3"

definition mk_region :: "int \<Rightarrow> int list \<Rightarrow> int \<Rightarrow> int list \<Rightarrow> int list \<Rightarrow> nat option \<Rightarrow> Region" where
  "mk_region so ss do ds sz orig =
     \<lparr>r_src = \<lparr>v_offset = so, v_stride = ss\<rparr>, r_dst = \<lparr>v_offset = do, v_stride = ds\<rparr>,
      r_size = sz, r_origin = orig\<rparr>"

section \<open>What a region means\<close>

text \<open>The three nested loops of \<^verbatim>\<open>_computeRaw\<close>, without its initial \<^verbatim>\<open>memset\<close>.\<close>

definition copyRegion :: "Region \<Rightarrow> (int \<Rightarrow> 'a) \<Rightarrow> (int \<Rightarrow> 'a) \<Rightarrow> int \<Rightarrow> 'a" where
  "copyRegion r src dst =
     fold (\<lambda>z. fold (\<lambda>y. fold (\<lambda>x d.
         d(doffset r + z * dstride r 0 + y * dstride r 1 + x * dstride r 2 :=
           src (soffset r + z * sstride r 0 + y * sstride r 1 + x * sstride r 2)))
       [0..rsize r 2 - 1]) [0..rsize r 1 - 1]) [0..rsize r 0 - 1] dst"

definition computeRaw :: "'a \<Rightarrow> Region \<Rightarrow> (int \<Rightarrow> 'a) \<Rightarrow> int \<Rightarrow> 'a" where
  "computeRaw zero r src = copyRegion r src (\<lambda>_. zero)"

text \<open>
  The raster command of a tensor (\<^verbatim>\<open>CPURaster\<close>): the output is cleared unless its regions are full,
  then the regions are copied in order; an input without memory is skipped.
\<close>

definition rasterCopy :: "(nat \<Rightarrow> int \<Rightarrow> 'a) \<Rightarrow> Region \<Rightarrow> (int \<Rightarrow> 'a) \<Rightarrow> int \<Rightarrow> 'a" where
  "rasterCopy env r dst = (case r_origin r of None \<Rightarrow> dst | Some t \<Rightarrow> copyRegion r (env t) dst)"

definition rasterRegions :: "(nat \<Rightarrow> int \<Rightarrow> 'a) \<Rightarrow> Region list \<Rightarrow> (int \<Rightarrow> 'a) \<Rightarrow> int \<Rightarrow> 'a" where
  "rasterRegions env rs dst = fold (rasterCopy env) rs dst"

definition elementCount :: "Tensor \<Rightarrow> int" where
  "elementCount t = fold (\<lambda>i size. size * tlength t i) [0..dimensions t - 1] 1"

definition regionSum :: "Region list \<Rightarrow> int" where
  "regionSum rs = fold (\<lambda>r n. n + rsize r 1 * rsize r 0 * rsize r 2) rs 0"

definition regionIsFull :: "Tensor \<Rightarrow> Region list \<Rightarrow> bool" where
  "regionIsFull t rs \<longleftrightarrow> regionSum rs = elementCount t"

definition raster :: "'a \<Rightarrow> (nat \<Rightarrow> int \<Rightarrow> 'a) \<Rightarrow> Tensor \<Rightarrow> Region list \<Rightarrow> (int \<Rightarrow> 'a) \<Rightarrow> int \<Rightarrow> 'a" where
  "raster zero env out rs mem = rasterRegions env rs (if regionIsFull out rs then mem else (\<lambda>_. zero))"

section \<open>Simple regions\<close>

definition makeFullSlice :: "nat \<Rightarrow> Tensor \<Rightarrow> Region" where
  "makeFullSlice i input =
     (let n = elementCount input
      in mk_region 0 [n, n, 1] 0 [n, n, 1] [1, 1, n] (Some i))"

definition makeFullRef :: "nat \<Rightarrow> Tensor \<Rightarrow> Region list option \<Rightarrow> Region list" where
  "makeFullRef i input virtual = (case virtual of Some rs \<Rightarrow> rs | None \<Rightarrow> [makeFullSlice i input])"

definition reshapeSlice :: "Region \<Rightarrow> int \<Rightarrow> int \<Rightarrow> int \<Rightarrow> bool \<times> Region" where
  "reshapeSlice slice outside inside axis =
     (if rsize slice 1 = 1 \<and> rsize slice 0 = 1 \<and> rsize slice 2 = outside * inside * axis then
        (let originStride = sstride slice 2
         in (True, slice\<lparr>r_size := [outside, axis, inside],
               r_dst := (r_dst slice)\<lparr>v_stride := [inside * axis, inside, dstride slice 2]\<rparr>,
               r_src := (r_src slice)\<lparr>v_stride := [originStride * inside * axis, originStride * inside, originStride]\<rparr>\<rparr>))
      else (rsize slice 0 = outside \<and> rsize slice 1 = axis \<and> rsize slice 2 = inside, slice))"

definition isCopyRegion :: "Region \<Rightarrow> bool" where
  "isCopyRegion r \<longleftrightarrow> (\<forall>i \<in> {0, 1, 2}. sstride r i = dstride r i \<or> rsize r i \<le> 1)"

definition isTileRegion :: "Region \<Rightarrow> bool" where
  "isTileRegion r \<longleftrightarrow>
     (\<forall>i \<in> {0, 1, 2}. sstride r i \<noteq> 0 \<and> rsize r i > 1 \<longrightarrow> sstride r i = dstride r i)"

fun transposeAxes :: "Region \<Rightarrow> nat list \<Rightarrow> nat option \<times> nat option \<Rightarrow> (nat option \<times> nat option) option" where
  "transposeAxes r [] p = Some p"
| "transposeAxes r (i # is) (srcOne, dstOne) =
     (if sstride r i = 1 \<and> rsize r i \<noteq> 1 \<and> srcOne \<noteq> None then None
      else let s = (if sstride r i = 1 \<and> rsize r i \<noteq> 1 then Some i else srcOne)
           in if dstride r i = 1 \<and> rsize r i \<noteq> 1 \<and> dstOne \<noteq> None then None
              else transposeAxes r is (s, if dstride r i = 1 \<and> rsize r i \<noteq> 1 then Some i else dstOne))"

definition isTransposeRegion :: "Region \<Rightarrow> bool" where
  "isTransposeRegion r =
     (case transposeAxes r [0, 1, 2] (None, None) of None \<Rightarrow> False
      | Some (s, d) \<Rightarrow> s \<noteq> None \<and> d \<noteq> None \<and> s \<noteq> d)"

section \<open>Strides and coordinates\<close>

text \<open>\<^verbatim>\<open>OpCommonUtils::computeStride\<close>: the strides of a row-major shape, and its number of elements.\<close>

fun computeStride :: "int list \<Rightarrow> int list \<times> int" where
  "computeStride [] = ([], 1)"
| "computeStride (d # ds) = (let (strides, stride) = computeStride ds in (stride # strides, stride * d))"

fun unravelIndexHelper :: "int list \<Rightarrow> int \<Rightarrow> int list" where
  "unravelIndexHelper [] indice = []"
| "unravelIndexHelper (m # ms) indice = indice sdiv m # unravelIndexHelper ms (indice smod m)"

end
