(* ===== verification/Region_Box.thy ===== *)
theory Region_Box
  imports Region_Model "HOL-Library.Multiset"
begin

text \<open>
  The meaning of regions as lists of pairs (position written, position read), boxes of any number of
  loops, and row-major positions of multi-dimensional indices: the vocabulary in which the geometry
  stage is proved correct.
\<close>

section \<open>Boxes\<close>

text \<open>A loop is its size with the step of the source and the step of the destination.\<close>

type_synonym loop = "int \<times> int \<times> int"

abbreviation move :: "int \<Rightarrow> int \<Rightarrow> int \<times> int \<Rightarrow> int \<times> int" where
  "move a b p \<equiv> (a + fst p, b + snd p)"

fun box :: "loop list \<Rightarrow> (int \<times> int) list" where
  "box [] = [(0, 0)]"
| "box ((n, u, v) # ls) = concat (map (\<lambda>i. map (move (i * v) (i * u)) (box ls)) [0..n - 1])"

definition loops :: "Region \<Rightarrow> loop list" where
  "loops r = [(rsize r 0, sstride r 0, dstride r 0), (rsize r 1, sstride r 1, dstride r 1),
              (rsize r 2, sstride r 2, dstride r 2)]"

definition regionPairs :: "Region \<Rightarrow> (int \<times> int) list" where
  "regionPairs r = map (move (doffset r) (soffset r)) (box (loops r))"

lemma fold_concat_map: "fold f (concat (map g xs)) = fold (\<lambda>x. fold f (g x)) xs"
  by (induction xs) auto

lemma copyRegion_pairs:
  "copyRegion r src dst = fold (\<lambda>p d. d(fst p := src (snd p))) (regionPairs r) dst"
  unfolding copyRegion_def regionPairs_def loops_def
  by (simp only: box.simps map_concat fold_concat_map fold_map map_map list.map fold_simps comp_def id_apply)
    (simp add: fold_map fold_concat_map comp_def algebra_simps)

lemma in_box_Cons:
  "(x, y) \<in> set (box ((n, u, v) # ls)) \<longleftrightarrow> (\<exists>i. 0 \<le> i \<and> i < n \<and> (x - i * v, y - i * u) \<in> set (box ls))"
proof -
  have "(x, y) \<in> set (box ((n, u, v) # ls)) \<longleftrightarrow> (\<exists>i. 0 \<le> i \<and> i < n \<and> (x, y) \<in> move (i * v) (i * u) ` set (box ls))"
    by auto
  moreover have "(x, y) \<in> move (i * v) (i * u) ` set (box ls) \<longleftrightarrow> (x - i * v, y - i * u) \<in> set (box ls)" for i
    by (force simp: image_iff)
  ultimately show ?thesis by simp
qed

declare box.simps(2) [simp del]

lemma div_pos_less:
  fixes k m n :: int
  assumes "0 < m" "k < n * m"
  shows "k div m < n"
proof (rule ccontr)
  assume "\<not> k div m < n"
  then have "n * m \<le> k div m * m" using assms by (intro mult_right_mono) auto
  moreover have "k div m * m + k mod m = k" by simp
  moreover have "0 \<le> k mod m" using assms by simp
  ultimately show False using assms by linarith
qed

lemma ex_bound_one: "(\<exists>i :: int. 0 \<le> i \<and> i < 1 \<and> P i) \<longleftrightarrow> P 0"
proof -
  have "(0 \<le> i \<and> i < 1 \<and> P i) \<longleftrightarrow> (i = 0 \<and> P i)" for i by auto
  then show ?thesis by simp
qed

lemma box_drop_one [simp]: "set (box ((1, u, v) # ls)) = set (box ls)"
proof (rule set_eqI)
  fix p
  show "p \<in> set (box ((1, u, v) # ls)) \<longleftrightarrow> p \<in> set (box ls)"
    by (cases p) (simp add: in_box_Cons ex_bound_one)
qed

lemma box_empty: "n \<le> 0 \<Longrightarrow> set (box ((n, u, v) # ls)) = {}"
  by (rule set_eqI) (auto simp: split_paired_all in_box_Cons)

lemma box_cong: "set (box ls) = set (box ms) \<Longrightarrow> set (box (l # ls)) = set (box (l # ms))"
  by (cases l, rule set_eqI) (simp only: split_paired_all in_box_Cons)

lemma box_append_cong: "set (box ls) = set (box ms) \<Longrightarrow> set (box (ks @ ls)) = set (box (ks @ ms))"
  by (induction ks) (simp, metis append_Cons box_cong)

lemma box_swap: "set (box (k # l # ls)) = set (box (l # k # ls))"
proof -
  have "set (box ((n, u, v) # (m, s, t) # ls)) \<subseteq> set (box ((m, s, t) # (n, u, v) # ls))" for n u v m s t
  proof (rule subsetI, simp only: split_paired_all in_box_Cons, elim exE conjE)
    fix x y i j
    assume h: "0 \<le> i" "i < n" "0 \<le> j" "j < m" "(x - i * v - j * t, y - i * u - j * s) \<in> set (box ls)"
    have "x - i * v - j * t = x - j * t - i * v" "y - i * u - j * s = y - j * s - i * u" by simp_all
    then have "(x - j * t - i * v, y - j * s - i * u) \<in> set (box ls)" using h(5) by (simp only:)
    then show "\<exists>j. 0 \<le> j \<and> j < m \<and> (\<exists>i. 0 \<le> i \<and> i < n \<and> (x - j * t - i * v, y - j * s - i * u) \<in> set (box ls))"
      using h by blast
  qed
  then show ?thesis by (cases k; cases l) blast
qed

lemma box_move_front: "set (box (xs @ l # ys)) = set (box (l # xs @ ys))"
proof (induction xs)
  case (Cons x xs)
  have "set (box (x # xs @ l # ys)) = set (box (x # l # xs @ ys))" using Cons by (rule box_cong)
  also have "\<dots> = set (box (l # x # xs @ ys))" by (rule box_swap)
  finally show ?case by simp
qed simp

lemma box_perm: "mset ls = mset ms \<Longrightarrow> set (box ls) = set (box ms)"
proof (induction ls arbitrary: ms)
  case (Cons l ls)
  then have "l \<in> set ms" by (metis list.set_intros(1) mset_eq_setD)
  then obtain xs ys where ms: "ms = xs @ l # ys" by (auto dest: split_list)
  then have "set (box ls) = set (box (xs @ ys))" using Cons by auto
  then show ?case using box_cong [of ls "xs @ ys" l] by (simp add: ms box_move_front)
qed simp

text \<open>Two loops that continue each other on both sides are one loop.\<close>

lemma box_merge:
  assumes "0 < m"
  shows "set (box ((n, m * u, m * v) # (m, u, v) # ls)) = set (box ((n * m, u, v) # ls))"
proof (rule set_eqI, simp only: split_paired_all in_box_Cons, rule iffI; elim exE conjE)
  fix x y i j
  assume h: "0 \<le> i" "i < n" "0 \<le> j" "j < m" "(x - i * (m * v) - j * v, y - i * (m * u) - j * u) \<in> set (box ls)"
  have "(i + 1) * m \<le> n * m" using h assms by (intro mult_right_mono) auto
  then have "i * m + j < n * m" using h by (simp add: algebra_simps)
  moreover have "x - (i * m + j) * v = x - i * (m * v) - j * v" "y - (i * m + j) * u = y - i * (m * u) - j * u"
    by (simp_all add: algebra_simps)
  then have "(x - (i * m + j) * v, y - (i * m + j) * u) \<in> set (box ls)" using h(5) by (simp only:)
  moreover have "0 \<le> i * m + j" using h assms by simp
  ultimately show "\<exists>k. 0 \<le> k \<and> k < n * m \<and> (x - k * v, y - k * u) \<in> set (box ls)" by blast
next
  fix x y k
  assume h: "0 \<le> k" "k < n * m" "(x - k * v, y - k * u) \<in> set (box ls)"
  have "k div m < n" using div_pos_less [OF assms] h by simp
  moreover have "k * w = k div m * (m * w) + k mod m * w" for w
    by (metis div_mult_mod_eq distrib_right mult.assoc)
  then have "x - k div m * (m * v) - k mod m * v = x - k * v" "y - k div m * (m * u) - k mod m * u = y - k * u"
    by (metis diff_diff_eq)+
  then have "(x - k div m * (m * v) - k mod m * v, y - k div m * (m * u) - k mod m * u) \<in> set (box ls)"
    using h(3) by (simp only:)
  ultimately have "0 \<le> k div m \<and> k div m < n \<and> (\<exists>j. 0 \<le> j \<and> j < m \<and>
      (x - k div m * (m * v) - j * v, y - k div m * (m * u) - j * u) \<in> set (box ls))"
    using h assms by (auto simp: pos_imp_zdiv_nonneg_iff simp del: diff_diff_eq intro!: exI [where x = "k mod m"])
  then show "\<exists>i. 0 \<le> i \<and> i < n \<and> (\<exists>j. 0 \<le> j \<and> j < m \<and>
      (x - i * (m * v) - j * v, y - i * (m * u) - j * u) \<in> set (box ls))" by blast
qed

text \<open>Loops of size one can be left out.\<close>

lemma box_filter: "set (box (filter (\<lambda>l. fst l \<noteq> 1) ls)) = set (box ls)"
proof (induction ls)
  case (Cons l ls)
  obtain n u v where l: "l = (n, u, v)" by (cases l)
  show ?case using Cons box_cong [OF Cons, of l] by (cases "n = 1") (simp_all add: l)
qed simp

section \<open>Row-major positions\<close>

definition inShape :: "int list \<Rightarrow> int list \<Rightarrow> bool" where
  "inShape ds is \<longleftrightarrow> list_all2 (\<lambda>d i. 0 \<le> i \<and> i < d) ds is"

fun lin :: "int list \<Rightarrow> int list \<Rightarrow> int" where
  "lin (d # ds) (i # is) = i * prod_list ds + lin ds is"
| "lin _ _ = 0"

abbreviation dot :: "int list \<Rightarrow> int list \<Rightarrow> int" where
  "dot us is \<equiv> sum_list (map2 (*) is us)"

lemma inShape_simps [simp]:
  "inShape [] is \<longleftrightarrow> is = []"
  "inShape (d # ds) [] \<longleftrightarrow> False"
  "inShape (d # ds) (i # is) \<longleftrightarrow> 0 \<le> i \<and> i < d \<and> inShape ds is"
  by (auto simp: inShape_def)

lemma inShape_Cons: "inShape (d # ds) is \<longleftrightarrow> (\<exists>i js. is = i # js \<and> 0 \<le> i \<and> i < d \<and> inShape ds js)"
  by (cases "is") auto

lemma inShape_length: "inShape ds is \<Longrightarrow> length is = length ds"
  by (auto simp: inShape_def dest: list_all2_lengthD)

lemma inShape_nth: "inShape ds is \<longleftrightarrow> length is = length ds \<and> (\<forall>k < length ds. 0 \<le> is ! k \<and> is ! k < ds ! k)"
  by (auto simp: inShape_def list_all2_conv_all_nth)

lemma inShape_pos: "inShape ds is \<Longrightarrow> \<forall>d \<in> set ds. 0 < d"
  by (induction ds arbitrary: "is") (auto simp: inShape_Cons)

lemma inShape_append:
  "inShape (ds @ es) is \<longleftrightarrow> inShape ds (take (length ds) is) \<and> inShape es (drop (length ds) is)"
proof (induction ds arbitrary: "is")
  case (Cons d ds)
  then show ?case by (cases "is") auto
qed simp

lemma prod_list_pos: "\<forall>d \<in> set ds. (0 :: int) < d \<Longrightarrow> 0 < prod_list ds"
  by (induction ds) auto

lemma lin_bounds: "inShape ds is \<Longrightarrow> 0 \<le> lin ds is \<and> lin ds is < prod_list ds"
proof (induction ds arbitrary: "is")
  case (Cons d ds)
  then obtain i js where s: "is = i # js" "0 \<le> i" "i < d" "inShape ds js" by (auto simp: inShape_Cons)
  note b = Cons.IH [OF s(4)]
  then have p: "0 \<le> prod_list ds" by linarith
  have "(i + 1) * prod_list ds \<le> d * prod_list ds" using s p by (intro mult_right_mono) auto
  then show ?case using s b p by (simp add: algebra_simps)
qed simp

lemma lin_inj: "inShape ds is \<Longrightarrow> inShape ds js \<Longrightarrow> lin ds is = lin ds js \<Longrightarrow> is = js"
proof (induction ds arbitrary: "is" js)
  case (Cons d ds)
  then obtain i is' j js' where s: "is = i # is'" "js = j # js'" "inShape ds is'" "inShape ds js'"
    by (auto simp: inShape_Cons)
  let ?P = "prod_list ds"
  have b: "0 \<le> lin ds is'" "lin ds is' < ?P" "0 \<le> lin ds js'" "lin ds js' < ?P" using lin_bounds s by blast+
  have e: "i * ?P + lin ds is' = j * ?P + lin ds js'" using Cons.prems(3) by (simp add: s)
  have "(i * ?P + lin ds is') div ?P = i" "(j * ?P + lin ds js') div ?P = j" using b by simp_all
  then have "i = j" using e by metis
  then show ?case using e Cons.IH s by simp
qed simp

lemma lin_surj: "0 \<le> p \<Longrightarrow> p < prod_list ds \<Longrightarrow> \<forall>d \<in> set ds. 0 < d \<Longrightarrow> \<exists>is. inShape ds is \<and> lin ds is = p"
proof (induction ds arbitrary: p)
  case Nil
  then show ?case by (intro exI [of _ "[]"]) simp
next
  case (Cons d ds)
  let ?P = "prod_list ds"
  have P: "0 < ?P" using Cons.prems by (simp add: prod_list_pos)
  obtain js where js: "inShape ds js" "lin ds js = p mod ?P"
    using Cons.IH [of "p mod ?P"] Cons.prems P by auto
  have "0 \<le> p div ?P" "p div ?P < d" using Cons.prems P div_pos_less [OF P]
    by (simp_all add: pos_imp_zdiv_nonneg_iff)
  then show ?case using js by (intro exI [of _ "p div ?P # js"]) simp
qed

lemma lin_image: "\<forall>d \<in> set ds. 0 < d \<Longrightarrow> {lin ds is | is. inShape ds is} = {0..<prod_list ds}"
  using lin_bounds lin_surj by fastforce

lemma computeStride_snd [simp]: "snd (computeStride ds) = prod_list ds"
  by (induction ds) (auto simp: split_def)

abbreviation strides :: "int list \<Rightarrow> int list" where
  "strides ds \<equiv> fst (computeStride ds)"

lemma strides_simps [simp]: "strides [] = []" "strides (d # ds) = prod_list ds # strides ds"
  by (simp_all add: split_def)

declare computeStride.simps(2) [simp del]

lemma length_strides [simp]: "length (strides ds) = length ds"
  by (induction ds) auto

lemma strides_nth: "k < length ds \<Longrightarrow> strides ds ! k = prod_list (drop (Suc k) ds)"
proof (induction ds arbitrary: k)
  case (Cons d ds)
  then show ?case by (cases k) auto
qed simp

lemma lin_dot: "length is = length ds \<Longrightarrow> lin ds is = dot (strides ds) is"
  by (induction "is" ds rule: list_induct2) auto

lemma unravel_lin:
  assumes "inShape ds is"
  shows "unravelIndexHelper (strides ds) (lin ds is) = is"
  using assms
proof (induction ds arbitrary: "is")
  case (Cons d ds)
  then obtain i js where s: "is = i # js" "0 \<le> i" "i < d" "inShape ds js" by (auto simp: inShape_Cons)
  have b: "0 \<le> lin ds js" "lin ds js < prod_list ds" using lin_bounds [OF s(4)] by simp_all
  then have "0 \<le> i * prod_list ds + lin ds js" using s by simp
  then show ?case using s b Cons.IH [OF s(4)] by (simp add: sdiv_nonneg smod_nonneg)
qed simp

text \<open>The points of a box are the indices of its sizes.\<close>

abbreviation sizes :: "loop list \<Rightarrow> int list" where "sizes ls \<equiv> map fst ls"
abbreviation sstrides :: "loop list \<Rightarrow> int list" where "sstrides ls \<equiv> map (\<lambda>l. fst (snd l)) ls"
abbreviation dstrides :: "loop list \<Rightarrow> int list" where "dstrides ls \<equiv> map (\<lambda>l. snd (snd l)) ls"

lemma set_box_index:
  "set (box ls) = {(dot (dstrides ls) is, dot (sstrides ls) is) | is. inShape (sizes ls) is}"
proof (induction ls)
  case (Cons l ls)
  obtain n u v where l: "l = (n, u, v)" by (cases l)
  show ?case
  proof (rule set_eqI, simp only: split_paired_all l in_box_Cons Cons)
    fix x y
    show "(\<exists>i. 0 \<le> i \<and> i < n \<and> (x - i * v, y - i * u) \<in>
          {(dot (dstrides ls) is, dot (sstrides ls) is) |is. inShape (sizes ls) is}) \<longleftrightarrow>
        (x, y) \<in> {(dot (dstrides ((n, u, v) # ls)) is, dot (sstrides ((n, u, v) # ls)) is) |is.
          inShape (sizes ((n, u, v) # ls)) is}" (is "?A \<longleftrightarrow> ?B")
    proof
      assume ?A
      then obtain i js where h: "0 \<le> i" "i < n" "inShape (sizes ls) js"
        "x - i * v = dot (dstrides ls) js" "y - i * u = dot (sstrides ls) js" by blast
      then show ?B by (simp add: algebra_simps) (intro exI [of _ "i # js"], simp)
    next
      assume ?B
      then obtain ks where k: "x = dot (dstrides ((n, u, v) # ls)) ks" "y = dot (sstrides ((n, u, v) # ls)) ks"
        "inShape (sizes ((n, u, v) # ls)) ks" by blast
      then obtain i js where "ks = i # js" "0 \<le> i" "i < n" "inShape (sizes ls) js" by (auto simp: inShape_Cons)
      then show ?A using k by (intro exI [of _ i]) auto
    qed
  qed
qed simp

end
