(* ===== verification/Geometry_Raster.thy ===== *)
theory Geometry_Raster
  imports Region_Box
begin

text \<open>
  What a list of regions writes. A move \<open>(x, t, y)\<close> copies the element at position \<open>y\<close> of tensor \<open>t\<close>
  to position \<open>x\<close> of the output. \<open>describes rs ds f\<close> says that the regions \<open>rs\<close> write an
  output of shape \<open>ds\<close> whose element at index \<open>is\<close> is the one that \<open>f is\<close> names, and that the elements
  for which \<open>f\<close> is \<^const>\<open>None\<close> are left alone. A geometry computer is correct when its regions describe the
  operator; this theory shows what the raster command then computes.
\<close>

section \<open>Moves\<close>

type_synonym move_list = "(int \<times> nat \<times> int) list"

definition regionMoves :: "Region \<Rightarrow> move_list" where
  "regionMoves r = (case r_origin r of None \<Rightarrow> [] | Some t \<Rightarrow> map (\<lambda>(x, y). (x, t, y)) (regionPairs r))"

definition moves :: "Region list \<Rightarrow> move_list" where
  "moves rs = concat (map regionMoves rs)"

definition describes :: "Region list \<Rightarrow> int list \<Rightarrow> (int list \<Rightarrow> (nat \<times> int) option) \<Rightarrow> bool" where
  "describes rs ds f \<longleftrightarrow> set (moves rs) = {(lin ds is, m) | is m. inShape ds is \<and> f is = Some m}"

lemma moves_simps [simp]: "moves [] = []" "moves (r # rs) = regionMoves r @ moves rs"
  "moves (rs @ rs') = moves rs @ moves rs'"
  by (simp_all add: moves_def)

lemma moves_map: "set (moves (map f xs)) = (\<Union>x \<in> set xs. set (regionMoves (f x)))"
  by (simp add: moves_def)

lemma moves_concat_map: "set (moves (concat (map f xs))) = (\<Union>x \<in> set xs. set (moves (f x)))"
  by (induction xs) auto

lemma regionMoves_mk [simp]:
  "set (regionMoves (mk_region so [s0, s1, s2] do [d0, d1, d2] [n0, n1, n2] (Some t))) =
    {(do + x, t, so + y) | x y. (x, y) \<in> set (box [(n0, s0, d0), (n1, s1, d1), (n2, s2, d2)])}"
  by (force simp: regionMoves_def regionPairs_def loops_def mk_region_def)

lemma rasterCopy_moves: "rasterCopy env r dst = fold (\<lambda>(x, t, y) d. d(x := env t y)) (regionMoves r) dst"
proof (cases "r_origin r")
  case (Some t)
  have "(\<lambda>(p :: int \<times> int) d. d(fst p := env t (snd p))) = (\<lambda>(x, t, y) d. d(x := env t y)) \<circ> (\<lambda>(x, y). (x, t, y))"
    by (rule ext) (simp add: split_def)
  then show ?thesis using Some by (simp add: rasterCopy_def regionMoves_def copyRegion_pairs fold_map)
qed (simp add: rasterCopy_def regionMoves_def)

lemma rasterRegions_moves:
  "rasterRegions env rs dst = fold (\<lambda>(x, t, y) d. d(x := env t y)) (moves rs) dst"
  by (induction rs arbitrary: dst) (simp_all add: rasterRegions_def rasterCopy_moves)

lemma fold_writes_untouched:
  "x \<notin> fst ` set ps \<Longrightarrow> fold (\<lambda>(x, t, y) d. d(x := env t y)) ps dst x = dst x"
  by (induction ps arbitrary: dst) (auto simp: split_def)

lemma fold_writes_single:
  assumes "(x, t, y) \<in> set ps" "\<And>m. (x, m) \<in> set ps \<Longrightarrow> m = (t, y)"
  shows "fold (\<lambda>(x, t, y) d. d(x := env t y)) ps dst x = env t y"
  using assms
proof (induction ps arbitrary: dst)
  case (Cons p ps)
  show ?case
  proof (cases "x \<in> fst ` set ps")
    case True
    then have "(x, t, y) \<in> set ps" using Cons.prems(2) by force
    then have "fold (\<lambda>(x, t, y) d. d(x := env t y)) ps d x = env t y" for d
      using Cons.IH Cons.prems(2) by (meson list.set_intros(2))
    then show ?thesis by (simp only: fold_simps)
  next
    case False
    then have "p = (x, t, y)" using Cons.prems(1) by force
    then show ?thesis by (simp only: fold_simps case_prod_conv fold_writes_untouched [OF False] fun_upd_same)
  qed
qed simp

lemma describes_move:
  assumes "describes rs ds f" "inShape ds is"
  shows "(lin ds is, m) \<in> set (moves rs) \<longleftrightarrow> f is = Some m"
  using assms lin_inj unfolding describes_def by blast

text \<open>What the raster command leaves at an element that is described.\<close>

lemma raster_described:
  assumes "describes rs ds f" "inShape ds is" "f is = Some (t, y)"
  shows "raster zero env out rs mem (lin ds is) = env t y"
proof -
  note m = describes_move [OF assms(1,2)]
  show ?thesis unfolding raster_def rasterRegions_moves
    by (rule fold_writes_single) (use m assms(3) in auto)
qed

lemma raster_not_described:
  assumes "describes rs ds f" "inShape ds is" "f is = None"
  shows "raster zero env out rs mem (lin ds is) = (if regionIsFull out rs then mem (lin ds is) else zero)"
proof -
  have "lin ds is \<notin> fst ` set (moves rs)" using describes_move [OF assms(1,2)] assms(3) by fastforce
  then show ?thesis by (simp add: raster_def rasterRegions_moves fold_writes_untouched)
qed

section \<open>Full regions\<close>

lemma shape_prod: "elementCount t = prod_list (shape t)"
proof -
  have "fold (\<lambda>i n. n * g i) xs a = a * prod_list (map g xs)" for g :: "int \<Rightarrow> int" and xs a
    by (induction xs arbitrary: a) (auto simp: algebra_simps)
  then show ?thesis by (simp add: elementCount_def shape_def)
qed

lemma length_box: "\<forall>l \<in> set ls. 0 \<le> fst l \<Longrightarrow> int (length (box ls)) = prod_list (sizes ls)"
proof (induction ls)
  case (Cons l ls)
  obtain n u v where l: "l = (n, u, v)" by (cases l)
  have "length (box (l # ls)) = nat n * length (box ls)"
    by (simp add: l box.simps(2) length_concat comp_def sum_list_triv)
  then show ?case using Cons by (simp add: l)
qed simp

lemma regionSum_simps [simp]:
  "regionSum [] = 0" "regionSum (r # rs) = rsize r 1 * rsize r 0 * rsize r 2 + regionSum rs"
proof -
  have "fold (\<lambda>r n. n + g r) rs a = a + sum_list (map g rs)" for g :: "Region \<Rightarrow> int" and rs a
    by (induction rs arbitrary: a) (simp_all add: algebra_simps)
  then show "regionSum [] = 0" "regionSum (r # rs) = rsize r 1 * rsize r 0 * rsize r 2 + regionSum rs"
    by (simp_all add: regionSum_def)
qed

text \<open>Every region has an origin and no negative size.\<close>

definition proper :: "Region list \<Rightarrow> bool" where
  "proper rs \<longleftrightarrow> (\<forall>r \<in> set rs. r_origin r \<noteq> None \<and> 0 \<le> rsize r 0 \<and> 0 \<le> rsize r 1 \<and> 0 \<le> rsize r 2)"

lemma regionSum_moves: "proper rs \<Longrightarrow> regionSum rs = int (length (moves rs))"
proof (induction rs)
  case (Cons r rs)
  then obtain t where t: "r_origin r = Some t" by (auto simp: proper_def)
  have "int (length (regionMoves r)) = rsize r 0 * (rsize r 1 * rsize r 2)"
    using length_box [of "loops r"] Cons.prems by (simp add: regionMoves_def t regionPairs_def loops_def proper_def)
  then show ?case using Cons by (simp add: proper_def)
qed simp

text \<open>
  C33. The test of the raster command: for regions that write every position at most once and stay inside
  the tensor, the sizes add up to the number of elements exactly when every element is written.
\<close>

theorem regionIsFull_covers:
  assumes "proper rs" "distinct (map fst (moves rs))" "fst ` set (moves rs) \<subseteq> {0..<elementCount t}"
    "0 \<le> elementCount t"
  shows "regionIsFull t rs \<longleftrightarrow> fst ` set (moves rs) = {0..<elementCount t}"
proof -
  let ?W = "fst ` set (moves rs)"
  have c: "int (card ?W) = regionSum rs"
    using regionSum_moves [OF assms(1)] distinct_card [OF assms(2)] by simp
  have "regionSum rs = elementCount t \<longleftrightarrow> card ?W = card {0..<elementCount t}"
    using c assms(4) by auto
  also have "\<dots> \<longleftrightarrow> ?W = {0..<elementCount t}"
    using card_subset_eq [OF _ assms(3)] by auto
  finally show ?thesis by (simp add: regionIsFull_def)
qed

section \<open>Loops outside the last three\<close>

lemma box_append:
  "set (box (ks @ ls)) = {(x + x', y + y') | x y x' y'. (x, y) \<in> set (box ks) \<and> (x', y') \<in> set (box ls)}"
proof (induction ks)
  case (Cons k ks)
  obtain n u v where k: "k = (n, u, v)" by (cases k)
  have "(a, b) \<in> set (box ((k # ks) @ ls)) \<longleftrightarrow>
      (\<exists>x y x' y'. a = x + x' \<and> b = y + y' \<and> (x, y) \<in> set (box (k # ks)) \<and> (x', y') \<in> set (box ls))"
    (is "?L \<longleftrightarrow> ?R") for a b
  proof
    assume ?L
    then obtain i where i: "0 \<le> i" "i < n" "(a - i * v, b - i * u) \<in> set (box (ks @ ls))"
      by (auto simp: k in_box_Cons)
    then obtain x y x' y' where h: "a - i * v = x + x'" "b - i * u = y + y'" "(x, y) \<in> set (box ks)" "(x', y') \<in> set (box ls)"
      unfolding Cons by blast
    have "(i * v + x, i * u + y) \<in> set (box (k # ks))" unfolding k in_box_Cons using i h(3) by auto
    moreover have "a = i * v + x + x'" "b = i * u + y + y'" using h(1,2) by simp_all
    ultimately show ?R using h(4) by blast
  next
    assume ?R
    then obtain x y x' y' where h: "a = x + x'" "b = y + y'" "(x, y) \<in> set (box (k # ks))" "(x', y') \<in> set (box ls)"
      by blast
    then obtain i where i: "0 \<le> i" "i < n" "(x - i * v, y - i * u) \<in> set (box ks)" by (auto simp: k in_box_Cons)
    moreover have "a - i * v = x - i * v + x'" "b - i * u = y - i * u + y'" using h(1,2) by simp_all
    ultimately have "(a - i * v, b - i * u) \<in> set (box (ks @ ls))" unfolding Cons using h(4) by blast
    then show ?L using i by (auto simp: k in_box_Cons)
  qed
  then have "p \<in> set (box ((k # ks) @ ls)) \<longleftrightarrow> p \<in> {(x + x', y + y') | x y x' y'.
      (x, y) \<in> set (box (k # ks)) \<and> (x', y') \<in> set (box ls)}" for p
    by (cases p) (simp only: mem_Collect_eq prod.inject conj_assoc)
  then show ?case by (rule set_eqI)
qed simp

text \<open>The coordinates that a running index stands for.\<close>

abbreviation coords :: "loop list \<Rightarrow> int \<Rightarrow> int list" where
  "coords ks n \<equiv> unravelIndexHelper (strides (sizes ks)) n"

lemma box_running:
  assumes "\<forall>k \<in> set ks. 0 \<le> fst k"
  shows "set (box ks) = {(dot (dstrides ks) (coords ks n), dot (sstrides ks) (coords ks n)) | n. 0 \<le> n \<and> n < prod_list (sizes ks)}"
proof (cases "\<exists>k \<in> set ks. fst k = 0")
  case True
  then have "prod_list (sizes ks) = 0" by (induction ks) auto
  moreover have "\<not> inShape (sizes ks) is" for "is" using True inShape_pos by fastforce
  ultimately show ?thesis by (auto simp: set_box_index)
next
  case False
  then have p: "\<forall>d \<in> set (sizes ks). 0 < d" using assms by (force simp: less_le)
  have "{f is | is. inShape (sizes ks) is} = {f (coords ks n) | n. 0 \<le> n \<and> n < prod_list (sizes ks)}" for f :: "int list \<Rightarrow> int \<times> int"
  proof (intro equalityI subsetI; elim CollectE exE conjE)
    fix p "is" assume "p = f is" "inShape (sizes ks) is"
    then show "p \<in> {f (coords ks n) | n. 0 \<le> n \<and> n < prod_list (sizes ks)}"
      using lin_bounds unravel_lin by (intro CollectI exI [of _ "lin (sizes ks) is"]) force
  next
    fix q n assume n: "q = f (coords ks n)" "0 \<le> n" "n < prod_list (sizes ks)"
    then obtain "is" where "inShape (sizes ks) is" "lin (sizes ks) is = n" using lin_surj p by blast
    then show "q \<in> {f is | is. inShape (sizes ks) is}" using n unravel_lin by force
  qed
  then show ?thesis by (simp add: set_box_index)
qed

lemma box_split:
  assumes "\<forall>k \<in> set ks. 0 \<le> fst k"
  shows "set (box (ks @ ls)) = (\<Union>n \<in> {0..<prod_list (sizes ks)}.
    {(dot (dstrides ks) (coords ks n) + x, dot (sstrides ks) (coords ks n) + y) | x y. (x, y) \<in> set (box ls)})"
  unfolding box_append box_running [OF assms] by fastforce

end
