(* ===== verification/Geometry_Axis.thy ===== *)
theory Geometry_Axis
  imports Region_Model
begin

text \<open>
  Geometry computers that move data along axes (\<^verbatim>\<open>source/geometry/\<close>): Concat and Pack, Slice and
  Unpack, SliceTf, Permute and Transpose, Reshape and its relatives, ConvertTensor, BroadcastTo,
  Reverse, ReverseSequence. A computer yields the regions of its output; tensors are passed with the
  number under which regions name them. The operators whose output shares the regions of a virtual
  input take these regions as an argument.
\<close>

section \<open>Helpers\<close>

text \<open>\<^verbatim>\<open>for (int i = a; i < b; ++i) n *= t->length(i);\<close>\<close>

definition prodLen :: "Tensor \<Rightarrow> int \<Rightarrow> int \<Rightarrow> int" where
  "prodLen t a b = fold (\<lambda>i n. n * tlength t i) [a..b - 1] 1"

text \<open>The \<open>k\<close>-th element from the end, or a default when the list is too short.\<close>

definition fromEnd :: "nat \<Rightarrow> 'a \<Rightarrow> 'a list \<Rightarrow> 'a" where
  "fromEnd k d xs = (if k \<le> length xs then xs ! (length xs - k) else d)"

text \<open>
  The loops outside the last three are unrolled: \<open>mods\<close> are the divisors that split a running index
  into coordinates, \<open>along\<close> adds up coordinates times strides.
\<close>

definition mods :: "int list \<Rightarrow> int list" where
  "mods ns = map (\<lambda>i. fold (\<lambda>j v. v * ns ! j) [Suc i..<length ns] 1) [0..<length ns]"

definition along :: "int list \<Rightarrow> int list \<Rightarrow> int" where
  "along cs ws = fold (\<lambda>(c, w) n. n + c * w) (zip cs ws) 0"

section \<open>Concat and Pack\<close>

datatype ConcatOp = OpType_Concat int | OpType_QuantizedConcat int | OpType_Pack int

fun basicAxis :: "ConcatOp \<Rightarrow> int" where
  "basicAxis (OpType_Concat a) = a"
| "basicAxis (OpType_QuantizedConcat a) = a"
| "basicAxis (OpType_Pack a) = a"

fun inputFix :: "ConcatOp \<Rightarrow> bool" where
  "inputFix (OpType_Pack a) = True"
| "inputFix _ = False"

fun concatRegions :: "bool \<Rightarrow> int \<Rightarrow> int \<Rightarrow> int \<Rightarrow> int \<Rightarrow> (nat \<times> Tensor) list \<Rightarrow> int \<Rightarrow> Region list" where
  "concatRegions fixed axis outside inside axisLength [] offset = []"
| "concatRegions fixed axis outside inside axisLength ((i, t) # ts) offset =
     (if elementSize t = 0 then concatRegions fixed axis outside inside axisLength ts offset
      else (let n = (if fixed then 1 else tlength t axis)
            in mk_region 0 [1 * n * inside, 1 * inside, 1] (offset * inside) [inside * axisLength, inside, 1]
                 [outside, n, inside] (Some i)
               # concatRegions fixed axis outside inside axisLength ts (offset + n)))"

definition GeometryConcat :: "ConcatOp \<Rightarrow> (nat \<times> Tensor) list \<Rightarrow> Tensor \<Rightarrow> Region list" where
  "GeometryConcat op inputs output =
     (let axis = (if basicAxis op < 0 then dimensions output + basicAxis op else basicAxis op);
          outside = prodLen output 0 axis;
          inside = prodLen output (axis + 1) (dimensions output);
          axisLength = tlength output axis
      in if outside \<le> 0 \<or> inside \<le> 0 \<or> axisLength \<le> 0 then []
         else concatRegions (inputFix op) axis outside inside axisLength inputs 0)"

section \<open>Slice and Unpack\<close>

datatype SliceOp = OpType_Slice int | OpType_Unpack int

fun sliceRegions :: "bool \<Rightarrow> int \<Rightarrow> int \<Rightarrow> int \<Rightarrow> int \<Rightarrow> nat \<Rightarrow> Tensor list \<Rightarrow> int \<Rightarrow> Region list list" where
  "sliceRegions fixed axis outside inside len i [] offset = []"
| "sliceRegions fixed axis outside inside len i (out # outs) offset =
     (let n = (if fixed then 1 else tlength out axis)
      in [mk_region (offset * inside) [len * inside, inside, 1] 0 [inside * n, inside, 1]
            [outside, n, inside] (Some i)]
         # sliceRegions fixed axis outside inside len i outs (offset + n))"

definition GeometrySlice :: "SliceOp \<Rightarrow> nat \<Rightarrow> Tensor \<Rightarrow> Tensor list \<Rightarrow> Region list list" where
  "GeometrySlice op i input outputs =
     (let (axis, fixed) = (case op of OpType_Slice a \<Rightarrow> (a, False) | OpType_Unpack a \<Rightarrow> (a, True));
          axis = (if axis < 0 then axis + dimensions input else axis);
          outside = prodLen input 0 axis;
          inside = prodLen input (axis + 1) (dimensions input)
      in if elementSize input \<le> 0 then map (\<lambda>_. []) outputs
         else sliceRegions fixed axis outside inside (tlength input axis) i outputs 0)"

section \<open>SliceTf\<close>

definition sliceTfScan :: "Tensor \<Rightarrow> Tensor \<Rightarrow> int list \<times> int \<times> int" where
  "sliceTfScan input begin_tensor =
     fold (\<lambda>i (outputStrides, srcOffset, stride).
         let b = hostv begin_tensor i;
             b = (if b < 0 then b + tlength input i else b)
         in (stride # outputStrides, srcOffset + b * stride, stride * tlength input i))
       (rev [0..dimensions input - 1]) ([], 0, 1)"

definition GeometrySliceTF :: "nat \<Rightarrow> Tensor \<Rightarrow> Tensor \<Rightarrow> Tensor \<Rightarrow> Region list" where
  "GeometrySliceTF i input begin_tensor output =
     (let (outputStrides, srcOffset, _) = sliceTfScan input begin_tensor;
          seperateDimIndexes = filter (\<lambda>k. 1 \<noteq> tlength output k) [0..dimensions output - 1];
          lens = map (tlength output) seperateDimIndexes;
          strides = map (\<lambda>k. outputStrides ! nat k) seperateDimIndexes;
          inside = fromEnd 1 1 lens; insideStride = fromEnd 1 0 strides;
          axis = fromEnd 2 1 lens; axisStride = fromEnd 2 0 strides;
          outside = fromEnd 3 1 lens; outsideStride = fromEnd 3 0 strides;
          breakAxis = length seperateDimIndexes - 3;
          remainSize = fold (\<lambda>n v. v * n) (take breakAxis lens) 1
      in map (\<lambda>indice.
           let coordinate = unravelIndexHelper (mods (take breakAxis lens)) indice
           in mk_region (along coordinate strides + srcOffset) [outsideStride, axisStride, insideStride]
                (indice * outside * axis * inside) [axis * inside, inside, 1] [outside, axis, inside] (Some i))
         [0..remainSize - 1])"

section \<open>Permute and Transpose\<close>

text \<open>
  The axes that keep their order are merged. The state is the previous axis, the merged extents, and
  the input strides, where the stride of the last merged axis is still missing.
\<close>

fun permuteScan :: "Tensor \<Rightarrow> int list \<Rightarrow> int \<times> int list \<times> int list \<Rightarrow> int \<times> int list \<times> int list" where
  "permuteScan input [] st = st"
| "permuteScan input (axis # axes) (preAxis, inputShape, inputStrides) =
     (let len = tlength input axis
      in if 1 = len then permuteScan input axes (preAxis, inputShape, inputStrides)
         else if axis - preAxis = 1 then
           permuteScan input axes (axis, butlast inputShape @ [last inputShape * len], inputStrides)
         else
           permuteScan input axes (axis, inputShape @ [len],
             if preAxis \<ge> 0 then inputStrides @ [prodLen input (preAxis + 1) (dimensions input)]
             else inputStrides))"

definition permuteShape :: "Tensor \<Rightarrow> int list \<Rightarrow> int list \<times> int list" where
  "permuteShape input axes =
     (let (preAxis, inputShape, inputStrides) = permuteScan input axes (-2, [], [])
      in (inputShape,
          if preAxis \<ge> 0 then inputStrides @ [prodLen input (preAxis + 1) (dimensions input)] else inputStrides))"

text \<open>The three largest extents move to the end, in the order in which they stand.\<close>

definition maxThree :: "int list \<Rightarrow> int \<times> int \<times> int" where
  "maxThree ns =
     fold (\<lambda>n (max1, max2, max3).
        if n > max1 then (n, max1, max2)
        else if n > max2 then (max1, n, max2)
        else if n > max3 then (max1, max2, n)
        else (max1, max2, max3)) (tl ns) (hd ns, -1, -1)"

definition swapAt :: "nat \<Rightarrow> nat \<Rightarrow> 'a list \<Rightarrow> 'a list" where
  "swapAt i j xs = (if i \<noteq> j then xs[i := xs ! j, j := xs ! i] else xs)"

fun moveMax :: "nat list \<Rightarrow> int \<times> int \<times> int \<Rightarrow> nat \<Rightarrow> (int \<times> int \<times> int) list \<Rightarrow> (int \<times> int \<times> int) list" where
  "moveMax [] maxs lastIndex ls = ls"
| "moveMax (i # is) (max1, max2, max3) lastIndex ls =
     (let n = fst (ls ! i);
          (moved, maxs) = (if n = max1 then (True, -1, max2, max3)
                           else if n = max2 then (True, max1, -1, max3)
                           else if n = max3 then (True, max1, max2, -1)
                           else (False, max1, max2, max3));
          ls' = (if moved then swapAt i lastIndex ls else ls);
          next = int lastIndex - (if moved then 1 else 0)
      in if next < int (length ls) - 3 then ls' else moveMax is maxs (nat next) ls')"

definition isReorderShape :: "int list \<Rightarrow> bool" where
  "isReorderShape ns \<longleftrightarrow> (if length ns = 4 then ns ! 0 > ns ! 1 + ns ! 2 + ns ! 3 else length ns > 4)"

text \<open>The loops of the permutation: extent, input stride, output stride.\<close>

definition permuteLoops :: "Tensor \<Rightarrow> int list \<Rightarrow> (int \<times> int \<times> int) list" where
  "permuteLoops input axes =
     (let (inputShape, inputStrides) = permuteShape input axes;
          outputStrides = fst (computeStride inputShape);
          ls = zip inputShape (zip inputStrides outputStrides)
      in if isReorderShape inputShape
         then moveMax (rev [0..<length ls]) (maxThree inputShape) (length ls - 1) ls else ls)"

definition ComputePermuteRegion :: "nat \<Rightarrow> Tensor \<Rightarrow> int list option \<Rightarrow> Region list" where
  "ComputePermuteRegion i input newshape =
     (let axes = (case newshape of Some p \<Rightarrow> p | None \<Rightarrow> map (\<lambda>k. dimensions input - k - 1) [0..dimensions input - 1]);
          ls = permuteLoops input axes
      in if ls = [] then [makeFullSlice i input]
         else
          (let (inside, insideStride, outputInsideStride) = fromEnd 1 (1, 0, 0) ls;
               (axis, axisStride, outputAxisStride) = fromEnd 2 (1, 0, 0) ls;
               (outside, outsideStride, outputOutsideStride) = fromEnd 3 (1, 0, 0) ls;
               remain = take (length ls - 3) ls;
               remainSize = fold (\<lambda>l v. v * fst l) remain 1
           in map (\<lambda>indice.
                let coordinate = unravelIndexHelper (mods (map fst remain)) indice
                in mk_region (along coordinate (map (\<lambda>l. fst (snd l)) remain)) [outsideStride, axisStride, insideStride]
                     (along coordinate (map (\<lambda>l. snd (snd l)) remain))
                     [outputOutsideStride, outputAxisStride, outputInsideStride] [outside, axis, inside] (Some i))
              [0..remainSize - 1]))"

datatype PermuteOp = OpType_Permute "int list option" | OpType_Transpose Tensor

definition GeometryPermute :: "PermuteOp \<Rightarrow> nat \<Rightarrow> Tensor \<Rightarrow> Region list" where
  "GeometryPermute op i input =
     (let dims = dimensions input;
          neworder = (case op of
              OpType_Permute (Some shapeValue) \<Rightarrow> map (\<lambda>k. shapeValue ! nat k) [0..dims - 1]
            | OpType_Permute None \<Rightarrow> map (\<lambda>k. dims - k - 1) [0..dims - 1]
            | OpType_Transpose perm \<Rightarrow> map (hostv perm) [0..dims - 1])
      in ComputePermuteRegion i input (Some neworder))"

section \<open>Reshape, Squeeze, ExpandDims, Flatten, Identity\<close>

text \<open>\<open>virtual\<close> are the regions of the input when it is itself described by regions.\<close>

definition SingleGeometryComputer :: "nat \<Rightarrow> Tensor \<Rightarrow> Region list option \<Rightarrow> Region list" where
  "SingleGeometryComputer i input virtual = makeFullRef i input virtual"

definition SingleGeometryComputer_onRecompute :: "nat \<Rightarrow> Tensor \<Rightarrow> Region list \<Rightarrow> Region list \<Rightarrow> Region list option" where
  "SingleGeometryComputer_onRecompute i input inputRegions regions =
     (if length regions \<noteq> 1 \<or> length inputRegions > 0 then None
      else (let r = hd regions
            in Some [r\<lparr>r_origin := Some i, r_size := [1, 1, prodLen input 0 (dimensions input)],
                      r_src := \<lparr>v_offset = 0, v_stride = (v_stride (r_src r))[2 := 1]\<rparr>,
                      r_dst := \<lparr>v_offset = 0, v_stride = (v_stride (r_dst r))[2 := 1]\<rparr>\<rparr>]))"

section \<open>ConvertTensor\<close>

definition planeFormat :: "MNN_DATA_FORMAT \<Rightarrow> MNN_DATA_FORMAT" where
  "planeFormat f = (if f = MNN_DATA_FORMAT_NC4HW4 then MNN_DATA_FORMAT_NCHW else f)"

definition swapRegion :: "Region \<Rightarrow> Region" where
  "swapRegion r =
     r\<lparr>r_src := (r_src r)\<lparr>v_stride := [sstride r 0, sstride r 2, sstride r 1]\<rparr>,
       r_size := [rsize r 0, rsize r 2, rsize r 1],
       r_dst := (r_dst r)\<lparr>v_stride := [dstride r 0, rsize r 1, 1]\<rparr>\<rparr>"

definition ConvertUtils_compute :: "nat \<Rightarrow> Tensor \<Rightarrow> Tensor \<Rightarrow> Region list" where
  "ConvertUtils_compute i input output =
     (let inputFormat = planeFormat (dimensionFormat input);
          outputFormat = planeFormat (dimensionFormat output);
          slice = makeFullSlice i input
      in if inputFormat = outputFormat \<or> 2 = dimensions input then [slice]
         else
          (let inside = width input * height input;
               axis = channel input;
               outside = batch input;
               reshape = (\<lambda>r. if inputFormat = MNN_DATA_FORMAT_NCHW then reshapeSlice r outside inside axis
                              else reshapeSlice r outside axis inside)
           in [swapRegion (snd (reshape slice))]))"

section \<open>BroadcastTo\<close>

text \<open>The extents of input and output, the input padded with ones in front.\<close>

definition broadcastShape :: "Tensor \<Rightarrow> Tensor \<Rightarrow> (int \<times> int) list" where
  "broadcastShape input output =
     (let offset = dimensions output - dimensions input
      in map (\<lambda>k. (if k < offset then 1 else tlength input (k - offset), tlength output k)) [0..dimensions output - 1])"

text \<open>One pass over the extents: neighbouring ones of the input are merged.\<close>

fun squeezePass :: "(int \<times> int) list \<Rightarrow> (int \<times> int) list \<times> bool" where
  "squeezePass ((a, m) # (b, n) # r) =
     (if a = 1 \<and> b = 1 then (fst (squeezePass ((1, m * n) # r)), True)
      else (let (r', fused) = squeezePass ((b, n) # r) in ((a, m) # r', fused)))"
| "squeezePass r = (r, False)"

lemma squeezePass_length: "snd (squeezePass r) \<Longrightarrow> length (fst (squeezePass r)) < length r"
proof (induction r rule: squeezePass.induct)
  case (1 a m b n r)
  have "length (fst (squeezePass r')) \<le> length r'" for r' :: "(int \<times> int) list"
    by (induction r' rule: squeezePass.induct) (auto simp: split_def Let_def)
  from this [of "(1, m * n) # r"] show ?case using 1 by (auto simp: split_def Let_def split: if_splits)
qed simp_all

function squeezeOnes :: "(int \<times> int) list \<Rightarrow> (int \<times> int) list" where
  "squeezeOnes r =
     (if length r \<ge> 2 then (let (r', canFuse) = squeezePass r in if canFuse then squeezeOnes r' else r') else r)"
  by pat_completeness auto
termination
  by (relation "measure length") (auto simp: squeezePass_length prod_eq_iff)

declare squeezeOnes.simps [simp del]

text \<open>Runs of equal extents are merged.\<close>

fun separate :: "(int \<times> int) list \<Rightarrow> int \<Rightarrow> int \<Rightarrow> (int \<times> int) list" where
  "separate [] currentInput currentOutput =
     (if currentOutput \<noteq> 1 \<or> currentInput \<noteq> 1 then [(currentInput, currentOutput)] else [])"
| "separate ((a, m) # r) currentInput currentOutput =
     (if a \<noteq> m then
        (if 1 < currentOutput then [(currentInput, currentOutput)] else []) @ (a, m) # separate r 1 1
      else separate r (currentInput * a) (currentOutput * m))"

definition broadcastto :: "nat \<Rightarrow> Tensor \<Rightarrow> Tensor \<Rightarrow> bool \<Rightarrow> Region list" where
  "broadcastto i input output forward =
     (if elementCount input = elementCount output then [makeFullSlice i input]
      else if forward then
        (let srcSize = tlength input 0;
             multipler = fold (\<lambda>k n. n * tlength output k) [2..dimensions output - 1] (tlength output 1)
         in [mk_region 0 [srcSize, 1, 0] 0 [srcSize * multipler, multipler, 1] [1, srcSize, multipler] (Some i)])
      else
        (let sep = separate (squeezeOnes (broadcastShape input output)) 1 1;
             sepInputShape = map fst sep;
             sepOutputShape = map snd sep;
             seperateOutputStrides = fst (computeStride sepOutputShape);
             seperateInputStrides = map2 (\<lambda>n s. if 1 = n then 0 else s) sepInputShape (fst (computeStride sepInputShape));
             remainDimSize = length sep - 3;
             (remainStride, remainSize) = computeStride (take remainDimSize sepOutputShape)
         in map (\<lambda>index.
              let cords = unravelIndexHelper remainStride index
              in mk_region (along cords seperateInputStrides)
                   [fromEnd 3 1 seperateInputStrides, fromEnd 2 1 seperateInputStrides, fromEnd 1 1 seperateInputStrides]
                   (along cords seperateOutputStrides)
                   [fromEnd 3 1 seperateOutputStrides, fromEnd 2 1 seperateOutputStrides, fromEnd 1 1 seperateOutputStrides]
                   [fromEnd 3 1 sepOutputShape, fromEnd 2 1 sepOutputShape, fromEnd 1 1 sepOutputShape] (Some i))
            [0..remainSize - 1]))"

section \<open>Reverse and ReverseSequence\<close>

definition GeometryReverse :: "nat \<Rightarrow> Tensor \<Rightarrow> Tensor \<Rightarrow> Region list" where
  "GeometryReverse i input axes =
     (let axis = hostv axes 0;
          reverseSize = tlength input axis;
          outsideSize = fold (\<lambda>k n. if k < axis then n * tlength input k else n) [0..dimensions input - 1] 1;
          insideSize = fold (\<lambda>k n. if k > axis then n * tlength input k else n) [0..dimensions input - 1] 1
      in [mk_region (reverseSize * insideSize - insideSize) [reverseSize * insideSize, - insideSize, 1]
            0 [reverseSize * insideSize, insideSize, 1] [outsideSize, reverseSize, insideSize] (Some i)])"

text \<open>\<^verbatim>\<open>stride(i)\<close> after \<^verbatim>\<open>setLinearLayout\<close>.\<close>

definition linearStride :: "Tensor \<Rightarrow> int \<Rightarrow> int" where
  "linearStride t i = fold (\<lambda>k n. n * dim_size t k) (rev [i + 1..dimensions t - 1]) 1"

definition GeometryReverseSequence :: "int \<Rightarrow> int \<Rightarrow> nat \<Rightarrow> Tensor \<Rightarrow> Tensor \<Rightarrow> Tensor \<Rightarrow> Region list option" where
  "GeometryReverseSequence seqDim batchDim i input reverse output =
     (let seqDim = (if seqDim < 0 then seqDim + dimensions input else seqDim);
          batchDim = (if batchDim < 0 then batchDim + dimensions input else batchDim)
      in if seqDim = batchDim then None
         else if bits (ttype input) \<noteq> 32 then None
         else if tlength reverse 0 \<noteq> tlength input batchDim then None
         else
          (let mid0 = min seqDim batchDim;
               mid1 = max seqDim batchDim;
               mInsideStride = linearStride input mid1;
               mOutsideSize = prodLen input 0 mid0;
               mOutSideStride = (if mid0 > 0 then linearStride input (mid0 - 1) else 1);
               mMidSize = prodLen input (mid0 + 1) mid1;
               mMidStride = (if mid1 > 0 then linearStride input (mid1 - 1) else 1);
               reversed = (\<lambda>batch q. map (\<lambda>k. mk_region
                   ((q - 1) * linearStride input seqDim + batch * linearStride input batchDim + k * mOutSideStride)
                   [- linearStride input seqDim, mMidStride, 1]
                   (batch * linearStride output batchDim + k * mOutSideStride)
                   [linearStride output seqDim, mMidStride, 1] [q, mMidSize, mInsideStride] (Some i)) [0..mOutsideSize - 1]);
               left = (\<lambda>batch q. map (\<lambda>k. mk_region
                   (q * linearStride input seqDim + batch * linearStride input batchDim + k * mOutSideStride)
                   [linearStride input seqDim, mMidStride, 1]
                   (q * linearStride output seqDim + batch * linearStride output batchDim + k * mOutSideStride)
                   [linearStride output seqDim, mMidStride, 1]
                   [tlength input seqDim - q, mMidSize, mInsideStride] (Some i)) [0..mOutsideSize - 1])
           in fold_opt (\<lambda>rs batch.
                let q = hostv reverse batch
                in if q > tlength input seqDim \<or> q < 1 then None
                   else Some (rs @ reversed batch q @ (if q < tlength input seqDim then left batch q else [])))
                [] [0..tlength input batchDim - 1]))"

end
