(* ===== verification/Geometry_Boxes.thy ===== *)
theory Geometry_Boxes
  imports Geometry_Raster Geometry_Axis
begin

text \<open>
  The lemmas that the correctness proofs of the geometry computers share: products of extents, the
  unrolled loops outside the last three, and loops that run over a whole shape.
\<close>

declare computeStride.simps(2) [simp del]

section \<open>Products and coordinates\<close>

abbreviation positive :: "int list \<Rightarrow> bool" where "positive ds \<equiv> \<forall>d \<in> set ds. 0 < d"

lemma fold_mult: "fold (\<lambda>x n. n * f x) xs a = a * prod_list (map f xs :: int list)"
  by (induction xs arbitrary: a) (auto simp: algebra_simps)

lemma prodLen_prod: "prodLen t a b = prod_list (map (tlength t) [a..b - 1])"
  by (simp add: prodLen_def fold_mult)

lemma shape_upto: "map (tlength t) [0..dimensions t - 1] = shape t"
  by (simp add: shape_def)

lemma prodLen_take: "0 \<le> a \<Longrightarrow> a \<le> dimensions t \<Longrightarrow> prodLen t 0 a = prod_list (take (nat a) (shape t))"
proof -
  assume h: "0 \<le> a" "a \<le> dimensions t"
  have "take (nat a) [0..dimensions t - 1] = [0..a - 1]" using h by (intro nth_equalityI) auto
  then show ?thesis by (simp add: prodLen_prod shape_def take_map)
qed

lemma prodLen_drop: "0 \<le> a \<Longrightarrow> a \<le> dimensions t \<Longrightarrow> prodLen t a (dimensions t) = prod_list (drop (nat a) (shape t))"
proof -
  assume h: "0 \<le> a" "a \<le> dimensions t"
  have "drop (nat a) [0..dimensions t - 1] = [a..dimensions t - 1]" using h by (intro nth_equalityI) auto
  then show ?thesis by (simp add: prodLen_prod shape_def drop_map)
qed

lemma mods_strides [simp]: "mods ns = strides ns"
proof (rule nth_equalityI)
  fix k assume k: "k < length (mods ns)"
  have "map ((!) ns) [Suc k..<length ns] = drop (Suc k) ns" by (intro nth_equalityI) auto
  then show "mods ns ! k = strides ns ! k" using k by (simp add: mods_def fold_mult strides_nth)
qed (simp add: mods_def)

lemma along_dot [simp]: "along cs ws = dot ws cs"
proof -
  have "fold (\<lambda>(c, w) n. n + c * w) ps a = a + sum_list (map (\<lambda>(c, w). c * w) ps)" for ps :: "(int \<times> int) list" and a
    by (induction ps arbitrary: a) auto
  then show ?thesis by (simp add: along_def)
qed

lemma length_unravel [simp]: "length (unravelIndexHelper ms n) = length ms"
  by (induction ms arbitrary: n) auto

lemma dot_take:
  fixes us "is" :: "int list"
  assumes "length is \<le> k"
  shows "dot (take k us) is = dot us is"
proof -
  have "zip is (take k us) = zip is us" using assms
  proof (induction us arbitrary: "is" k)
    case (Cons u us)
    then show ?case by (cases "is"; cases k) auto
  qed simp
  then show ?thesis by simp
qed

lemma fromEnd_map: "fromEnd k (f d) (map f xs) = f (fromEnd k d xs)" if "0 < k"
  using that by (simp add: fromEnd_def)

section \<open>The last three loops\<close>

lemma box_last_three:
  "set (box [fromEnd 3 (1, a, a') ls, fromEnd 2 (1, b, b') ls, fromEnd 1 (1, c, c') ls]) = set (box (drop (length ls - 3) ls))"
proof -
  let ?t = "drop (length ls - 3) ls"
  have "fromEnd k d ls = fromEnd k d ?t" if "k \<in> {1, 2, 3}" for k d
    using that by (cases "k \<le> length ls") (auto simp: fromEnd_def)
  moreover have "length ?t \<le> 3" by simp
  then consider "?t = []" | x where "?t = [x]" | x y where "?t = [x, y]" | x y z where "?t = [x, y, z]"
    by (cases ?t; cases "tl ?t"; cases "tl (tl ?t)"; cases "tl (tl (tl ?t))") auto
  then have "set (box [fromEnd 3 (1, a, a') ?t, fromEnd 2 (1, b, b') ?t, fromEnd 1 (1, c, c') ?t]) = set (box ?t)"
  proof cases
    case 1
    show ?thesis unfolding 1 by (simp add: fromEnd_def)
  next
    case (2 x)
    show ?thesis unfolding 2 by (simp add: fromEnd_def)
  next
    case (3 x y)
    show ?thesis unfolding 3 by (simp add: fromEnd_def)
  next
    case (4 x y z)
    show ?thesis unfolding 4 by (simp add: fromEnd_def numeral_nat)
  qed
  ultimately show ?thesis by simp
qed

lemma unrolled_moves:
  fixes ls :: "loop list" and r :: "int \<Rightarrow> Region"
  defines "ks \<equiv> take (length ls - 3) ls"
  assumes "\<forall>l \<in> set ls. 0 \<le> fst l"
    and "\<And>n. 0 \<le> n \<Longrightarrow> n < prod_list (sizes ks) \<Longrightarrow>
      r n = mk_region (so + dot (sstrides ks) (coords ks n)) [s0, s1, s2] (do + dot (dstrides ks) (coords ks n)) [d0, d1, d2]
        [n0, n1, n2] (Some i)"
    and "set (box [(n0, s0, d0), (n1, s1, d1), (n2, s2, d2)]) = set (box (drop (length ls - 3) ls))"
  shows "set (moves (map r [0..prod_list (sizes ks) - 1])) = {(do + x, i, so + y) | x y. (x, y) \<in> set (box ls)}"
proof -
  let ?N = "{0..<prod_list (sizes ks)}"
  have ks: "\<forall>k \<in> set ks. 0 \<le> fst k" using assms(2) by (auto simp: ks_def dest: in_set_takeD)
  have "set (box ls) = set (box (ks @ drop (length ls - 3) ls))" by (simp add: ks_def)
  also have "\<dots> = (\<Union>n \<in> ?N. {(dot (dstrides ks) (coords ks n) + x, dot (sstrides ks) (coords ks n) + y) | x y.
      (x, y) \<in> set (box (drop (length ls - 3) ls))})"
    by (rule box_split [OF ks])
  finally have b: "set (box ls) = \<dots>" .
  have "set (moves (map r [0..prod_list (sizes ks) - 1])) = (\<Union>n \<in> ?N. set (regionMoves (r n)))"
    by (simp add: moves_map atLeastLessThan_def atLeastAtMost_def) (rule SUP_cong, auto)
  also have "\<dots> = (\<Union>n \<in> ?N. {(do + dot (dstrides ks) (coords ks n) + x, i, so + dot (sstrides ks) (coords ks n) + y) | x y.
      (x, y) \<in> set (box (drop (length ls - 3) ls))})"
    by (rule SUP_cong) (simp_all add: assms(3,4))
  also have "\<dots> = {(do + x, i, so + y) | x y. (x, y) \<in> set (box ls)}"
    unfolding b by (force simp: add.assoc)
  finally show ?thesis .
qed

section \<open>Loops over a shape\<close>

text \<open>A loop for every axis of the output, with the given strides of the input.\<close>

abbreviation axisLoops :: "int list \<Rightarrow> int list \<Rightarrow> loop list" where
  "axisLoops ds us \<equiv> zip ds (zip us (strides ds))"

lemma box_axisLoops:
  assumes "length us = length ds"
  shows "set (box (axisLoops ds us)) = {(lin ds is, dot us is) | is. inShape ds is}"
proof -
  have "sizes (axisLoops ds us) = ds" "sstrides (axisLoops ds us) = us" "dstrides (axisLoops ds us) = strides ds"
    using assms by (auto intro!: nth_equalityI)
  then show ?thesis using lin_dot inShape_length by (auto simp: set_box_index) metis+
qed

lemma describes_axisLoops:
  assumes "length us = length ds"
    and "set (moves rs) = {(x, i, so + y) | x y. (x, y) \<in> set (box (axisLoops ds us))}"
    and "\<And>is. inShape ds is \<Longrightarrow> f is = Some (i, so + dot us is)"
  shows "describes rs ds f"
  unfolding describes_def assms(2) box_axisLoops [OF assms(1)] using assms(3) by force

section \<open>Row-major output\<close>

lemma strides_drop: "strides (drop k ds) = drop k (strides ds)"
  by (induction ds arbitrary: k) (simp, case_tac k, simp_all)

lemma strides_take: "take k (strides ds) = map (\<lambda>s. s * prod_list (drop k ds)) (strides (take k ds))"
proof (induction ds arbitrary: k)
  case (Cons d ds)
  have "prod_list (take j ds) * prod_list (drop j ds) = prod_list ds" for j
    by (metis append_take_drop_id prod_list.append)
  then show ?case using Cons by (cases k) simp_all
qed simp

lemma lin_coords:
  assumes "\<forall>d \<in> set ds. 0 \<le> d" "0 \<le> n" "n < prod_list ds"
  shows "lin ds (unravelIndexHelper (strides ds) n) = n"
proof -
  have "prod_list ds = 0" if "0 \<in> set ds" using that by (induction ds) auto
  then have "\<forall>d \<in> set ds. 0 < d" using assms by (metis less_le not_less_iff_gr_or_eq)
  then show ?thesis using lin_surj assms(2,3) unravel_lin by metis
qed

lemma dot_mult: "dot (map (\<lambda>s. s * c) us) is = dot us is * (c :: int)"
proof (induction us arbitrary: "is")
  case (Cons u us)
  then show ?case by (cases "is") (auto simp: algebra_simps)
qed simp

lemma axisLoops_parts:
  assumes "length us = length ds"
  shows "sizes (axisLoops ds us) = ds" "sstrides (axisLoops ds us) = us" "dstrides (axisLoops ds us) = strides ds"
  using assms by (auto intro!: nth_equalityI)

lemma box_row_major:
  assumes "length us = length ds"
  shows "set (box [(fromEnd 3 1 ds, fromEnd 3 a us, fromEnd 2 1 ds * fromEnd 1 1 ds),
      (fromEnd 2 1 ds, fromEnd 2 b us, fromEnd 1 1 ds), (fromEnd 1 1 ds, fromEnd 1 c us, 1)]) =
    set (box (drop (length ds - 3) (axisLoops ds us)))"
proof -
  let ?t = "drop (length ds - 3) ds" and ?u = "drop (length ds - 3) us"
  have f: "fromEnd k d ds = fromEnd k d ?t" "fromEnd k d us = fromEnd k d ?u" if "k \<in> {1, 2, 3}" for k d
    using that assms by (auto simp: fromEnd_def)
  have d: "drop (length ds - 3) (axisLoops ds us) = axisLoops ?t ?u"
    by (simp add: drop_zip strides_drop)
  have l: "length ?t = length ?u" "length ?t \<le> 3" using assms by auto
  then consider "?t = []" "?u = []" | x v where "?t = [x]" "?u = [v]" | x y v w where "?t = [x, y]" "?u = [v, w]"
    | x y z v w q where "?t = [x, y, z]" "?u = [v, w, q]"
  proof -
    assume h: "?t = [] \<Longrightarrow> ?u = [] \<Longrightarrow> thesis" "\<And>x v. ?t = [x] \<Longrightarrow> ?u = [v] \<Longrightarrow> thesis"
      "\<And>x y v w. ?t = [x, y] \<Longrightarrow> ?u = [v, w] \<Longrightarrow> thesis"
      "\<And>x y z v w q. ?t = [x, y, z] \<Longrightarrow> ?u = [v, w, q] \<Longrightarrow> thesis"
    have "length ?t = 0 \<or> length ?t = 1 \<or> length ?t = 2 \<or> length ?t = 3" using l(2) by linarith
    then consider "length ?t = 0" "length ?u = 0" | "length ?t = Suc 0" "length ?u = Suc 0"
      | "length ?t = Suc (Suc 0)" "length ?u = Suc (Suc 0)" | "length ?t = Suc (Suc (Suc 0))" "length ?u = Suc (Suc (Suc 0))"
      using l(1) by (metis One_nat_def Suc_1 numeral_3_eq_3)
    then show thesis
    proof cases
      case 1
      then show thesis using h(1) by blast
    next
      case 2
      then show thesis using h(2) unfolding length_Suc_conv length_0_conv by blast
    next
      case 3
      then show thesis using h(3) unfolding length_Suc_conv length_0_conv by blast
    next
      case 4
      then show thesis using h(4) unfolding length_Suc_conv length_0_conv by blast
    qed
  qed
  then have "set (box [(fromEnd 3 1 ?t, fromEnd 3 a ?u, fromEnd 2 1 ?t * fromEnd 1 1 ?t),
      (fromEnd 2 1 ?t, fromEnd 2 b ?u, fromEnd 1 1 ?t), (fromEnd 1 1 ?t, fromEnd 1 c ?u, 1)]) = set (box (axisLoops ?t ?u))"
  proof cases
    case 1
    show ?thesis unfolding 1 by (simp add: fromEnd_def)
  next
    case 2
    show ?thesis unfolding 2 by (simp add: fromEnd_def)
  next
    case 3
    show ?thesis unfolding 3 by (simp add: fromEnd_def)
  next
    case 4
    show ?thesis unfolding 4 by (simp add: fromEnd_def numeral_nat)
  qed
  then show ?thesis unfolding d by (simp only: f insert_iff simp_thms)
qed

lemma dst_row_major:
  assumes "length us = length ds" "\<forall>d \<in> set ds. 0 \<le> d"
  defines "ks \<equiv> take (length ds - 3) (axisLoops ds us)"
  assumes "0 \<le> n" "n < prod_list (sizes ks)"
  shows "dot (dstrides ks) (coords ks n) = n * fromEnd 3 1 ds * fromEnd 2 1 ds * fromEnd 1 1 ds"
proof -
  let ?k = "length ds - 3"
  have s: "sizes ks = take ?k ds" "dstrides ks = take ?k (strides ds)"
    using axisLoops_parts [OF assms(1)] by (simp_all add: ks_def flip: take_map)
  have p: "prod_list (drop ?k ds) = fromEnd 3 1 ds * fromEnd 2 1 ds * fromEnd 1 1 ds" if "?k \<noteq> 0"
  proof -
    have "drop ?k ds = [ds ! ?k, ds ! (?k + 1), ds ! (?k + 2)]"
      using that by (intro nth_equalityI) (auto simp: less_Suc_eq numeral_3_eq_3 nth_Cons' Suc_diff_Suc)
    then show ?thesis using that by (simp add: fromEnd_def mult.assoc) (simp add: Suc_diff_Suc numeral_nat)
  qed
  show ?thesis
  proof (cases "?k = 0")
    case True
    then show ?thesis using assms(4,5) s by simp
  next
    case False
    have "dot (dstrides ks) (coords ks n) = dot (strides (take ?k ds)) (coords ks n) * prod_list (drop ?k ds)"
      unfolding s(2) strides_take by (rule dot_mult)
    also have "dot (strides (take ?k ds)) (coords ks n) = n"
      using lin_coords [of "take ?k ds" n] assms(2,4,5) by (auto simp: s(1) lin_dot dest: in_set_takeD)
    finally show ?thesis using p [OF False] by (simp add: mult.assoc)
  qed
qed

section \<open>Regions with the strides of the loops\<close>

lemma axis_regions:
  fixes us ms :: "int list" and r :: "int \<Rightarrow> Region"
  defines "ks \<equiv> take (length ms - 3) ms"
  assumes "length us = length ms" "\<forall>d \<in> set ms. 0 \<le> d"
    and "\<And>n. 0 \<le> n \<Longrightarrow> n < prod_list ks \<Longrightarrow> r n = mk_region (so + dot us (unravelIndexHelper (strides ks) n))
      [fromEnd 3 1 us, fromEnd 2 1 us, fromEnd 1 1 us] (dot (strides ms) (unravelIndexHelper (strides ks) n))
      [fromEnd 3 1 (strides ms), fromEnd 2 1 (strides ms), fromEnd 1 1 (strides ms)]
      [fromEnd 3 1 ms, fromEnd 2 1 ms, fromEnd 1 1 ms] (Some i)"
  shows "set (moves (map r [0..prod_list ks - 1])) = {(0 + x, i, so + y) | x y. (x, y) \<in> set (box (axisLoops ms us))}"
proof -
  let ?ls = "axisLoops ms us" and ?k = "length ms - 3"
  note parts = axisLoops_parts [OF assms(2)]
  have len: "length ?ls = length ms" using assms(2) by simp
  have k: "sizes (take ?k ?ls) = ks" "sstrides (take ?k ?ls) = take ?k us" "dstrides (take ?k ?ls) = take ?k (strides ms)"
    using parts by (simp_all add: ks_def flip: take_map)
  have nn: "\<forall>l \<in> set ?ls. 0 \<le> fst l" using assms(3) by (auto dest: set_zip_leftD)
  have f: "fromEnd j (1, 1, 1) ?ls = (fromEnd j 1 ms, fromEnd j 1 us, fromEnd j 1 (strides ms))" if "0 < j" for j
    using fromEnd_map [OF that, of fst "(1, 1, 1)" ?ls] fromEnd_map [OF that, of "\<lambda>l. fst (snd l)" "(1, 1, 1)" ?ls]
      fromEnd_map [OF that, of "\<lambda>l. snd (snd l)" "(1, 1, 1)" ?ls] by (simp add: parts prod_eq_iff)
  have dt: "dot (take ?k ws) (unravelIndexHelper (strides ks) n) = dot ws (unravelIndexHelper (strides ks) n)" for ws n
    by (rule dot_take) (simp add: ks_def)
  have r: "r n = mk_region (so + dot (sstrides (take (length ?ls - 3) ?ls)) (coords (take (length ?ls - 3) ?ls) n))
      [fromEnd 3 1 us, fromEnd 2 1 us, fromEnd 1 1 us] (0 + dot (dstrides (take (length ?ls - 3) ?ls)) (coords (take (length ?ls - 3) ?ls) n))
      [fromEnd 3 1 (strides ms), fromEnd 2 1 (strides ms), fromEnd 1 1 (strides ms)]
      [fromEnd 3 1 ms, fromEnd 2 1 ms, fromEnd 1 1 ms] (Some i)"
    if "0 \<le> n" "n < prod_list (sizes (take (length ?ls - 3) ?ls))" for n
    using assms(4) [of n] that unfolding len k by (simp add: dt)
  have "set (moves (map r [0..prod_list (sizes (take (length ?ls - 3) ?ls)) - 1])) = {(0 + x, i, so + y) | x y. (x, y) \<in> set (box ?ls)}"
    by (rule unrolled_moves [OF nn r]) (use box_last_three [of 1 1 ?ls 1 1 1 1] in \<open>simp_all add: f\<close>)
  then show ?thesis unfolding len k .
qed

end
