(* ===== verification/Geometry_Axis_Correct.thy ===== *)
theory Geometry_Axis_Correct
  imports Geometry_Boxes
begin

text \<open>
  Correctness of the geometry computers of \<^verbatim>\<open>Geometry_Axis\<close>: which element of which input the raster
  command leaves at every index of the output.
\<close>

section \<open>One axis between outer and inner axes\<close>

lemma lin_append: "length is = length ds \<Longrightarrow> lin (ds @ es) (is @ js) = lin ds is * prod_list es + lin es js"
  by (induction "is" ds rule: list_induct2) (auto simp: algebra_simps)

lemma lin_axis:
  "inShape pre p \<Longrightarrow> lin (pre @ n # post) (p @ k # q) = lin pre p * (n * prod_list post) + k * prod_list post + lin post q"
  by (subst lin_append) (auto dest: inShape_length)

lemma inShape_axis:
  "inShape (pre @ n # post) is \<longleftrightarrow> (\<exists>p k q. is = p @ k # q \<and> inShape pre p \<and> 0 \<le> k \<and> k < n \<and> inShape post q)"
proof
  assume h: "inShape (pre @ n # post) is"
  then have l: "length is = length pre + Suc (length post)" by (auto dest: inShape_length)
  then have "drop (length pre) is = is ! length pre # drop (Suc (length pre)) is" by (simp add: Cons_nth_drop_Suc)
  then show "\<exists>p k q. is = p @ k # q \<and> inShape pre p \<and> 0 \<le> k \<and> k < n \<and> inShape post q"
    using h by (metis append_take_drop_id inShape_append inShape_simps(3))
next
  assume "\<exists>p k q. is = p @ k # q \<and> inShape pre p \<and> 0 \<le> k \<and> k < n \<and> inShape post q"
  then show "inShape (pre @ n # post) is" by (auto simp: inShape_append inShape_length)
qed

lemma ex_lin: "positive ds \<Longrightarrow> (\<exists>j. 0 \<le> j \<and> j < prod_list ds \<and> P j) \<longleftrightarrow> (\<exists>is. inShape ds is \<and> P (lin ds is))"
  using lin_bounds lin_surj by metis

lemma box3:
  "(x, y) \<in> set (box [(a, s0, d0), (n, s1, d1), (b, s2, d2)]) \<longleftrightarrow>
    (\<exists>i. 0 \<le> i \<and> i < a \<and> (\<exists>k. 0 \<le> k \<and> k < n \<and> (\<exists>j. 0 \<le> j \<and> j < b \<and>
      x = i * d0 + k * d1 + j * d2 \<and> y = i * s0 + k * s1 + j * s2)))"
  by (simp add: in_box_Cons algebra_simps)

lemma box3_axis:
  assumes "positive pre" "positive post"
  shows "(x, y) \<in> set (box [(prod_list pre, s0, d0), (n, s1, d1), (prod_list post, s2, d2)]) \<longleftrightarrow>
    (\<exists>p k q. inShape pre p \<and> 0 \<le> k \<and> k < n \<and> inShape post q \<and>
      x = lin pre p * d0 + k * d1 + lin post q * d2 \<and> y = lin pre p * s0 + k * s1 + lin post q * s2)"
  unfolding box3 ex_lin [OF assms(1)] ex_lin [OF assms(2)] by blast

section \<open>Concat and Pack\<close>

text \<open>The input that holds position \<open>j\<close> of the axis, its extent there, and the position in it.\<close>

fun concatAt :: "(nat \<times> int) list \<Rightarrow> int \<Rightarrow> (nat \<times> int \<times> int) option" where
  "concatAt [] j = None"
| "concatAt ((i, n) # ns) j = (if j < n then Some (i, n, j) else concatAt ns (j - n))"

lemma concatAt_range: "concatAt ns j = Some (i, n, k) \<Longrightarrow> 0 \<le> j \<Longrightarrow> \<forall>x \<in> set ns. 0 \<le> snd x \<Longrightarrow> 0 \<le> k \<and> k < n \<and> (i, n) \<in> set ns"
  by (induction ns j rule: concatAt.induct) (auto split: if_splits)

lemma concatAt_total:
  "0 \<le> j \<Longrightarrow> j < sum_list (map snd ns) \<Longrightarrow> \<exists>i n k. concatAt ns j = Some (i, n, k)"
  by (induction ns j rule: concatAt.induct) auto

lemma concatAt_sum:
  "concatAt ns j = Some (i, n, k) \<Longrightarrow> \<forall>x \<in> set ns. 0 \<le> snd x \<Longrightarrow> j < sum_list (map snd ns)"
proof (induction ns j rule: concatAt.induct)
  case (2 i' n' ns j)
  have "0 \<le> sum_list (map snd ns)" using 2(3) by (intro sum_list_nonneg) auto
  then show ?case using 2 by (auto split: if_splits)
qed simp

lemma concatAt_nth:
  "k < length ns \<Longrightarrow> \<forall>x \<in> set ns. 0 \<le> snd x \<Longrightarrow> 0 \<le> j \<Longrightarrow> j < snd (ns ! k) \<Longrightarrow>
    concatAt ns (sum_list (map snd (take k ns)) + j) = Some (fst (ns ! k), snd (ns ! k), j)"
proof (induction ns arbitrary: k)
  case (Cons x ns)
  obtain i n where x: "x = (i, n)" by (cases x)
  show ?case
  proof (cases k)
    case (Suc k')
    have "0 \<le> sum_list (map snd (take k' ns))" using Cons.prems(2) by (intro sum_list_nonneg) (auto dest: in_set_takeD)
    then show ?thesis using Cons Suc x by (simp add: algebra_simps)
  qed (use Cons x in simp)
qed simp

abbreviation concatLen :: "bool \<Rightarrow> int \<Rightarrow> Tensor \<Rightarrow> int" where
  "concatLen fixed axis t \<equiv> if fixed then 1 else tlength t axis"

abbreviation concatLens :: "bool \<Rightarrow> int \<Rightarrow> (nat \<times> Tensor) list \<Rightarrow> (nat \<times> int) list" where
  "concatLens fixed axis ts \<equiv> map (\<lambda>(i, t). (i, concatLen fixed axis t)) ts"

lemma concatRegions_moves:
  assumes "positive pre" "positive post"
    and "\<forall>(i, t) \<in> set ts. 0 \<le> concatLen fixed axis t \<and> (elementSize t = 0 \<longleftrightarrow> concatLen fixed axis t = 0)"
  shows "set (moves (concatRegions fixed axis (prod_list pre) (prod_list post) L ts off)) =
    {(lin pre p * (prod_list post * L) + (off + j) * prod_list post + lin post q, i,
      lin pre p * (n * prod_list post) + k * prod_list post + lin post q) | p j q i n k.
      inShape pre p \<and> 0 \<le> j \<and> inShape post q \<and> concatAt (concatLens fixed axis ts) j = Some (i, n, k)}"
    (is "_ = ?M ts off")
  using assms(3)
proof (induction ts arbitrary: off)
  case (Cons u ts)
  obtain i t where u: "u = (i, t)" by (cases u)
  let ?n = "concatLen fixed axis t" and ?I = "prod_list post"
  have n: "0 \<le> ?n" "elementSize t = 0 \<longleftrightarrow> ?n = 0" using Cons.prems u by auto
  have IH: "set (moves (concatRegions fixed axis (prod_list pre) ?I L ts o')) = ?M ts o'" for o'
    using Cons by (auto simp: u)
  have step: "concatAt (concatLens fixed axis (u # ts)) j = Some m \<longleftrightarrow>
      (j < ?n \<and> m = (i, ?n, j)) \<or> (?n \<le> j \<and> concatAt (concatLens fixed axis ts) (j - ?n) = Some m)" for j m
    by (auto simp: u)
  have "(x, i', y) \<in> ?M (u # ts) off \<longleftrightarrow>
      i' = i \<and> (x - off * ?I, y) \<in> set (box [(prod_list pre, ?n * ?I, ?I * L), (?n, ?I, ?I), (?I, 1, 1)]) \<or>
      (x, i', y) \<in> ?M ts (off + ?n)" for x i' y
  proof
    assume "(x, i', y) \<in> ?M (u # ts) off"
    then obtain p j q n' k where h: "x = lin pre p * (?I * L) + (off + j) * ?I + lin post q"
      "y = lin pre p * (n' * ?I) + k * ?I + lin post q" "inShape pre p" "0 \<le> j" "inShape post q"
      "concatAt (concatLens fixed axis (u # ts)) j = Some (i', n', k)" by blast
    from h(6) consider "j < ?n" "i' = i" "n' = ?n" "k = j" | "?n \<le> j" "concatAt (concatLens fixed axis ts) (j - ?n) = Some (i', n', k)"
      unfolding step by blast
    then show "i' = i \<and> (x - off * ?I, y) \<in> set (box [(prod_list pre, ?n * ?I, ?I * L), (?n, ?I, ?I), (?I, 1, 1)]) \<or>
      (x, i', y) \<in> ?M ts (off + ?n)"
    proof cases
      case 1
      then have "(x - off * ?I, y) \<in> set (box [(prod_list pre, ?n * ?I, ?I * L), (?n, ?I, ?I), (?I, 1, 1)])"
        unfolding box3_axis [OF assms(1,2)] using h
        by (intro exI [of _ p] exI [of _ j] exI [of _ q]) (simp only: algebra_simps, simp)
      then show ?thesis using 1 by simp
    next
      case 2
      have "x = lin pre p * (?I * L) + (off + ?n + (j - ?n)) * ?I + lin post q" using h(1) by simp
      then show ?thesis using h(2,3,5) 2
        by (intro disjI2 CollectI exI [of _ p] exI [of _ "j - ?n"] exI [of _ q] exI [of _ i'] exI [of _ n'] exI [of _ k]) simp
    qed
  next
    assume "i' = i \<and> (x - off * ?I, y) \<in> set (box [(prod_list pre, ?n * ?I, ?I * L), (?n, ?I, ?I), (?I, 1, 1)]) \<or>
      (x, i', y) \<in> ?M ts (off + ?n)"
    then show "(x, i', y) \<in> ?M (u # ts) off"
    proof
      assume "i' = i \<and> (x - off * ?I, y) \<in> set (box [(prod_list pre, ?n * ?I, ?I * L), (?n, ?I, ?I), (?I, 1, 1)])"
      then obtain p k q where h: "i' = i" "inShape pre p" "0 \<le> k" "k < ?n" "inShape post q"
        "x - off * ?I = lin pre p * (?I * L) + k * ?I + lin post q * 1" "y = lin pre p * (?n * ?I) + k * ?I + lin post q * 1"
        unfolding box3_axis [OF assms(1,2)] by blast
      have "x = lin pre p * (?I * L) + (off + k) * ?I + lin post q" using h(6) by (simp add: algebra_simps)
      moreover have "concatAt (concatLens fixed axis (u # ts)) k = Some (i, ?n, k)" unfolding step using h(4) by blast
      ultimately show ?thesis using h by (intro CollectI exI [of _ p] exI [of _ k] exI [of _ q] exI [of _ i] exI [of _ ?n]) simp
    next
      assume "(x, i', y) \<in> ?M ts (off + ?n)"
      then obtain p j q n' k where h: "x = lin pre p * (?I * L) + (off + ?n + j) * ?I + lin post q"
        "y = lin pre p * (n' * ?I) + k * ?I + lin post q" "inShape pre p" "0 \<le> j" "inShape post q"
        "concatAt (concatLens fixed axis ts) j = Some (i', n', k)" by blast
      have "concatAt (concatLens fixed axis (u # ts)) (?n + j) = Some (i', n', k)" unfolding step using h(4,6) by simp
      moreover have "0 \<le> ?n + j" using h(4) n(1) by linarith
      moreover have "x = lin pre p * (?I * L) + (off + (?n + j)) * ?I + lin post q" using h(1) by (simp only: add.assoc)
      ultimately show ?thesis using h(2,3,5) by blast
    qed
  qed
  then have M: "?M (u # ts) off = {(off * ?I + x, i, y) | x y.
      (x, y) \<in> set (box [(prod_list pre, ?n * ?I, ?I * L), (?n, ?I, ?I), (?I, 1, 1)])} \<union> ?M ts (off + ?n)"
    (is "_ = ?B \<union> _")
    by (intro set_eqI, simp only: split_paired_all Un_iff) (auto simp: algebra_simps)
  show ?case
  proof (cases "?n = 0")
    case True
    have "?B = {}" unfolding box3_axis [OF assms(1,2)] using True by auto
    then show ?thesis using n IH [of off] True unfolding M by (simp add: u)
  next
    case False
    then show ?thesis using n IH [of "off + ?n"] unfolding M by (simp add: u Let_def)
  qed
qed simp

text \<open>A shape split at an axis.\<close>

lemma shape_split:
  assumes "0 \<le> a" "a < dimensions t"
  shows "shape t = take (nat a) (shape t) @ tlength t a # drop (Suc (nat a)) (shape t)"
    and "prodLen t 0 a = prod_list (take (nat a) (shape t))"
    and "prodLen t (a + 1) (dimensions t) = prod_list (drop (Suc (nat a)) (shape t))"
proof -
  have n: "nat a < length (shape t)" "shape t ! nat a = tlength t a" using assms by (auto simp: shape_nth)
  then show "shape t = take (nat a) (shape t) @ tlength t a # drop (Suc (nat a)) (shape t)"
    by (metis id_take_nth_drop)
  show "prodLen t 0 a = prod_list (take (nat a) (shape t))" using assms by (simp add: prodLen_take)
  have "nat (a + 1) = Suc (nat a)" using assms by simp
  then show "prodLen t (a + 1) (dimensions t) = prod_list (drop (Suc (nat a)) (shape t))"
    using assms prodLen_drop [of "a + 1" t] by simp
qed

lemma update_axis:
  assumes "ds = pre @ L # post" "length pre = k" "is = p @ j # q" "length p = k"
  shows "ds[k := n] = pre @ n # post" "is[k := m] = p @ m # q" "is ! k = j"
  using assms by (auto simp: list_update_append nth_append)

text \<open>The 32-bit size of a tensor is zero only if it has no elements.\<close>

definition empty_ok :: "Tensor \<Rightarrow> bool" where
  "empty_ok t \<longleftrightarrow> (elementSize t = 0 \<longleftrightarrow> elementCount t = 0)"

definition concatSource :: "int list \<Rightarrow> nat \<Rightarrow> (nat \<times> int) list \<Rightarrow> int list \<Rightarrow> (nat \<times> int) option" where
  "concatSource ds a ns is = (case concatAt ns (is ! a) of None \<Rightarrow> None
     | Some (i, n, k) \<Rightarrow> Some (i, lin (ds[a := n]) (is[a := k])))"

lemma concat_describes:
  assumes "ds = pre @ L # post" "a = length pre" "positive ds" "sum_list (map snd ns) = L" "\<forall>x \<in> set ns. 0 \<le> snd x"
    and "set (moves rs) = {(lin pre p * (prod_list post * L) + (0 + j) * prod_list post + lin post q, i,
      lin pre p * (n * prod_list post) + k * prod_list post + lin post q) | p j q i n k.
      inShape pre p \<and> 0 \<le> j \<and> inShape post q \<and> concatAt ns j = Some (i, n, k)}"
  shows "describes rs ds (concatSource ds a ns)"
  unfolding describes_def assms(6)
proof (intro equalityI subsetI)
  fix u assume "u \<in> {(lin pre p * (prod_list post * L) + (0 + j) * prod_list post + lin post q, i,
      lin pre p * (n * prod_list post) + k * prod_list post + lin post q) | p j q i n k.
      inShape pre p \<and> 0 \<le> j \<and> inShape post q \<and> concatAt ns j = Some (i, n, k)}"
  then obtain p j q i n k where h: "u = (lin pre p * (prod_list post * L) + (0 + j) * prod_list post + lin post q, i,
      lin pre p * (n * prod_list post) + k * prod_list post + lin post q)"
    "inShape pre p" "0 \<le> j" "inShape post q" "concatAt ns j = Some (i, n, k)" by blast
  have "j < L" using concatAt_sum [OF h(5)] assms(4,5) by simp
  then have "inShape ds (p @ j # q)" using h assms(1) inShape_axis by blast
  moreover have "concatSource ds a ns (p @ j # q) = Some (i, lin pre p * (n * prod_list post) + k * prod_list post + lin post q)"
    using h assms(1,2) inShape_length [OF h(2)]
    by (simp add: concatSource_def lin_axis list_update_append nth_append)
  moreover have "lin ds (p @ j # q) = lin pre p * (prod_list post * L) + (0 + j) * prod_list post + lin post q"
    using h by (simp add: assms(1) lin_axis algebra_simps)
  ultimately show "u \<in> {(lin ds is, m) | is m. inShape ds is \<and> concatSource ds a ns is = Some m}"
    unfolding h(1) by (metis (mono_tags, lifting) mem_Collect_eq)
next
  fix u assume "u \<in> {(lin ds is, m) | is m. inShape ds is \<and> concatSource ds a ns is = Some m}"
  then obtain "is" m where h: "u = (lin ds is, m)" "inShape ds is" "concatSource ds a ns is = Some m" by blast
  then obtain p j q where s: "is = p @ j # q" "inShape pre p" "0 \<le> j" "j < L" "inShape post q"
    unfolding assms(1) inShape_axis by blast
  obtain i n k where c: "concatAt ns j = Some (i, n, k)" "m = (i, lin (ds[a := n]) (is[a := k]))"
    using h(3) s assms(2) inShape_length [OF s(2)] by (auto simp: concatSource_def nth_append split: option.splits)
  have "m = (i, lin pre p * (n * prod_list post) + k * prod_list post + lin post q)"
    using c(2) s assms(1,2) inShape_length [OF s(2)] by (simp add: list_update_append lin_axis)
  moreover have "lin ds is = lin pre p * (prod_list post * L) + (0 + j) * prod_list post + lin post q"
    using s by (simp add: assms(1) lin_axis algebra_simps)
  ultimately show "u \<in> {(lin pre p * (prod_list post * L) + (0 + j) * prod_list post + lin post q, i,
      lin pre p * (n * prod_list post) + k * prod_list post + lin post q) | p j q i n k.
      inShape pre p \<and> 0 \<le> j \<and> inShape post q \<and> concatAt ns j = Some (i, n, k)}"
    unfolding h(1) using s c(1) by blast
qed

lemma Concat_describes:
  fixes out :: Tensor and op :: ConcatOp
  defines "a \<equiv> (if basicAxis op < 0 then dimensions out + basicAxis op else basicAxis op)"
  assumes "0 \<le> a" "a < dimensions out" "positive (shape out)"
    and "\<forall>(i, t) \<in> set ins. 0 \<le> concatLen (inputFix op) a t \<and> (elementSize t = 0 \<longleftrightarrow> concatLen (inputFix op) a t = 0)"
    and "sum_list (map snd (concatLens (inputFix op) a ins)) = tlength out a"
  shows "describes (GeometryConcat op ins out) (shape out) (concatSource (shape out) (nat a) (concatLens (inputFix op) a ins))"
proof -
  let ?pre = "take (nat a) (shape out)" and ?post = "drop (Suc (nat a)) (shape out)"
  note s = shape_split [OF assms(2,3)]
  have p: "positive ?pre" "positive ?post" using assms(4) by (auto dest: in_set_takeD in_set_dropD)
  have "0 < tlength out a" using assms(2-4) by (auto simp: set_shape)
  then have "GeometryConcat op ins out =
      concatRegions (inputFix op) a (prod_list ?pre) (prod_list ?post) (tlength out a) ins 0"
    using prod_list_pos [OF p(1)] prod_list_pos [OF p(2)]
    by (simp add: GeometryConcat_def a_def [symmetric] s(2,3) Let_def)
  then show ?thesis
    using concat_describes [OF s(1) _ assms(4,6)] concatRegions_moves [OF p assms(5)] assms(2,3,5)
    by (fastforce simp: split_def)
qed

text \<open>Tensors that agree with the output off the axis.\<close>

lemma shape_update_axis:
  assumes "dimensions t = dimensions out" "\<And>k. 0 \<le> k \<Longrightarrow> k < dimensions out \<Longrightarrow> k \<noteq> a \<Longrightarrow> tlength t k = tlength out k"
    "0 \<le> a" "a < dimensions out"
  shows "shape t = (shape out)[nat a := tlength t a]"
proof (rule nth_equalityI)
  fix k assume "k < length (shape t)"
  then show "shape t ! k = (shape out)[nat a := tlength t a] ! k"
    using assms by (cases "int k = a") (auto simp: shape_nth nth_list_update)
qed (use assms in simp)

lemma elementCount_axis:
  assumes "shape t = ds[nat a := n]" "positive ds" "nat a < length ds" "0 \<le> n"
  shows "elementCount t = 0 \<longleftrightarrow> n = 0"
proof -
  have "prod_list (ds[k := n]) = 0 \<longleftrightarrow> n = 0" if "k < length ds" for k
    using that assms(2)
  proof (induction ds arbitrary: k)
    case (Cons d ds)
    then show ?case using prod_list_pos [of ds] by (cases k) auto
  qed simp
  then show ?thesis using assms by (simp add: shape_prod)
qed

section \<open>Slice and Unpack\<close>

lemma sliceRegions_nth:
  "k < length outs \<Longrightarrow> sliceRegions fixed axis outside inside len i outs off ! k =
    [mk_region ((off + sum_list (map (concatLen fixed axis) (take k outs))) * inside) [len * inside, inside, 1]
      0 [inside * concatLen fixed axis (outs ! k), inside, 1] [outside, concatLen fixed axis (outs ! k), inside] (Some i)]"
proof (induction outs arbitrary: off k)
  case (Cons u outs)
  then show ?case by (cases k) (auto simp: Let_def algebra_simps)
qed simp

lemma length_sliceRegions [simp]: "length (sliceRegions fixed axis outside inside len i outs off) = length outs"
  by (induction outs arbitrary: off) (auto simp: Let_def)

lemma slice_describes:
  assumes "positive pre" "positive post"
    and "f = (\<lambda>is. Some (i, lin (pre @ L # post) (is[length pre := is ! length pre + off])))"
  shows "describes [mk_region (off * prod_list post) [L * prod_list post, prod_list post, 1]
      0 [prod_list post * n, prod_list post, 1] [prod_list pre, n, prod_list post] (Some i)] (pre @ n # post) f"
proof -
  have e: "f (p @ k # q) = Some (i, lin pre p * (L * prod_list post) + (k + off) * prod_list post + lin post q)"
    if "inShape pre p" for p k q
    using that inShape_length [OF that] by (simp add: assms(3) list_update_append nth_append lin_axis)
  show ?thesis
  proof (unfold describes_def, intro equalityI subsetI)
    fix u assume "u \<in> set (moves [mk_region (off * prod_list post) [L * prod_list post, prod_list post, 1]
      0 [prod_list post * n, prod_list post, 1] [prod_list pre, n, prod_list post] (Some i)])"
    then obtain p k q where h: "inShape pre p" "0 \<le> k" "k < n" "inShape post q"
      "u = (lin pre p * (prod_list post * n) + k * prod_list post + lin post q, i,
        off * prod_list post + (lin pre p * (L * prod_list post) + k * prod_list post + lin post q))"
      using box3_axis [OF assms(1,2)] by auto
    then have "inShape (pre @ n # post) (p @ k # q)" "fst u = lin (pre @ n # post) (p @ k # q)"
      "f (p @ k # q) = Some (snd u)" using inShape_axis by (auto simp: lin_axis e algebra_simps)
    then show "u \<in> {(lin (pre @ n # post) is, m) | is m. inShape (pre @ n # post) is \<and> f is = Some m}"
      by (metis (mono_tags, lifting) mem_Collect_eq prod.collapse)
  next
    fix u assume "u \<in> {(lin (pre @ n # post) is, m) | is m. inShape (pre @ n # post) is \<and> f is = Some m}"
    then obtain p k q m where h: "inShape pre p" "0 \<le> k" "k < n" "inShape post q" "f (p @ k # q) = Some m"
      "u = (lin (pre @ n # post) (p @ k # q), m)" unfolding inShape_axis by blast
    have x: "(lin pre p * (prod_list post * n) + k * prod_list post + lin post q * 1,
        lin pre p * (L * prod_list post) + k * prod_list post + lin post q * 1) \<in> set (box
        [(prod_list pre, L * prod_list post, prod_list post * n), (n, prod_list post, prod_list post), (prod_list post, 1, 1)])"
      unfolding box3_axis [OF assms(1,2)] using h by blast
    have "u = (0 + (lin pre p * (prod_list post * n) + k * prod_list post + lin post q * 1), i,
        off * prod_list post + (lin pre p * (L * prod_list post) + k * prod_list post + lin post q * 1))"
      using h(5,6) by (simp add: e [OF h(1)] lin_axis [OF h(1)] algebra_simps)
    then show "u \<in> set (moves [mk_region (off * prod_list post) [L * prod_list post, prod_list post, 1]
      0 [prod_list post * n, prod_list post, 1] [prod_list pre, n, prod_list post] (Some i)])"
      using x by auto
  qed
qed

lemma Slice_describes:
  fixes input :: Tensor and op :: SliceOp
  defines "fixed \<equiv> (case op of OpType_Slice a \<Rightarrow> False | OpType_Unpack a \<Rightarrow> True)"
    and "b \<equiv> (case op of OpType_Slice a \<Rightarrow> a | OpType_Unpack a \<Rightarrow> a)"
  defines "a \<equiv> (if b < 0 then b + dimensions input else b)"
  assumes "0 \<le> a" "a < dimensions input" "positive (shape input)" "0 < elementSize input" "k < length outs"
  shows "describes (GeometrySlice op i input outs ! k) ((shape input)[nat a := concatLen fixed a (outs ! k)])
    (\<lambda>is. Some (i, lin (shape input) (is[nat a := is ! nat a + sum_list (map (concatLen fixed a) (take k outs))])))"
proof -
  let ?pre = "take (nat a) (shape input)" and ?post = "drop (Suc (nat a)) (shape input)"
  note s = shape_split [OF assms(4,5)]
  have p: "positive ?pre" "positive ?post" using assms(6) by (auto dest: in_set_takeD in_set_dropD)
  have l: "length ?pre = nat a" using assms(4,5) by simp
  have "GeometrySlice op i input outs =
      sliceRegions fixed a (prodLen input 0 a) (prodLen input (a + 1) (dimensions input)) (tlength input a) i outs 0"
    using assms(7) by (cases op) (simp_all add: GeometrySlice_def a_def b_def fixed_def Let_def)
  then have "GeometrySlice op i input outs =
      sliceRegions fixed a (prod_list ?pre) (prod_list ?post) (tlength input a) i outs 0"
    by (simp only: s(2,3))
  moreover have "(shape input)[nat a := n] = ?pre @ n # ?post" for n
    using update_axis(1) [OF s(1) l refl l] .
  ultimately show ?thesis
    using slice_describes [OF p refl, where i = i and L = "tlength input a"] assms(8) l s(1) by (simp add: sliceRegions_nth)
qed

section \<open>SliceTf\<close>

lemma sliceTfScan_eval:
  fixes input begin_tensor :: Tensor
  defines "bs \<equiv> map (\<lambda>k. if hostv begin_tensor k < 0 then hostv begin_tensor k + tlength input k else hostv begin_tensor k)
    [0..dimensions input - 1]"
  shows "sliceTfScan input begin_tensor = (strides (shape input), lin (shape input) bs, prod_list (shape input))"
proof -
  let ?b = "\<lambda>k. if hostv begin_tensor k < 0 then hostv begin_tensor k + tlength input k else hostv begin_tensor k"
  have "fold (\<lambda>i (outputStrides, srcOffset, stride).
         let b = hostv begin_tensor i;
             b = (if b < 0 then b + tlength input i else b)
         in (stride # outputStrides, srcOffset + b * stride, stride * tlength input i)) (rev ks) ([], 0, 1) =
      (strides (map (tlength input) ks), lin (map (tlength input) ks) (map ?b ks), prod_list (map (tlength input) ks))" for ks
    by (induction ks) (auto simp: Let_def algebra_simps)
  then show ?thesis by (simp add: sliceTfScan_def bs_def shape_def)
qed

text \<open>Axes of extent one can be left out of the loops.\<close>

lemma axisLoops_filter:
  assumes "length us = length ds"
  shows "filter (\<lambda>l. fst l \<noteq> 1) (axisLoops ds us) =
    axisLoops (filter (\<lambda>d. d \<noteq> 1) ds) (map snd (filter (\<lambda>x. fst x \<noteq> 1) (zip ds us)))"
  using assms
proof (induction ds us rule: list_induct2')
  case (4 d ds u us)
  have "prod_list (filter (\<lambda>d. d \<noteq> 1) ds) = prod_list ds" for ds :: "int list" by (induction ds) auto
  then show ?case using 4 by simp
qed simp_all

lemma lin_add: "length (as :: int list) = length is \<Longrightarrow> lin ds (map2 (+) as is) = lin ds as + lin ds is"
proof (induction ds arbitrary: as "is")
  case (Cons d ds)
  then show ?case by (cases as; cases "is") (auto simp: algebra_simps)
qed simp

text \<open>Regions over the loops \<open>ls\<close> of a row-major output, the axes of extent one left out.\<close>

lemma row_major_regions:
  fixes us ds :: "int list" and r :: "int \<Rightarrow> Region"
  defines "ds' \<equiv> filter (\<lambda>d. d \<noteq> 1) ds" and "us' \<equiv> map snd (filter (\<lambda>x. fst x \<noteq> 1) (zip ds us))"
  defines "k \<equiv> length ds' - 3"
  assumes "length us = length ds" "\<forall>d \<in> set ds. 0 \<le> d"
    and "\<And>n. r n = mk_region (so + dot us' (unravelIndexHelper (strides (take k ds')) n)) [fromEnd 3 0 us', fromEnd 2 0 us', fromEnd 1 0 us']
      (n * fromEnd 3 1 ds' * fromEnd 2 1 ds' * fromEnd 1 1 ds')
      [fromEnd 2 1 ds' * fromEnd 1 1 ds', fromEnd 1 1 ds', 1] [fromEnd 3 1 ds', fromEnd 2 1 ds', fromEnd 1 1 ds'] (Some i)"
  shows "set (moves (map r [0..prod_list (take k ds') - 1])) = {(x, i, so + y) | x y. (x, y) \<in> set (box (axisLoops ds us))}"
proof -
  let ?ls = "axisLoops ds' us'"
  have l: "length us' = length ds'" using arg_cong [OF axisLoops_filter [OF assms(4)], of length] assms(4)
    by (simp add: us'_def ds'_def) (induction ds us rule: list_induct2', auto)
  have nn: "\<forall>d \<in> set ds'. 0 \<le> d" using assms(5) by (auto simp: ds'_def)
  note parts = axisLoops_parts [OF l]
  have len: "length ?ls = length ds'" using l by simp
  have k: "sizes (take k ?ls) = take k ds'" "sstrides (take k ?ls) = take k us'" using parts by (simp_all flip: take_map)
  have "set (moves (map r [0..prod_list (sizes (take (length ?ls - 3) ?ls)) - 1])) = {(0 + x, i, so + y) | x y. (x, y) \<in> set (box ?ls)}"
  proof (rule unrolled_moves [where ?s0.0 = "fromEnd 3 0 us'" and ?s1.0 = "fromEnd 2 0 us'" and ?s2.0 = "fromEnd 1 0 us'"])
    show "\<forall>l \<in> set ?ls. 0 \<le> fst l" using nn by (auto dest: set_zip_leftD)
    show "set (box [(fromEnd 3 1 ds', fromEnd 3 0 us', fromEnd 2 1 ds' * fromEnd 1 1 ds'),
      (fromEnd 2 1 ds', fromEnd 2 0 us', fromEnd 1 1 ds'), (fromEnd 1 1 ds', fromEnd 1 0 us', 1)]) =
      set (box (drop (length ?ls - 3) ?ls))" unfolding len by (rule box_row_major [OF l])
    fix n assume n: "0 \<le> n" "n < prod_list (sizes (take (length ?ls - 3) ?ls))"
    have "dot (take k us') (unravelIndexHelper (strides (take k ds')) n) = dot us' (unravelIndexHelper (strides (take k ds')) n)"
      by (rule dot_take) simp
    then show "r n = mk_region (so + dot (sstrides (take (length ?ls - 3) ?ls)) (coords (take (length ?ls - 3) ?ls) n))
        [fromEnd 3 0 us', fromEnd 2 0 us', fromEnd 1 0 us']
        (0 + dot (dstrides (take (length ?ls - 3) ?ls)) (coords (take (length ?ls - 3) ?ls) n))
        [fromEnd 2 1 ds' * fromEnd 1 1 ds', fromEnd 1 1 ds', 1] [fromEnd 3 1 ds', fromEnd 2 1 ds', fromEnd 1 1 ds'] (Some i)"
      using dst_row_major [OF l nn, of n] n unfolding len by (simp add: assms(6) k flip: k_def)
  qed
  moreover have "set (box ?ls) = set (box (axisLoops ds us))"
    unfolding ds'_def us'_def axisLoops_filter [OF assms(4), symmetric] by (rule box_filter)
  ultimately show ?thesis unfolding len by (simp add: k flip: k_def)
qed

lemma SliceTF_describes:
  fixes input begin_tensor out :: Tensor and i :: nat
  defines "bs \<equiv> map (\<lambda>k. if hostv begin_tensor k < 0 then hostv begin_tensor k + tlength input k else hostv begin_tensor k)
    [0..dimensions input - 1]"
  assumes "dimensions out = dimensions input" "nonneg out"
  shows "describes (GeometrySliceTF i input begin_tensor out) (shape out)
    (\<lambda>is. Some (i, lin (shape input) (map2 (+) bs is)))"
proof (rule describes_axisLoops)
  let ?us = "strides (shape input)" and ?ds = "shape out"
  let ?sep = "filter (\<lambda>k. tlength out k \<noteq> 1) [0..dimensions out - 1]"
  show l: "length ?us = length ?ds" using assms(2) by simp
  have sep: "map (tlength out) ?sep = filter (\<lambda>d. d \<noteq> 1) ?ds"
    by (simp add: shape_def filter_map comp_def)
  have sep': "map (\<lambda>k. ?us ! nat k) ?sep = map snd (filter (\<lambda>x. fst x \<noteq> 1) (zip ?ds ?us))"
  proof -
    have "zip ?ds ?us = map (\<lambda>k. (tlength out k, ?us ! nat k)) [0..dimensions out - 1]"
      using assms(2) by (intro nth_equalityI) (auto simp: shape_nth)
    then show ?thesis by (simp add: filter_map comp_def)
  qed
  have k: "length ?sep = length (filter (\<lambda>d. d \<noteq> 1) ?ds)" using arg_cong [OF sep, of length] by simp
  let ?ds' = "filter (\<lambda>d. d \<noteq> 1) ?ds" and ?us' = "map snd (filter (\<lambda>x. fst x \<noteq> 1) (zip ?ds ?us))"
  define r where "r n = mk_region (lin (shape input) bs + dot ?us' (unravelIndexHelper (strides (take (length ?ds' - 3) ?ds')) n))
      [fromEnd 3 0 ?us', fromEnd 2 0 ?us', fromEnd 1 0 ?us']
      (n * fromEnd 3 1 ?ds' * fromEnd 2 1 ?ds' * fromEnd 1 1 ?ds')
      [fromEnd 2 1 ?ds' * fromEnd 1 1 ?ds', fromEnd 1 1 ?ds', 1] [fromEnd 3 1 ?ds', fromEnd 2 1 ?ds', fromEnd 1 1 ?ds'] (Some i)" for n
  have "GeometrySliceTF i input begin_tensor out = map r [0..prod_list (take (length ?ds' - 3) ?ds') - 1]"
    by (simp add: GeometrySliceTF_def sliceTfScan_eval bs_def [symmetric] Let_def sep sep' k fold_mult r_def [abs_def] add.commute)
  moreover have "\<forall>d \<in> set ?ds. 0 \<le> d" using assms(3) by (simp add: nonneg_def)
  ultimately show "set (moves (GeometrySliceTF i input begin_tensor out)) =
      {(x, i, lin (shape input) bs + y) | x y. (x, y) \<in> set (box (axisLoops ?ds ?us))}"
    using row_major_regions [OF l _ r_def] by simp
next
  fix "is" assume "inShape (shape out) is"
  then have l: "length is = nat (dimensions input)" "length bs = length is"
    using inShape_length assms(2) by (auto simp: bs_def)
  then show "Some (i, lin (shape input) (map2 (+) bs is)) = Some (i, lin (shape input) bs + dot (strides (shape input)) is)"
    using lin_add [of bs "is" "shape input"] lin_dot [of "is" "shape input"] by simp
qed

end
