(* ===== verification/Geometry_Permute.thy ===== *)
theory Geometry_Permute
  imports Geometry_Boxes
begin

text \<open>
  Correctness of \<^const>\<open>ComputePermuteRegion\<close>: merging axes that stay together and moving the largest
  extents to the innermost loops do not change what the regions copy.
\<close>

section \<open>Dropping and merging axes\<close>

lemma axisLoops_append:
  assumes "length us = length xs"
  shows "axisLoops (xs @ ys) (us @ vs) = map (\<lambda>(n, u, v). (n, u, v * prod_list ys)) (axisLoops xs us) @ axisLoops ys vs"
  using assms by (induction us xs rule: list_induct2) (auto simp: algebra_simps)

lemma axisLoops_one:
  assumes "length us = length xs"
  shows "set (box (axisLoops (xs @ 1 # ys) (us @ u # vs))) = set (box (axisLoops (xs @ ys) (us @ vs)))"
  unfolding axisLoops_append [OF assms] by (rule box_append_cong [THEN trans]) simp_all

lemma axisLoops_merge:
  assumes "length us = length xs" "0 < m"
  shows "set (box (axisLoops (xs @ n # m # ys) (us @ (m * u) # u # vs))) = set (box (axisLoops (xs @ (n * m) # ys) (us @ u # vs)))"
proof -
  have "set (box (axisLoops (n # m # ys) ((m * u) # u # vs))) = set (box (axisLoops ((n * m) # ys) (u # vs)))"
    using box_merge [OF assms(2), of n u "prod_list ys" "axisLoops ys vs"] by simp
  then have "set (box (map (\<lambda>(n, u, v). (n, u, v * prod_list (n' # ys))) (axisLoops xs us) @ axisLoops (n # m # ys) ((m * u) # u # vs))) =
      set (box (map (\<lambda>(n, u, v). (n, u, v * prod_list (n' # ys))) (axisLoops xs us) @ axisLoops ((n * m) # ys) (u # vs)))" for n'
    by (rule box_append_cong)
  from this [of "n * m"] show ?thesis unfolding axisLoops_append [OF assms(1)] by (simp add: mult.assoc)
qed

section \<open>The merged loops\<close>

abbreviation axisStride :: "Tensor \<Rightarrow> int \<Rightarrow> int" where
  "axisStride t a \<equiv> prodLen t (a + 1) (dimensions t)"

lemma axisStride_step:
  assumes "0 \<le> a" "a + 1 < dimensions t"
  shows "axisStride t a = tlength t (a + 1) * axisStride t (a + 1)"
proof -
  have "[a + 1..dimensions t - 1] = (a + 1) # [a + 1 + 1..dimensions t - 1]" using assms by (intro upto_rec1) simp
  then show ?thesis by (simp add: prodLen_prod)
qed

lemma axisStride_shape:
  assumes "0 \<le> a" "a < dimensions t"
  shows "axisStride t a = strides (shape t) ! nat a"
proof -
  have "nat (a + 1) = Suc (nat a)" using assms by simp
  then show ?thesis using assms by (simp add: prodLen_drop strides_nth)
qed

text \<open>The strides with the one that the state still lacks.\<close>

definition flushed :: "Tensor \<Rightarrow> int \<times> int list \<times> int list \<Rightarrow> int list" where
  "flushed t st = (case st of (pre, ns, us) \<Rightarrow> if pre \<ge> 0 then us @ [axisStride t pre] else us)"

definition scan_ok :: "Tensor \<Rightarrow> int \<times> int list \<times> int list \<Rightarrow> bool" where
  "scan_ok t st \<longleftrightarrow> (case st of (pre, ns, us) \<Rightarrow> length (flushed t st) = length ns \<and> (\<forall>n \<in> set ns. 0 < n) \<and>
     (pre < 0 \<longrightarrow> pre = -2 \<and> ns = []) \<and> (pre \<ge> 0 \<longrightarrow> ns \<noteq> []))"

lemma permuteScan_loops:
  assumes "scan_ok t st" "\<forall>a \<in> set axes. 0 \<le> a \<and> a < dimensions t \<and> 0 < tlength t a"
  shows "scan_ok t (permuteScan t axes st) \<and>
    set (box (axisLoops (fst (snd (permuteScan t axes st))) (flushed t (permuteScan t axes st)))) =
    set (box (axisLoops (fst (snd st) @ map (tlength t) axes) (flushed t st @ map (axisStride t) axes)))"
  using assms
proof (induction axes arbitrary: st)
  case (Cons a axes)
  obtain pre ns us where st: "st = (pre, ns, us)" by (cases st)
  have a: "0 \<le> a" "a < dimensions t" "0 < tlength t a" using Cons.prems by auto
  have l: "length (flushed t st) = length ns" using Cons.prems by (simp add: scan_ok_def st)
  let ?rest = "map (tlength t) axes" and ?strides = "map (axisStride t) axes"
  consider "tlength t a = 1" | "tlength t a \<noteq> 1" "a - pre = 1" | "tlength t a \<noteq> 1" "a - pre \<noteq> 1" by blast
  then show ?case
  proof cases
    case 1
    then have "permuteScan t (a # axes) st = permuteScan t axes st" by (simp add: st)
    then show ?thesis using Cons.IH [of st] Cons.prems axisLoops_one [OF l, of ?rest "axisStride t a" ?strides] 1
      by (simp add: st)
  next
    case 2
    let ?st = "(a, butlast ns @ [last ns * tlength t a], us)"
    have e: "permuteScan t (a # axes) st = permuteScan t axes ?st" using 2 by (simp add: st)
    have pre: "0 \<le> pre" "ns \<noteq> []" using 2 a(1) Cons.prems(1) by (auto simp: scan_ok_def st)
    have us: "length us = length (butlast ns)" using l pre by (simp add: flushed_def st)
    have ok: "scan_ok t ?st" using Cons.prems(1) a pre us
      by (auto simp: scan_ok_def st flushed_def dest: in_set_butlastD intro!: mult_pos_pos)
    have s: "axisStride t pre = tlength t a * axisStride t a"
      using axisStride_step [OF pre(1)] 2 a by (simp add: algebra_simps)
    have n: "ns = butlast ns @ [last ns]" using pre by simp
    have "set (box (axisLoops (butlast ns @ last ns # tlength t a # ?rest) (us @ (tlength t a * axisStride t a) # axisStride t a # ?strides))) =
        set (box (axisLoops (butlast ns @ (last ns * tlength t a) # ?rest) (us @ axisStride t a # ?strides)))"
      by (rule axisLoops_merge [OF us a(3)])
    moreover have "fst (snd st) @ map (tlength t) (a # axes) = butlast ns @ last ns # tlength t a # ?rest"
      using n by (simp only: st fst_conv snd_conv list.map) (metis append.assoc append_Cons append_Nil)
    moreover have "flushed t st @ map (axisStride t) (a # axes) = us @ (tlength t a * axisStride t a) # axisStride t a # ?strides"
      using pre by (simp add: st flushed_def s)
    moreover have "fst (snd ?st) @ ?rest = butlast ns @ (last ns * tlength t a) # ?rest"
      "flushed t ?st @ ?strides = us @ axisStride t a # ?strides" using a by (simp_all add: flushed_def)
    ultimately have "set (box (axisLoops (fst (snd st) @ map (tlength t) (a # axes)) (flushed t st @ map (axisStride t) (a # axes)))) =
        set (box (axisLoops (fst (snd ?st) @ ?rest) (flushed t ?st @ ?strides)))" by (simp only:)
    moreover have "scan_ok t (permuteScan t axes ?st) \<and>
      set (box (axisLoops (fst (snd (permuteScan t axes ?st))) (flushed t (permuteScan t axes ?st)))) =
      set (box (axisLoops (fst (snd ?st) @ ?rest) (flushed t ?st @ ?strides)))"
      using Cons.prems(2) by (intro Cons.IH [OF ok]) simp
    ultimately show ?thesis unfolding e by (simp only:)
  next
    case 3
    let ?st = "(a, ns @ [tlength t a], if pre \<ge> 0 then us @ [axisStride t pre] else us)"
    have e: "permuteScan t (a # axes) st = permuteScan t axes ?st" using 3 by (simp add: st)
    have ok: "scan_ok t ?st" using Cons.prems(1) a l by (auto simp: scan_ok_def st flushed_def)
    show ?thesis using Cons.IH [OF ok] Cons.prems(2) e a by (simp add: st flushed_def)
  qed
qed (simp_all add: flushed_def)

lemma permuteScan_empty:
  "fst (snd (permuteScan t axes st)) = [] \<Longrightarrow> fst (snd st) = [] \<and> (\<forall>a \<in> set axes. tlength t a = 1)"
proof (induction axes arbitrary: st)
  case (Cons a axes)
  obtain pre ns us where st: "st = (pre, ns, us)" by (cases st)
  show ?case
  proof (cases "tlength t a = 1")
    case True
    then have "permuteScan t (a # axes) st = permuteScan t axes st" by (simp add: st)
    then show ?thesis using Cons True by simp
  next
    case False
    let ?ns = "if a - pre = 1 then butlast ns @ [last ns * tlength t a] else ns @ [tlength t a]"
      and ?us = "if a - pre = 1 then us else if pre \<ge> 0 then us @ [axisStride t pre] else us"
    have "permuteScan t (a # axes) st = permuteScan t axes (a, ?ns, ?us)" using False by (simp add: st Let_def)
    then show ?thesis using Cons.IH [of "(a, ?ns, ?us)"] Cons.prems by (simp split: if_splits)
  qed
qed simp

lemma permuteShape_loops:
  assumes "\<forall>a \<in> set axes. 0 \<le> a \<and> a < dimensions t \<and> 0 < tlength t a"
  defines "ns \<equiv> fst (permuteShape t axes)" and "us \<equiv> snd (permuteShape t axes)"
  shows "length us = length ns" "positive ns"
    "set (box (axisLoops ns us)) = set (box (axisLoops (map (tlength t) axes) (map (axisStride t) axes)))"
    "ns = [] \<Longrightarrow> \<forall>a \<in> set axes. tlength t a = 1"
proof -
  obtain pre ns' us' where s: "permuteScan t axes (-2, [], []) = (pre, ns', us')" by (cases "permuteScan t axes (-2, [], [])")
  have ok: "scan_ok t (-2, [], [])" by (simp add: scan_ok_def flushed_def)
  note p = permuteScan_loops [OF ok assms(1), unfolded s]
  have e: "ns = ns'" "us = flushed t (pre, ns', us')" by (simp_all add: ns_def us_def permuteShape_def s flushed_def)
  show "length us = length ns" "positive ns"
    "set (box (axisLoops ns us)) = set (box (axisLoops (map (tlength t) axes) (map (axisStride t) axes)))"
    using p unfolding e by (auto simp: scan_ok_def flushed_def)
  show "ns = [] \<Longrightarrow> \<forall>a \<in> set axes. tlength t a = 1" using permuteScan_empty [of t axes "(-2, [], [])"] by (simp add: s e)
qed

section \<open>Reordering the loops\<close>

lemma mset_swapAt: "i < length ls \<Longrightarrow> j < length ls \<Longrightarrow> mset (swapAt i j ls) = mset ls"
  by (simp add: swapAt_def mset_swap)

lemma moveMax_Cons:
  "\<exists>moved maxs'. moveMax (i # is) maxs lastIndex ls =
    (let ls' = (if moved then swapAt i lastIndex ls else ls); next = int lastIndex - (if moved then 1 else 0)
     in if next < int (length ls) - 3 then ls' else moveMax is maxs' (nat next) ls')"
proof -
  obtain max1 max2 max3 where m: "maxs = (max1, max2, max3)" by (cases maxs)
  define n where "n = fst (ls ! i)"
  obtain moved maxs' where "(if n = max1 then (True, -1, max2, max3) else if n = max2 then (True, max1, -1, max3)
      else if n = max3 then (True, max1, max2, -1) else (False, max1, max2, max3)) = (moved, maxs')"
    by (meson surj_pair)
  note step = this [unfolded n_def]
  show ?thesis unfolding m by (intro exI [of _ moved] exI [of _ maxs']) (simp only: moveMax.simps Let_def step case_prod_conv)
qed

lemma moveMax_mset:
  "\<forall>i \<in> set is. i < length ls \<Longrightarrow> lastIndex < length ls \<Longrightarrow> mset (moveMax is maxs lastIndex ls) = mset ls"
proof (induction "is" arbitrary: maxs lastIndex ls)
  case (Cons i "is")
  obtain moved maxs' where e: "moveMax (i # is) maxs lastIndex ls =
    (let ls' = (if moved then swapAt i lastIndex ls else ls); next = int lastIndex - (if moved then 1 else 0)
     in if next < int (length ls) - 3 then ls' else moveMax is maxs' (nat next) ls')"
    using moveMax_Cons by blast
  let ?ls' = "if moved then swapAt i lastIndex ls else ls"
  have "mset ?ls' = mset ls" using Cons.prems by (simp add: mset_swapAt)
  moreover have "length ?ls' = length ls" by (simp add: swapAt_def)
  moreover have "nat (int lastIndex - (if moved then 1 else 0)) < length ls" using Cons.prems by (auto simp: nat_less_iff)
  moreover from calculation have "mset (moveMax is maxs' (nat (int lastIndex - (if moved then 1 else 0))) ?ls') = mset ?ls'"
    using Cons.prems(1) by (intro Cons.IH) (simp_all split del: if_split)
  ultimately show ?case by (simp only: e Let_def split: if_split) simp
qed simp

lemma moveMax_all: "mset (moveMax (rev [0..<length ls]) m (length ls - 1) ls) = mset ls"
  by (cases "ls = []") (simp, intro moveMax_mset, auto)

lemma mset_permuteLoops:
  "mset (permuteLoops t axes) = mset (axisLoops (fst (permuteShape t axes)) (snd (permuteShape t axes)))"
  unfolding permuteLoops_def split_def Let_def by (simp only: moveMax_all split: if_split) simp

section \<open>The permutation\<close>

lemma fromEnd_fst: "0 < k \<Longrightarrow> fst (fromEnd k (1, 0, 0) ls) = fromEnd k 1 (sizes ls)"
  by (simp add: fromEnd_def)

lemma prod_list_ones: "\<forall>d \<in> set ds. d = (1 :: int) \<Longrightarrow> prod_list ds = 1"
  by (induction ds) auto

lemma ComputePermuteRegion_moves:
  assumes "\<forall>a \<in> set axes. 0 \<le> a \<and> a < dimensions t \<and> 0 < tlength t a" "mset axes = mset [0..dimensions t - 1]"
  shows "set (moves (ComputePermuteRegion i t (Some axes))) =
    {(x, i, 0 + y) | x y. (x, y) \<in> set (box (axisLoops (map (tlength t) axes) (map (axisStride t) axes)))}"
proof -
  let ?ls = "permuteLoops t axes"
  note p = permuteShape_loops [OF assms(1)]
  have b: "set (box ?ls) = set (box (axisLoops (map (tlength t) axes) (map (axisStride t) axes)))"
    using box_perm [OF mset_permuteLoops] p(3) by simp
  show ?thesis
  proof (cases "?ls = []")
    case True
    then have "axisLoops (fst (permuteShape t axes)) (snd (permuteShape t axes)) = []"
      using mset_permuteLoops [of t axes] by simp
    then have "length (axisLoops (fst (permuteShape t axes)) (snd (permuteShape t axes))) = 0" by (simp only: list.size)
    then have "fst (permuteShape t axes) = []" using p(1) by simp
    then have "\<forall>a \<in> set axes. tlength t a = 1" using p(4) by simp
    then have "\<forall>d \<in> set (shape t). d = 1" using arg_cong [OF assms(2), of set_mset] by (auto simp: shape_def)
    then have "elementCount t = 1" unfolding shape_prod by (intro prod_list_ones)
    moreover have "set (box ?ls) = {(0, 0)}" using True by simp
    ultimately show ?thesis using True unfolding b [symmetric]
      by (simp add: ComputePermuteRegion_def makeFullSlice_def)
  next
    case False
    have nn: "\<forall>l \<in> set ?ls. 0 \<le> fst l"
      using p(2) arg_cong [OF mset_permuteLoops [of t axes], of set_mset] by (fastforce dest: set_zip_leftD)
    obtain n0 s0 d0 where 0: "fromEnd 3 (1, 0, 0) ?ls = (n0, s0, d0)" by (metis prod_cases3)
    obtain n1 s1 d1 where 1: "fromEnd 2 (1, 0, 0) ?ls = (n1, s1, d1)" by (metis prod_cases3)
    obtain n2 s2 d2 where 2: "fromEnd 1 (1, 0, 0) ?ls = (n2, s2, d2)" by (metis prod_cases3)
    let ?ks = "take (length ?ls - 3) ?ls"
    define r where "r n = mk_region (0 + dot (sstrides ?ks) (coords ?ks n)) [s0, s1, s2] (0 + dot (dstrides ?ks) (coords ?ks n))
      [d0, d1, d2] [n0, n1, n2] (Some i)" for n
    have "ComputePermuteRegion i t (Some axes) = map r [0..prod_list (sizes ?ks) - 1]"
      using False 0 1 2 by (simp add: ComputePermuteRegion_def Let_def r_def [abs_def] fold_mult)
    moreover have "set (moves (map r [0..prod_list (sizes ?ks) - 1])) = {(0 + x, i, 0 + y) | x y. (x, y) \<in> set (box ?ls)}"
      by (rule unrolled_moves [OF nn r_def]) (use box_last_three [of 0 0 ?ls 0 0 0 0, unfolded 0 1 2] in blast)
    ultimately show ?thesis unfolding b by simp
  qed
qed

text \<open>The element that a permutation takes.\<close>

lemma permute_index:
  assumes "mset axes = mset [0..dimensions t - 1]" "inShape (shape t) js"
  shows "inShape (map (tlength t) axes) (map (\<lambda>a. js ! nat a) axes)"
    and "dot (map (axisStride t) axes) (map (\<lambda>a. js ! nat a) axes) = lin (shape t) js"
proof -
  have s: "a \<in> set axes \<longleftrightarrow> 0 \<le> a \<and> a < dimensions t" for a using mset_eq_setD [OF assms(1)] by simp
  have l: "length js = nat (dimensions t)" using assms(2) by (auto dest: inShape_length)
  show "inShape (map (tlength t) axes) (map (\<lambda>a. js ! nat a) axes)"
    unfolding inShape_def list_all2_map1 list_all2_map2 list_all2_same
  proof
    fix a assume "a \<in> set axes"
    then have "nat a < length (shape t)" "shape t ! nat a = tlength t a" using s by (auto simp: shape_nth)
    then show "0 \<le> js ! nat a \<and> js ! nat a < tlength t a" using assms(2) unfolding inShape_nth by metis
  qed
  let ?g = "\<lambda>a. js ! nat a * axisStride t a"
  have "dot (map (axisStride t) axes) (map (\<lambda>a. js ! nat a) axes) = sum_list (map ?g axes)"
    by (induction axes) auto
  also have "\<dots> = sum_list (map ?g [0..dimensions t - 1])"
  proof -
    have "mset (map ?g axes) = mset (map ?g [0..dimensions t - 1])" unfolding mset_map assms(1) ..
    from arg_cong [OF this, of sum_mset] show ?thesis by (simp only: sum_mset_sum_list)
  qed
  also have "map ?g [0..dimensions t - 1] = map2 (*) js (strides (shape t))"
    using l by (intro nth_equalityI) (auto simp: axisStride_shape)
  also have "sum_list \<dots> = lin (shape t) js" using l by (simp add: lin_dot)
  finally show "dot (map (axisStride t) axes) (map (\<lambda>a. js ! nat a) axes) = lin (shape t) js" .
qed

lemma ComputePermuteRegion_describes:
  assumes "mset axes = mset [0..dimensions t - 1]" "positive (shape t)"
  shows "describes (ComputePermuteRegion i t (Some axes)) (map (tlength t) axes)
    (\<lambda>is. Some (i, 0 + dot (map (axisStride t) axes) is))"
proof (rule describes_axisLoops)
  have s: "a \<in> set axes \<longleftrightarrow> 0 \<le> a \<and> a < dimensions t" for a using mset_eq_setD [OF assms(1)] by simp
  have "\<forall>a \<in> {0..<dimensions t}. 0 < tlength t a" using assms(2) unfolding set_shape by simp
  then have "\<forall>a \<in> set axes. 0 \<le> a \<and> a < dimensions t \<and> 0 < tlength t a" using s by simp
  then show "set (moves (ComputePermuteRegion i t (Some axes))) =
    {(x, i, 0 + y) | x y. (x, y) \<in> set (box (axisLoops (map (tlength t) axes) (map (axisStride t) axes)))}"
    using assms(1) by (rule ComputePermuteRegion_moves)
qed simp_all

end
