(* ===== verification/Geometry_Broadcast.thy ===== *)
theory Geometry_Broadcast
  imports Geometry_Axis_Correct
begin

text \<open>
  Correctness of \<^const>\<open>broadcastto\<close>, \<^const>\<open>ConvertUtils_compute\<close>, \<^const>\<open>GeometryReverse\<close> and of the
  computers that keep the order of the elements.
\<close>

section \<open>Full slices\<close>

lemma moves_makeFullSlice: "set (moves [makeFullSlice i t]) = {(x, i, x) | x. 0 \<le> x \<and> x < elementCount t}"
  by (auto simp: makeFullSlice_def Let_def in_box_Cons)

lemma makeFullSlice_describes:
  assumes "elementCount t = prod_list ds" "positive ds" "\<And>is. inShape ds is \<Longrightarrow> f is = Some (i, lin ds is)"
  shows "describes [makeFullSlice i t] ds f"
  unfolding describes_def moves_makeFullSlice assms(1)
proof (intro equalityI subsetI; elim CollectE exE conjE)
  fix u x assume u: "u = (x, i, x)" "0 \<le> x" "x < prod_list ds"
  then obtain "is" where "inShape ds is" "lin ds is = x" using lin_surj assms(2) by blast
  then show "u \<in> {(lin ds is, m) | is m. inShape ds is \<and> f is = Some m}" using u(1) assms(3) by blast
next
  fix u "is" m assume "u = (lin ds is, m)" "inShape ds is" "f is = Some m"
  then show "u \<in> {(x, i, x) | x. 0 \<le> x \<and> x < prod_list ds}" using assms(3) lin_bounds by auto
qed

text \<open>Keeping the regions of a virtual input keeps what they write.\<close>

lemma makeFullRef_raster:
  assumes "elementCount t = elementCount out"
  shows "raster zero env out (makeFullRef i t (Some rs)) mem = raster zero env t rs mem"
  using assms by (simp add: makeFullRef_def raster_def regionIsFull_def)

lemma recompute_moves:
  assumes "wf_region r" "SingleGeometryComputer_onRecompute i t [] [r] = Some rs"
  shows "set (moves rs) = set (moves [makeFullSlice i t])"
proof -
  obtain s0 s1 s2 d0 d1 d2 where r: "v_stride (r_src r) = [s0, s1, s2]" "v_stride (r_dst r) = [d0, d1, d2]"
    using assms(1) by (auto simp: wf_region_def length_Suc_conv numeral_3_eq_3)
  have "rs = [mk_region 0 [s0, s1, 1] 0 [d0, d1, 1] [1, 1, elementCount t] (Some i)]"
    using assms(2) r by (auto simp: SingleGeometryComputer_onRecompute_def mk_region_def prodLen_def elementCount_def)
  then show ?thesis by (simp add: makeFullSlice_def Let_def)
qed

section \<open>Broadcasting\<close>

abbreviation bstrides :: "int list \<Rightarrow> int list" where
  "bstrides ns \<equiv> map2 (\<lambda>n s. if 1 = n then 0 else s) ns (strides ns)"

definition bloops :: "(int \<times> int) list \<Rightarrow> loop list" where
  "bloops r = axisLoops (map snd r) (bstrides (map fst r))"

lemma bloops_simps [simp]:
  "bloops [] = []"
  "bloops ((a, m) # r) = (m, if 1 = a then 0 else prod_list (map fst r), prod_list (map snd r)) # bloops r"
  by (simp_all add: bloops_def)

definition broadcastable :: "(int \<times> int) list \<Rightarrow> bool" where
  "broadcastable r \<longleftrightarrow> (\<forall>(a, m) \<in> set r. 0 < m \<and> (a = m \<or> a = 1))"

lemma broadcastable_simps [simp]:
  "broadcastable []" "broadcastable ((a, m) # r) \<longleftrightarrow> 0 < m \<and> (a = m \<or> a = 1) \<and> broadcastable r"
  by (auto simp: broadcastable_def)

text \<open>Two lists of extents that stand for the same loops.\<close>

definition same_loops :: "(int \<times> int) list \<Rightarrow> (int \<times> int) list \<Rightarrow> bool" where
  "same_loops r r' \<longleftrightarrow> set (box (bloops r)) = set (box (bloops r')) \<and>
     prod_list (map fst r) = prod_list (map fst r') \<and> prod_list (map snd r) = prod_list (map snd r')"

lemma same_loops_refl [simp]: "same_loops r r" by (simp add: same_loops_def)

lemma same_loops_trans: "same_loops r s \<Longrightarrow> same_loops s t \<Longrightarrow> same_loops r t" by (simp add: same_loops_def)

lemma same_loops_Cons: "same_loops r r' \<Longrightarrow> same_loops (p # r) (p # r')"
  by (cases p) (auto simp only: same_loops_def bloops_simps list.map fst_conv snd_conv prod_list.Cons intro!: box_cong)

lemma same_loops_one: "same_loops ((1, 1) # r) r" by (simp add: same_loops_def)

lemma same_loops_ones:
  assumes "0 < n"
  shows "same_loops ((1, m * n) # r) ((1, m) # (1, n) # r)"
  using box_merge [OF assms, of m 0 "prod_list (map snd r)" "bloops r"] by (simp add: same_loops_def mult.assoc)

lemma same_loops_equal:
  assumes "0 < c" "0 < n"
  shows "same_loops ((c * n, c * n) # r) ((c, c) # (n, n) # r)"
proof -
  let ?P = "prod_list (map fst r)" and ?Q = "prod_list (map snd r)"
  have "set (box (bloops ((c * n, c * n) # r))) = set (box (bloops ((c, c) # (n, n) # r)))"
  proof (cases "n = 1")
    case True
    then show ?thesis using box_cong [OF box_drop_one [of 0 ?Q "bloops r"], of "(c, if 1 = c then 0 else ?P, ?Q)"] by (cases "c = 1") simp_all
  next
    case False
    show ?thesis
    proof (cases "c = 1")
      case False
      have "1 < c * n" using assms False \<open>n \<noteq> 1\<close> by (smt (verit) mult_le_cancel_left1)
      then show ?thesis using box_merge [OF assms(2), of c ?P ?Q "bloops r"] False \<open>n \<noteq> 1\<close> by simp
    qed simp
  qed
  then show ?thesis by (simp add: same_loops_def mult.assoc)
qed

lemma squeezePass_same:
  "broadcastable r \<Longrightarrow> same_loops (fst (squeezePass r)) r \<and> broadcastable (fst (squeezePass r))"
proof (induction r rule: squeezePass.induct)
  case (1 a m b n r)
  show ?case
  proof (cases "a = 1 \<and> b = 1")
    case True
    then have "same_loops (fst (squeezePass ((1, m * n) # r))) ((1, m * n) # r) \<and> broadcastable (fst (squeezePass ((1, m * n) # r)))"
      using 1 by simp
    then show ?thesis using True 1(3) same_loops_trans [OF _ same_loops_ones [of n m r]] by simp
  next
    case False
    then have "same_loops (fst (squeezePass ((b, n) # r))) ((b, n) # r) \<and> broadcastable (fst (squeezePass ((b, n) # r)))"
      using 1 by simp
    then show ?thesis using False 1(3) by (auto simp: split_def Let_def intro: same_loops_Cons)
  qed
qed simp_all

lemma squeezeOnes_same: "broadcastable r \<Longrightarrow> same_loops (squeezeOnes r) r \<and> broadcastable (squeezeOnes r)"
proof (induction r rule: squeezeOnes.induct)
  case (1 r)
  note p = squeezePass_same [OF 1(2)]
  show ?case
  proof (cases "length r \<ge> 2 \<and> snd (squeezePass r)")
    case True
    then have "squeezeOnes r = squeezeOnes (fst (squeezePass r))" by (subst squeezeOnes.simps) (simp add: split_def)
    moreover have "same_loops (squeezeOnes (fst (squeezePass r))) (fst (squeezePass r)) \<and> broadcastable (squeezeOnes (fst (squeezePass r)))"
      using 1(1) [of "squeezePass r" "fst (squeezePass r)" "snd (squeezePass r)"] True p by (simp add: prod_eq_iff)
    ultimately show ?thesis using p same_loops_trans by metis
  next
    case False
    then have "squeezeOnes r = (if length r \<ge> 2 then fst (squeezePass r) else r)" by (subst squeezeOnes.simps) (auto simp: split_def)
    then show ?thesis using p 1(2) by simp
  qed
qed

lemma separate_same:
  "broadcastable r \<Longrightarrow> 0 < c \<Longrightarrow> same_loops (separate r c c) ((c, c) # r)"
proof (induction r arbitrary: c)
  case Nil
  then show ?case using same_loops_one [of "[]"] by (auto simp: same_loops_def)
next
  case (Cons p r)
  obtain a m where p: "p = (a, m)" by (cases p)
  show ?case
  proof (cases "a = m")
    case True
    have m: "0 < m" "broadcastable r" using Cons.prems p by auto
    have "same_loops (separate r (c * m) (c * m)) ((c * m, c * m) # r)"
      using Cons m by (intro Cons.IH) auto
    then show ?thesis using same_loops_trans [OF _ same_loops_equal [OF Cons.prems(2) m(1)]] p True by simp
  next
    case False
    have r: "same_loops (separate r 1 1) r"
      using same_loops_trans [OF Cons.IH same_loops_one] Cons.prems p by simp
    have s: "same_loops ((a, m) # separate r 1 1) ((a, m) # r)" using r by (rule same_loops_Cons)
    show ?thesis
    proof (cases "1 < c")
      case True
      then show ?thesis using same_loops_Cons [OF s, of "(c, c)"] p False by simp
    next
      case 1: False
      then have "c = 1" using Cons.prems by simp
      moreover have "same_loops ((a, m) # r) ((1, 1) # (a, m) # r)" using same_loops_one by (simp add: same_loops_def)
      ultimately show ?thesis using same_loops_trans [OF s] p False by simp
    qed
  qed
qed

text \<open>The index of the input that an index of the output reads.\<close>

abbreviation clamp :: "int list \<Rightarrow> int list \<Rightarrow> int list" where
  "clamp ns is \<equiv> map2 (\<lambda>n k. if n = 1 then 0 else k) ns is"

lemma dot_bstrides: "length is = length ns \<Longrightarrow> dot (bstrides ns) is = lin ns (clamp ns is)"
  by (induction "is" ns rule: list_induct2) auto

lemma lin_ones: "lin (replicate k 1 @ ds) (replicate k 0 @ is) = lin ds is"
  by (induction k) auto

lemma clamp_inShape: "inShape ns is \<Longrightarrow> clamp ns is = is"
proof (induction ns arbitrary: "is")
  case (Cons n ns)
  then obtain k ks where "is = k # ks" "0 \<le> k" "k < n" "inShape ns ks" by (auto simp: inShape_Cons)
  then show ?case using Cons.IH by auto
qed simp

lemma broadcastable_le: "broadcastable r \<Longrightarrow> 0 < prod_list (map fst r) \<and> prod_list (map fst r) \<le> prod_list (map snd r)"
proof (induction r)
  case (Cons p r)
  obtain a m where p: "p = (a, m)" by (cases p)
  then have "0 < a" "a \<le> m" "broadcastable r" using Cons.prems by auto
  then show ?case using Cons.IH p by (auto intro: mult_mono)
qed simp

lemma broadcastable_equal:
  "broadcastable r \<Longrightarrow> prod_list (map fst r) = prod_list (map snd r) \<Longrightarrow> map fst r = map snd r"
proof (induction r)
  case (Cons p r)
  obtain a m where p: "p = (a, m)" by (cases p)
  let ?P = "prod_list (map fst r)" and ?Q = "prod_list (map snd r)"
  have h: "0 < a" "a \<le> m" "broadcastable r" "a * ?P = m * ?Q" using Cons.prems p by auto
  note b = broadcastable_le [OF h(3)]
  have "a * ?P \<le> a * ?Q" "a * ?Q \<le> m * ?Q" using h(1,2) b by (auto intro: mult_left_mono mult_right_mono)
  then have "a * ?P = a * ?Q" "a * ?Q = m * ?Q" using h(4) by linarith+
  moreover have "?Q \<noteq> 0" "a \<noteq> 0" using h(1) b by linarith+
  ultimately have "a = m" "?P = ?Q" using mult_right_cancel mult_left_cancel by metis+
  then show ?case using Cons.IH h(3) p by simp
qed simp

lemma broadcastShape_parts:
  assumes "0 \<le> dimensions t" "dimensions t \<le> dimensions out"
  shows "map fst (broadcastShape t out) = replicate (nat (dimensions out - dimensions t)) 1 @ shape t"
    and "map snd (broadcastShape t out) = shape out"
  using assms by (auto simp: broadcastShape_def Let_def shape_nth nth_append intro!: nth_equalityI)

lemma broadcast_regions:
  assumes "broadcastable sep"
  defines "us \<equiv> bstrides (map fst sep)" and "ms \<equiv> map snd sep"
  defines "ks \<equiv> take (length sep - 3) ms"
  shows "set (moves (map (\<lambda>index. mk_region (along (unravelIndexHelper (strides ks) index) us)
      [fromEnd 3 1 us, fromEnd 2 1 us, fromEnd 1 1 us] (along (unravelIndexHelper (strides ks) index) (strides ms))
      [fromEnd 3 1 (strides ms), fromEnd 2 1 (strides ms), fromEnd 1 1 (strides ms)]
      [fromEnd 3 1 ms, fromEnd 2 1 ms, fromEnd 1 1 ms] (Some i)) [0..prod_list ks - 1])) =
    {(0 + x, i, 0 + y) | x y. (x, y) \<in> set (box (bloops sep))}"
proof -
  have l: "length us = length ms" "length ms = length sep" by (simp_all add: us_def ms_def)
  have "\<forall>d \<in> set ms. 0 \<le> d" using assms(1) by (auto simp: ms_def broadcastable_def)
  moreover have "bloops sep = axisLoops ms us" by (simp add: bloops_def us_def ms_def)
  ultimately show ?thesis using axis_regions [OF l(1), where so = 0 and i = i] unfolding ks_def l(2) by simp
qed

lemma broadcastto_describes:
  assumes "0 \<le> dimensions t" "dimensions t \<le> dimensions out" "broadcastable (broadcastShape t out)"
  shows "describes (broadcastto i t out False) (shape out)
    (\<lambda>is. Some (i, lin (shape t) (clamp (shape t) (drop (nat (dimensions out - dimensions t)) is))))"
    (is "describes ?rs _ ?f")
proof -
  let ?bs = "broadcastShape t out" and ?k = "nat (dimensions out - dimensions t)"
  note parts = broadcastShape_parts [OF assms(1,2)]
  have pos: "positive (shape out)" using assms(3) unfolding parts(2) [symmetric] by (auto simp: broadcastable_def)
  have src: "?f is = Some (i, lin (map fst ?bs) (clamp (map fst ?bs) is))" if "inShape (shape out) is" for "is"
  proof -
    have l: "length is = nat (dimensions out)" using inShape_length [OF that] by simp
    have z: "clamp (replicate k 1) xs = replicate k 0" if "length xs = k" for k and xs :: "int list"
      using that by (induction xs arbitrary: k) auto
    have "clamp (replicate ?k 1 @ shape t) is =
        clamp (replicate ?k 1) (take ?k is) @ clamp (shape t) (drop ?k is)"
      using l assms(1,2) by (simp add: zip_append1)
    also have "clamp (replicate ?k 1) (take ?k is) = replicate ?k 0" using l assms(1,2) by (intro z) simp
    finally show ?thesis unfolding parts(1) by (simp add: lin_ones)
  qed
  show ?thesis
  proof (cases "elementCount t = elementCount out")
    case True
    have "prod_list (map fst ?bs) = prod_list (map snd ?bs)" using True unfolding parts by (simp add: shape_prod)
    then have "map fst ?bs = shape out" using broadcastable_equal [OF assms(3)] parts by simp
    then show ?thesis using makeFullSlice_describes [of t "shape out" ?f i] True pos src clamp_inShape
      by (simp add: broadcastto_def shape_prod)
  next
    case False
    let ?sep = "separate (squeezeOnes ?bs) 1 1"
    have s: "same_loops ?sep ?bs"
      using same_loops_trans [OF separate_same [of "squeezeOnes ?bs" 1]] same_loops_trans [OF same_loops_one] squeezeOnes_same [OF assms(3)]
      by (metis zero_less_one)
    have sep: "broadcastable (separate r c c)" if "broadcastable r" "0 < c" for r c
      using that by (induction r arbitrary: c) auto
    have b: "broadcastable ?sep" using sep squeezeOnes_same [OF assms(3)] by simp
    show ?thesis
    proof (rule describes_axisLoops)
      show "set (moves ?rs) = {(x, i, 0 + y) | x y. (x, y) \<in> set (box (axisLoops (shape out) (bstrides (map fst ?bs))))}"
        using broadcast_regions [OF b, of i] s False parts
        by (simp add: broadcastto_def Let_def split_def same_loops_def bloops_def)
    next
      fix "is" assume "inShape (shape out) is"
      then show "?f is = Some (i, 0 + dot (bstrides (map fst ?bs)) is)"
        using src dot_bstrides [of "is" "map fst ?bs"] inShape_length arg_cong [OF parts(2), of length] by simp
    qed (use arg_cong [OF parts(2), of length] in simp)
  qed
qed

end
