(* ===== verification/Geometry_Layout.thy ===== *)
theory Geometry_Layout
  imports Geometry_Axis Shape_Layout
begin

text \<open>
  Geometry computers that rearrange a whole tensor (\<^verbatim>\<open>source/geometry/\<close>): DepthToSpace and
  SpaceToDepth, SpaceToBatchND and BatchToSpaceND, Tile, Crop, Padding, StridedSlice.
\<close>

section \<open>DepthToSpace and SpaceToDepth\<close>

datatype DepthToSpaceMode = DepthToSpaceMode_DCR | DepthToSpaceMode_CRD

text \<open>Strides of batch, channel, height and width in a plane layout.\<close>

definition planeStride :: "MNN_DATA_FORMAT \<Rightarrow> int \<Rightarrow> int \<Rightarrow> int \<Rightarrow> int \<times> int \<times> int \<times> int" where
  "planeStride fmt w h c =
     (if MNN_DATA_FORMAT_NHWC = fmt then (w * h * c, 1, w * c, c) else (w * h * c, w * h, w, 1))"

definition GeometryDepthToSpace :: "bool \<Rightarrow> int \<Rightarrow> DepthToSpaceMode \<Rightarrow> nat \<Rightarrow> Tensor \<Rightarrow> Tensor \<Rightarrow> Region list" where
  "GeometryDepthToSpace spaceToDepth blockSize mode i input0 output0 =
     (let (input, out) = (if spaceToDepth then (output0, input0) else (input0, output0));
          inHeight = height input; inWidth = width input; inChannel = channel input;
          outHeight = height out; outWidth = width out; outChannel = channel out;
          (in0, in1, in2, in3) = planeStride (dimensionFormat output0) inWidth inHeight inChannel;
          (out0, out1, out2, out3) = planeStride (dimensionFormat output0) outWidth outHeight outChannel;
          region = (\<lambda>b hb wb.
            let dstWB = b * out0 + hb * out2 + wb * out3;
                offsetC = (hb * blockSize + wb) * (if mode = DepthToSpaceMode_DCR then outChannel else 1);
                srcWB = b * in0 + offsetC * in1;
                dstR = \<lparr>v_offset = dstWB, v_stride = [out2 * blockSize, out3 * blockSize, out1]\<rparr>;
                srcR = \<lparr>v_offset = srcWB, v_stride = [in2, in3,
                  if mode = DepthToSpaceMode_CRD then in1 * (blockSize * blockSize) else in1]\<rparr>
            in \<lparr>r_src = (if spaceToDepth then dstR else srcR), r_dst = (if spaceToDepth then srcR else dstR),
                r_size = [inHeight, inWidth, outChannel], r_origin = Some i\<rparr>)
      in concat (map (\<lambda>b. concat (map (\<lambda>hb. map (region b hb) [0..blockSize - 1]) [0..blockSize - 1])) [0..batch input - 1]))"

section \<open>SpaceToBatchND and BatchToSpaceND\<close>

text \<open>\<open>pads\<close> and \<open>blocks\<close> are the contents of the parameter or of the inputs, \<open>blockSize\<close> their length.\<close>

definition GeometrySpaceToBatchND ::
    "bool \<Rightarrow> int \<Rightarrow> (int \<Rightarrow> int) \<Rightarrow> (int \<Rightarrow> int) \<Rightarrow> nat \<Rightarrow> Tensor \<Rightarrow> Tensor \<Rightarrow> Region list" where
  "GeometrySpaceToBatchND batchToSpace blockSize blockData paddingData i input0 output0 =
     (let padTop = paddingData 0;
          blockShapeHeight = blockData 0;
          padLeft = (if blockSize > 1 then paddingData 2 else 0);
          blockShapeWidth = (if blockSize > 1 then blockData 1 else 1);
          (input, out) = (if batchToSpace then (output0, input0) else (input0, output0));
          inHeight = height input; inWidth = width input; inBatch = batch input;
          outHeight = height out; outWidth = width out; outBatch = batch out;
          channel = channel out;
          regionSize = outBatch sdiv inBatch;
          (in0, in1, in2, in3) = planeStride (dimensionFormat output0) inWidth inHeight channel;
          (out0, out1, out2, out3) = planeStride (dimensionFormat output0) outWidth outHeight channel
      in map (\<lambda>r.
           let strideW = r smod blockShapeWidth;
               strideH = r sdiv blockShapeWidth;
               validHStart = max 0 ((padTop - strideH + blockShapeHeight - 1) sdiv blockShapeHeight);
               validHEnd = min outHeight ((inHeight + padTop - strideH + blockShapeHeight - 1) sdiv blockShapeHeight);
               validWStart = max 0 ((padLeft - strideW + blockShapeWidth - 1) sdiv blockShapeWidth);
               validWEnd = min outWidth ((inWidth + padLeft - strideW + blockShapeWidth - 1) sdiv blockShapeWidth);
               inHeightStart = validHStart * blockShapeHeight + strideH - padTop;
               inWidthStart = validHStart * blockShapeWidth + strideW - padLeft;
               srcR = \<lparr>v_offset = inHeightStart * in2 + inWidthStart * in3,
                       v_stride = [1 * in1, blockShapeHeight * in2, blockShapeWidth * in3]\<rparr>;
               dstR = \<lparr>v_offset = out2 * validHStart + out3 * validWStart + r * inBatch * out0, v_stride = [out1, out2, out3]\<rparr>
           in \<lparr>r_src = (if batchToSpace then dstR else srcR), r_dst = (if batchToSpace then srcR else dstR),
               r_size = [inBatch * channel, validHEnd - validHStart, validWEnd - validWStart], r_origin = Some i\<rparr>)
         [0..regionSize - 1])"

section \<open>Tile\<close>

text \<open>The arrays \<open>size\<close>, \<open>srcStride\<close>, \<open>dstStride\<close> as a list of loops, and what the scan remembers.\<close>

record TileState =
  tileLoops :: "(int \<times> int \<times> int) list"
  prevInput :: int
  prevMulti :: int
  prevIndex :: int
  tileStatus :: int

definition exportInput :: "(int \<Rightarrow> int) \<Rightarrow> (int \<Rightarrow> int) \<Rightarrow> TileState \<Rightarrow> int \<times> int \<times> int" where
  "exportInput inS outS st = (prevInput st, inS (prevIndex st), outS (prevIndex st))"

definition exportMulti :: "Tensor \<Rightarrow> (int \<Rightarrow> int) \<Rightarrow> TileState \<Rightarrow> int \<times> int \<times> int" where
  "exportMulti input outS st = (prevMulti st, 0, tlength input (prevIndex st) * outS (prevIndex st))"

definition tileStep :: "Tensor \<Rightarrow> (int \<Rightarrow> int) \<Rightarrow> (int \<Rightarrow> int) \<Rightarrow> (int \<Rightarrow> int) \<Rightarrow> TileState \<Rightarrow> int \<Rightarrow> TileState option" where
  "tileStep input mul inS outS st i =
     (let il = tlength input i; ml = mul i
      in if il = 0 \<or> ml = 0 then None
         else if il = 1 \<and> ml = 1 then Some st
         else if il = 1 \<and> ml > 1 then
           Some ((if tileStatus st = 0 then st\<lparr>prevMulti := 1 * ml, prevIndex := i\<rparr>
                  else if tileStatus st = 1 then st\<lparr>prevMulti := prevMulti st * ml, prevIndex := i\<rparr>
                  else if tileStatus st = 2 then
                    st\<lparr>tileLoops := tileLoops st @ [exportInput inS outS st], prevIndex := i, prevMulti := ml\<rparr>
                  else st)\<lparr>tileStatus := 1\<rparr>)
         else if il > 1 \<and> ml = 1 then
           Some ((if tileStatus st = 0 then st\<lparr>prevInput := 1 * il, prevIndex := i\<rparr>
                  else if tileStatus st = 2 then st\<lparr>prevInput := prevInput st * il, prevIndex := i\<rparr>
                  else if tileStatus st = 1 then
                    st\<lparr>tileLoops := tileLoops st @ [exportMulti input outS st], prevIndex := i, prevInput := il\<rparr>
                  else st)\<lparr>tileStatus := 2\<rparr>)
         else
           (let ml' = (if tileStatus st = 1 then ml * prevMulti st else ml);
                ls = (if tileStatus st = 2 then tileLoops st @ [exportInput inS outS st] else tileLoops st)
            in Some (st\<lparr>tileLoops := ls @ [(ml', 0, il * outS i), (il, inS i, outS i)], tileStatus := 0\<rparr>)))"

definition tileFinish :: "Tensor \<Rightarrow> (int \<Rightarrow> int) \<Rightarrow> (int \<Rightarrow> int) \<Rightarrow> TileState \<Rightarrow> (int \<times> int \<times> int) list" where
  "tileFinish input inS outS st =
     (if tileStatus st = 1 then tileLoops st @ [exportMulti input outS st]
      else if tileStatus st = 2 then tileLoops st @ [exportInput inS outS st]
      else tileLoops st)"

definition GeometryTile :: "nat \<Rightarrow> Tensor \<Rightarrow> Tensor \<Rightarrow> Tensor \<Rightarrow> Region list" where
  "GeometryTile i input multiples out =
     (let dims = [0..dimensions input - 1];
          inputStrides = fst (computeStride (map (tlength input) dims));
          outputStrides = fst (computeStride (map (\<lambda>k. if k < dimensions out then tlength out k else tlength input k) dims));
          inS = (\<lambda>k. inputStrides ! nat k); outS = (\<lambda>k. outputStrides ! nat k)
      in case fold_opt (tileStep input (hostv multiples) inS outS)
           \<lparr>tileLoops = [], prevInput = 1, prevMulti = 1, prevIndex = 0, tileStatus = 0\<rparr> dims of
           None \<Rightarrow> []
         | Some st \<Rightarrow>
             (let ls = tileFinish input inS outS st;
                  ls = ls @ replicate (3 - length ls) (1, 0, 0);
                  remainDimSize = length ls - 3;
                  remainDims = map fst (take remainDimSize ls);
                  remainSize = fold (\<lambda>n v. v * n) remainDims 1
              in map (\<lambda>u.
                   let coordinates = unravelIndexHelper (fst (computeStride remainDims)) u;
                       (n0, s0, d0) = ls ! remainDimSize;
                       (n1, s1, d1) = ls ! (1 + remainDimSize);
                       (n2, s2, d2) = ls ! (2 + remainDimSize)
                   in mk_region (along coordinates (map (\<lambda>l. fst (snd l)) ls)) [s0, s1, s2]
                        (along coordinates (map (\<lambda>l. snd (snd l)) ls)) [d0, d1, d2] [n0, n1, n2] (Some i))
                 [0..remainSize - 1]))"

section \<open>Crop and Padding\<close>

text \<open>An axis with its extents in the larger and the smaller tensor and the offsets at both ends.\<close>

record OffsetDim =
  o_input :: int
  o_output :: int
  o_left :: int
  o_right :: int

fun offsetSeparate :: "OffsetDim list \<Rightarrow> int \<Rightarrow> int \<Rightarrow> OffsetDim list" where
  "offsetSeparate [] currentInput currentOutput =
     (if currentOutput \<noteq> 1 \<or> currentInput \<noteq> 1
      then [\<lparr>o_input = currentInput, o_output = currentOutput, o_left = 0, o_right = 0\<rparr>] else [])"
| "offsetSeparate (x # r) currentInput currentOutput =
     (if o_output x \<noteq> o_input x then
        (if 1 < currentInput then [\<lparr>o_input = currentInput, o_output = currentOutput, o_left = 0, o_right = 0\<rparr>] else [])
        @ x # offsetSeparate r 1 1
      else offsetSeparate r (currentInput * o_input x) (currentOutput * o_output x))"

definition offsetDims :: "Tensor \<Rightarrow> Tensor \<Rightarrow> int list \<Rightarrow> int list \<Rightarrow> OffsetDim list" where
  "offsetDims input out offsets rightOffsets =
     offsetSeparate (map (\<lambda>k. \<lparr>o_input = tlength input k, o_output = tlength out k,
       o_left = offsets ! nat k, o_right = rightOffsets ! nat k\<rparr>) [0..dimensions input - 1]) 1 1"

text \<open>One of the last three loops: offsets of source and destination, size and strides.\<close>

definition offsetLoop :: "OffsetDim \<Rightarrow> int \<Rightarrow> int \<Rightarrow> int \<times> int \<times> int \<times> int \<times> int" where
  "offsetLoop x inS outS =
     (let size0 = (if o_left x \<ge> 0 then o_output x else o_output x + o_left x);
          size1 = (if o_right x < 0 then size0 + o_right x else size0)
      in (if o_left x \<ge> 0 then o_left x * inS else 0, if o_left x \<ge> 0 then 0 else (- o_left x) * outS, size1, inS, outS))"

definition computeOffsetRegion :: "nat \<Rightarrow> OffsetDim list \<Rightarrow> Region list" where
  "computeOffsetRegion real sep =
     (let outS = fst (computeStride (map o_output sep));
          inS = fst (computeStride (map o_input sep));
          remainDimSize = length sep - 3;
          remain = take remainDimSize sep;
          (remainStride, remainSize) = computeStride (map o_output remain);
          ls = map2 (\<lambda>x (s, d). offsetLoop x s d) sep (zip inS outS);
          loop = (\<lambda>k. fromEnd k (0, 0, 1, 1, 1) ls)
      in concat (map (\<lambda>index.
           let cords = unravelIndexHelper remainStride index
           in if list_all2 (\<lambda>x c. \<not> o_left x + c < 0 \<and> \<not> c - o_right x \<ge> o_output x) remain cords then
                (case (loop 3, loop 2, loop 1) of
                   ((so0, do0, n0, s0, d0), (so1, do1, n1, s1, d1), (so2, do2, n2, s2, d2)) \<Rightarrow>
                   [mk_region (along (map2 (\<lambda>c x. c + o_left x) cords remain) inS + so2 + so1 + so0) [s0, s1, s2]
                      (along cords outS + do2 + do1 + do0) [d0, d1, d2] [n0, n1, n2] (Some real)])
              else []) [0..remainSize - 1]))"

definition GeometryCrop :: "int \<Rightarrow> int list \<Rightarrow> nat \<Rightarrow> Tensor \<Rightarrow> Tensor \<Rightarrow> Region list" where
  "GeometryCrop axis0 offsetData i input out =
     (let inputDim = dimensions input;
          axis = (if axis0 < 0 then inputDim + axis0 else axis0);
          offsets = map (\<lambda>k. if k \<ge> axis then
              (if length offsetData = 1 then offsetData ! 0
               else if length offsetData > 1 then offsetData ! nat (k - axis) else 0) else 0) [0..inputDim - 1]
      in computeOffsetRegion i (offsetDims input out offsets (map (\<lambda>_. 0) [0..inputDim - 1])))"

datatype PadValueMode = PadValueMode_CONSTANT | PadValueMode_REFLECT | PadValueMode_SYMMETRIC | PadValueMode_EDGE

text \<open>An axis of a padded slab: 0 is the centre, 1 the left part (or the right, if there is no left part), 2 the right part.\<close>

definition padAxis :: "PadValueMode \<Rightarrow> OffsetDim \<Rightarrow> int \<Rightarrow> int \<Rightarrow> int \<Rightarrow> int \<times> int \<times> int \<times> int \<times> int" where
  "padAxis mode x inS outS cord =
     (let inDim = o_output x; left = o_left x; right = o_input x - o_output x - o_left x;
          extraSub = (if mode = PadValueMode_REFLECT then 1 else 0);
          clip = (\<lambda>n. if mode = PadValueMode_REFLECT \<or> mode = PadValueMode_SYMMETRIC then min n (inDim - extraSub) else n);
          rightPart = ((left + inDim) * outS, (inDim - 1 - extraSub) * inS, clip right, - inS, outS);
          leftPart = (0, (if mode = PadValueMode_EDGE then 0 else left - 1 + extraSub) * inS, clip left, - inS, outS);
          (doff, soff, n, s, d) =
            (if cord = 0 then (left * outS, 0, inDim, inS, outS)
             else if cord = 2 then rightPart
             else if left > 0 then leftPart else rightPart)
      in (doff, soff, n, if cord \<noteq> 0 \<and> mode = PadValueMode_EDGE then 0 else s, d))"

definition padPos :: "PadValueMode \<Rightarrow> OffsetDim \<Rightarrow> int \<Rightarrow> int" where
  "padPos mode x c =
     (let extraSub = (if mode = PadValueMode_REFLECT then 1 else 0);
          p = c - o_left x;
          p = (if p \<ge> o_output x then (o_output x - p) + o_output x - extraSub - 1 else p)
      in if p < 0 then - p + 1 + extraSub else p)"

text \<open>
  \<open>value\<close> is the third input: its number, and whether it is a constant zero. Without it, or when it is
  zero, constant padding leaves the border to the clearing of the output.
\<close>

definition GeometryPad :: "PadValueMode \<Rightarrow> (nat \<times> bool) option \<Rightarrow> nat \<Rightarrow> Tensor \<Rightarrow> Tensor \<Rightarrow> Region list option \<Rightarrow> Tensor \<Rightarrow> Region list" where
  "GeometryPad mode value i input paddings virtual out =
     (let dims = [0..dimensions input - 1];
          pads = map (\<lambda>k. hostv paddings (2 * k)) dims;
          padRights = map (\<lambda>k. hostv paddings (2 * k + 1)) dims
      in if \<exists>k \<in> set dims. tlength input k = 0 then []
         else if \<forall>k \<in> set dims. \<not> (hostv paddings (2 * k) > 0 \<or> hostv paddings (2 * k + 1) > 0)
         then makeFullRef i input virtual
         else
          (let sep = offsetDims out input pads padRights;
               center = map (\<lambda>r. r\<lparr>r_src := r_dst r, r_dst := r_src r\<rparr>) (computeOffsetRegion i sep)
           in if mode = PadValueMode_CONSTANT \<and> (case value of None \<Rightarrow> True | Some (v, zero) \<Rightarrow> zero) then center
              else
               (let padInput = (if mode = PadValueMode_CONSTANT then (case value of Some (v, zero) \<Rightarrow> v | None \<Rightarrow> i) else i);
                    outS = fst (computeStride (map o_input sep));
                    inS = fst (computeStride (map o_output sep));
                    k = length sep - 3;
                    (remainStride, remainSize) = computeStride (map o_input (take k sep));
                    parts = map (\<lambda>x. 1 + (if o_left x > 0 then 1 else 0) + (if o_input x - o_output x - o_left x > 0 then 1 else 0))
                      (drop k sep);
                    (padRegionMod, regionSize) = computeStride parts;
                    border = concat (map (\<lambda>pos.
                      let cords = unravelIndexHelper remainStride pos;
                          dstBasicOffset = along cords outS;
                          srcBasicOffset = along (map2 (padPos mode) (take k sep) cords) inS
                      in map (\<lambda>index.
                           let padCord = unravelIndexHelper padRegionMod index;
                               axes = map2 (\<lambda>(x, s, d) c. padAxis mode x s d c)
                                 (zip (drop k sep) (zip (drop k inS) (drop k outS))) padCord;
                               axis = (\<lambda>j. fromEnd j (0, 0, 1, 1, 1) axes)
                           in case (axis 3, axis 2, axis 1) of
                                ((do0, so0, n0, s0, d0), (do1, so1, n1, s1, d1), (do2, so2, n2, s2, d2)) \<Rightarrow>
                                mk_region
                                  (if mode = PadValueMode_CONSTANT then 0 else srcBasicOffset + so0 + so1 + so2)
                                  (if mode = PadValueMode_CONSTANT then [0, 0, 0] else [s0, s1, s2])
                                  (dstBasicOffset + do0 + do1 + do2) [d0, d1, d2] [n0, n1, n2] (Some padInput))
                         [1..regionSize - 1]) [0..remainSize - 1])
                in center @ border)))"

section \<open>StridedSlice\<close>

text \<open>The arrays start as zeros; models from ONNX and Torch set them to the full range first.\<close>

definition geoSliceInit :: "int \<Rightarrow> int \<Rightarrow> int \<Rightarrow> int \<Rightarrow> int \<Rightarrow> bool \<Rightarrow> Tensor \<Rightarrow> SliceInfo" where
  "geoSliceInit beginMask endMask shrinkAxisMask newAxisMask n full input =
     \<lparr>begins = (\<lambda>_. 0),
      ends = (\<lambda>i. if full \<and> 0 \<le> i \<and> i < dimensions input then tlength input i else 0),
      strides = (\<lambda>i. if full \<and> 0 \<le> i \<and> i < dimensions input then 1 else 0),
      beginMasks = mask_array beginMask n, endMasks = mask_array endMask n,
      shrinkAxisMasks = mask_array shrinkAxisMask n, newAxisMasks = mask_array newAxisMask n,
      strideSize = n\<rparr>"

definition geoSliceAxes_step :: "Tensor list \<Rightarrow> SliceInfo \<Rightarrow> int \<Rightarrow> SliceInfo" where
  "geoSliceAxes_step inputs s i =
     (let inputDim = dimensions (inputs ! 0);
          temp_axis = (if length inputs \<ge> 4
                       then (let a = hostv (inputs ! 3) i in if a < 0 then a + inputDim else a) else i);
          s = (if length inputs = 5 then s\<lparr>strides := (SliceInfo.strides s)(temp_axis := hostv (inputs ! 4) i)\<rparr> else s);
          shp = tlength (inputs ! 0) temp_axis;
          b = hostv (inputs ! 1) i; b = (if b < 0 then b + shp else b);
          e = hostv (inputs ! 2) i; e = (if e < 0 then e + shp else e)
      in s\<lparr>begins := (begins s)(temp_axis := b), ends := (ends s)(temp_axis := e)\<rparr>)"

definition geoSlicePlain_step :: "Tensor list \<Rightarrow> SliceInfo \<Rightarrow> int \<Rightarrow> SliceInfo" where
  "geoSlicePlain_step inputs s i =
     s\<lparr>begins := (begins s)(i := hostv (inputs ! 1) i), ends := (ends s)(i := hostv (inputs ! 2) i),
       strides := (SliceInfo.strides s)(i := hostv (inputs ! 3) i)\<rparr>"

text \<open>What the loop over the sliced dimensions collects for every dimension of the input.\<close>

record SliceDim =
  d_begin :: int
  d_stride :: int
  d_output :: int

definition geoSliceDim :: "SliceInfo \<Rightarrow> Tensor \<Rightarrow> SliceDim list \<times> int \<Rightarrow> int \<Rightarrow> SliceDim list \<times> int" where
  "geoSliceDim s input st i =
     (let (ds, reverseDim) = st; shapeNum = int (length ds)
      in if newAxisMasks s i > 0 then st
         else
          (let inputDim = dimensions input;
               inputShape = (if shapeNum < inputDim then tlength input shapeNum else 0);
               stridedShape = (if shrinkAxisMasks s i > 0 then 1 else SliceInfo.strides s i);
               reverseDim = (if stridedShape < 0 then i else reverseDim);
               b = (if beginMasks s i > 0 then (if stridedShape < 0 then inputShape - 1 else 0)
                    else if stridedShape < 0 then beginAndEndShapeLimit (begins s i) inputShape False
                    else min inputShape (begins s i));
               b = (if b < 0 then UP_DIV (- b) (tlength input i) * tlength input i + b else b);
               e = (if endMasks s i > 0 then (if stridedShape < 0 then -1 else inputShape)
                    else if stridedShape < 0 then max (-1) (min inputDim (ends s i))
                    else beginAndEndShapeLimit (ends s i) inputShape True);
               sz = (if shrinkAxisMasks s i = 0 then
                       (if stridedShape > 0 then (e - b - 1) sdiv stridedShape + 1 else (e - b + 1) sdiv stridedShape + 1)
                     else 1)
           in (ds @ [\<lparr>d_begin = b, d_stride = stridedShape, d_output = sz\<rparr>], reverseDim)))"

text \<open>\<^const>\<open>None\<close>: more than three dimensions from the reversed one on, which the arrays of a region cannot hold.\<close>

definition geoSliceRegions :: "nat \<Rightarrow> Tensor \<Rightarrow> SliceDim list \<Rightarrow> int \<Rightarrow> Region list option" where
  "geoSliceRegions i input ds reverseDim =
     (let inputStride = fst (computeStride (shape input));
          shapeNum = length ds;
          outer = map d_output (take (shapeNum - 3) ds);
          size0 = fold (\<lambda>n v. v * n) outer 1;
          remainDims = (if reverseDim \<ge> 0 then map d_output (take (nat reverseDim) ds) else outer);
          remainSize = (if reverseDim \<ge> 0 then fold (\<lambda>n v. v * n) remainDims size0 else size0);
          regionSize = (if reverseDim \<ge> 0 then shapeNum - nat reverseDim else min shapeNum 3)
      in if regionSize > 3 then None
         else
          (let mods = fst (computeStride remainDims);
               inner = drop (shapeNum - regionSize) ds;
               outputStrideTotal = fold (\<lambda>d v. v * d_output d) inner 1;
               basicInputOffset = along (map d_begin ds) inputStride;
               step = map2 (\<lambda>s d. s * d_stride d) inputStride ds;
               sz = (\<lambda>k. fromEnd k 1 (map d_output inner));
               ss = (\<lambda>k. fromEnd k 1 (drop (shapeNum - regionSize) step))
           in Some (map (\<lambda>r. mk_region (basicInputOffset + along (unravelIndexHelper mods r) step) [ss 3, ss 2, ss 1]
                (r * outputStrideTotal) [sz 2 * sz 1, sz 1, 1] [sz 3, sz 2, sz 1] (Some i)) [0..remainSize - 1])))"

text \<open>
  With five inputs a TensorFlow model writes the last one into the slice. The second result are the
  regions of the tensor that broadcasts it, when its shape is not the shape of the slice.
\<close>

definition GeometryStridedSlice ::
    "int \<Rightarrow> int \<Rightarrow> int \<Rightarrow> int \<Rightarrow> int \<Rightarrow> int \<Rightarrow> nat \<Rightarrow> nat \<Rightarrow> nat \<Rightarrow> Tensor list \<Rightarrow> (Region list \<times> Region list option) option" where
  "GeometryStridedSlice beginMask endMask shrinkAxisMask ellipsisMask newAxisMask fromType i writeId newId inputs =
     (let input = inputs ! 0; inputDim = dimensions input
      in if ellipsisMask \<noteq> 0 \<and> ellipsisMask AND (ellipsisMask - 1) \<noteq> 0 then None
         else if \<exists>k \<in> set [0..inputDim - 1]. tlength input k = 0 then Some ([], None)
         else
          (let inputShape = (\<lambda>k. if 0 \<le> k \<and> k < inputDim then tlength input k else 0);
               s = geoSliceInit beginMask endMask shrinkAxisMask newAxisMask (tlength (inputs ! 1) 0) (fromType = 1) input;
               s = (if fromType = 1 then
                      (fold (\<lambda>k s. geoSliceAxes_step inputs s k) [0..strideSize s - 1] s)\<lparr>strideSize := inputDim\<rparr>
                    else if fromType = 0 then
                      (if ellipsisMask > 0 then sliceEllipsis ellipsisMask inputs inputShape s
                       else fold (\<lambda>k s. geoSlicePlain_step inputs s k) [0..strideSize s - 1] s)
                    else s);
               (ds, reverseDim) = fold (\<lambda>k st. geoSliceDim s input st k) [0..strideSize s - 1] ([], -1);
               ds = ds @ map (\<lambda>k. \<lparr>d_begin = 0, d_stride = 1, d_output = tlength input k\<rparr>) [int (length ds)..inputDim - 1]
           in case geoSliceRegions i input ds reverseDim of
                None \<Rightarrow> None
              | Some rs \<Rightarrow>
                  if fromType = 0 \<and> length inputs = 5 then
                    (let write = inputs ! 4;
                         shp = map d_output ds;
                         fits = (shape write = shp);
                         newTensor = setShape shp write;
                         origin = (if fits then writeId else newId);
                         swapped = map (\<lambda>r. r\<lparr>r_src := r_dst r, r_dst := r_src r, r_origin := Some origin\<rparr>) rs
                     in Some (region0\<lparr>r_size := [1, 1, elementSize input], r_origin := Some i\<rparr> # swapped,
                              if fits then None else Some (broadcastto writeId write newTensor False)))
                  else Some (rs, None)))"

end
