(* ===== verification/Geometry_Layout_Correct.thy ===== *)
theory Geometry_Layout_Correct
  imports Geometry_Broadcast Geometry_Layout
begin

text \<open>
  Correctness of \<^const>\<open>GeometryDepthToSpace\<close> in both directions: the regions of SpaceToDepth are those of
  DepthToSpace with source and destination exchanged, and both describe the same bijection between the
  elements of an image and of its blocks.
\<close>

declare computeStride.simps(2) [simp del]

section \<open>DepthToSpace and SpaceToDepth\<close>

text \<open>Shape and index of an image with its axes in the order of its format.\<close>

definition plane :: "MNN_DATA_FORMAT \<Rightarrow> 'a \<Rightarrow> 'a \<Rightarrow> 'a \<Rightarrow> 'a \<Rightarrow> 'a list" where
  "plane fmt b c h w = (if fmt = MNN_DATA_FORMAT_NHWC then [b, h, w, c] else [b, c, h, w])"

lemma plane_inShape [simp]:
  "inShape (plane fmt B C H W) (plane fmt b c h w) \<longleftrightarrow> 0 \<le> b \<and> b < B \<and> 0 \<le> c \<and> c < C \<and> 0 \<le> h \<and> h < H \<and> 0 \<le> w \<and> w < W"
  by (auto simp: plane_def)

lemma plane_index:
  "inShape (plane fmt B C H W) is \<longleftrightarrow> (\<exists>b c h w. is = plane fmt b c h w \<and>
    0 \<le> b \<and> b < B \<and> 0 \<le> c \<and> c < C \<and> 0 \<le> h \<and> h < H \<and> 0 \<le> w \<and> w < W)"
  by (cases "fmt = MNN_DATA_FORMAT_NHWC") (simp_all add: plane_def inShape_Cons, blast+)

lemma lin_plane:
  "planeStride fmt W H C = (s0, s1, s2, s3) \<Longrightarrow>
    lin (plane fmt B C H W) (plane fmt b c h w) = b * s0 + c * s1 + h * s2 + w * s3"
  by (auto simp: plane_def planeStride_def algebra_simps split: if_splits)

text \<open>The channel that holds an element of the larger image.\<close>

definition depthChannel :: "DepthToSpaceMode \<Rightarrow> int \<Rightarrow> int \<Rightarrow> int \<Rightarrow> int \<Rightarrow> int \<Rightarrow> int" where
  "depthChannel mode n oc c h w =
     (let k = (h mod n) * n + w mod n in if mode = DepthToSpaceMode_DCR then k * oc + c else c * (n * n) + k)"

text \<open>Exchanging source and destination of regions.\<close>

definition swapSides :: "Region \<Rightarrow> Region" where
  "swapSides r = r\<lparr>r_src := r_dst r, r_dst := r_src r\<rparr>"

lemma box_converse: "(x, y) \<in> set (box (map (\<lambda>(n, u, v). (n, v, u)) ls)) \<longleftrightarrow> (y, x) \<in> set (box ls)"
proof (induction ls arbitrary: x y)
  case (Cons l ls)
  then show ?case by (cases l) (simp add: in_box_Cons)
qed auto

lemma moves_swapSides: "(x, i, y) \<in> set (moves (map swapSides rs)) \<longleftrightarrow> (y, i, x) \<in> set (moves rs)"
proof -
  have "(x, i, y) \<in> set (regionMoves (swapSides r)) \<longleftrightarrow> (y, i, x) \<in> set (regionMoves r)" for r
  proof (cases "r_origin r")
    case (Some t)
    have l: "loops (swapSides r) = map (\<lambda>(n, u, v). (n, v, u)) (loops r)" by (simp add: loops_def swapSides_def)
    have "(x, i, y) \<in> set (regionMoves (swapSides r)) \<longleftrightarrow> i = t \<and> (x - soffset r, y - doffset r) \<in> set (box (loops (swapSides r)))"
      using Some by (force simp: regionMoves_def regionPairs_def swapSides_def)
    also have "\<dots> \<longleftrightarrow> i = t \<and> (y - doffset r, x - soffset r) \<in> set (box (loops r))" unfolding l box_converse ..
    also have "\<dots> \<longleftrightarrow> (y, i, x) \<in> set (regionMoves r)" using Some by (force simp: regionMoves_def regionPairs_def)
    finally show ?thesis .
  qed (simp add: regionMoves_def swapSides_def)
  then show ?thesis by (simp add: moves_map) (simp add: moves_def)
qed

lemma SpaceToDepth_swaps:
  assumes "dimensionFormat deep = dimensionFormat flat"
  shows "GeometryDepthToSpace True n mode i flat deep = map swapSides (GeometryDepthToSpace False n mode i deep flat)"
  by (simp add: GeometryDepthToSpace_def swapSides_def Let_def split_def map_concat comp_def assms)

lemma set_upto_less: "set [0..n - 1] = {0..<n :: int}" by auto

lemma div_block: "0 < n \<Longrightarrow> 0 \<le> r \<Longrightarrow> r < n \<Longrightarrow> (h * n + r) div n = h \<and> (h * n + r) mod n = (r :: int)"
  by simp

lemma less_block: "0 < n \<Longrightarrow> 0 \<le> r \<Longrightarrow> r < n \<Longrightarrow> h < H \<Longrightarrow> h * n + r < H * (n :: int)"
proof -
  assume a: "0 < n" "0 \<le> r" "r < n" "h < H"
  then have "(h + 1) * n \<le> H * n" by (intro mult_right_mono) auto
  then show ?thesis using a by (simp add: algebra_simps)
qed

lemma depth_moves:
  assumes "width deep = W" "height deep = H" "channel deep = C" "batch deep = B"
    and "width flat = W * n" "height flat = H * n" "channel flat = oc" "0 < n" "fmt = dimensionFormat flat"
  shows "(x, j, y) \<in> set (moves (GeometryDepthToSpace False n mode i deep flat)) \<longleftrightarrow> j = i \<and>
    (\<exists>b c h w. 0 \<le> b \<and> b < B \<and> 0 \<le> c \<and> c < oc \<and> 0 \<le> h \<and> h < H * n \<and> 0 \<le> w \<and> w < W * n \<and>
      x = lin (plane fmt B oc (H * n) (W * n)) (plane fmt b c h w) \<and>
      y = lin (plane fmt B C H W) (plane fmt b (depthChannel mode n oc c h w) (h div n) (w div n)))"
proof -
  obtain i0 i1 i2 i3 where ins: "planeStride fmt W H C = (i0, i1, i2, i3)" by (metis prod_cases4)
  obtain o0 o1 o2 o3 where outs: "planeStride fmt (W * n) (H * n) oc = (o0, o1, o2, o3)" by (metis prod_cases4)
  define m1 where "m1 = (if mode = DepthToSpaceMode_DCR then oc else 1)"
  define m2 where "m2 = (if mode = DepthToSpaceMode_CRD then i1 * (n * n) else i1)"
  define reg where "reg b hb wb = mk_region (b * i0 + (hb * n + wb) * m1 * i1) [i2, i3, m2]
      (b * o0 + hb * o2 + wb * o3) [o2 * n, o3 * n, o1] [H, W, oc] (Some i)" for b hb wb
  have rs: "GeometryDepthToSpace False n mode i deep flat =
      concat (map (\<lambda>b. concat (map (\<lambda>hb. map (reg b hb) [0..n - 1]) [0..n - 1])) [0..B - 1])"
    using assms ins outs by (simp add: GeometryDepthToSpace_def reg_def [abs_def] mk_region_def m1_def m2_def Let_def)
  have "(x, j, y) \<in> set (moves (GeometryDepthToSpace False n mode i deep flat)) \<longleftrightarrow>
      (\<exists>b \<in> {0..<B}. \<exists>hb \<in> {0..<n}. \<exists>wb \<in> {0..<n}. (x, j, y) \<in> set (regionMoves (reg b hb wb)))"
    unfolding rs moves_concat_map moves_map set_upto_less by blast
  also have "\<dots> \<longleftrightarrow> j = i \<and> (\<exists>b \<in> {0..<B}. \<exists>hb \<in> {0..<n}. \<exists>wb \<in> {0..<n}. \<exists>h \<in> {0..<H}. \<exists>w \<in> {0..<W}. \<exists>c \<in> {0..<oc}.
      x = b * o0 + c * o1 + (h * n + hb) * o2 + (w * n + wb) * o3 \<and>
      y = b * i0 + ((hb * n + wb) * m1 * i1 + c * m2) + h * i2 + w * i3)"
  proof -
    have "(x, j, y) \<in> set (regionMoves (reg b hb wb)) \<longleftrightarrow> j = i \<and> (\<exists>h \<in> {0..<H}. \<exists>w \<in> {0..<W}. \<exists>c \<in> {0..<oc}.
      x = b * o0 + c * o1 + (h * n + hb) * o2 + (w * n + wb) * o3 \<and>
      y = b * i0 + ((hb * n + wb) * m1 * i1 + c * m2) + h * i2 + w * i3)" for b hb wb
    proof -
      have "(x, j, y) \<in> set (regionMoves (reg b hb wb)) \<longleftrightarrow> j = i \<and>
        (x - (b * o0 + hb * o2 + wb * o3), y - (b * i0 + (hb * n + wb) * m1 * i1)) \<in> set (box [(H, i2, o2 * n), (W, i3, o3 * n), (oc, m2, o1)])"
        by (force simp: reg_def)
      also have "\<dots> \<longleftrightarrow> j = i \<and> (\<exists>h \<in> {0..<H}. \<exists>w \<in> {0..<W}. \<exists>c \<in> {0..<oc}.
        x - (b * o0 + hb * o2 + wb * o3) = h * (o2 * n) + w * (o3 * n) + c * o1 \<and>
        y - (b * i0 + (hb * n + wb) * m1 * i1) = h * i2 + w * i3 + c * m2)"
        unfolding box3 by (simp only: bex_simps Bex_def atLeastLessThan_iff conj_assoc)
      also have "\<dots> \<longleftrightarrow> j = i \<and> (\<exists>h \<in> {0..<H}. \<exists>w \<in> {0..<W}. \<exists>c \<in> {0..<oc}.
        x = b * o0 + c * o1 + (h * n + hb) * o2 + (w * n + wb) * o3 \<and>
        y = b * i0 + ((hb * n + wb) * m1 * i1 + c * m2) + h * i2 + w * i3)"
        by (intro conj_cong refl bex_cong) (auto simp: algebra_simps)
      finally show ?thesis .
    qed
    then show ?thesis by blast
  qed
  also have "\<dots> \<longleftrightarrow> j = i \<and>
    (\<exists>b c h w. 0 \<le> b \<and> b < B \<and> 0 \<le> c \<and> c < oc \<and> 0 \<le> h \<and> h < H * n \<and> 0 \<le> w \<and> w < W * n \<and>
      x = b * o0 + c * o1 + h * o2 + w * o3 \<and>
      y = b * i0 + depthChannel mode n oc c h w * i1 + (h div n) * i2 + (w div n) * i3)"
    (is "_ \<and> ?L \<longleftrightarrow> _ \<and> ?R")
  proof -
    have ch: "(hb * n + wb) * m1 * i1 + c * m2 = depthChannel mode n oc c (h * n + hb) (w * n + wb) * i1"
      if "0 \<le> hb" "hb < n" "0 \<le> wb" "wb < n" for hb wb c h w
      using that assms(8) by (cases mode) (simp_all add: depthChannel_def m1_def m2_def algebra_simps)
    have "?L \<longleftrightarrow> ?R"
    proof
      assume ?L
      then obtain b hb wb h w c where m: "b \<in> {0..<B}" "hb \<in> {0..<n}" "wb \<in> {0..<n}" "h \<in> {0..<H}" "w \<in> {0..<W}" "c \<in> {0..<oc}"
        "x = b * o0 + c * o1 + (h * n + hb) * o2 + (w * n + wb) * o3"
        "y = b * i0 + ((hb * n + wb) * m1 * i1 + c * m2) + h * i2 + w * i3" by blast
      then have h: "0 \<le> b" "b < B" "0 \<le> hb" "hb < n" "0 \<le> wb" "wb < n" "0 \<le> h" "h < H" "0 \<le> w" "w < W" "0 \<le> c" "c < oc"
        by simp_all
      have "0 \<le> h * n + hb" "0 \<le> w * n + wb" using h assms(8) by simp_all
      moreover have "h * n + hb < H * n" "w * n + wb < W * n" using less_block [OF assms(8)] h by blast+
      moreover have "y = b * i0 + depthChannel mode n oc c (h * n + hb) (w * n + wb) * i1 + (h * n + hb) div n * i2 + (w * n + wb) div n * i3"
        using m(8) ch [OF h(3-6)] div_block [OF assms(8)] h(3-6) by simp
      ultimately show ?R using h(1,2,11,12) m(7) by blast
    next
      assume ?R
      then obtain b c h w where h: "0 \<le> b" "b < B" "0 \<le> c" "c < oc" "0 \<le> h" "h < H * n" "0 \<le> w" "w < W * n"
        "x = b * o0 + c * o1 + h * o2 + w * o3"
        "y = b * i0 + depthChannel mode n oc c h w * i1 + (h div n) * i2 + (w div n) * i3" by blast
      have e: "h = h div n * n + h mod n" "w = w div n * n + w mod n" by simp_all
      have r: "0 \<le> h mod n" "h mod n < n" "0 \<le> w mod n" "w mod n < n" using assms(8) by simp_all
      have "0 \<le> h div n" "h div n < H" "0 \<le> w div n" "w div n < W"
        using h assms(8) div_pos_less [OF assms(8)] by (simp_all add: pos_imp_zdiv_nonneg_iff)
      moreover have "y = b * i0 + ((h mod n * n + w mod n) * m1 * i1 + c * m2) + h div n * i2 + w div n * i3"
        using h(10) ch [OF r, of c "h div n" "w div n"] by simp
      moreover have "x = b * o0 + c * o1 + (h div n * n + h mod n) * o2 + (w div n * n + w mod n) * o3" using h(9) by simp
      ultimately have f: "0 \<le> h div n" "h div n < H" "0 \<le> w div n" "w div n < W"
        "y = b * i0 + ((h mod n * n + w mod n) * m1 * i1 + c * m2) + h div n * i2 + w div n * i3"
        "x = b * o0 + c * o1 + (h div n * n + h mod n) * o2 + (w div n * n + w mod n) * o3" by blast+
      show ?L
        by (rule bexI [of _ b], rule bexI [of _ "h mod n"], rule bexI [of _ "w mod n"], rule bexI [of _ "h div n"],
            rule bexI [of _ "w div n"], rule bexI [of _ c], intro conjI) (use f r h(1-4) in simp_all)
    qed
    then show ?thesis by blast
  qed
  finally show ?thesis by (simp add: lin_plane [OF ins] lin_plane [OF outs])
qed

text \<open>Reading an index in the order batch, channel, height, width.\<close>

definition unplane :: "MNN_DATA_FORMAT \<Rightarrow> int list \<Rightarrow> int \<times> int \<times> int \<times> int" where
  "unplane fmt is = (if fmt = MNN_DATA_FORMAT_NHWC then (is ! 0, is ! 3, is ! 1, is ! 2) else (is ! 0, is ! 1, is ! 2, is ! 3))"

lemma unplane_plane [simp]: "unplane fmt (plane fmt b c h w) = (b, c, h, w)"
  by (simp add: unplane_def plane_def)

text \<open>The element of the larger image that a channel holds.\<close>

definition blockOf :: "DepthToSpaceMode \<Rightarrow> int \<Rightarrow> int \<Rightarrow> int \<Rightarrow> int \<times> int \<times> int" where
  "blockOf mode n oc ch =
     (let (c, k) = (if mode = DepthToSpaceMode_DCR then (ch mod oc, ch div oc) else (ch div (n * n), ch mod (n * n)))
      in (c, k div n, k mod n))"

lemma block_bounds:
  assumes "0 < n" "0 \<le> hb" "hb < n" "0 \<le> wb" "wb < (n :: int)"
  shows "0 \<le> hb * n + wb" "hb * n + wb < n * n"
  using assms less_block [of n wb hb n] by auto

lemma depthChannel_block:
  fixes mode :: DepthToSpaceMode and h w :: int
  assumes "0 < n" "0 \<le> c" "c < oc" "0 \<le> hb" "hb < n" "0 \<le> wb" "wb < n"
  defines "ch \<equiv> depthChannel mode n oc c (h * n + hb) (w * n + wb)"
  shows "0 \<le> ch" "ch < n * n * oc" "blockOf mode n oc ch = (c, hb, wb)"
proof -
  let ?k = "hb * n + wb"
  note k = block_bounds [OF assms(1,4-7)]
  have d: "?k div n = hb" "?k mod n = wb" using assms by simp_all
  have ch: "ch = (if mode = DepthToSpaceMode_DCR then ?k * oc + c else c * (n * n) + ?k)"
    using assms by (simp add: ch_def depthChannel_def)
  have oc: "0 < oc" using assms by simp
  have nn: "0 < n * n" using assms by simp
  show "0 \<le> ch" unfolding ch using k assms(1-7) oc nn by simp
  show "ch < n * n * oc"
    using less_block [OF oc assms(2,3) k(2)] less_block [OF nn k assms(3)] unfolding ch by (simp add: algebra_simps)
  show "blockOf mode n oc ch = (c, hb, wb)"
    unfolding ch using k assms(1-7) oc d by (simp add: blockOf_def)
qed

lemma blockOf_channel:
  assumes "0 < n" "0 \<le> ch" "ch < n * n * oc" "0 < oc" "blockOf mode n oc ch = (c, hb, wb)"
  shows "0 \<le> c" "c < oc" "0 \<le> hb" "hb < n" "0 \<le> wb" "wb < n" "depthChannel mode n oc c (h * n + hb) (w * n + wb) = ch"
proof -
  define k where "k = (if mode = DepthToSpaceMode_DCR then ch div oc else ch mod (n * n))"
  have nn: "0 < n * n" using assms by simp
  have k: "0 \<le> k" "k < n * n" using assms nn div_pos_less [OF assms(4), of ch "n * n"]
    by (simp_all add: k_def pos_imp_zdiv_nonneg_iff)
  have b: "hb = k div n" "wb = k mod n" "c = (if mode = DepthToSpaceMode_DCR then ch mod oc else ch div (n * n))"
    using assms(5) by (auto simp: blockOf_def k_def split: if_splits)
  show "0 \<le> c" "c < oc" using assms nn div_pos_less [OF nn, of ch oc]
    by (simp_all add: b pos_imp_zdiv_nonneg_iff mult.commute)
  show hb: "0 \<le> hb" "hb < n" "0 \<le> wb" "wb < n" using k assms(1) div_pos_less [OF assms(1) k(2)]
    by (simp_all add: b pos_imp_zdiv_nonneg_iff)
  have "hb * n + wb = k" by (simp add: b)
  then show "depthChannel mode n oc c (h * n + hb) (w * n + wb) = ch"
    using hb assms(1) div_mult_mod_eq [of ch "n * n"] by (simp add: depthChannel_def b k_def)
qed

lemma DepthToSpace_describes:
  assumes "width deep = W" "height deep = H" "channel deep = C" "batch deep = B"
    and "width flat = W * n" "height flat = H * n" "channel flat = oc" "0 < n" "fmt = dimensionFormat flat"
  shows "describes (GeometryDepthToSpace False n mode i deep flat) (plane fmt B oc (H * n) (W * n))
    (\<lambda>is. case unplane fmt is of (b, c, h, w) \<Rightarrow>
      Some (i, lin (plane fmt B C H W) (plane fmt b (depthChannel mode n oc c h w) (h div n) (w div n))))"
  unfolding describes_def
  by (rule set_eqI, simp only: split_paired_all depth_moves [OF assms] mem_Collect_eq plane_index) (fastforce simp: conj_assoc)

lemma SpaceToDepth_describes:
  assumes "width deep = W" "height deep = H" "channel deep = n * n * oc" "batch deep = B"
    and "width flat = W * n" "height flat = H * n" "channel flat = oc" "0 < n" "fmt = dimensionFormat flat"
    and "dimensionFormat deep = fmt" "0 < oc"
  shows "describes (GeometryDepthToSpace True n mode i flat deep) (plane fmt B (n * n * oc) H W)
    (\<lambda>is. case unplane fmt is of (b, ch, h, w) \<Rightarrow> case blockOf mode n oc ch of (c, hb, wb) \<Rightarrow>
      Some (i, lin (plane fmt B oc (H * n) (W * n)) (plane fmt b c (h * n + hb) (w * n + wb))))"
    (is "describes ?rs ?ds ?f")
  unfolding describes_def
proof (rule set_eqI, simp only: split_paired_all)
  fix y j x
  have "(y, j, x) \<in> set (moves ?rs) \<longleftrightarrow> (x, j, y) \<in> set (moves (GeometryDepthToSpace False n mode i deep flat))"
    unfolding SpaceToDepth_swaps [OF trans [OF assms(10) assms(9)]] by (rule moves_swapSides)
  also have "\<dots> \<longleftrightarrow> (y, j, x) \<in> {(lin ?ds is, m) | is m. inShape ?ds is \<and> ?f is = Some m}"
    unfolding depth_moves [OF assms(1-9)]
  proof
    assume "j = i \<and> (\<exists>b c h w. 0 \<le> b \<and> b < B \<and> 0 \<le> c \<and> c < oc \<and> 0 \<le> h \<and> h < H * n \<and> 0 \<le> w \<and> w < W * n \<and>
      x = lin (plane fmt B oc (H * n) (W * n)) (plane fmt b c h w) \<and>
      y = lin (plane fmt B (n * n * oc) H W) (plane fmt b (depthChannel mode n oc c h w) (h div n) (w div n)))"
    then obtain b c h w where h: "j = i" "0 \<le> b" "b < B" "0 \<le> c" "c < oc" "0 \<le> h" "h < H * n" "0 \<le> w" "w < W * n"
      "x = lin (plane fmt B oc (H * n) (W * n)) (plane fmt b c h w)"
      "y = lin ?ds (plane fmt b (depthChannel mode n oc c h w) (h div n) (w div n))" by blast
    have r: "0 \<le> h mod n" "h mod n < n" "0 \<le> w mod n" "w mod n < n" using assms(8) by simp_all
    note d = depthChannel_block [OF assms(8) h(4,5) r, of mode "h div n" "w div n", simplified]
    let ?is = "plane fmt b (depthChannel mode n oc c h w) (h div n) (w div n)"
    have "inShape ?ds ?is"
      using h d(1,2) assms(8) div_pos_less [OF assms(8)] by (simp add: pos_imp_zdiv_nonneg_iff)
    moreover have "?f ?is = Some (j, x)" using d(3) h by simp
    ultimately show "(y, j, x) \<in> {(lin ?ds is, m) | is m. inShape ?ds is \<and> ?f is = Some m}" using h(11) by blast
  next
    assume "(y, j, x) \<in> {(lin ?ds is, m) | is m. inShape ?ds is \<and> ?f is = Some m}"
    then obtain b ch h w where h: "y = lin ?ds (plane fmt b ch h w)" "?f (plane fmt b ch h w) = Some (j, x)"
      "0 \<le> b" "b < B" "0 \<le> ch" "ch < n * n * oc" "0 \<le> h" "h < H" "0 \<le> w" "w < W" unfolding plane_index by auto
    obtain c hb wb where b: "blockOf mode n oc ch = (c, hb, wb)" by (metis prod_cases3)
    note d = blockOf_channel [OF assms(8) h(5,6) assms(11) b]
    have v: "j = i" "x = lin (plane fmt B oc (H * n) (W * n)) (plane fmt b c (h * n + hb) (w * n + wb))"
      using h(2) by (simp_all add: b)
    have q: "(h * n + hb) div n = h" "(w * n + wb) div n = w" using div_block [OF assms(8)] d(3-6) by simp_all
    have bounds: "0 \<le> h * n + hb" "h * n + hb < H * n" "0 \<le> w * n + wb" "w * n + wb < W * n"
      using h(7-10) d(3-6) assms(8) less_block [OF assms(8)] by simp_all
    have "y = lin ?ds (plane fmt b (depthChannel mode n oc c (h * n + hb) (w * n + wb)) ((h * n + hb) div n) ((w * n + wb) div n))"
      unfolding d(7) q by (rule h(1))
    then show "j = i \<and> (\<exists>b c h w. 0 \<le> b \<and> b < B \<and> 0 \<le> c \<and> c < oc \<and> 0 \<le> h \<and> h < H * n \<and> 0 \<le> w \<and> w < W * n \<and>
      x = lin (plane fmt B oc (H * n) (W * n)) (plane fmt b c h w) \<and>
      y = lin (plane fmt B (n * n * oc) H W) (plane fmt b (depthChannel mode n oc c h w) (h div n) (w div n)))"
      using v h(3,4) d(1,2) bounds by blast
  qed
  finally show "(y, j, x) \<in> set (moves ?rs) \<longleftrightarrow> (y, j, x) \<in> {(lin ?ds is, m) | is m. inShape ?ds is \<and> ?f is = Some m}" .
qed

end
