(* ===== verification/Geometry_Convert.thy ===== *)
theory Geometry_Convert
  imports Geometry_Layout_Correct Shape_Layout_Correct
begin

text \<open>
  Copies that change nothing but the order of the axes: ConvertTensor between the dimension formats, and
  the operators that keep the linear order of their input (Reshape, Identity; the others of
  \<^verbatim>\<open>GeometryReshape.cpp\<close> are in \<^verbatim>\<open>Geometry_Axis\<close>), among them the Reshape of a packed tensor in channels-last order.
\<close>

section \<open>Model\<close>

text \<open>\<^verbatim>\<open>TensorUtils::setupTensorInfo\<close> on a new tensor \<open>w\<close>; \<^const>\<open>None\<close> where the code asserts.\<close>

definition caffeFormat :: "MNN_DATA_FORMAT \<Rightarrow> bool" where
  "caffeFormat f \<longleftrightarrow> f = MNN_DATA_FORMAT_NCHW \<or> f = MNN_DATA_FORMAT_NC4HW4"

definition tfFormat :: "MNN_DATA_FORMAT \<Rightarrow> bool" where
  "tfFormat f \<longleftrightarrow> f = MNN_DATA_FORMAT_NHWC \<or> f = MNN_DATA_FORMAT_NHWC4"

definition setupTensorInfo :: "Tensor \<Rightarrow> Tensor \<Rightarrow> MNN_DATA_FORMAT \<Rightarrow> Tensor option" where
  "setupTensorInfo t w0 fmt =
     (let w = w0\<lparr>dimensionFormat := fmt\<rparr>; f = dimensionFormat t; n = dimensions w
      in map_option (\<lambda>w. w\<lparr>ttype := ttype t\<rparr>)
        (if (caffeFormat f \<and> caffeFormat fmt) \<or> (tfFormat f \<and> tfFormat fmt) then
           Some (copyShape t False False w)
         else if caffeFormat f \<and> tfFormat fmt then
           Some (setLength (n - 1) (tlength t 1) (setLength 0 (tlength t 0) (fill 1 (n - 1) (\<lambda>i. tlength t (i + 1)) w)))
         else if tfFormat f \<and> caffeFormat fmt then
           Some (setLength 1 (tlength t (dimensions t - 1)) (setLength 0 (tlength t 0) (fill 2 n (\<lambda>i. tlength t (i - 1)) w)))
         else None))"

text \<open>
  \<^verbatim>\<open>new Tensor\<close> has four dimensions. The result of \<open>GeometryReshape\<close> are the regions of the output and the
  regions of the intermediate tensor with number \<open>mid\<close>; the intermediate tensor before it shares its
  regions with it.
\<close>

definition newTensor :: Tensor where
  "newTensor = \<lparr>dimensions = 4, extent = (\<lambda>_. 1), ttype = float_t, dimensionFormat = MNN_DATA_FORMAT_NCHW, host = None\<rparr>"

definition GeometryReshape ::
    "MNN_DATA_FORMAT \<Rightarrow> nat \<Rightarrow> nat \<Rightarrow> Tensor \<Rightarrow> Region list option \<Rightarrow> Tensor \<Rightarrow> (Region list \<times> Region list option) option" where
  "GeometryReshape midFormat i mid input virtual output =
     (if dimensionFormat input = MNN_DATA_FORMAT_NC4HW4 \<and> midFormat = MNN_DATA_FORMAT_NHWC then
        (case setupTensorInfo input newTensor MNN_DATA_FORMAT_NHWC of None \<Rightarrow> None
         | Some nhwc \<Rightarrow>
             (case setupTensorInfo output newTensor MNN_DATA_FORMAT_NHWC of None \<Rightarrow> None
              | Some nhwc2 \<Rightarrow>
                  (let slice = ConvertUtils_compute i input nhwc
                   in Some (ConvertUtils_compute mid nhwc2 output,
                        Some (if slice = [] then [makeFullSlice i nhwc] else slice)))))
      else Some (makeFullRef i input virtual, None))"

text \<open>\<^verbatim>\<open>CopyGeometryComputer\<close>: the inputs with their numbers and their regions.\<close>

definition CopyGeometryComputer :: "(nat \<times> Tensor \<times> Region list option) list \<Rightarrow> Region list list" where
  "CopyGeometryComputer inputs = map (\<lambda>(i, t, virtual). makeFullRef i t virtual) inputs"

definition GeometryBroadcastTo :: "bool option \<Rightarrow> nat \<Rightarrow> Tensor \<Rightarrow> Tensor \<Rightarrow> Region list" where
  "GeometryBroadcastTo axis i input output = broadcastto i input output (case axis of None \<Rightarrow> False | Some b \<Rightarrow> b)"

section \<open>ConvertTensor\<close>

lemma plane_unplane: "inShape (plane fmt B C H W) is \<Longrightarrow> unplane fmt is = (b, c, h, w) \<Longrightarrow> plane fmt b c h w = is"
  unfolding plane_index by auto

lemma positive_plane: "positive (plane fmt B C H W) \<longleftrightarrow> 0 < B \<and> 0 < C \<and> 0 < H \<and> 0 < W"
  by (auto simp: plane_def)

lemma prod_plane: "prod_list (plane fmt B C H W) = B * C * H * (W :: int)"
  by (simp add: plane_def algebra_simps)

lemma shape4: "dimensions t = 4 \<Longrightarrow> shape t = [tlength t 0, tlength t 1, tlength t 2, tlength t 3]"
proof -
  assume d: "dimensions t = 4"
  have "[0..3] = [0, 1, 2, 3 :: int]" by code_simp
  then show ?thesis using d by (simp add: shape_def)
qed

lemma shape_plane:
  assumes "dimensions t = 4"
  shows "shape t = plane (dimensionFormat t) (batch t) (channel t) (height t) (width t)"
  using shape4 [OF assms] by (simp add: plane_def batch_def channel_def height_def width_def is_tensorflow_def)

text \<open>One loop over the positions of an image is two loops over rows and columns.\<close>

lemma ex_rows:
  assumes "0 < H" "0 < W"
  shows "(\<exists>p. 0 \<le> p \<and> p < W * H \<and> P p) \<longleftrightarrow> (\<exists>h w. 0 \<le> h \<and> h < H \<and> 0 \<le> w \<and> w < W \<and> P (h * W + (w :: int)))"
proof
  assume "\<exists>p. 0 \<le> p \<and> p < W * H \<and> P p"
  then obtain p where p: "0 \<le> p" "p < W * H" "P p" by blast
  then have "0 \<le> p div W \<and> p div W < H \<and> 0 \<le> p mod W \<and> p mod W < W \<and> P (p div W * W + p mod W)"
    using assms div_pos_less [OF assms(2)] by (simp add: pos_imp_zdiv_nonneg_iff mult.commute)
  then show "\<exists>h w. 0 \<le> h \<and> h < H \<and> 0 \<le> w \<and> w < W \<and> P (h * W + w)" by blast
next
  assume "\<exists>h w. 0 \<le> h \<and> h < H \<and> 0 \<le> w \<and> w < W \<and> P (h * W + w)"
  then obtain h w where h: "0 \<le> h" "h < H" "0 \<le> w" "w < W" "P (h * W + w)" by blast
  have "h * W + w < H * W" using less_block [of W w h H] h assms by simp
  then show "\<exists>p. 0 \<le> p \<and> p < W * H \<and> P p" using h assms by (intro exI [of _ "h * W + w"]) (simp add: mult.commute)
qed

lemma Convert_describes:
  fixes t out :: Tensor
  defines "B \<equiv> batch t" and "C \<equiv> channel t" and "H \<equiv> height t" and "W \<equiv> width t"
    and "fi \<equiv> dimensionFormat t" and "fo \<equiv> dimensionFormat out"
  assumes "dimensions t = 4" "positive (shape t)" "chw_format fi" "chw_format fo"
  shows "describes (ConvertUtils_compute i t out) (plane fo B C H W)
    (\<lambda>is. case unplane fo is of (b, c, h, w) \<Rightarrow> Some (i, lin (plane fi B C H W) (plane fi b c h w)))"
proof -
  have s: "shape t = plane fi B C H W"
    using shape_plane [OF assms(7)] by (simp add: B_def C_def H_def W_def fi_def)
  have pos: "0 < B" "0 < C" "0 < H" "0 < W" using assms(8) unfolding s positive_plane by simp_all
  have n: "elementCount t = B * C * H * W" by (simp add: shape_prod s prod_plane)
  have pf: "planeFormat f = (if f = MNN_DATA_FORMAT_NHWC then MNN_DATA_FORMAT_NHWC else MNN_DATA_FORMAT_NCHW)" if "chw_format f" for f
    using that by (auto simp: chw_format_def planeFormat_def)
  show ?thesis
  proof (cases "planeFormat fi = planeFormat fo")
    case True
    then have p: "plane fi = (plane fo :: int \<Rightarrow> _)" using pf assms(9,10) by (auto simp: plane_def fun_eq_iff split: if_splits)
    have "ConvertUtils_compute i t out = [makeFullSlice i t]" using True by (simp add: ConvertUtils_compute_def fi_def fo_def)
    moreover have "describes [makeFullSlice i t] (plane fo B C H W)
        (\<lambda>is. case unplane fo is of (b, c, h, w) \<Rightarrow> Some (i, lin (plane fi B C H W) (plane fi b c h w)))"
    proof (rule makeFullSlice_describes)
      fix "is" assume "inShape (plane fo B C H W) is"
      then show "(case unplane fo is of (b, c, h, w) \<Rightarrow> Some (i, lin (plane fi B C H W) (plane fi b c h w))) =
          Some (i, lin (plane fo B C H W) is)"
        using plane_unplane [of fo B C H W "is"] p by (auto split: prod.split)
    qed (use pos in \<open>simp_all add: n prod_plane positive_plane\<close>)
    ultimately show ?thesis by simp
  next
    case False
    let ?r = "if fi = MNN_DATA_FORMAT_NHWC
      then mk_region 0 [C * (W * H), 1, C] 0 [C * (W * H), W * H, 1] [B, C, W * H] (Some i)
      else mk_region 0 [W * H * C, 1, W * H] 0 [W * H * C, C, 1] [B, W * H, C] (Some i)"
    have f: "fi = MNN_DATA_FORMAT_NHWC \<longleftrightarrow> fo \<noteq> MNN_DATA_FORMAT_NHWC" using False pf [OF assms(9)] pf [OF assms(10)] by (auto split: if_splits)
    have "ConvertUtils_compute i t out = [?r]"
      using False pf [OF assms(9)] assms(7)
      by (simp add: ConvertUtils_compute_def fi_def fo_def B_def C_def H_def W_def Let_def makeFullSlice_def reshapeSlice_def
          swapRegion_def mk_region_def n [unfolded B_def C_def H_def W_def] mult.commute mult.left_commute)
    moreover have "set (regionMoves ?r) = {(lin (plane fo B C H W) is, m) | is m. inShape (plane fo B C H W) is \<and>
        (case unplane fo is of (b, c, h, w) \<Rightarrow> Some (i, lin (plane fi B C H W) (plane fi b c h w))) = Some m}"
    proof (rule set_eqI, simp only: split_paired_all)
      fix x j y
      have l: "lin (plane f B C H W) (plane f b c h w) =
          (if f = MNN_DATA_FORMAT_NHWC then b * (C * (W * H)) + (h * W + w) * C + c else b * (C * (W * H)) + c * (W * H) + (h * W + w))"
        for f b c h w by (simp add: plane_def algebra_simps)
      have "(x, j, y) \<in> set (regionMoves ?r) \<longleftrightarrow> j = i \<and> (\<exists>b. 0 \<le> b \<and> b < B \<and> (\<exists>c. 0 \<le> c \<and> c < C \<and>
          (\<exists>p. 0 \<le> p \<and> p < W * H \<and>
            x = (if fo = MNN_DATA_FORMAT_NHWC then b * (C * (W * H)) + p * C + c else b * (C * (W * H)) + c * (W * H) + p) \<and>
            y = (if fi = MNN_DATA_FORMAT_NHWC then b * (C * (W * H)) + p * C + c else b * (C * (W * H)) + c * (W * H) + p))))"
        using f by (cases "fi = MNN_DATA_FORMAT_NHWC") (simp_all add: box3 algebra_simps, blast+)
      also have "\<dots> \<longleftrightarrow> j = i \<and> (\<exists>b c h w. 0 \<le> b \<and> b < B \<and> 0 \<le> c \<and> c < C \<and> 0 \<le> h \<and> h < H \<and> 0 \<le> w \<and> w < W \<and>
          x = lin (plane fo B C H W) (plane fo b c h w) \<and> y = lin (plane fi B C H W) (plane fi b c h w))"
        unfolding ex_rows [OF pos(3,4)] l by blast
      also have "\<dots> \<longleftrightarrow> (x, j, y) \<in> {(lin (plane fo B C H W) is, m) | is m. inShape (plane fo B C H W) is \<and>
          (case unplane fo is of (b, c, h, w) \<Rightarrow> Some (i, lin (plane fi B C H W) (plane fi b c h w))) = Some m}"
        unfolding plane_index by fastforce
      finally show "(x, j, y) \<in> set (regionMoves ?r) \<longleftrightarrow> \<dots>" .
    qed
    ultimately show ?thesis by (simp add: describes_def)
  qed
qed

end
