(* ===== verification/Geometry_Tile_Correct.thy ===== *)
theory Geometry_Tile_Correct
  imports Geometry_Broadcast Geometry_Layout
begin

text \<open>
  Correctness of \<^const>\<open>GeometryTile\<close>: the state machine that merges the loops of neighbouring axes
  copies the same elements as two loops for every axis, one over the copies and one over the input.
\<close>

declare computeStride.simps(2) [simp del]

section \<open>Two loops for every axis\<close>

text \<open>An axis is its extent, the number of copies, and its strides.\<close>

fun axisBox :: "(int \<times> int) list \<Rightarrow> loop list" where
  "axisBox [] = []"
| "axisBox ((il, ml) # r) =
     (ml, 0, il * prod_list (map (\<lambda>(a, m). a * m) r)) #
     (il, prod_list (map fst r), prod_list (map (\<lambda>(a, m). a * m) r)) # axisBox r"

lemma box_copies:
  assumes "0 < il"
  shows "(x, y) \<in> set (box ((ml, 0, il * s) # (il, u, s) # ls)) \<longleftrightarrow>
    (\<exists>p. 0 \<le> p \<and> p < il * ml \<and> (x - p * s, y - (p mod il) * u) \<in> set (box ls))"
proof
  assume "(x, y) \<in> set (box ((ml, 0, il * s) # (il, u, s) # ls))"
  then obtain m k where h: "0 \<le> m" "m < ml" "0 \<le> k" "k < il" "(x - m * (il * s) - k * s, y - m * 0 - k * u) \<in> set (box ls)"
    by (auto simp: in_box_Cons)
  have "(m + 1) * il \<le> ml * il" using h assms by (intro mult_right_mono) auto
  then have "m * il + k < il * ml" using h by (simp add: algebra_simps)
  moreover have "(m * il + k) mod il = k" using h by simp
  moreover have "0 \<le> m * il + k" using h assms by simp
  moreover have "x - m * (il * s) - k * s = x - (m * il + k) * s" "y - m * 0 - k * u = y - k * u" by (simp_all add: algebra_simps)
  then have "(x - (m * il + k) * s, y - k * u) \<in> set (box ls)" using h(5) by (simp only:)
  ultimately show "\<exists>p. 0 \<le> p \<and> p < il * ml \<and> (x - p * s, y - (p mod il) * u) \<in> set (box ls)"
    by (intro exI [of _ "m * il + k"]) simp
next
  assume "\<exists>p. 0 \<le> p \<and> p < il * ml \<and> (x - p * s, y - (p mod il) * u) \<in> set (box ls)"
  then obtain p where p: "0 \<le> p" "p < il * ml" "(x - p * s, y - (p mod il) * u) \<in> set (box ls)" by blast
  have e: "x - (p div il) * (il * s) - (p mod il) * s = x - p * s"
    by (metis diff_diff_eq distrib_right div_mult_mod_eq mult.assoc)
  have "0 \<le> p div il" "p div il < ml" using p assms div_pos_less [OF assms, of p ml]
    by (simp_all add: pos_imp_zdiv_nonneg_iff mult.commute)
  moreover have "0 \<le> p mod il" "p mod il < il" using assms by simp_all
  moreover have "(x - (p div il) * (il * s) - (p mod il) * s, y - (p div il) * 0 - (p mod il) * u) \<in> set (box ls)"
    unfolding e using p(3) by simp
  ultimately show "(x, y) \<in> set (box ((ml, 0, il * s) # (il, u, s) # ls))" unfolding in_box_Cons by blast
qed

lemma set_axisBox:
  assumes "\<forall>(il, ml) \<in> set r. 0 < il"
  shows "set (box (axisBox r)) =
    {(lin (map (\<lambda>(a, m). a * m) r) is, lin (map fst r) (map2 (mod) is (map fst r))) | is. inShape (map (\<lambda>(a, m). a * m) r) is}"
  using assms
proof (induction r)
  case (Cons p r)
  obtain il ml where p: "p = (il, ml)" by (cases p)
  let ?D = "map (\<lambda>(a, m). a * m) r" and ?A = "map fst r"
  have ex: "(\<exists>is. inShape (d # ds) is \<and> P is) \<longleftrightarrow> (\<exists>k. 0 \<le> k \<and> k < d \<and> (\<exists>js. inShape ds js \<and> P (k # js)))" for d ds P
    unfolding inShape_Cons by blast
  have IH: "(x, y) \<in> set (box (axisBox r)) \<longleftrightarrow> (\<exists>is. inShape ?D is \<and> x = lin ?D is \<and> y = lin ?A (map2 (mod) is ?A))" for x y
    using Cons by (auto simp: p)
  have il: "0 < il" using Cons.prems p by simp
  have "(x, y) \<in> set (box (axisBox (p # r))) \<longleftrightarrow>
      (\<exists>is. inShape ((il * ml) # ?D) is \<and> x = lin ((il * ml) # ?D) is \<and> y = lin (il # ?A) (map2 (mod) is (il # ?A)))" for x y
    unfolding ex p axisBox.simps box_copies [OF il] IH by (simp add: algebra_simps)
  then have "u \<in> set (box (axisBox (p # r))) \<longleftrightarrow> u \<in> {(lin (map (\<lambda>(a, m). a * m) (p # r)) is,
      lin (map fst (p # r)) (map2 (mod) is (map fst (p # r)))) | is. inShape (map (\<lambda>(a, m). a * m) (p # r)) is}" for u
    by (cases u) (simp only: p list.map case_prod_conv fst_conv mem_Collect_eq prod.inject, blast)
  then show ?case by (rule set_eqI)
qed simp

section \<open>The scan\<close>

text \<open>The loops that the scan would still export, followed by those of the axes to come.\<close>

definition tile_inv :: "Tensor \<Rightarrow> (int \<Rightarrow> int) \<Rightarrow> (int \<Rightarrow> int) \<Rightarrow> (int \<times> int) list \<Rightarrow> TileState \<Rightarrow> bool" where
  "tile_inv t inS outS r st \<longleftrightarrow> tileStatus st \<in> {0, 1, 2} \<and>
     (tileStatus st = 1 \<longrightarrow> tlength t (prevIndex st) = 1 \<and> outS (prevIndex st) = prod_list (map (\<lambda>(a, m). a * m) r)) \<and>
     (tileStatus st = 2 \<longrightarrow> inS (prevIndex st) = prod_list (map fst r) \<and> outS (prevIndex st) = prod_list (map (\<lambda>(a, m). a * m) r)) \<and>
     (\<forall>l \<in> set (tileFinish t inS outS st). 0 < fst l)"

lemma tile_step:
  assumes "tile_inv t inS outS ((tlength t k, mul k) # r) st" "0 < tlength t k" "0 < mul k"
    and "inS k = prod_list (map fst r)" "outS k = prod_list (map (\<lambda>(a, m). a * m) r)"
  shows "\<exists>st'. tileStep t mul inS outS st k = Some st' \<and> tile_inv t inS outS r st' \<and>
    set (box (tileFinish t inS outS st' @ axisBox r)) = set (box (tileFinish t inS outS st @ axisBox ((tlength t k, mul k) # r)))"
proof -
  let ?il = "tlength t k" and ?ml = "mul k"
  let ?D = "prod_list (map (\<lambda>(a, m). a * m) r)" and ?A = "prod_list (map fst r)"
  let ?L = "tileLoops st"
  have head: "axisBox ((?il, ?ml) # r) = (?ml, 0, ?il * ?D) # (?il, ?A, ?D) # axisBox r" by simp
  have one: "set (box (ls @ (1, u, v) # ms)) = set (box (ls @ ms))" for ls u v ms by (rule box_append_cong) simp
  have merge: "set (box (ls @ (n, m * u, m * v) # (m, u, v) # ms)) = set (box (ls @ (n * m, u, v) # ms))" if "0 < m" for ls n m u v ms
    by (rule box_append_cong) (rule box_merge [OF that])
  have pos: "\<forall>l \<in> set ?L. 0 < fst l" "tileStatus st = 1 \<Longrightarrow> 0 < prevMulti st" "tileStatus st = 2 \<Longrightarrow> 0 < prevInput st"
    using assms(1) by (auto simp: tile_inv_def tileFinish_def exportMulti_def exportInput_def split: if_splits)
  consider "tileStatus st = 0" "tileFinish t inS outS st = ?L"
    | "tileStatus st = 1" "tileFinish t inS outS st = ?L @ [(prevMulti st, 0, ?il * ?ml * ?D)]"
    | "tileStatus st = 2" "tileFinish t inS outS st = ?L @ [(prevInput st, ?il * ?A, ?il * ?ml * ?D)]"
    using assms(1) by (auto simp: tile_inv_def tileFinish_def exportMulti_def exportInput_def)
  note status = this
  consider "?il = 1" "?ml = 1" | "?il = 1" "?ml > 1" | "?il > 1" "?ml = 1" | "?il > 1" "?ml > 1"
    using assms(2,3) by linarith
  then show ?thesis
  proof cases
    case 1
    have "set (box (tileFinish t inS outS st @ axisBox r)) = set (box (tileFinish t inS outS st @ axisBox ((?il, ?ml) # r)))"
      using 1 by (simp add: one)
    then show ?thesis using assms(1) 1 by (auto simp: Let_def tileStep_def tile_inv_def)
  next
    case 2
    show ?thesis using status
    proof cases
      case 1
      then show ?thesis using 2 assms(4,5) pos one [of "?L @ [(?ml, 0, ?D)]"]
        by (auto simp: Let_def tileStep_def tile_inv_def tileFinish_def exportMulti_def)
    next
      case 2: 2
      then show ?thesis using \<open>?il = 1\<close> \<open>?ml > 1\<close> assms(4,5) pos one [of "?L @ [(prevMulti st, 0, ?ml * ?D), (?ml, 0, ?D)]"]
          merge [of ?ml ?L "prevMulti st" 0 ?D]
        by (auto simp: Let_def tileStep_def tile_inv_def tileFinish_def exportMulti_def)
    next
      case 3
      then show ?thesis using 2 assms(4,5) pos one [of "?L @ [(prevInput st, ?A, ?ml * ?D), (?ml, 0, ?D)]"]
        by (auto simp: Let_def tileStep_def tile_inv_def tileFinish_def exportMulti_def exportInput_def)
    qed
  next
    case 3
    show ?thesis using status
    proof cases
      case 1
      then show ?thesis using 3 assms(4,5) pos one [of ?L]
        by (auto simp: Let_def tileStep_def tile_inv_def tileFinish_def exportInput_def)
    next
      case 2
      then show ?thesis using 3 assms(4,5) pos one [of "?L @ [(prevMulti st, 0, ?il * ?D)]"]
        by (auto simp: Let_def tileStep_def tile_inv_def tileFinish_def exportMulti_def exportInput_def)
    next
      case s: 3
      then show ?thesis using 3 assms(4,5) pos one [of "?L @ [(prevInput st, ?il * ?A, ?il * ?D)]"]
          merge [of ?il ?L "prevInput st" ?A ?D]
        by (auto simp: Let_def tileStep_def tile_inv_def tileFinish_def exportInput_def)
    qed
  next
    case 4
    show ?thesis using status
    proof cases
      case 1
      then show ?thesis using 4 assms(4,5) pos by (auto simp: Let_def tileStep_def tile_inv_def tileFinish_def Let_def)
    next
      case 2
      then show ?thesis using 4 assms(4,5) pos merge [of ?ml ?L "prevMulti st" 0 "?il * ?D" "(?il, ?A, ?D) # axisBox r"]
        by (auto simp: Let_def tileStep_def tile_inv_def tileFinish_def Let_def mult.commute mult.left_commute)
    next
      case 3
      then show ?thesis using 4 assms(4,5) pos by (auto simp: Let_def tileStep_def tile_inv_def tileFinish_def exportInput_def Let_def)
    qed
  qed
qed

lemma tile_scan:
  assumes "tile_inv t inS outS (map (\<lambda>k. (tlength t k, mul k)) ks) st"
    and "\<forall>k \<in> set ks. 0 < tlength t k \<and> 0 < mul k"
    and "\<forall>xs k ys. ks = xs @ k # ys \<longrightarrow> inS k = prod_list (map (tlength t) ys) \<and>
      outS k = prod_list (map (\<lambda>j. tlength t j * mul j) ys)"
  shows "\<exists>st'. fold_opt (tileStep t mul inS outS) st ks = Some st' \<and> tile_inv t inS outS [] st' \<and>
    set (box (tileFinish t inS outS st')) = set (box (tileFinish t inS outS st @ axisBox (map (\<lambda>k. (tlength t k, mul k)) ks)))"
  using assms
proof (induction ks arbitrary: st)
  case (Cons k ks)
  let ?r = "map (\<lambda>k. (tlength t k, mul k)) ks"
  have s: "inS k = prod_list (map fst ?r)" "outS k = prod_list (map (\<lambda>(a, m). a * m) ?r)"
    using Cons.prems(3) [rule_format, of "[]" k ks] by (simp_all add: comp_def)
  obtain st1 where st1: "tileStep t mul inS outS st k = Some st1" "tile_inv t inS outS ?r st1"
    "set (box (tileFinish t inS outS st1 @ axisBox ?r)) = set (box (tileFinish t inS outS st @ axisBox ((tlength t k, mul k) # ?r)))"
    using tile_step [where t = t and mul = mul and k = k and r = ?r and st = st and inS = inS and outS = outS, OF _ _ _ s] Cons.prems(1,2) by auto
  have "inS j = prod_list (map (tlength t) ys) \<and> outS j = prod_list (map (\<lambda>j. tlength t j * mul j) ys)" if "ks = xs @ j # ys" for xs j ys
    using Cons.prems(3) [rule_format, of "k # xs" j ys] that by simp
  then obtain st' where "fold_opt (tileStep t mul inS outS) st1 ks = Some st'" "tile_inv t inS outS [] st'"
    "set (box (tileFinish t inS outS st')) = set (box (tileFinish t inS outS st1 @ axisBox ?r))"
    using Cons.IH [OF st1(2)] Cons.prems(2) by auto
  then show ?case using st1 by simp
qed simp

lemma upto_suffix:
  assumes "[0..n - 1] = xs @ k # ys"
  shows "ys = [k + 1..n - 1]" "0 \<le> k" "k < n"
proof -
  have l: "length xs < nat n" using arg_cong [OF assms, of length] by simp
  have "[0..n - 1] ! length xs = k" using assms by (simp add: nth_append)
  then have k: "k = int (length xs)" using l by (simp add: nth_upto)
  then show "0 \<le> k" "k < n" using l by auto
  have "ys = drop (Suc (length xs)) [0..n - 1]" using assms by simp
  also have "\<dots> = [k + 1..n - 1]" using l k by (intro nth_equalityI) auto
  finally show "ys = [k + 1..n - 1]" .
qed

lemma GeometryTile_describes:
  assumes "0 \<le> dimensions t" "dimensions out = dimensions t" "positive (shape t)"
    and "\<forall>k \<in> {0..<dimensions t}. 0 < hostv muls k \<and> tlength out k = tlength t k * hostv muls k"
  shows "describes (GeometryTile i t muls out) (shape out)
    (\<lambda>is. Some (i, lin (shape t) (map2 (mod) is (shape t))))"
proof -
  let ?dims = "[0..dimensions t - 1]"
  let ?inS = "\<lambda>k. Region_Box.strides (map (tlength t) ?dims) ! nat k"
  let ?outS = "\<lambda>k. Region_Box.strides (map (\<lambda>k. if k < dimensions out then tlength out k else tlength t k) ?dims) ! nat k"
  let ?r = "map (\<lambda>k. (tlength t k, hostv muls k)) ?dims"
  let ?st0 = "\<lparr>tileLoops = [], prevInput = 1, prevMulti = 1, prevIndex = 0, tileStatus = 0\<rparr>"
  have o: "map (\<lambda>k. if k < dimensions out then tlength out k else tlength t k) ?dims = shape out"
    using assms(2) by (simp add: shape_def)
  have pos: "\<forall>k \<in> set ?dims. 0 < tlength t k \<and> 0 < hostv muls k" using assms(3,4) by (auto simp: set_shape)
  have outs: "shape out = map (\<lambda>(a, m). a * m) ?r" "shape t = map fst ?r"
    using assms(2,4) by (auto simp: shape_def comp_def)
  have s: "?inS k = prod_list (map (tlength t) ys) \<and> ?outS k = prod_list (map (\<lambda>j. tlength t j * hostv muls j) ys)"
    if "?dims = xs @ k # ys" for xs k ys
  proof -
    note u = upto_suffix [OF that]
    have d: "drop (Suc (nat k)) ?dims = ys" unfolding u(1) using u(2,3) by (intro nth_equalityI) auto
    have e: "map (tlength out) ys = map (\<lambda>j. tlength t j * hostv muls j) ys"
      using assms(4) u by auto
    have l: "nat k < length ?dims" using u by simp
    have "?inS k = prod_list (map (tlength t) (drop (Suc (nat k)) ?dims))" using l by (simp add: strides_nth drop_map)
    moreover have "?outS k = prod_list (map (tlength out) (drop (Suc (nat k)) ?dims))"
      unfolding o using l assms(2) by (simp add: strides_nth shape_def drop_map)
    ultimately show ?thesis unfolding d e by simp
  qed
  have inv: "tile_inv t ?inS ?outS ?r ?st0" and f0: "tileFinish t ?inS ?outS ?st0 = []" by (simp_all add: tile_inv_def tileFinish_def)
  obtain st where st: "fold_opt (tileStep t (hostv muls) ?inS ?outS) ?st0 ?dims = Some st" "tile_inv t ?inS ?outS [] st"
    "set (box (tileFinish t ?inS ?outS st)) = set (box (axisBox ?r))"
    using tile_scan [OF inv pos] s unfolding f0 append_Nil by blast
  let ?ls0 = "tileFinish t ?inS ?outS st"
  define ls where "ls = ?ls0 @ replicate (3 - length ?ls0) (1, 0, 0)"
  have len: "3 \<le> length ls" by (simp add: ls_def)
  have nn: "\<forall>l \<in> set ls. 0 \<le> fst l" using st(2) by (auto simp: ls_def tile_inv_def less_imp_le)
  have "set (box (?ls0 @ replicate n (1, 0, 0))) = set (box ?ls0)" for n
  proof (induction n)
    case (Suc n)
    have "set (box (?ls0 @ (1, 0, 0) # replicate n (1, 0, 0))) = set (box (?ls0 @ replicate n (1, 0, 0)))"
      by (rule box_append_cong) simp
    then show ?case using Suc by simp
  qed simp
  then have b: "set (box ls) = set (box (axisBox ?r))" using st(3) by (simp add: ls_def)
  obtain n0 s0 d0 where 0: "ls ! (length ls - 3) = (n0, s0, d0)" by (metis prod_cases3)
  obtain n1 s1 d1 where 1: "ls ! (1 + (length ls - 3)) = (n1, s1, d1)" by (metis prod_cases3)
  obtain n2 s2 d2 where 2: "ls ! (2 + (length ls - 3)) = (n2, s2, d2)" by (metis prod_cases3)
  have inner: "drop (length ls - 3) ls = [(n0, s0, d0), (n1, s1, d1), (n2, s2, d2)]"
  proof -
    obtain k where k: "length ls = k + 3" using len by (metis add.commute le_Suc_ex)
    then have "drop k ls = [ls ! k, ls ! (1 + k), ls ! (2 + k)]"
      by (intro nth_equalityI) (auto simp: less_Suc_eq numeral_3_eq_3)
    then show ?thesis using 0 1 2 k by simp
  qed
  let ?ks = "take (length ls - 3) ls"
  define r where "r u = mk_region (0 + dot (sstrides ?ks) (coords ?ks u)) [s0, s1, s2] (0 + dot (dstrides ?ks) (coords ?ks u))
    [d0, d1, d2] [n0, n1, n2] (Some i)" for u
  have dt: "dot (map f ls) (coords ?ks u) = dot (map f ?ks) (coords ?ks u)" for f :: "loop \<Rightarrow> int" and u
    unfolding take_map [symmetric] by (rule dot_take [symmetric]) simp
  have rs: "GeometryTile i t muls out = map r [0..prod_list (sizes ?ks) - 1]"
    unfolding GeometryTile_def Let_def st(1) option.case ls_def [symmetric] 0 1 2 case_prod_conv
    by (simp add: r_def [abs_def] fold_mult dt)
  have "set (moves (GeometryTile i t muls out)) = {(0 + x, i, 0 + y) | x y. (x, y) \<in> set (box ls)}"
    unfolding rs by (rule unrolled_moves [OF nn r_def]) (simp add: inner)
  then show ?thesis using set_axisBox [of ?r] pos
    unfolding b describes_def outs by fastforce
qed

end
