(* ===== verification/Geometry_Crop_Correct.thy ===== *)
theory Geometry_Crop_Correct
  imports Geometry_Layout_Correct Geometry_Axis_Correct
begin

text \<open>
  Correctness of \<^const>\<open>GeometryCrop\<close> and of \<^const>\<open>GeometryPad\<close> with a constant: both copy a block of
  one tensor to an offset, after merging the axes that the offset does not touch.
\<close>

section \<open>Merging axes\<close>

abbreviation ins :: "OffsetDim list \<Rightarrow> int list" where "ins r \<equiv> map o_input r"
abbreviation outs :: "OffsetDim list \<Rightarrow> int list" where "outs r \<equiv> map o_output r"
abbreviation lefts :: "OffsetDim list \<Rightarrow> int list" where "lefts r \<equiv> map o_left r"

abbreviation offsetLoops :: "OffsetDim list \<Rightarrow> loop list" where
  "offsetLoops r \<equiv> axisLoops (outs r) (Region_Box.strides (ins r))"

definition offset_ok :: "OffsetDim list \<Rightarrow> bool" where
  "offset_ok r \<longleftrightarrow> (\<forall>x \<in> set r. 0 < o_output x \<and> 0 \<le> o_left x \<and> 0 \<le> o_right x \<and> o_left x + o_output x \<le> o_input x)"

lemma offset_ok_simps [simp]:
  "offset_ok []"
  "offset_ok (x # r) \<longleftrightarrow> 0 < o_output x \<and> 0 \<le> o_left x \<and> 0 \<le> o_right x \<and> o_left x + o_output x \<le> o_input x \<and> offset_ok r"
  by (auto simp: offset_ok_def)

definition same_offset :: "OffsetDim list \<Rightarrow> OffsetDim list \<Rightarrow> bool" where
  "same_offset r r' \<longleftrightarrow> set (box (offsetLoops r)) = set (box (offsetLoops r')) \<and> prod_list (ins r) = prod_list (ins r') \<and>
     prod_list (outs r) = prod_list (outs r') \<and> lin (ins r) (lefts r) = lin (ins r') (lefts r')"

lemma same_offset_trans: "same_offset r s \<Longrightarrow> same_offset s t \<Longrightarrow> same_offset r t" by (simp add: same_offset_def)

lemma same_offset_Cons: "same_offset r r' \<Longrightarrow> same_offset (x # r) (x # r')"
  using box_cong [of "offsetLoops r" "offsetLoops r'" "(o_output x, prod_list (ins r'), prod_list (outs r'))"]
  by (simp add: same_offset_def)

abbreviation wholeDim :: "int \<Rightarrow> OffsetDim" where
  "wholeDim c \<equiv> \<lparr>o_input = c, o_output = c, o_left = 0, o_right = 0\<rparr>"

lemma same_offset_one: "same_offset (wholeDim 1 # r) r" by (simp add: same_offset_def)

lemma same_offset_merge:
  assumes "0 < o_output x" "o_input x = o_output x" "o_left x = 0"
  shows "same_offset (wholeDim (c * o_output x) # r) (wholeDim c # x # r)"
  using assms box_merge [OF assms(1), of c "prod_list (ins r)" "prod_list (outs r)" "offsetLoops r"]
  by (simp add: same_offset_def mult.assoc)

lemma offsetSeparate_same:
  "offset_ok r \<Longrightarrow> 0 < c \<Longrightarrow> same_offset (offsetSeparate r c c) (wholeDim c # r) \<and> offset_ok (offsetSeparate r c c)"
proof (induction r arbitrary: c)
  case Nil
  then show ?case by (auto simp: same_offset_def)
next
  case (Cons x r)
  show ?case
  proof (cases "o_output x = o_input x")
    case True
    have x: "0 < o_output x" "o_left x = 0" "offset_ok r" using Cons.prems True by auto
    have "0 < c * o_output x" using x Cons.prems by simp
    then have "same_offset (offsetSeparate r (c * o_output x) (c * o_output x)) (wholeDim (c * o_output x) # r) \<and>
        offset_ok (offsetSeparate r (c * o_output x) (c * o_output x))" using Cons.IH x by blast
    then show ?thesis using same_offset_trans [OF _ same_offset_merge [OF x(1) True [symmetric] x(2), of c r]] True by simp
  next
    case False
    have r: "same_offset (offsetSeparate r 1 1) r" "offset_ok (offsetSeparate r 1 1)"
      using Cons.IH [of 1] same_offset_trans [OF _ same_offset_one] Cons.prems by auto
    have s: "same_offset (x # offsetSeparate r 1 1) (x # r)" using r(1) by (rule same_offset_Cons)
    show ?thesis
    proof (cases "1 < c")
      case True
      then show ?thesis using same_offset_Cons [OF s, of "wholeDim c"] r(2) False Cons.prems by simp
    next
      case 1: False
      then have "c = 1" using Cons.prems by simp
      moreover have "same_offset (x # r) (wholeDim 1 # x # r)" using same_offset_one by (simp add: same_offset_def)
      ultimately show ?thesis using same_offset_trans [OF s] r(2) False Cons.prems by simp
    qed
  qed
qed

section \<open>The regions of an offset\<close>

lemma offsetLoop_ok: "0 \<le> o_left x \<Longrightarrow> 0 \<le> o_right x \<Longrightarrow> offsetLoop x s d = (o_left x * s, 0, o_output x, s, d)"
  by (simp add: offsetLoop_def)

lemma dot_short:
  fixes u v :: "int list"
  assumes "length u \<le> 3" "length v = length u"
  shows "dot u v = fromEnd 3 0 u * fromEnd 3 0 v + fromEnd 2 0 u * fromEnd 2 0 v + fromEnd 1 0 u * fromEnd 1 0 v"
proof -
  have "length u = 0 \<or> length u = 1 \<or> length u = 2 \<or> length u = 3" using assms(1) by arith
  then show ?thesis
    using assms(2) by (elim disjE) (auto simp: fromEnd_def length_Suc_conv numeral_2_eq_2 numeral_3_eq_3)
qed

lemma fromEnd_dot: "dot us vs = dot (take (length us - 3) us) (take (length us - 3) vs) +
    fromEnd 3 0 us * fromEnd 3 0 vs + fromEnd 2 0 us * fromEnd 2 0 vs + fromEnd 1 0 us * fromEnd 1 0 vs"
  if "length us = length vs" for us vs :: "int list"
proof -
  let ?k = "length us - 3"
  let ?u = "drop ?k us" and ?v = "drop ?k vs"
  have f: "fromEnd k d us = fromEnd k d ?u" "fromEnd k d vs = fromEnd k d ?v" if "k \<in> {1, 2, 3}" for k d
    using that \<open>length us = length vs\<close> by (auto simp: fromEnd_def)
  have z: "map2 (*) vs us = map2 (*) (take ?k vs) (take ?k us) @ map2 (*) ?v ?u"
    using that by (metis append_take_drop_id drop_zip map_append take_zip)
  have "dot ?u ?v = fromEnd 3 0 ?u * fromEnd 3 0 ?v + fromEnd 2 0 ?u * fromEnd 2 0 ?v + fromEnd 1 0 ?u * fromEnd 1 0 ?v"
    by (rule dot_short) (use that in simp_all)
  then show ?thesis unfolding z sum_list_append by (simp only: f insert_iff simp_thms)
qed

lemma dot_plus: "length cs = length (ls :: int list) \<Longrightarrow> dot us (map2 (+) cs ls) = dot us cs + dot us ls"
proof (induction cs ls arbitrary: us rule: list_induct2)
  case (Cons c cs l ls)
  then show ?case by (cases us) (simp_all add: algebra_simps)
qed simp

lemma offset_loops:
  fixes sep :: "OffsetDim list"
  assumes "offset_ok sep" "length us = length sep" "length vs = length sep" "0 < k"
  shows "fromEnd k (0, 0, 1, 1, 1) (map2 (\<lambda>x (s, d). offsetLoop x s d) sep (zip us vs)) =
    (fromEnd k 0 us * fromEnd k 0 (lefts sep), 0, fromEnd k 1 (outs sep), fromEnd k 1 us, fromEnd k 1 vs)"
proof (cases "k \<le> length sep")
  case True
  then have "sep ! (length sep - k) \<in> set sep" using assms(4) by (intro nth_mem) simp
  then have "offsetLoop (sep ! (length sep - k)) s d = (o_left (sep ! (length sep - k)) * s, 0, o_output (sep ! (length sep - k)), s, d)" for s d
    using assms(1) by (intro offsetLoop_ok) (auto simp: offset_ok_def)
  then show ?thesis using True assms(2-4) by (simp add: fromEnd_def)
qed (use assms in \<open>simp add: fromEnd_def\<close>)

lemma concat_if: "\<forall>n \<in> set ns. P n \<Longrightarrow> concat (map (\<lambda>n. if P n then [f n] else []) ns) = map f ns"
  by (induction ns) auto

lemma computeOffsetRegion_eval:
  assumes "offset_ok sep"
  defines "us \<equiv> Region_Box.strides (ins sep)" and "ms \<equiv> outs sep"
  defines "ks \<equiv> take (length ms - 3) ms"
  shows "computeOffsetRegion i sep = map (\<lambda>n. mk_region (lin (ins sep) (lefts sep) + dot us (unravelIndexHelper (Region_Box.strides ks) n))
      [fromEnd 3 1 us, fromEnd 2 1 us, fromEnd 1 1 us] (dot (Region_Box.strides ms) (unravelIndexHelper (Region_Box.strides ks) n))
      [fromEnd 3 1 (Region_Box.strides ms), fromEnd 2 1 (Region_Box.strides ms), fromEnd 1 1 (Region_Box.strides ms)]
      [fromEnd 3 1 ms, fromEnd 2 1 ms, fromEnd 1 1 ms] (Some i)) [0..prod_list ks - 1]"
proof -
  let ?k = "length sep - 3" and ?remain = "take (length sep - 3) sep"
  let ?c = "unravelIndexHelper (Region_Box.strides ks)"
  have ks: "map o_output ?remain = ks" by (simp add: ks_def ms_def take_map)
  have len: "length us = length sep" "length (Region_Box.strides ms) = length sep" by (simp_all add: us_def ms_def)
  have valid: "list_all2 (\<lambda>x c. \<not> o_left x + c < 0 \<and> \<not> c - o_right x \<ge> o_output x) ?remain (?c n)" if n: "n \<in> set [0..prod_list ks - 1]" for n
  proof -
    have "positive ks" using assms(1) by (auto simp: ks_def ms_def offset_ok_def dest!: in_set_takeD)
    then obtain cs where "inShape ks cs" "lin ks cs = n" using lin_surj [of n ks] n by auto
    then have "inShape ks (?c n)" using unravel_lin by metis
    then have c: "list_all2 (\<lambda>d c. 0 \<le> c \<and> c < d) ks (?c n)" unfolding inShape_def .
    have len: "length (?c n) = length ?remain" using list_all2_lengthD [OF c] by (simp add: ks_def ms_def)
    show ?thesis
    proof (rule list_all2_all_nthI)
      fix m assume m: "m < length ?remain"
      then have x: "?remain ! m \<in> set sep" using nth_mem [OF m] by (auto dest: in_set_takeD)
      have "ks ! m = o_output (?remain ! m)" using m by (simp add: ks_def ms_def)
      then have "0 \<le> ?c n ! m \<and> ?c n ! m < o_output (?remain ! m)" using list_all2_nthD [OF c, of m] m len by simp
      then show "\<not> o_left (?remain ! m) + ?c n ! m < 0 \<and> \<not> ?c n ! m - o_right (?remain ! m) \<ge> o_output (?remain ! m)"
        using assms(1) x by (auto simp: offset_ok_def)
    qed (use len in simp)
  qed
  have so: "dot us (map2 (\<lambda>c x. c + o_left x) (?c n) ?remain) + fromEnd 1 0 us * fromEnd 1 0 (lefts sep) +
      fromEnd 2 0 us * fromEnd 2 0 (lefts sep) + fromEnd 3 0 us * fromEnd 3 0 (lefts sep) =
      lin (ins sep) (lefts sep) + dot us (?c n)" for n
  proof -
    have "map2 (\<lambda>c x. c + o_left x) (?c n) ?remain = map2 (+) (?c n) (take ?k (lefts sep))"
      by (simp add: take_map zip_map2 comp_def split_def)
    moreover have "length (?c n) = length (take ?k (lefts sep))" by (simp add: ks_def ms_def)
    ultimately have "dot us (map2 (\<lambda>c x. c + o_left x) (?c n) ?remain) = dot us (?c n) + dot us (take ?k (lefts sep))"
      by (simp add: dot_plus)
    moreover have "dot us (take ?k (lefts sep)) = dot (take ?k us) (take ?k (lefts sep))"
      by (rule dot_take [symmetric]) simp
    moreover have "lin (ins sep) (lefts sep) = dot us (lefts sep)" unfolding us_def by (rule lin_dot) simp
    ultimately show ?thesis using fromEnd_dot [of us "lefts sep"] len(1) by simp
  qed
  have loops: "fromEnd k (0, 0, 1, 1, 1) (map2 (\<lambda>x (s, d). offsetLoop x s d) sep (zip us (Region_Box.strides ms))) =
      (fromEnd k 0 us * fromEnd k 0 (lefts sep), 0, fromEnd k 1 ms, fromEnd k 1 us, fromEnd k 1 (Region_Box.strides ms))" if "0 < k" for k
    using offset_loops [OF assms(1) len that] by (simp add: ms_def)
  have "computeOffsetRegion i sep = concat (map (\<lambda>n. if list_all2 (\<lambda>x c. \<not> o_left x + c < 0 \<and> \<not> c - o_right x \<ge> o_output x) ?remain (?c n)
      then [mk_region (lin (ins sep) (lefts sep) + dot us (?c n))
      [fromEnd 3 1 us, fromEnd 2 1 us, fromEnd 1 1 us] (dot (Region_Box.strides ms) (?c n))
      [fromEnd 3 1 (Region_Box.strides ms), fromEnd 2 1 (Region_Box.strides ms), fromEnd 1 1 (Region_Box.strides ms)]
      [fromEnd 3 1 ms, fromEnd 2 1 ms, fromEnd 1 1 ms] (Some i)] else []) [0..prod_list ks - 1])"
    unfolding computeOffsetRegion_def Let_def split_beta computeStride_snd ks along_dot us_def [symmetric] ms_def [symmetric]
    by (simp only: fst_conv snd_conv loops [unfolded split_beta] so [unfolded split_beta] zero_less_numeral zero_less_one add_0_right)
  also have "\<dots> = map (\<lambda>n. mk_region (lin (ins sep) (lefts sep) + dot us (?c n))
      [fromEnd 3 1 us, fromEnd 2 1 us, fromEnd 1 1 us] (dot (Region_Box.strides ms) (?c n))
      [fromEnd 3 1 (Region_Box.strides ms), fromEnd 2 1 (Region_Box.strides ms), fromEnd 1 1 (Region_Box.strides ms)]
      [fromEnd 3 1 ms, fromEnd 2 1 ms, fromEnd 1 1 ms] (Some i)) [0..prod_list ks - 1]"
    by (rule concat_if) (use valid in blast)
  finally show ?thesis .
qed


lemma computeOffsetRegion_moves:
  assumes "offset_ok r"
  shows "set (moves (computeOffsetRegion i (offsetSeparate r 1 1))) =
    {(lin (outs r) is, i, lin (ins r) (map2 (+) (lefts r) is)) | is. inShape (outs r) is}"
proof -
  let ?sep = "offsetSeparate r 1 1"
  have s: "same_offset ?sep r" "offset_ok ?sep"
    using offsetSeparate_same [OF assms, of 1] same_offset_trans [OF _ same_offset_one] by auto
  have nn: "\<forall>d \<in> set (outs ?sep). 0 \<le> d" using s(2) by (auto simp: offset_ok_def less_imp_le)
  have "set (moves (computeOffsetRegion i ?sep)) =
      {(0 + x, i, lin (ins ?sep) (lefts ?sep) + y) | x y. (x, y) \<in> set (box (offsetLoops ?sep))}"
    unfolding computeOffsetRegion_eval [OF s(2)] by (rule axis_regions) (use nn in simp_all)
  also have "\<dots> = {(x, i, lin (ins r) (lefts r) + y) | x y. (x, y) \<in> set (box (offsetLoops r))}"
    using s(1) by (simp add: same_offset_def)
  also have "\<dots> = {(lin (outs r) is, i, lin (ins r) (lefts r) + dot (Region_Box.strides (ins r)) is) | is. inShape (outs r) is}"
    by (subst box_axisLoops) auto
  also have "\<dots> = {(lin (outs r) is, i, lin (ins r) (map2 (+) (lefts r) is)) | is. inShape (outs r) is}"
  proof -
    have "lin (ins r) (lefts r) + dot (Region_Box.strides (ins r)) is = lin (ins r) (map2 (+) (lefts r) is)" if "inShape (outs r) is" for "is"
      using inShape_length [OF that] lin_add [of "lefts r" "is" "ins r"] lin_dot [of "is" "ins r"] by simp
    then show ?thesis by (intro Collect_cong ex_cong1) auto
  qed
  finally show ?thesis .
qed

section \<open>Crop\<close>

text \<open>The first index of the cropped block.\<close>

definition cropOffsets :: "int \<Rightarrow> int list \<Rightarrow> Tensor \<Rightarrow> int list" where
  "cropOffsets axis offs input =
     (let a = (if axis < 0 then dimensions input + axis else axis)
      in map (\<lambda>k. if k < a then 0 else if length offs = 1 then offs ! 0 else if length offs > 1 then offs ! nat (k - a) else 0)
           [0..dimensions input - 1])"

lemma GeometryCrop_describes:
  assumes "dimensions out = dimensions input" "positive (shape out)"
    and "\<forall>k \<in> {0..<dimensions input}. 0 \<le> cropOffsets axis offs input ! nat k \<and>
      cropOffsets axis offs input ! nat k + tlength out k \<le> tlength input k"
  shows "describes (GeometryCrop axis offs i input out) (shape out)
    (\<lambda>is. Some (i, lin (shape input) (map2 (+) (cropOffsets axis offs input) is)))"
proof -
  let ?o = "cropOffsets axis offs input" and ?dims = "[0..dimensions input - 1]"
  let ?r = "map (\<lambda>k. \<lparr>o_input = tlength input k, o_output = tlength out k, o_left = ?o ! nat k,
    o_right = map (\<lambda>_. 0) ?dims ! nat k\<rparr>) ?dims"
  have o: "?o = map (\<lambda>k. if k \<ge> (if axis < 0 then dimensions input + axis else axis) then
      (if length offs = 1 then offs ! 0
       else if length offs > 1 then offs ! nat (k - (if axis < 0 then dimensions input + axis else axis)) else 0) else 0) ?dims"
    unfolding cropOffsets_def Let_def by (rule map_cong) auto
  have z: "map (\<lambda>_. 0) ?dims ! nat k = (0 :: int)" if "k \<in> set ?dims" for k using that by simp
  have p: "0 < tlength out k" if "k \<in> set ?dims" for k using assms(1,2) that by (auto simp: set_shape)
  have ok: "offset_ok ?r" using assms(3) p z by (auto simp: offset_ok_def)
  have c: "GeometryCrop axis offs i input out = computeOffsetRegion i (offsetSeparate ?r 1 1)"
    unfolding GeometryCrop_def offsetDims_def Let_def o ..
  have l: "map (\<lambda>k. ?o ! nat k) ?dims = ?o"
    by (rule nth_equalityI) (auto simp: cropOffsets_def Let_def nth_upto)
  have s: "ins ?r = shape input" "outs ?r = shape out" "lefts ?r = ?o" using assms(1) l by (simp_all add: shape_def comp_def)
  show ?thesis unfolding c describes_def computeOffsetRegion_moves [OF ok] s by auto
qed

section \<open>Constant padding\<close>

text \<open>What padding does to every axis, as an offset of the input in the output.\<close>

definition padDims :: "Tensor \<Rightarrow> Tensor \<Rightarrow> Tensor \<Rightarrow> OffsetDim list" where
  "padDims out input paddings = map (\<lambda>k. \<lparr>o_input = tlength out k, o_output = tlength input k, o_left = hostv paddings (2 * k),
     o_right = hostv paddings (2 * k + 1)\<rparr>) [0..dimensions input - 1]"

lemma GeometryPad_constant:
  assumes "dimensions out = dimensions input" "positive (shape input)"
    and "\<exists>k \<in> {0..<dimensions input}. hostv paddings (2 * k) > 0 \<or> hostv paddings (2 * k + 1) > 0"
    and "value = None \<or> value = Some (v, True)"
  shows "GeometryPad PadValueMode_CONSTANT value i input paddings virtual out =
    map swapSides (computeOffsetRegion i (offsetSeparate (padDims out input paddings) 1 1))"
proof -
  let ?dims = "[0..dimensions input - 1]"
  have n: "map f ?dims ! nat k = f k" if "k \<in> set ?dims" for k :: int and f :: "int \<Rightarrow> int" using that by (simp add: nth_upto)
  have d: "offsetDims out input (map (\<lambda>k. hostv paddings (2 * k)) ?dims) (map (\<lambda>k. hostv paddings (2 * k + 1)) ?dims) =
      offsetSeparate (padDims out input paddings) 1 1"
    unfolding offsetDims_def padDims_def assms(1) by (rule arg_cong [where f = "\<lambda>r. offsetSeparate r 1 1"], rule map_cong) (simp_all add: n)
  have e: "\<not> (\<exists>k \<in> set ?dims. tlength input k = 0)" using assms(2) by (force simp: set_shape)
  have z: "\<not> (\<forall>k \<in> set ?dims. \<not> (hostv paddings (2 * k) > 0 \<or> hostv paddings (2 * k + 1) > 0))" using assms(3) by auto
  have v: "(case value of None \<Rightarrow> True | Some (v, zero) \<Rightarrow> zero)" using assms(4) by auto
  show ?thesis unfolding GeometryPad_def Let_def d if_not_P [OF e] if_not_P [OF z] using v by (simp add: swapSides_def)
qed


lemma prod_short:
  fixes ms :: "int list"
  shows "prod_list ms = prod_list (take (length ms - 3) ms) * (fromEnd 3 1 ms * fromEnd 2 1 ms * fromEnd 1 1 ms)"
proof -
  let ?k = "length ms - 3"
  have f: "fromEnd k d ms = fromEnd k d (drop ?k ms)" if "k \<in> {1, 2, 3}" for k d
    using that by (auto simp: fromEnd_def)
  have "prod_list v = fromEnd 3 1 v * fromEnd 2 1 v * fromEnd 1 1 v" if "length v \<le> 3" for v :: "int list"
  proof -
    have "length v = 0 \<or> length v = 1 \<or> length v = 2 \<or> length v = 3" using that by arith
    then show ?thesis by (elim disjE) (auto simp: fromEnd_def length_Suc_conv numeral_2_eq_2 numeral_3_eq_3)
  qed
  then have "prod_list (drop ?k ms) = fromEnd 3 1 ms * fromEnd 2 1 ms * fromEnd 1 1 ms" by (simp add: f [symmetric])
  then show ?thesis by (metis append_take_drop_id prod_list.append)
qed

lemma regionSum_swapSides [simp]: "regionSum (map swapSides rs) = regionSum rs"
  by (induction rs) (simp_all add: swapSides_def)

lemma regionSum_same: "(\<And>r. r \<in> set rs \<Longrightarrow> rsize r 0 * rsize r 1 * rsize r 2 = n) \<Longrightarrow> regionSum rs = int (length rs) * n"
  by (induction rs) (simp_all add: algebra_simps)

lemma computeOffsetRegion_sum:
  assumes "offset_ok r"
  shows "regionSum (computeOffsetRegion i (offsetSeparate r 1 1)) = prod_list (outs r)"
proof -
  let ?ms = "outs (offsetSeparate r 1 1)"
  have s: "same_offset (offsetSeparate r 1 1) r" "offset_ok (offsetSeparate r 1 1)"
    using offsetSeparate_same [OF assms, of 1] same_offset_trans [OF _ same_offset_one] by auto
  have "0 \<le> prod_list (take (length ?ms - 3) ?ms)"
    by (intro order.strict_implies_order prod_list_pos) (use s(2) in \<open>auto simp: offset_ok_def dest!: in_set_takeD\<close>)
  then have "regionSum (computeOffsetRegion i (offsetSeparate r 1 1)) =
      prod_list (take (length ?ms - 3) ?ms) * (fromEnd 3 1 ?ms * fromEnd 2 1 ?ms * fromEnd 1 1 ?ms)"
    unfolding computeOffsetRegion_eval [OF s(2)] by (subst regionSum_same) (auto simp: mk_region_def)
  then show ?thesis using prod_short [of ?ms] s(1) by (simp add: same_offset_def)
qed

lemma prod_list_mono_strict:
  "list_all2 (\<le>) ds es \<Longrightarrow> \<forall>d \<in> set ds. (0 :: int) < d \<Longrightarrow> prod_list ds \<le> prod_list es \<and> (ds \<noteq> es \<longrightarrow> prod_list ds < prod_list es)"
proof (induction ds es rule: list_all2_induct)
  case (Cons d ds e es)
  then have p: "0 < prod_list ds" "prod_list ds \<le> prod_list es" "0 < d" "d \<le> e" by (auto intro: prod_list_pos)
  then have le: "d * prod_list ds \<le> e * prod_list es" by (intro mult_mono) auto
  have "d * prod_list ds < e * prod_list es" if "d < e \<or> prod_list ds < prod_list es"
    using that p by (auto intro: mult_less_le_imp_less mult_le_less_imp_less)
  then show ?case using Cons p le by auto
qed simp

lemma shifted:
  fixes lo js "is" :: "int list"
  assumes "length lo = length js"
  shows "map2 (-) (map2 (+) lo js) lo = js" "length lo = length is \<Longrightarrow> map2 (+) lo (map2 (-) is lo) = is"
  using assms by (auto intro!: nth_equalityI)

lemma GeometryPad_describes:
  fixes i :: nat and virtual :: "Region list option" and input paddings out :: Tensor
  assumes "dimensions out = dimensions input" "positive (shape input)"
    and "\<exists>k \<in> {0..<dimensions input}. hostv paddings (2 * k) > 0 \<or> hostv paddings (2 * k + 1) > 0"
    and "value = None \<or> value = Some (v, True)"
    and "\<forall>k \<in> {0..<dimensions input}. 0 \<le> hostv paddings (2 * k) \<and> 0 \<le> hostv paddings (2 * k + 1) \<and>
      tlength out k = tlength input k + hostv paddings (2 * k) + hostv paddings (2 * k + 1)"
  defines "rs \<equiv> GeometryPad PadValueMode_CONSTANT value i input paddings virtual out"
    and "lo \<equiv> map (\<lambda>k. hostv paddings (2 * k)) [0..dimensions input - 1]"
  shows "describes rs (shape out) (\<lambda>is. if inShape (shape input) (map2 (-) is lo)
      then Some (i, lin (shape input) (map2 (-) is lo)) else None)" "\<not> regionIsFull out rs"
proof -
  let ?r = "padDims out input paddings"
  have rs: "rs = map swapSides (computeOffsetRegion i (offsetSeparate ?r 1 1))"
    unfolding rs_def by (rule GeometryPad_constant [OF assms(1-4)])
  have p: "0 < tlength input k" if "k \<in> {0..<dimensions input}" for k using assms(2) that by (auto simp: set_shape)
  have ok: "offset_ok ?r" using assms(5) p by (auto simp: offset_ok_def padDims_def)
  have s: "ins ?r = shape out" "outs ?r = shape input" "lefts ?r = lo"
    using assms(1) by (simp_all add: padDims_def lo_def shape_def comp_def)
  have lo: "length lo = length (shape input)" "length (shape out) = length (shape input)" by (simp_all add: lo_def assms(1))
  have le: "0 \<le> lo ! k \<and> lo ! k + shape input ! k \<le> shape out ! k" if "k < length (shape input)" for k
  proof -
    have "int k \<in> {0..<dimensions input}" using that by auto
    then show ?thesis using assms(5) that by (auto simp: lo_def nth_upto shape_nth assms(1))
  qed
  have ne: "shape input \<noteq> shape out"
  proof
    assume e: "shape input = shape out"
    obtain k where k: "k \<in> {0..<dimensions input}" "hostv paddings (2 * k) > 0 \<or> hostv paddings (2 * k + 1) > 0" using assms(3) by blast
    then have "tlength input k = tlength out k" using arg_cong [OF e, of "\<lambda>l. l ! nat k"] assms(1) by (simp add: shape_nth)
    then show False using bspec [OF assms(5) k(1)] k(2) by auto
  qed
  have "list_all2 (\<le>) (shape input) (shape out)"
    by (rule list_all2_all_nthI) (use lo le in force)+
  then have "prod_list (shape input) < prod_list (shape out)" using prod_list_mono_strict ne assms(2) by blast
  then show "\<not> regionIsFull out rs"
    unfolding regionIsFull_def rs regionSum_swapSides computeOffsetRegion_sum [OF ok] s shape_prod by simp
  have m: "(x, t, y) \<in> set (moves rs) \<longleftrightarrow> t = i \<and> (\<exists>js. inShape (shape input) js \<and> x = lin (shape out) (map2 (+) lo js) \<and> y = lin (shape input) js)"
    for x t y
    unfolding rs moves_swapSides computeOffsetRegion_moves [OF ok] s by auto
  have out: "inShape (shape out) (map2 (+) lo js)" if "inShape (shape input) js" for js
    using that le lo unfolding inShape_nth by fastforce
  show "describes rs (shape out) (\<lambda>is. if inShape (shape input) (map2 (-) is lo)
      then Some (i, lin (shape input) (map2 (-) is lo)) else None)"
    unfolding describes_def
  proof (intro equalityI subsetI)
    fix u assume u: "u \<in> set (moves rs)"
    obtain x t y where "u = (x, t, y)" by (cases u)
    then obtain js where js: "inShape (shape input) js" "u = (lin (shape out) (map2 (+) lo js), i, lin (shape input) js)"
      using m [of x t y] u by blast
    then show "u \<in> {(lin (shape out) is, m) | is m. inShape (shape out) is \<and>
        (if inShape (shape input) (map2 (-) is lo) then Some (i, lin (shape input) (map2 (-) is lo)) else None) = Some m}"
      using out [OF js(1)] shifted(1) [of lo js] inShape_length [OF js(1)] lo by fastforce
  next
    fix u assume "u \<in> {(lin (shape out) is, m) | is m. inShape (shape out) is \<and>
        (if inShape (shape input) (map2 (-) is lo) then Some (i, lin (shape input) (map2 (-) is lo)) else None) = Some m}"
    then obtain "is" where "is": "inShape (shape out) is" "inShape (shape input) (map2 (-) is lo)"
      "u = (lin (shape out) is, i, lin (shape input) (map2 (-) is lo))" by (auto split: if_splits)
    then show "u \<in> set (moves rs)"
      using m [of "lin (shape out) is" i] shifted(2) [of lo "map2 (-) is lo" "is"] inShape_length [OF "is"(1)] lo by fastforce
  qed
qed

end
