(* ===== verification/Region_Fuse.thy ===== *)
theory Region_Fuse
  imports Region_Box
begin

text \<open>
  Fusing two regions (\<^verbatim>\<open>TensorUtils::FuseRegionStatus\<close>, \<^verbatim>\<open>source/core/TensorUtils.cpp\<close>): a region that
  reads from a tensor which is itself produced by a region becomes a region that reads from the
  origin of the producer. The members of the C++ object are the fields of \<open>FuseStatus\<close>: they keep
  their values from one call to the next, so \<open>match\<close> maps a state to a state.
\<close>

section \<open>State\<close>

datatype FuseKind = FUSE_SRC_COPY | FUSE_REGION_COMPUTE

record FuseStatus =
  mStatus :: FuseKind
  srcDst :: "int list"
  srcSrc :: "int list"
  dstSrc :: "int list"
  dstDst :: "int list"
  srcSize :: "int list"
  dstSize :: "int list"
  newSrc :: "int list"
  dstStride :: "int list"
  srcStride :: "int list"
  dstMin :: "int list"
  dstMax :: "int list"
  newSrcSize :: "int list"
  srcNum :: nat
  dstNum :: nat
  sizeNum :: nat
  newSrcOffset :: int
  newDstOffset :: int
  expandIdx :: int

text \<open>Every array of the object has three elements.\<close>

definition wf_status :: "FuseStatus \<Rightarrow> bool" where
  "wf_status st \<longleftrightarrow> length (srcDst st) = 3 \<and> length (srcSrc st) = 3 \<and> length (dstSrc st) = 3 \<and>
     length (dstDst st) = 3 \<and> length (srcSize st) = 3 \<and> length (dstSize st) = 3 \<and> length (newSrc st) = 3 \<and>
     length (dstStride st) = 3 \<and> length (srcStride st) = 3 \<and> length (dstMin st) = 3 \<and>
     length (dstMax st) = 3 \<and> length (newSrcSize st) = 3"

section \<open>Offsets and splitting\<close>

definition offsetCompute :: "Region \<Rightarrow> int \<Rightarrow> int \<Rightarrow> bool \<Rightarrow> int" where
  "offsetCompute reg srcO dstO backward =
     (let s = (if backward then r_dst reg else r_src reg);
          d = (if backward then r_src reg else r_dst reg)
      in fst (fold (\<lambda>i (res, so, do).
            if rsize reg i > 1 then
              (res + (so sdiv v_stride s ! i - do sdiv v_stride s ! i) * v_stride d ! i,
               so smod v_stride s ! i, do smod v_stride s ! i)
            else (res, so, do)) [0, 1, 2] (0, srcO, dstO)))"

text \<open>\<^verbatim>\<open>MNN_3_INT_INSERT\<close>: the last element falls out.\<close>

definition int3_insert :: "int list \<Rightarrow> nat \<Rightarrow> int \<Rightarrow> int list" where
  "int3_insert x i y = take 3 (take i x @ y # drop i x)"

text \<open>The loop counts \<open>i\<close> down; the arguments are the arrays, their length in use and the value.\<close>

fun expandFrom :: "nat \<Rightarrow> int list \<Rightarrow> int list \<Rightarrow> int list \<Rightarrow> nat \<Rightarrow> int \<Rightarrow>
    bool \<times> int list \<times> int list \<times> int list \<times> nat" where
  "expandFrom 0 src dst sz num ev = (False, src, dst, sz, num)"
| "expandFrom (Suc i) src dst sz num ev =
     (let splitSize = ev sdiv src ! i
      in if \<not> (ev smod src ! i \<noteq> 0 \<or> sz ! i smod splitSize \<noteq> 0) then
           (let src' = int3_insert src i ev;
                dst' = int3_insert dst i (splitSize * dst ! i);
                size1 = sz[i := sz ! i sdiv splitSize]
            in if i + 1 > 2 then (False, src', dst', size1, num)
               else (num + 1 \<le> 3, src', dst', int3_insert size1 (i + 1) splitSize, num + 1))
         else expandFrom i src dst sz num ev)"

definition expandStrideSize where
  "expandStrideSize src dst sz num ev = expandFrom num src dst sz num ev"

text \<open>\<^verbatim>\<open>MNN_3_INT_DIFF\<close> for \<open>i = 0, 1, 2\<close>: the one stride of \<open>x\<close> that \<open>y\<close> lacks; two of them fail.\<close>

definition extraStride :: "int list \<Rightarrow> int list \<Rightarrow> int option" where
  "extraStride x y =
     fold_opt (\<lambda>r i. if x ! i \<noteq> y ! 0 \<and> x ! i \<noteq> y ! 1 \<and> x ! i \<noteq> y ! 2
                     then (if r > 0 then None else Some (x ! i)) else Some r) (-1) [0, 1, 2]"

section \<open>Clipping\<close>

text \<open>The indices in the order of their strides, largest first.\<close>

definition validIndex :: "int list \<Rightarrow> nat \<Rightarrow> nat list" where
  "validIndex stride n =
     (if n = 2 then (if stride ! 0 < stride ! 1 then [1, 0, 2] else [0, 1, 2])
      else if n > 2 then
        (let (maxs, maxi, mins, mini) = fold (\<lambda>i (maxs, maxi, mins, mini).
               let s = stride ! i;
                   (maxs, maxi) = (if s > maxs then (s, i) else (maxs, maxi));
                   (mins, mini) = (if s < mins then (s, i) else (mins, mini))
               in (maxs, maxi, mins, mini)) [1..<n] (stride ! 0, 0, stride ! 0, 0);
             mid = (case filter (\<lambda>i. i \<noteq> maxi \<and> i \<noteq> mini) [0..<n] of i # _ \<Rightarrow> i | [] \<Rightarrow> 1)
         in [maxi, mid, mini])
      else [0, 1, 2])"

definition clipOffsets :: "int list \<Rightarrow> int \<Rightarrow> int \<Rightarrow> nat \<Rightarrow> int \<times> int \<times> int list" where
  "clipOffsets stride srcO dstO n =
     fold (\<lambda>i (so, do, os).
        let v = validIndex stride n ! i; s = stride ! v
        in (so smod s, do smod s, os[v := do sdiv s - so sdiv s])) [0..<n] (srcO, dstO, [0, 0, 0])"

text \<open>\<^verbatim>\<open>_ClipDst\<close> up to the point where it returns when \<^verbatim>\<open>checkFull\<close> is false.\<close>

definition clipRange where
  "clipRange stride srcO dstO srcSz dstSz n dMax dMin =
     (if n = 0 then (dstO - srcO = 0, dMax, dMin)
      else (let (so, do, os) = clipOffsets stride srcO dstO n
            in if 0 \<noteq> so \<or> 0 \<noteq> do then (False, dMax, dMin)
               else (True, fold (\<lambda>i m. m[i := min (srcSz ! i - os ! i) (dstSz ! i)]) [0..<n] dMax,
                     fold (\<lambda>i m. m[i := max 0 (- (os ! i))]) [0..<n] dMin)))"

definition srcMinOf :: "int list \<Rightarrow> int list \<Rightarrow> int list \<Rightarrow> nat \<Rightarrow> int" where
  "srcMinOf stride srcSz dMax n =
     fold (\<lambda>i m. if dMax ! i < srcSz ! i then (if m = -1 then stride ! i else min (stride ! i) m) else m)
       [0..<n] (-1)"

text \<open>The second half: a source element may be needed outside the clipped range.\<close>

definition clipNeedsMore :: "int list \<Rightarrow> int \<Rightarrow> int \<Rightarrow> int list \<Rightarrow> int list \<Rightarrow> nat \<Rightarrow> int list \<Rightarrow> bool" where
  "clipNeedsMore stride srcO dstO srcSz dstSz n dMax \<longleftrightarrow>
     (let offsetBias = dstO - srcO;
          srcMax = fold (\<lambda>i m. m + srcSz ! i * stride ! i) [0..<n] 0;
          srcMin = srcMinOf stride srcSz dMax n
      in \<exists>i \<in> set [0..<n]. dMax ! i \<noteq> dstSz ! i \<and>
           (let bias = offsetBias + dMax ! i * stride ! i
            in bias < srcMax \<and> bias \<ge> srcMin \<and>
              (\<exists>k \<in> set [0..<n]. dMax ! k < srcSz ! k \<and>
                (let newSrcSz = srcSz[k := srcSz ! k - dMax ! k];
                     newDstSz = dstSz[i := dstSz ! i - dMax ! i];
                     (status, dMaxN, dMinN) = clipRange stride (srcO + dMax ! k * stride ! k)
                       (dstO + dMax ! i * stride ! i) newSrcSz newDstSz n [0, 0, 0] [0, 0, 0]
                 in status \<and> (\<forall>j \<in> set [0..<n]. \<not> dMaxN ! j \<le> dMinN ! j)))))"

definition ClipDst where
  "ClipDst stride srcO dstO srcSz dstSz n dMax dMin =
     (let (ok, mx, mn) = clipRange stride srcO dstO srcSz dstSz n dMax dMin
      in if \<not> ok \<or> n = 0 then (ok, mx, mn)
         else if srcMinOf stride srcSz mx n < 0 then (True, mx, mn)
         else (\<not> clipNeedsMore stride srcO dstO srcSz dstSz n mx, mx, mn))"

section \<open>match\<close>

definition badStride :: "Region \<Rightarrow> bool" where
  "badStride r \<longleftrightarrow> (\<exists>i \<in> {0, 1, 2}. rsize r i > 1 \<and> (sstride r i \<le> 0 \<or> dstride r i \<le> 0))"

definition copyValid :: "Region \<Rightarrow> Region \<Rightarrow> bool" where
  "copyValid s d \<longleftrightarrow>
     (let total = \<lambda>r. fold (\<lambda>i n. if rsize r i > 1 then n * rsize r i else n) [0, 1, 2] 1;
          srcDstMax = fold (\<lambda>i n. n + dstride s i * (rsize s i - 1)) [0, 1, 2] (doffset s);
          dstSrcMax = fold (\<lambda>i n. n + sstride d i * (rsize d i - 1)) [0, 1, 2] (soffset d)
      in \<not> (doffset s > soffset d \<or> dstride s 1 > rsize s 2 \<or> dstride s 2 > rsize s 1 * rsize s 2) \<and>
         \<not> total d > total s \<and>
         \<not> (doffset s > soffset d \<or> srcDstMax < dstSrcMax))"

definition collectDim :: "Region \<Rightarrow> Region \<Rightarrow> nat \<Rightarrow> FuseStatus \<Rightarrow> FuseStatus" where
  "collectDim s d i st =
     (let st1 = (if rsize s i > 1 then
            st\<lparr>srcStride := (srcStride st)[srcNum st := dstride s i], srcDst := (srcDst st)[srcNum st := dstride s i],
               srcSrc := (srcSrc st)[srcNum st := sstride s i], srcSize := (srcSize st)[srcNum st := rsize s i],
               srcNum := srcNum st + 1\<rparr> else st)
      in if rsize d i > 1 then
            st1\<lparr>dstStride := (dstStride st1)[dstNum st1 := sstride d i], dstDst := (dstDst st1)[dstNum st1 := dstride d i],
               dstSrc := (dstSrc st1)[dstNum st1 := sstride d i], dstSize := (dstSize st1)[dstNum st1 := rsize d i],
               dstNum := dstNum st1 + 1\<rparr> else st1)"

definition collectDims :: "Region \<Rightarrow> Region \<Rightarrow> FuseStatus \<Rightarrow> FuseStatus" where
  "collectDims s d st =
     (let st1 = fold (collectDim s d) [0, 1, 2]
        (st\<lparr>dstStride := [-1, -1, -1], srcStride := [-1, -1, -1], expandIdx := -1,
            srcNum := 0, dstNum := 0, sizeNum := 0\<rparr>)
      in st1\<lparr>sizeNum := dstNum st1\<rparr>)"

text \<open>Align the producer's loops with the consumer's by their strides in the middle tensor.\<close>

definition alignOne :: "nat \<Rightarrow> FuseStatus \<Rightarrow> FuseStatus option" where
  "alignOne i st =
     (case filter (\<lambda>j. dstSrc st ! j = srcDst st ! i) [0..<dstNum st] of
        [] \<Rightarrow> None
      | index # _ \<Rightarrow> Some (st\<lparr>newSrc := (newSrc st)[index := srcSrc st ! i],
                            newSrcSize := (newSrcSize st)[index := srcSize st ! i]\<rparr>))"

fun alignDims :: "nat list \<Rightarrow> FuseStatus \<Rightarrow> bool \<times> FuseStatus" where
  "alignDims [] st = (True, st)"
| "alignDims (i # is) st = (case alignOne i st of None \<Rightarrow> (False, st) | Some st' \<Rightarrow> alignDims is st')"

text \<open>Move the offsets to the start of the clipped range; an empty range clears the sizes.\<close>

fun moveOffsets :: "nat list \<Rightarrow> FuseStatus \<Rightarrow> FuseStatus" where
  "moveOffsets [] st = st"
| "moveOffsets (i # is) st =
     (if dstMax st ! i \<le> dstMin st ! i then st\<lparr>dstSize := [0, 0, 0]\<rparr>
      else moveOffsets is
        (if dstMin st ! i > 0 then
           st\<lparr>newDstOffset := newDstOffset st + dstMin st ! i * dstDst st ! i,
              newSrcOffset := newSrcOffset st + dstMin st ! i * newSrc st ! i\<rparr>
         else st))"

definition expandSrcDims :: "int \<Rightarrow> FuseStatus \<Rightarrow> bool \<times> FuseStatus" where
  "expandSrcDims extra st =
     (if extra > 0 then
        (case expandStrideSize (srcDst st) (srcSrc st) (srcSize st) (srcNum st) extra of (ok, a, b, c, n) \<Rightarrow>
           (ok, st\<lparr>srcDst := a, srcSrc := b, srcSize := c, srcNum := n\<rparr>))
      else (True, st))"

definition expandDstDims :: "int \<Rightarrow> FuseStatus \<Rightarrow> bool \<times> FuseStatus" where
  "expandDstDims extra st =
     (if extra > 0 then
        (case expandStrideSize (dstSrc st) (dstDst st) (dstSize st) (dstNum st) extra of (ok, a, b, c, n) \<Rightarrow>
           (ok, st\<lparr>dstSrc := a, dstDst := b, dstSize := c, dstNum := n\<rparr>))
      else (True, st))"

text \<open>The part of \<^verbatim>\<open>match\<close> after the loops have been collected and split.\<close>

definition matchAligned :: "Region \<Rightarrow> Region \<Rightarrow> FuseStatus \<Rightarrow> bool \<times> FuseStatus" where
  "matchAligned s d st =
     (let (ok, st1) = alignDims [0..<srcNum st] st
      in if \<not> ok then (False, st1)
         else
          (let st2 = st1\<lparr>newSrcOffset := offsetCompute s (soffset d) (doffset s) True + soffset s\<rparr>;
               (valid, mx, mn) = ClipDst (dstSrc st2) (doffset s) (soffset d) (newSrcSize st2) (dstSize st2)
                 (dstNum st2) (dstMax st2) (dstMin st2);
               st3 = st2\<lparr>dstMax := mx, dstMin := mn\<rparr>
           in if \<not> valid then (False, st3)
              else (True, (moveOffsets [0..<dstNum st3] (st3\<lparr>newDstOffset := doffset d\<rparr>))
                      \<lparr>mStatus := FUSE_REGION_COMPUTE\<rparr>)))"

definition matchStrides :: "Region \<Rightarrow> Region \<Rightarrow> FuseStatus \<Rightarrow> bool \<times> FuseStatus" where
  "matchStrides s d st =
     (case (extraStride (srcStride st) (dstStride st), extraStride (dstStride st) (srcStride st)) of
        (Some srcExtra, Some dstExtra) \<Rightarrow>
          (case expandSrcDims dstExtra st of (ok1, st1) \<Rightarrow>
             if \<not> ok1 then (False, st1)
             else (case expandDstDims srcExtra st1 of (ok2, st2) \<Rightarrow>
                     if \<not> ok2 then (False, st2) else matchAligned s d st2))
      | _ \<Rightarrow> (False, st))"

definition match :: "Region \<Rightarrow> Region \<Rightarrow> FuseStatus \<Rightarrow> bool \<times> FuseStatus" where
  "match srcReg dstReg st =
     (if badStride srcReg \<or> badStride dstReg then (False, st)
      else if isCopyRegion srcReg \<and> copyValid srcReg dstReg then (True, st\<lparr>mStatus := FUSE_SRC_COPY\<rparr>)
      else matchStrides srcReg dstReg (collectDims srcReg dstReg st))"

section \<open>apply\<close>

text \<open>Sizes of the fused region, which of its loops are kept, and the split loop of size one.\<close>

definition fusedSizes :: "FuseStatus \<Rightarrow> int list" where
  "fusedSizes st =
     fold (\<lambda>i sz. sz[i + (3 - dstNum st) := dstMax st ! i - dstMin st ! i]) [0..<dstNum st] [1, 1, 1]"

definition fusedExpandIdx :: "FuseStatus \<Rightarrow> int" where
  "fusedExpandIdx st =
     (if dstNum st > sizeNum st then
        fold (\<lambda>i e. if dstSize st ! i = 1 then int i else e) (rev [0..<dstNum st]) (expandIdx st)
      else expandIdx st)"

definition fusedStrides :: "FuseStatus \<Rightarrow> int \<Rightarrow> int list \<Rightarrow> int list" where
  "fusedStrides st e values =
     fst (fold (\<lambda>i (xs, idx). if (i < dstNum st \<and> dstSize st ! i > 1) \<or> int i = e
                              then (xs[i + (3 - dstNum st) := values ! idx], idx + 1) else (xs, idx))
            [0, 1, 2] ([0, 0, 0], 0 :: nat))"

definition applyFuse :: "FuseStatus \<Rightarrow> Region \<Rightarrow> Region \<Rightarrow> Region" where
  "applyFuse st srcReg dstReg =
     (case mStatus st of
        FUSE_SRC_COPY \<Rightarrow>
          dstReg\<lparr>r_origin := r_origin srcReg,
                 r_src := (r_src dstReg)\<lparr>v_offset := soffset dstReg + (soffset srcReg - doffset srcReg)\<rparr>\<rparr>
      | FUSE_REGION_COMPUTE \<Rightarrow>
          if dstSize st ! 0 = 0 then dstReg\<lparr>r_size := (r_size dstReg)[0 := 0], r_origin := None\<rparr>
          else (let e = fusedExpandIdx st
                in mk_region (newSrcOffset st) (fusedStrides st e (newSrc st))
                     (newDstOffset st) (fusedStrides st e (dstDst st)) (fusedSizes st) (r_origin srcReg)))"

end
