(* ===== verification/Region_Digits.thy ===== *)
theory Region_Digits
  imports Region_Fuse
begin

text \<open>
  Mixed-radix arithmetic behind the fusion of regions: the digits of a position with respect to a
  descending list of strides, their uniqueness for boxes that stay inside a row of every stride, and
  the splitting of a loop at a stride.
\<close>

section \<open>Digits\<close>

fun digs :: "int \<Rightarrow> int list \<Rightarrow> int list" where
  "digs x [] = []"
| "digs x (t # ts) = x div t # digs (x mod t) ts"

fun remain :: "int \<Rightarrow> int list \<Rightarrow> int" where
  "remain x [] = x"
| "remain x (t # ts) = remain (x mod t) ts"

lemma length_digs [simp]: "length (digs x ts) = length ts"
  by (induction ts arbitrary: x) auto

lemma digs_value: "x = dot ts (digs x ts) + remain x ts"
proof (induction ts arbitrary: x)
  case (Cons t ts)
  have "x = x div t * t + x mod t" by simp
  also have "x mod t = dot ts (digs (x mod t) ts) + remain (x mod t) ts" by (rule Cons)
  finally show ?case by simp
qed simp

lemma dot_add:
  assumes "length is = length ts" "length js = length ts"
  shows "dot ts (map2 (+) is js) = dot ts is + dot ts js"
  using assms
proof (induction ts arbitrary: "is" js)
  case (Cons t ts)
  then show ?case by (cases "is"; cases js) (auto simp: algebra_simps)
qed simp

text \<open>
  A box with the strides and sizes \<open>ls\<close> that starts at \<open>x\<close> does not leave the row of any stride.
\<close>

fun fits :: "int \<Rightarrow> (int \<times> int) list \<Rightarrow> bool" where
  "fits x [] \<longleftrightarrow> True"
| "fits x ((t, n) # ls) \<longleftrightarrow> 0 < t \<and> x mod t + (\<Sum>(s, m)\<leftarrow>ls. s * (m - 1)) < t \<and> fits (x mod t) ls"

lemma dot_bounds:
  assumes "inShape (map snd ls) is" "\<forall>l \<in> set ls. 0 < fst l"
  shows "0 \<le> dot (map fst ls) is \<and> dot (map fst ls) is \<le> (\<Sum>(s, m)\<leftarrow>ls. s * (m - 1))"
  using assms
proof (induction ls arbitrary: "is")
  case (Cons l ls)
  obtain t n where l: "l = (t, n)" by (cases l)
  then obtain i js where s: "is = i # js" "0 \<le> i" "i < n" "inShape (map snd ls) js"
    using Cons.prems(1) by (auto simp: inShape_Cons)
  have "0 < t" using Cons.prems(2) l by simp
  then have "t * i \<le> t * (n - 1)" "0 \<le> t * i" using s by (auto intro: mult_left_mono)
  then show ?case using Cons.IH [OF s(4)] Cons.prems(2) by (auto simp: l s(1) algebra_simps)
qed simp

lemma fits_pos: "fits x ls \<Longrightarrow> \<forall>l \<in> set ls. 0 < fst l"
proof (induction ls arbitrary: x)
  case (Cons l ls)
  then show ?case by (cases l) fastforce
qed simp

lemma fits_step:
  assumes "fits x ((t, n) # ls)" "inShape (map snd ls) js"
  shows "(x + (i * t + dot (map fst ls) js)) div t = x div t + i"
    "(x + (i * t + dot (map fst ls) js)) mod t = x mod t + dot (map fst ls) js"
proof -
  have t: "0 < t" "x mod t + (\<Sum>(s, m)\<leftarrow>ls. s * (m - 1)) < t" "fits (x mod t) ls" using assms(1) by auto
  let ?d = "dot (map fst ls) js"
  have d: "0 \<le> ?d" "x mod t + ?d < t" using dot_bounds [OF assms(2) fits_pos [OF t(3)]] t(2) by auto
  have e: "x + (i * t + ?d) = (x div t + i) * t + (x mod t + ?d)"
    using div_mult_mod_eq [of x t] by (simp add: distrib_right)
  have "0 \<le> x mod t + ?d" using d(1) t(1) by simp
  then show "(x + (i * t + ?d)) div t = x div t + i" "(x + (i * t + ?d)) mod t = x mod t + ?d"
    unfolding e using d(2) by simp_all
qed

theorem digs_unique:
  assumes "fits a (zip ts ns)" "fits b (zip ts ms)" "inShape ns is" "inShape ms js"
    "length ns = length ts" "length ms = length ts"
  shows "a + dot ts is = b + dot ts js \<longleftrightarrow>
    remain a ts = remain b ts \<and> map2 (+) is (digs a ts) = map2 (+) js (digs b ts)"
  using assms
proof (induction ts arbitrary: a b ns ms "is" js)
  case (Cons t ts)
  then obtain n ns' m ms' where n: "ns = n # ns'" "ms = m # ms'" by (cases ns; cases ms) auto
  then obtain i is' j js' where i: "is = i # is'" "js = j # js'" "inShape ns' is'" "inShape ms' js'"
    using Cons.prems(3,4) by (auto simp: inShape_Cons)
  have len: "length ns' = length ts" "length ms' = length ts" using Cons.prems(5,6) n by auto
  have fa: "fits a ((t, n) # zip ts ns')" and fb: "fits b ((t, m) # zip ts ms')" using Cons.prems(1,2) n by auto
  have z: "map fst (zip ts ns') = ts" "map fst (zip ts ms') = ts" "map snd (zip ts ns') = ns'"
    "map snd (zip ts ms') = ms'" using len by simp_all
  note A = fits_step [OF fa, unfolded z, OF i(3), of i] and B = fits_step [OF fb, unfolded z, OF i(4), of j]
  let ?x = "a + (i * t + dot ts is')" and ?y = "b + (j * t + dot ts js')"
  have "?x = ?y \<longleftrightarrow> ?x div t = ?y div t \<and> ?x mod t = ?y mod t" by (metis div_mult_mod_eq)
  also have "\<dots> \<longleftrightarrow> a div t + i = b div t + j \<and> a mod t + dot ts is' = b mod t + dot ts js'"
    by (simp only: A B)
  also have "a mod t + dot ts is' = b mod t + dot ts js' \<longleftrightarrow>
      remain (a mod t) ts = remain (b mod t) ts \<and> map2 (+) is' (digs (a mod t) ts) = map2 (+) js' (digs (b mod t) ts)"
    using Cons.IH [OF _ _ i(3,4) len] fa fb by simp
  finally show ?case by (auto simp: i)
qed simp

section \<open>Splitting a loop\<close>

lemma div_mod_split:
  fixes x t k :: int
  assumes "0 < t" "0 < k"
  shows "x div (k * t) * k + x mod (k * t) div t = x div t" "x mod (k * t) mod t = x mod t"
proof -
  have "x = t * (k * (x div (k * t))) + x mod (k * t)"
    by (metis mult.commute mult.left_commute mult_div_mod_eq)
  then have "x div t = (t * (k * (x div (k * t))) + x mod (k * t)) div t" by simp
  also have "\<dots> = k * (x div (k * t)) + x mod (k * t) div t" using assms by simp
  finally show "x div (k * t) * k + x mod (k * t) div t = x div t" by (simp add: mult.commute)
  show "x mod (k * t) mod t = x mod t" by (simp add: mod_mod_cancel)
qed

text \<open>The sum of the digit differences with the steps of the other side: what \<open>offsetCompute\<close> returns.\<close>

fun odiff :: "(int \<times> int \<times> int) list \<Rightarrow> int \<Rightarrow> int \<Rightarrow> int" where
  "odiff [] x y = 0"
| "odiff ((t, w, n) # ls) x y = (x div t - y div t) * w + odiff ls (x mod t) (y mod t)"

lemma odiff_split:
  assumes "0 < t" "0 < k"
  shows "odiff (ls @ (k * t, k * w, m) # (t, w, k) # ls') x y = odiff (ls @ (t, w, n) # ls') x y"
proof (induction ls arbitrary: x y)
  case Nil
  have "(x div (k * t) - y div (k * t)) * (k * w) + (x mod (k * t) div t - y mod (k * t) div t) * w
      = (x div t - y div t) * w"
    by (simp flip: div_mod_split(1) [OF assms, of x] div_mod_split(1) [OF assms, of y] add: algebra_simps)
  then show ?case using div_mod_split(2) [OF assms] by simp
next
  case (Cons l ls)
  then show ?case by (cases l) simp
qed

lemma odiff_digs: "odiff ls x y = dot (map (\<lambda>l. fst (snd l)) ls) (map2 (-) (digs x (map fst ls)) (digs y (map fst ls)))"
  by (induction ls x y rule: odiff.induct) auto

section \<open>Rows\<close>

definition chain :: "int set \<Rightarrow> bool" where
  "chain T \<longleftrightarrow> (\<forall>t \<in> T. 0 < t) \<and> (\<forall>s \<in> T. \<forall>t \<in> T. s dvd t \<or> t dvd s)"

text \<open>How far the loop with stride \<open>t\<close> and size \<open>n\<close> reaches inside one row of the stride \<open>r\<close>.\<close>

definition reach :: "int \<Rightarrow> int \<times> int \<times> int \<Rightarrow> int" where
  "reach r l = (case l of (t, w, n) \<Rightarrow> if t < r then t * (min n (r div t) - 1) else 0)"

text \<open>
  \<open>grid T x ls\<close>: the loops \<open>ls\<close> (stride, other stride, size), started at \<open>x\<close>, are a box of a tensor
  whose strides include \<open>T\<close>: their strides are distinct, no loop runs into a larger stride of the box,
  and rows of the strides in \<open>T\<close> are not crossed halfway.
\<close>

definition grid :: "int set \<Rightarrow> int \<Rightarrow> (int \<times> int \<times> int) list \<Rightarrow> bool" where
  "grid T x ls \<longleftrightarrow> 0 \<le> x \<and> distinct (map fst ls) \<and> fst ` set ls \<subseteq> T \<and>
     (\<forall>l \<in> set ls. 1 \<le> snd (snd l)) \<and>
     (\<forall>l \<in> set ls. \<forall>k \<in> set ls. fst l < fst k \<longrightarrow> fst l * snd (snd l) \<le> fst k) \<and>
     (\<forall>r \<in> T. x mod r + (\<Sum>l\<leftarrow>ls. reach r l) < r)"

lemma gridD:
  assumes "grid T x ls"
  shows "0 \<le> x" "distinct (map fst ls)" "(t, w, n) \<in> set ls \<Longrightarrow> t \<in> T" "(t, w, n) \<in> set ls \<Longrightarrow> 1 \<le> n"
    "(t, w, n) \<in> set ls \<Longrightarrow> (s, v, m) \<in> set ls \<Longrightarrow> t < s \<Longrightarrow> t * n \<le> s"
    "r \<in> T \<Longrightarrow> x mod r + (\<Sum>l\<leftarrow>ls. reach r l) < r"
  using assms unfolding grid_def by force+

lemma chain_less_dvd: "chain T \<Longrightarrow> s \<in> T \<Longrightarrow> t \<in> T \<Longrightarrow> s < t \<Longrightarrow> s dvd t"
  unfolding chain_def by (meson linorder_not_less zdvd_imp_le)

lemma reach_split:
  assumes "chain T" "t \<in> T" "k * t \<in> T" "r \<in> T" "1 < k" "1 \<le> m"
  shows "reach r (k * t, w, m) + reach r (t, v, k) = reach r (t, v', k * m)"
proof (cases "t < r")
  case False
  have t: "0 < t" using assms by (auto simp: chain_def)
  then have "t \<le> k * t" using assms(5) by simp
  then show ?thesis using False by (simp add: reach_def)
next
  case True
  have t: "0 < t" "0 < r" using assms by (auto simp: chain_def)
  obtain q where q: "r = t * q" using chain_less_dvd [OF assms(1,2,4) True] by (elim dvdE)
  have q1: "1 < q" using True t by (simp add: q)
  have dt: "r div t = q" using t by (simp add: q)
  show ?thesis
  proof (cases "k * t < r")
    case lt: True
    obtain p where p: "r = k * t * p" using chain_less_dvd [OF assms(1,3,4) lt] by (elim dvdE)
    have "t * q = t * (k * p)" using p q by (simp add: algebra_simps)
    then have qp: "q = k * p" using t by simp
    have p1: "1 < p" using lt p t assms(5) by simp
    have d: "r div (k * t) = p" using t assms(5) by (simp add: p)
    have "k \<le> k * p" using p1 assms(5) by simp
    then have m1: "min k q = k" by (simp add: qp)
    have m2: "min (k * m) q = k * min m p" using assms(5) by (simp add: qp min_mult_distrib_left)
    show ?thesis using True lt by (simp add: reach_def dt d m1 m2 algebra_simps)
  next
    case ge: False
    have "r dvd k * t"
    proof (cases "r = k * t")
      case False
      then show ?thesis using ge by (intro chain_less_dvd [OF assms(1,4,3)]) auto
    qed simp
    then have "t * q dvd t * k" by (simp add: q mult.commute)
    then have "q dvd k" using t by simp
    then have qk: "q \<le> k" using assms(5) by (intro zdvd_imp_le) auto
    have "k * 1 \<le> k * m" using assms(5,6) by (intro mult_left_mono) auto
    then have "q \<le> k * m" using qk by simp
    then show ?thesis using True ge qk by (simp add: reach_def dt)
  qed
qed

lemma grid_split:
  assumes c: "chain T" and g: "grid T x (ls @ (t, w, k * m) # ls')" and k: "1 < k" "1 \<le> m"
    and T: "k * t \<in> T" and new: "k * t \<notin> fst ` set (ls @ (t, w, k * m) # ls')"
  shows "grid T x (ls @ (k * t, w', m) # (t, w'', k) # ls')"
  unfolding grid_def
proof (intro conjI)
  have t: "t \<in> T" "0 < t" using g c by (auto simp: grid_def chain_def)
  show "0 \<le> x" "distinct (map fst (ls @ (k * t, w', m) # (t, w'', k) # ls'))"
    "fst ` set (ls @ (k * t, w', m) # (t, w'', k) # ls') \<subseteq> T"
    using g T new k t by (auto simp: grid_def)
  show "\<forall>r \<in> T. x mod r + (\<Sum>l\<leftarrow>ls @ (k * t, w', m) # (t, w'', k) # ls'. reach r l) < r"
  proof
    fix r assume r: "r \<in> T"
    show "x mod r + (\<Sum>l\<leftarrow>ls @ (k * t, w', m) # (t, w'', k) # ls'. reach r l) < r"
      using g r reach_split [OF c t(1) T r k, of w' w'' w] by (auto simp: grid_def)
  qed
  let ?L = "ls @ (t, w, k * m) # ls'" and ?M = "ls @ (k * t, w', m) # (t, w'', k) # ls'"
  note D = gridD [OF g]
  have tk: "t < k * t" using t k by simp
  have old: "(s, v, n) \<in> set ?L" if "(s, v, n) \<in> set (ls @ ls')" for s v n using that by auto
  have ne: "s \<noteq> t \<and> s \<noteq> k * t" if "(s, v, n) \<in> set (ls @ ls')" for s v n
  proof -
    have "s \<in> fst ` set (ls @ ls')" using that by force
    moreover have "t \<notin> fst ` set (ls @ ls')" using D(2) by auto
    moreover have "k * t \<notin> fst ` set (ls @ ls')" using new by auto
    ultimately show ?thesis by metis
  qed
  have above: "t * (k * m) \<le> s" if "(s, v, n) \<in> set (ls @ ls')" "t < s" for s v n
    using D(5) [of t w "k * m"] old [OF that(1)] that(2) by simp
  have above1: "t * k \<le> s" if "(s, v, n) \<in> set (ls @ ls')" "t < s" for s v n
  proof -
    have "t * (k * 1) \<le> t * (k * m)" using k t by (intro mult_left_mono) auto
    then show ?thesis using above [OF that] by simp
  qed
  have below: "s * n \<le> k * t" if "(s, v, n) \<in> set (ls @ ls')" "s < k * t" for s v n
  proof (cases "s < t")
    case True
    then have "s * n \<le> t" using D(5) [OF old [OF that(1)], of t w "k * m"] by simp
    then show ?thesis using tk by simp
  next
    case False
    then have "t < s" using ne [OF that(1)] by simp
    then show ?thesis using above1 [OF that(1)] that(2) by (simp add: mult.commute)
  qed
  have mem: "l \<in> set ?M \<longleftrightarrow> l = (k * t, w', m) \<or> l = (t, w'', k) \<or> l \<in> set (ls @ ls')" for l by auto
  show "\<forall>l \<in> set ?M. 1 \<le> snd (snd l)"
  proof
    fix l assume "l \<in> set ?M"
    then show "1 \<le> snd (snd l)" unfolding mem using k D(4) old by (cases l) auto
  qed
  show "\<forall>l \<in> set ?M. \<forall>j \<in> set ?M. fst l < fst j \<longrightarrow> fst l * snd (snd l) \<le> fst j"
  proof (intro ballI impI)
    fix l j assume l: "l \<in> set ?M" and j: "j \<in> set ?M" and lt: "fst l < fst j"
    obtain s v n where L: "l = (s, v, n)" by (cases l)
    obtain s' v' n' where J: "j = (s', v', n')" by (cases j)
    have lt: "s < s'" using lt L J by simp
    have "s * n \<le> s'" using l [unfolded mem] 
    proof (elim disjE)
      assume a: "l = (k * t, w', m)"
      then have "j \<in> set (ls @ ls')" using j [unfolded mem] lt tk L J by auto
      then have "t * (k * m) \<le> s'" using above J a L lt tk by auto
      then show ?thesis using a L by (simp add: algebra_simps)
    next
      assume a: "l = (t, w'', k)"
      then show ?thesis using j [unfolded mem] above1 J L lt by (auto simp: mult.commute)
    next
      assume a: "l \<in> set (ls @ ls')"
      show ?thesis using j [unfolded mem]
      proof (elim disjE)
        assume "j = (k * t, w', m)"
        then show ?thesis using below a L J lt by auto
      next
        assume "j = (t, w'', k)"
        then show ?thesis using D(5) [OF old, of s v n t w "k * m"] a L J lt by simp
      next
        assume "j \<in> set (ls @ ls')"
        then show ?thesis using D(5) [OF old old, of s v n s' v' n'] a L J lt by simp
      qed
    qed
    then show "fst l * snd (snd l) \<le> fst j" by (simp add: L J)
  qed
qed

text \<open>A box of the grid, its loops in descending order, fits into the rows.\<close>

lemma reach_own:
  assumes "grid T x ls" "(t, w, n) \<in> set ls" "(r, v, m) \<in> set ls" "t < r" "chain T"
  shows "reach r (t, w, n) = t * (n - 1)"
proof -
  note D = gridD [OF assms(1)]
  have t: "0 < t" "t * n \<le> r" using D(3) [OF assms(2)] assms(5) D(5) [OF assms(2-4)] by (auto simp: chain_def)
  obtain q where q: "r = t * q"
    using chain_less_dvd [OF assms(5) D(3) [OF assms(2)] D(3) [OF assms(3)] assms(4)] by (elim dvdE)
  have "n \<le> q" using t by (simp add: q)
  then show ?thesis using t assms(4) by (simp add: reach_def q)
qed

lemma fits_suffix:
  assumes c: "chain T" and g: "grid T x (ks @ ls)" and srt: "sorted_wrt (>) (map fst (ks @ ls))"
  shows "fits (remain x (map fst ks)) (map (\<lambda>l. (fst l, snd (snd l))) ls)"
  using g srt
proof (induction ls arbitrary: ks)
  case (Cons l ls)
  obtain t w n where l: "l = (t, w, n)" by (cases l)
  have pos: "0 < s" if "s \<in> T" for s using c that by (auto simp: chain_def)
  have T: "fst ` set (ks @ l # ls) \<subseteq> T" using Cons.prems(1) by (simp add: grid_def)
  have t: "t \<in> T" "0 < t" using T pos by (auto simp: l)
  have md: "remain x (map fst ks) mod t = x mod t"
  proof -
    have "\<forall>s \<in> set (map fst ks). t dvd s"
      using Cons.prems(2) T chain_less_dvd [OF c t(1)] by (fastforce simp: l sorted_wrt_append)
    then show ?thesis
    proof (induction "map fst ks" arbitrary: ks x)
      case (Cons s ss)
      then obtain k ks' where ks: "ks = k # ks'" "fst k = s" "map fst ks' = ss" by (cases ks) auto
      show ?case using Cons.hyps(1) [of ks' "x mod s"] Cons.prems ks by (simp add: mod_mod_cancel)
    qed simp
  qed
  have "(\<Sum>(s, m)\<leftarrow>map (\<lambda>l. (fst l, snd (snd l))) ls. s * (m - 1)) = (\<Sum>l\<leftarrow>ls. reach t l)"
  proof -
    have "reach t (s, v, m) = s * (m - 1)" if "(s, v, m) \<in> set ls" for s v m
    proof (rule reach_own [OF Cons.prems(1) _ _ _ c])
      show "s < t" using Cons.prems(2) that by (force simp: l sorted_wrt_append)
      show "(s, v, m) \<in> set (ks @ l # ls)" "(t, w, n) \<in> set (ks @ l # ls)" using that by (auto simp: l)
    qed
    then show ?thesis by (auto simp: comp_def split_def intro!: arg_cong [where f = sum_list] map_cong)
  qed
  moreover have "(\<Sum>l\<leftarrow>ls. reach t l) \<le> (\<Sum>k\<leftarrow>ks @ l # ls. reach t k)"
  proof -
    have nn: "0 \<le> reach t k" if "k \<in> set (ks @ l # ls)" for k
    proof -
      obtain s v m where k: "k = (s, v, m)" by (cases k)
      have "1 \<le> m" "0 < s" using gridD(3,4) [OF Cons.prems(1), of s v m] that k pos by auto
      moreover have "1 \<le> t div s" if "s < t" using that \<open>0 < s\<close> by (simp add: pos_imp_zdiv_pos_iff int_one_le_iff_zero_less)
      ultimately show ?thesis by (auto simp: reach_def k)
    qed
    have "0 \<le> (\<Sum>k\<leftarrow>ks. reach t k)" using nn by (intro sum_list_nonneg) auto
    then show ?thesis using nn [of l] by simp
  qed
  moreover have "x mod t + (\<Sum>k\<leftarrow>ks @ l # ls. reach t k) < t" by (rule gridD(6) [OF Cons.prems(1) t(1)])
  ultimately have "x mod t + (\<Sum>(s, m)\<leftarrow>map (\<lambda>l. (fst l, snd (snd l))) ls. s * (m - 1)) < t" by linarith
  moreover have "remain x (map fst (ks @ [l])) = remain x (map fst ks) mod t"
    by (induction ks arbitrary: x) (auto simp: l)
  then have "fits (remain x (map fst ks) mod t) (map (\<lambda>l. (fst l, snd (snd l))) ls)"
    using Cons.IH [of "ks @ [l]"] Cons.prems by simp
  ultimately show ?case using t md by (simp add: l)
qed simp

lemma grid_fits:
  assumes "chain T" "grid T x ls" "sorted_wrt (>) (map fst ls)"
  shows "fits x (map (\<lambda>l. (fst l, snd (snd l))) ls)"
  using fits_suffix [of T x "[]" ls] assms by simp

end
