(* ===== verification/Region_Fuse_Correct.thy ===== *)
theory Region_Fuse_Correct
  imports Region_Digits
begin

text \<open>
  Fusing regions is composing them: the arrays of \<^verbatim>\<open>FuseRegionStatus\<close> as lists of loops, what each step
  of \<^verbatim>\<open>match\<close> and \<^verbatim>\<open>apply\<close> does to them, and the properties.
\<close>

section \<open>Arrays as lists of loops\<close>

definition tri :: "int list \<Rightarrow> int list \<Rightarrow> int list \<Rightarrow> nat \<Rightarrow> (int \<times> int \<times> int) list" where
  "tri a b c n = map (\<lambda>i. (a ! i, b ! i, c ! i)) [0..<n]"

text \<open>The loops of the producer and of the consumer: stride in the middle tensor, other stride, size.\<close>

definition outLoops :: "Region \<Rightarrow> (int \<times> int \<times> int) list" where
  "outLoops s = map (\<lambda>i. (dstride s i, sstride s i, rsize s i)) (filter (\<lambda>i. rsize s i > 1) [0, 1, 2])"

definition inLoops :: "Region \<Rightarrow> (int \<times> int \<times> int) list" where
  "inLoops d = map (\<lambda>i. (sstride d i, dstride d i, rsize d i)) (filter (\<lambda>i. rsize d i > 1) [0, 1, 2])"

abbreviation srcTri :: "FuseStatus \<Rightarrow> (int \<times> int \<times> int) list" where
  "srcTri st \<equiv> tri (srcDst st) (srcSrc st) (srcSize st) (srcNum st)"

abbreviation dstTri :: "FuseStatus \<Rightarrow> (int \<times> int \<times> int) list" where
  "dstTri st \<equiv> tri (dstSrc st) (dstDst st) (dstSize st) (dstNum st)"

lemma tri_simps [simp]:
  "length (tri a b c n) = n"
  "i < n \<Longrightarrow> tri a b c n ! i = (a ! i, b ! i, c ! i)"
  by (simp_all add: tri_def)

lemma tri_Suc: "tri a b c (Suc n) = tri a b c n @ [(a ! n, b ! n, c ! n)]"
  by (simp add: tri_def)

lemma tri_upd: "n \<le> i \<Longrightarrow> tri (a[i := x]) (b[i := y]) (c[i := z]) n = tri a b c n"
  by (simp add: tri_def)

text \<open>The loops that \<open>collectDims\<close> has seen after some steps.\<close>

definition collected :: "Region \<Rightarrow> Region \<Rightarrow> nat list \<Rightarrow> FuseStatus \<Rightarrow> bool" where
  "collected s d is st \<longleftrightarrow> wf_status st \<and> expandIdx st = -1 \<and>
     srcTri st = map (\<lambda>i. (dstride s i, sstride s i, rsize s i)) (filter (\<lambda>i. rsize s i > 1) is) \<and>
     dstTri st = map (\<lambda>i. (sstride d i, dstride d i, rsize d i)) (filter (\<lambda>i. rsize d i > 1) is) \<and>
     (\<forall>k < 3. srcStride st ! k = (if k < srcNum st then srcDst st ! k else -1)) \<and>
     (\<forall>k < 3. dstStride st ! k = (if k < dstNum st then dstSrc st ! k else -1))"

lemma collected_nums:
  assumes "collected s d is st"
  shows "srcNum st = length (filter (\<lambda>i. rsize s i > 1) is)" "dstNum st = length (filter (\<lambda>i. rsize d i > 1) is)"
proof -
  from assms have "length (srcTri st) = length (filter (\<lambda>i. rsize s i > 1) is)"
    "length (dstTri st) = length (filter (\<lambda>i. rsize d i > 1) is)"
    by (simp_all only: collected_def length_map)
  then show "srcNum st = length (filter (\<lambda>i. rsize s i > 1) is)" "dstNum st = length (filter (\<lambda>i. rsize d i > 1) is)"
    by simp_all
qed

lemma collected_step:
  assumes "collected s d is st" "length is < 3"
  shows "collected s d (is @ [i]) (collectDim s d i st)"
proof -
  have n: "srcNum st < 3" "dstNum st < 3"
    using collected_nums [OF assms(1)] assms(2) by (auto intro: le_less_trans [OF length_filter_le])
  have w: "wf_status st" "expandIdx st = -1" and
    l: "srcTri st = map (\<lambda>i. (dstride s i, sstride s i, rsize s i)) (filter (\<lambda>i. rsize s i > 1) is)"
      "dstTri st = map (\<lambda>i. (sstride d i, dstride d i, rsize d i)) (filter (\<lambda>i. rsize d i > 1) is)" and
    k: "\<And>k. k < 3 \<Longrightarrow> srcStride st ! k = (if k < srcNum st then srcDst st ! k else -1)"
      "\<And>k. k < 3 \<Longrightarrow> dstStride st ! k = (if k < dstNum st then dstSrc st ! k else -1)"
    using assms(1) by (simp_all add: collected_def)
  have len: "length (srcDst st) = 3" "length (srcSrc st) = 3" "length (dstSrc st) = 3" "length (dstDst st) = 3"
    "length (srcSize st) = 3" "length (dstSize st) = 3" "length (dstStride st) = 3" "length (srcStride st) = 3"
    using w by (simp_all add: wf_status_def)
  show ?thesis unfolding collected_def
  proof (intro conjI)
    show "wf_status (collectDim s d i st)" "expandIdx (collectDim s d i st) = -1"
      using w by (simp_all add: wf_status_def collectDim_def)
    show "srcTri (collectDim s d i st) =
        map (\<lambda>i. (dstride s i, sstride s i, rsize s i)) (filter (\<lambda>i. rsize s i > 1) (is @ [i]))"
      using l n len by (simp add: collectDim_def tri_Suc tri_upd)
    show "dstTri (collectDim s d i st) =
        map (\<lambda>i. (sstride d i, dstride d i, rsize d i)) (filter (\<lambda>i. rsize d i > 1) (is @ [i]))"
      using l n len by (simp add: collectDim_def tri_Suc tri_upd)
    show "\<forall>k < 3. srcStride (collectDim s d i st) ! k =
        (if k < srcNum (collectDim s d i st) then srcDst (collectDim s d i st) ! k else -1)"
      using k(1) n len by (auto simp: collectDim_def nth_list_update Let_def)
    show "\<forall>k < 3. dstStride (collectDim s d i st) ! k =
        (if k < dstNum (collectDim s d i st) then dstSrc (collectDim s d i st) ! k else -1)"
      using k(2) n len by (auto simp: collectDim_def nth_list_update Let_def)
  qed
qed

lemma collectDims_spec:
  assumes "wf_status st" and st': "st' = collectDims s d st"
  shows "wf_status st'" "expandIdx st' = -1" "srcTri st' = outLoops s" "dstTri st' = inLoops d"
    "sizeNum st' = dstNum st'" "srcNum st' \<le> 3" "dstNum st' \<le> 3"
    "\<forall>k < 3. srcStride st' ! k = (if k < srcNum st' then srcDst st' ! k else -1)"
    "\<forall>k < 3. dstStride st' ! k = (if k < dstNum st' then dstSrc st' ! k else -1)"
proof -
  let ?i = "st\<lparr>dstStride := [-1, -1, -1], srcStride := [-1, -1, -1], expandIdx := -1,
            srcNum := 0, dstNum := 0, sizeNum := 0\<rparr>"
  have 0: "collected s d [] ?i"
    using assms(1) by (auto simp: collected_def wf_status_def tri_def less_Suc_eq numeral_3_eq_3)
  have 3: "collected s d [0, 1, 2] (fold (collectDim s d) [0, 1, 2] ?i)"
    using collected_step [OF collected_step [OF collected_step [OF 0, of 0], of 1], of 2] by simp
  have e: "st' = (fold (collectDim s d) [0, 1, 2] ?i)\<lparr>sizeNum := dstNum (fold (collectDim s d) [0, 1, 2] ?i)\<rparr>"
    by (simp add: st' collectDims_def Let_def)
  have n: "length (filter P [0 :: nat, 1, 2]) \<le> 3" for P using length_filter_le [of P "[0, 1, 2]"] by simp
  show "wf_status st'" "expandIdx st' = -1" "srcTri st' = outLoops s" "dstTri st' = inLoops d"
    "sizeNum st' = dstNum st'" "srcNum st' \<le> 3" "dstNum st' \<le> 3"
    "\<forall>k < 3. srcStride st' ! k = (if k < srcNum st' then srcDst st' ! k else -1)"
    "\<forall>k < 3. dstStride st' ! k = (if k < dstNum st' then dstSrc st' ! k else -1)"
    using 3 collected_nums [OF 3] n unfolding e collected_def wf_status_def outLoops_def inLoops_def by simp_all
qed

section \<open>Strides missing on one side\<close>

lemma extra_fold:
  assumes "fold_opt (\<lambda>r i. if f i \<notin> Y then (if r > 0 then None else Some (f i)) else Some r) r is = Some (e :: int)"
  shows "if r > 0 then e = r \<and> (\<forall>i \<in> set is. f i \<in> Y)
         else if e > 0 then e \<notin> Y \<and> (\<exists>i \<in> set is. f i = e) \<and> (\<forall>i \<in> set is. f i \<in> Y \<or> f i = e \<or> f i \<le> 0)
              \<or> e = r
         else (\<forall>i \<in> set is. f i \<in> Y \<or> f i \<le> 0)"
  using assms(1)
proof (induction "is" arbitrary: r)
  case (Cons i "is")
  show ?case
  proof (cases "f i \<in> Y")
    case True
    then show ?thesis using Cons.IH [of r] Cons.prems by auto
  next
    case False
    then have "\<not> r > 0" using Cons.prems by (auto split: if_splits)
    then show ?thesis using False Cons.IH [of "f i"] Cons.prems by (auto split: if_splits)
  qed
qed simp

lemma extraStride_spec:
  assumes x: "\<forall>k < 3. x ! k = (if k < n then a ! k else -1)" and y: "\<forall>k < 3. y ! k = (if k < m then b ! k else -1)"
    and pos: "\<forall>k < n. 0 < a ! k" "\<forall>k < m. 0 < b ! k" and n: "n \<le> 3" "m \<le> 3"
    and r: "extraStride x y = Some e"
  shows "if e > 0 then ((!) a) ` {..<n} - ((!) b) ` {..<m} = {e} else ((!) a) ` {..<n} \<subseteq> ((!) b) ` {..<m}"
proof -
  let ?Y = "{y ! 0, y ! 1, y ! 2}"
  have m3: "k < 3 \<Longrightarrow> k = 0 \<or> k = 1 \<or> k = 2" for k :: nat by auto
  have Y: "v \<in> ?Y \<longleftrightarrow> v \<in> ((!) b) ` {..<m}" if "0 < v" for v
  proof
    assume "v \<in> ?Y"
    then have "\<exists>k < 3. v = y ! k" by (auto intro: exI [of _ 0] exI [of _ 1] exI [of _ 2])
    then show "v \<in> ((!) b) ` {..<m}" using y that by (auto split: if_splits)
  next
    assume "v \<in> ((!) b) ` {..<m}"
    then obtain k where "k < m" "v = b ! k" by auto
    moreover from this have "k < 3" using n by simp
    ultimately show "v \<in> ?Y" using y m3 [of k] by auto
  qed
  have X: "k < n \<Longrightarrow> \<exists>i \<in> {0, 1, 2}. x ! i = a ! k" for k using x n m3 [of k] by fastforce
  have X': "x ! i = e \<Longrightarrow> i \<in> {0, 1, 2} \<Longrightarrow> 0 < e \<Longrightarrow> e \<in> ((!) a) ` {..<n}" for i
    using x by (cases "i < n") fastforce+
  have "fold_opt (\<lambda>r i. if x ! i \<notin> ?Y then (if r > 0 then None else Some (x ! i)) else Some r) (-1) [0, 1, 2] = Some e"
    using r by (simp only: extraStride_def insert_iff empty_iff de_Morgan_disj not_False_eq_True simp_thms)
  note F = extra_fold [OF this]
  show ?thesis
  proof (cases "e > 0")
    case True
    then have F: "e \<notin> ?Y" "\<exists>i \<in> {0, 1, 2}. x ! i = e" "\<forall>i \<in> {0, 1, 2}. x ! i \<in> ?Y \<or> x ! i = e \<or> x ! i \<le> 0"
      using F by simp_all
    have "e \<in> ((!) a) ` {..<n}" using F(2) X' True by blast
    moreover have "e \<notin> ((!) b) ` {..<m}" using F(1) Y [OF True] by blast
    moreover have "a ! k \<in> ((!) b) ` {..<m} \<or> a ! k = e" if "k < n" for k
    proof -
      have "a ! k \<in> ?Y \<or> a ! k = e \<or> a ! k \<le> 0" using X [OF that] F(3) by metis
      moreover have "0 < a ! k" using pos that by simp
      ultimately show ?thesis using Y [of "a ! k"] by auto
    qed
    ultimately show ?thesis using True by auto
  next
    case False
    then have F: "\<forall>i \<in> {0, 1, 2}. x ! i \<in> ?Y \<or> x ! i \<le> 0" using F by simp
    have "a ! k \<in> ((!) b) ` {..<m}" if "k < n" for k
    proof -
      have "a ! k \<in> ?Y \<or> a ! k \<le> 0" using X [OF that] F by metis
      moreover have "0 < a ! k" using pos that by simp
      ultimately show ?thesis using Y [of "a ! k"] by auto
    qed
    then show ?thesis using False by auto
  qed
qed

section \<open>Splitting a loop of the arrays\<close>

lemma tri_int3_insert:
  assumes "i < n" "n \<le> 2" "length a = 3" "length b = 3" "length c = 3"
  shows "tri (int3_insert a i x) (int3_insert b i y) (int3_insert (c[i := z]) (i + 1) w) (n + 1) =
    take i (tri a b c n) @ [(x, y, z), (a ! i, b ! i, w)] @ drop (i + 1) (tri a b c n)"
proof -
  obtain a0 a1 a2 b0 b1 b2 c0 c1 c2 where "a = [a0, a1, a2]" "b = [b0, b1, b2]" "c = [c0, c1, c2]"
    using assms(3-5) by (auto simp: length_Suc_conv eval_nat_numeral)
  moreover have "(i = 0 \<and> n = 1) \<or> (i = 0 \<and> n = 2) \<or> (i = 1 \<and> n = 2)" using assms(1,2) by auto
  ultimately show ?thesis
    by (elim disjE) (simp_all add: tri_def int3_insert_def upt_rec numeral_2_eq_2 eval_nat_numeral)
qed

lemma expandFrom_spec:
  assumes "expandFrom j a b c n ev = (True, a', b', c', n')" "j \<le> n" "n \<le> 3"
    "length a = 3" "length b = 3" "length c = 3" "\<forall>i < n. 0 < a ! i \<and> 0 < c ! i" "0 < ev"
    "\<forall>i < n. a ! i \<noteq> ev"
  shows "\<exists>i k m. i < n \<and> 1 < k \<and> 1 \<le> m \<and> ev = k * a ! i \<and> c ! i = k * m \<and> n' = n + 1 \<and> n' \<le> 3 \<and>
    length a' = 3 \<and> length b' = 3 \<and> length c' = 3 \<and>
    tri a' b' c' n' = take i (tri a b c n) @ [(ev, k * b ! i, m), (a ! i, b ! i, k)] @ drop (i + 1) (tri a b c n)"
  using assms
proof (induction j)
  case (Suc j)
  have j: "j < n" "0 < a ! j" "0 < c ! j" "a ! j \<noteq> ev" using Suc.prems by auto
  let ?k = "ev sdiv a ! j"
  show ?case
  proof (cases "ev smod a ! j \<noteq> 0 \<or> c ! j smod ?k \<noteq> 0")
    case True
    then have "expandFrom j a b c n ev = (True, a', b', c', n')" using Suc.prems(1) by (auto simp: Let_def)
    then show ?thesis using Suc.IH Suc.prems(2-) by simp
  next
    case False
    then have r: "(if j + 1 > 2 then (False, int3_insert a j ev, int3_insert b j (?k * b ! j), c[j := c ! j sdiv ?k], n)
        else (n + 1 \<le> 3, int3_insert a j ev, int3_insert b j (?k * b ! j),
              int3_insert (c[j := c ! j sdiv ?k]) (j + 1) ?k, n + 1)) = (True, a', b', c', n')"
      using Suc.prems(1) by (simp add: Let_def)
    then have n: "n \<le> 2" "n' = n + 1" by (auto split: if_splits)
    have ev: "ev = ?k * a ! j" and k0: "0 \<le> ?k"
      using False j Suc.prems(8) by (auto simp: sdiv_nonneg smod_nonneg pos_imp_zdiv_nonneg_iff)
    have k1: "1 < ?k"
    proof (rule ccontr)
      assume "\<not> 1 < ?k"
      then have "?k = 0 \<or> ?k = 1" using k0 by auto
      then show False using ev Suc.prems(8) j(4) by auto
    qed
    have c: "c ! j = ?k * (c ! j sdiv ?k)" using False j k1 by (auto simp: sdiv_nonneg smod_nonneg)
    have m: "1 \<le> c ! j sdiv ?k"
    proof (rule ccontr)
      assume "\<not> 1 \<le> c ! j sdiv ?k"
      then have "?k * (c ! j sdiv ?k) \<le> 0" using k1 by (simp add: mult_nonneg_nonpos)
      then show False using c j(3) by simp
    qed
    have arr: "a' = int3_insert a j ev" "b' = int3_insert b j (?k * b ! j)"
      "c' = int3_insert (c[j := c ! j sdiv ?k]) (j + 1) ?k" using r by (auto split: if_splits)
    then have "length a' = 3" "length b' = 3" "length c' = 3" using Suc.prems(4-6) j n by (simp_all add: int3_insert_def)
    moreover have "tri a' b' c' n' = take j (tri a b c n) @ [(ev, ?k * b ! j, c ! j sdiv ?k), (a ! j, b ! j, ?k)] @
        drop (j + 1) (tri a b c n)"
      unfolding arr n(2) using tri_int3_insert [OF j(1) n(1) Suc.prems(4-6)] by simp
    ultimately show ?thesis using j n ev k1 c m by (intro exI [of _ j] exI [of _ ?k] exI [of _ "c ! j sdiv ?k"]) simp
  qed
qed simp

section \<open>Aligning\<close>

lemma alignOne_spec:
  assumes "alignOne i st = Some st'"
  shows "\<exists>l < dstNum st. dstSrc st ! l = srcDst st ! i \<and>
    st' = st\<lparr>newSrc := (newSrc st)[l := srcSrc st ! i], newSrcSize := (newSrcSize st)[l := srcSize st ! i]\<rparr>"
proof -
  obtain l ls where l: "filter (\<lambda>j. dstSrc st ! j = srcDst st ! i) [0..<dstNum st] = l # ls"
    "st' = st\<lparr>newSrc := (newSrc st)[l := srcSrc st ! i], newSrcSize := (newSrcSize st)[l := srcSize st ! i]\<rparr>"
    using assms by (auto simp: alignOne_def split: list.splits)
  then have "l \<in> set (filter (\<lambda>j. dstSrc st ! j = srcDst st ! i) [0..<dstNum st])" by simp
  then show ?thesis using l(2) by auto
qed

lemma alignDims_spec:
  assumes "alignDims is st = (True, st')" "distinct (map ((!) (srcDst st)) is)" "dstNum st \<le> 3"
    "length (newSrc st) = 3" "length (newSrcSize st) = 3"
  shows "st' = st\<lparr>newSrc := newSrc st', newSrcSize := newSrcSize st'\<rparr> \<and> length (newSrc st') = 3 \<and>
    length (newSrcSize st') = 3 \<and>
    (\<forall>i \<in> set is. \<exists>l < dstNum st. dstSrc st ! l = srcDst st ! i \<and> newSrc st' ! l = srcSrc st ! i \<and>
       newSrcSize st' ! l = srcSize st ! i) \<and>
    (\<forall>l < 3. dstSrc st ! l \<notin> ((!) (srcDst st)) ` set is \<longrightarrow>
       newSrc st' ! l = newSrc st ! l \<and> newSrcSize st' ! l = newSrcSize st ! l)"
  using assms
proof (induction "is" arbitrary: st)
  case (Cons i "is")
  from Cons.prems(1) obtain u where u: "alignOne i st = Some u" "alignDims is u = (True, st')"
    by (auto split: option.splits)
  obtain l where l: "l < dstNum st" "dstSrc st ! l = srcDst st ! i"
    "u = st\<lparr>newSrc := (newSrc st)[l := srcSrc st ! i], newSrcSize := (newSrcSize st)[l := srcSize st ! i]\<rparr>"
    using alignOne_spec [OF u(1)] by blast
  have IH: "st' = u\<lparr>newSrc := newSrc st', newSrcSize := newSrcSize st'\<rparr>" "length (newSrc st') = 3"
    "length (newSrcSize st') = 3"
    "\<forall>i \<in> set is. \<exists>l < dstNum st. dstSrc st ! l = srcDst st ! i \<and> newSrc st' ! l = srcSrc st ! i \<and>
       newSrcSize st' ! l = srcSize st ! i"
    "\<forall>l < 3. dstSrc st ! l \<notin> ((!) (srcDst st)) ` set is \<longrightarrow>
       newSrc st' ! l = newSrc u ! l \<and> newSrcSize st' ! l = newSrcSize u ! l"
    using Cons.IH [OF u(2)] Cons.prems l(3) by simp_all
  have "srcDst st ! i \<notin> ((!) (srcDst st)) ` set is" using Cons.prems(2) by simp
  then have "newSrc st' ! l = srcSrc st ! i" "newSrcSize st' ! l = srcSize st ! i"
    using IH(5) l Cons.prems(3-5) by simp_all
  moreover have "st' = st\<lparr>newSrc := newSrc st', newSrcSize := newSrcSize st'\<rparr>" using IH(1) l(3) by simp
  moreover have "newSrc st' ! k = newSrc st ! k \<and> newSrcSize st' ! k = newSrcSize st ! k"
    if "k < 3" "dstSrc st ! k \<notin> ((!) (srcDst st)) ` set (i # is)" for k
    using IH(5) that l by (cases "k = l") auto
  ultimately show ?case using IH(2-4) l(1,2) by auto
qed simp

lemma distinct_nth_tri: "distinct (map fst (tri a b c n)) \<longleftrightarrow> distinct (map ((!) a) [0..<n])"
  by (simp add: tri_def comp_def)

lemma fst_set_tri: "fst ` set (tri a b c n) = ((!) a) ` {..<n}"
  by (simp add: tri_def image_image lessThan_atLeast0)

text \<open>After aligning, the producer's loops are listed in the order of the consumer's.\<close>

lemma alignDims_mset:
  assumes "alignDims [0..<srcNum st] st = (True, st')" "dstNum st \<le> 3"
    "length (newSrc st) = 3" "length (newSrcSize st) = 3"
    "distinct (map fst (srcTri st))" "distinct (map fst (dstTri st))"
    "fst ` set (srcTri st) = fst ` set (dstTri st)"
  shows "st' = st\<lparr>newSrc := newSrc st', newSrcSize := newSrcSize st'\<rparr>" "length (newSrc st') = 3"
    "length (newSrcSize st') = 3" "srcNum st = dstNum st"
    "mset (tri (dstSrc st) (newSrc st') (newSrcSize st') (dstNum st)) = mset (srcTri st)"
proof -
  have d: "distinct (map ((!) (srcDst st)) [0..<srcNum st])" "distinct (map ((!) (dstSrc st)) [0..<dstNum st])"
    using assms(5,6) by (simp_all add: distinct_nth_tri)
  note A = alignDims_spec [OF assms(1) d(1) assms(2-4)]
  then show "st' = st\<lparr>newSrc := newSrc st', newSrcSize := newSrcSize st'\<rparr>" "length (newSrc st') = 3"
    "length (newSrcSize st') = 3" by blast+
  let ?T = "tri (dstSrc st) (newSrc st') (newSrcSize st') (dstNum st)"
  have n: "length (srcTri st) = length (dstTri st)"
    using distinct_card [OF assms(5)] distinct_card [OF assms(6)] assms(7) by simp
  then show num: "srcNum st = dstNum st" by simp
  have "set (srcTri st) \<subseteq> set ?T"
  proof
    fix p assume "p \<in> set (srcTri st)"
    then obtain i where i: "i < srcNum st" "p = (srcDst st ! i, srcSrc st ! i, srcSize st ! i)" by (auto simp: tri_def)
    then obtain l where "l < dstNum st" "dstSrc st ! l = srcDst st ! i" "newSrc st' ! l = srcSrc st ! i"
      "newSrcSize st' ! l = srcSize st ! i" using A by (metis atLeastLessThan_iff set_upt zero_le)
    then have "p = ?T ! l" "l < length ?T" using i by simp_all
    then show "p \<in> set ?T" by (metis nth_mem)
  qed
  moreover have "distinct (map fst ?T)" using d(2) by (simp add: distinct_nth_tri)
  then have dT: "distinct ?T" "distinct (srcTri st)" using assms(5) unfolding distinct_map by blast+
  moreover have "card (set (srcTri st)) = card (set ?T)"
    using dT num by (simp add: distinct_card)
  ultimately have "set (srcTri st) = set ?T" by (intro card_subset_eq) auto
  then show "mset ?T = mset (srcTri st)" using dT by (simp add: set_eq_iff_mset_eq_distinct)
qed

section \<open>Clipping\<close>

lemma validIndex_spec:
  assumes "n = 1 \<or> n = 2 \<or> n = 3" "distinct (map ((!) T) [0..<n])"
  shows "set (take n (validIndex T n)) = {..<n}" "distinct (take n (validIndex T n))"
    "sorted_wrt (>) (map ((!) T) (take n (validIndex T n)))"
proof -
  have i: "{..<1 :: nat} = {0}" "{..<2 :: nat} = {0, 1}" "{..<3 :: nat} = {0, 1, 2}" by auto
  have u: "[0..<1] = [0]" "[0..<2] = [0, 1]" "[0..<3] = [0, 1, 2]" "[Suc 0..<3] = [1, 2]"
    by (simp_all add: upt_rec)
  have "set (take n (validIndex T n)) = {..<n} \<and> distinct (take n (validIndex T n)) \<and>
    sorted_wrt (>) (map ((!) T) (take n (validIndex T n)))"
    using assms
    by (elim disjE) (auto simp: validIndex_def i u Let_def)
  then show "set (take n (validIndex T n)) = {..<n}" "distinct (take n (validIndex T n))"
    "sorted_wrt (>) (map ((!) T) (take n (validIndex T n)))" by blast+
qed

lemma clipOffsets_fold:
  assumes "distinct vs" "\<forall>v \<in> set vs. v < length os \<and> 0 < T ! v" "0 \<le> a" "0 \<le> b"
  shows "\<exists>os'. fold (\<lambda>v (so, do, os). (so smod T ! v, do smod T ! v, os[v := do sdiv T ! v - so sdiv T ! v]))
      vs (a, b, os) = (remain a (map ((!) T) vs), remain b (map ((!) T) vs), os') \<and> length os' = length os \<and>
    map ((!) os') vs = map2 (-) (digs b (map ((!) T) vs)) (digs a (map ((!) T) vs)) \<and>
    (\<forall>l. l \<notin> set vs \<longrightarrow> os' ! l = os ! l)"
  using assms
proof (induction vs arbitrary: a b os)
  case (Cons v vs)
  let ?os = "os[v := b div T ! v - a div T ! v]"
  have d: "distinct vs" "\<forall>w \<in> set vs. w < length ?os \<and> 0 < T ! w" "0 \<le> a mod T ! v" "0 \<le> b mod T ! v"
    using Cons.prems by simp_all
  obtain os' where os': "fold (\<lambda>v (so, do, os). (so smod T ! v, do smod T ! v, os[v := do sdiv T ! v - so sdiv T ! v]))
      vs (a mod T ! v, b mod T ! v, ?os) =
      (remain (a mod T ! v) (map ((!) T) vs), remain (b mod T ! v) (map ((!) T) vs), os')" "length os' = length ?os"
    "map ((!) os') vs = map2 (-) (digs (b mod T ! v) (map ((!) T) vs)) (digs (a mod T ! v) (map ((!) T) vs))"
    "\<forall>l. l \<notin> set vs \<longrightarrow> os' ! l = ?os ! l" using Cons.IH [OF d] by blast
  have v: "v \<notin> set vs" "v < length os" "0 < T ! v" using Cons.prems by simp_all
  have "os' ! v = b div T ! v - a div T ! v" using os'(4) v by simp
  moreover have "os' ! l = os ! l" if "l \<notin> set (v # vs)" for l using os'(4) that by simp
  ultimately show ?case using os' v Cons.prems(3,4) by (intro exI [of _ os']) (simp add: sdiv_nonneg smod_nonneg)
qed simp

lemma clipOffsets_spec:
  assumes n: "n = 1 \<or> n = 2 \<or> n = 3" "distinct (map ((!) T) [0..<n])" "\<forall>i < n. 0 < T ! i" "0 \<le> a" "0 \<le> b"
    and r: "clipOffsets T a b n = (x, y, os)"
  defines "\<sigma> \<equiv> take n (validIndex T n)"
  shows "x = remain a (map ((!) T) \<sigma>)" "y = remain b (map ((!) T) \<sigma>)"
    "map ((!) os) \<sigma> = map2 (-) (digs b (map ((!) T) \<sigma>)) (digs a (map ((!) T) \<sigma>))" "length os = 3"
proof -
  note V = validIndex_spec [OF n(1,2), folded \<sigma>_def]
  have "length \<sigma> = n" using distinct_card [OF V(2)] V(1) by simp
  then have s: "map ((!) (validIndex T n)) [0..<n] = \<sigma>"
    unfolding \<sigma>_def by (intro nth_equalityI) auto
  have "clipOffsets T a b n = fold (\<lambda>v (so, do, os). (so smod T ! v, do smod T ! v, os[v := do sdiv T ! v - so sdiv T ! v]))
      (map ((!) (validIndex T n)) [0..<n]) (a, b, [0, 0, 0])"
    unfolding clipOffsets_def by (simp add: fold_map comp_def Let_def split_def)
  then have c: "fold (\<lambda>v (so, do, os). (so smod T ! v, do smod T ! v, os[v := do sdiv T ! v - so sdiv T ! v]))
      \<sigma> (a, b, [0, 0, 0]) = (x, y, os)" using r s by simp
  have "\<forall>v \<in> set \<sigma>. v < length [0 :: int, 0, 0] \<and> 0 < T ! v" using V(1) n by auto
  from clipOffsets_fold [OF V(2) this n(4,5)] c
  show "x = remain a (map ((!) T) \<sigma>)" "y = remain b (map ((!) T) \<sigma>)"
    "map ((!) os) \<sigma> = map2 (-) (digs b (map ((!) T) \<sigma>)) (digs a (map ((!) T) \<sigma>))" "length os = 3" by auto
qed

lemma fold_upd_range:
  "length m = k \<Longrightarrow> n \<le> k \<Longrightarrow> length (fold (\<lambda>i m. m[i := f i]) [0..<n] m) = k \<and>
    (\<forall>i < n. fold (\<lambda>i m. m[i := f i]) [0..<n] m ! i = f i)"
  by (induction n) (auto simp: less_Suc_eq nth_list_update)

lemma ClipDst_spec:
  assumes "ClipDst T a b ns ms n mx mn = (True, mx', mn')" "0 < n" "n \<le> 3" "length mx = 3" "length mn = 3"
  shows "\<exists>os. clipOffsets T a b n = (0, 0, os) \<and> length mx' = 3 \<and> length mn' = 3 \<and>
    (\<forall>i < n. mx' ! i = min (ns ! i - os ! i) (ms ! i) \<and> mn' ! i = max 0 (- os ! i))"
proof -
  obtain x y os where o: "clipOffsets T a b n = (x, y, os)" by (cases "clipOffsets T a b n") auto
  have "clipRange T a b ns ms n mx mn = (True, mx', mn')"
    using assms(1,2) unfolding ClipDst_def by (auto split: prod.splits if_splits)
  then have "x = 0" "y = 0" "mx' = fold (\<lambda>i m. m[i := min (ns ! i - os ! i) (ms ! i)]) [0..<n] mx"
    "mn' = fold (\<lambda>i m. m[i := max 0 (- os ! i)]) [0..<n] mn"
    using assms(2) by (auto simp: clipRange_def o split: if_splits)
  then show ?thesis using o fold_upd_range [of mx 3 n "\<lambda>i. min (ns ! i - os ! i) (ms ! i)"]
      fold_upd_range [of mn 3 n "\<lambda>i. max 0 (- os ! i)"] assms by auto
qed

section \<open>Moving to the clipped range\<close>

lemma moveOffsets_spec:
  assumes "\<forall>i \<in> set is. 0 \<le> dstMin st ! i"
  shows "if \<exists>i \<in> set is. dstMax st ! i \<le> dstMin st ! i
         then dstSize (moveOffsets is st) = [0, 0, 0]
         else moveOffsets is st =
           st\<lparr>newDstOffset := newDstOffset st + (\<Sum>i\<leftarrow>is. dstMin st ! i * dstDst st ! i),
              newSrcOffset := newSrcOffset st + (\<Sum>i\<leftarrow>is. dstMin st ! i * newSrc st ! i)\<rparr>"
  using assms
proof (induction "is" arbitrary: st)
  case (Cons i "is")
  let ?u = "if dstMin st ! i > 0 then
           st\<lparr>newDstOffset := newDstOffset st + dstMin st ! i * dstDst st ! i,
              newSrcOffset := newSrcOffset st + dstMin st ! i * newSrc st ! i\<rparr> else st"
  have u: "dstMin ?u = dstMin st" "dstMax ?u = dstMax st" "dstDst ?u = dstDst st" "newSrc ?u = newSrc st"
    "newDstOffset ?u = newDstOffset st + dstMin st ! i * dstDst st ! i"
    "newSrcOffset ?u = newSrcOffset st + dstMin st ! i * newSrc st ! i" "dstSize ?u = dstSize st"
    using Cons.prems by auto
  have "?u = st\<lparr>newDstOffset := newDstOffset ?u, newSrcOffset := newSrcOffset ?u\<rparr>" by auto
  then show ?case using Cons.IH [of ?u] Cons.prems u by (auto simp: add.assoc)
qed simp

section \<open>The fused region\<close>

lemma cases3: "n = 1 \<or> n = 2 \<or> n = 3 \<Longrightarrow> (n = 1 \<Longrightarrow> P) \<Longrightarrow> (n = 2 \<Longrightarrow> P) \<Longrightarrow> (n = 3 \<Longrightarrow> P) \<Longrightarrow> P" for n :: nat
  by blast

lemma upt3: "[0..<1] = [0]" "[0..<2] = [0, 1]" "[0..<3] = [0, 1, 2]" "[0..<Suc 0] = [0]"
  by (simp_all add: upt_rec)

definition expandOk :: "FuseStatus \<Rightarrow> bool" where
  "expandOk st \<longleftrightarrow> expandIdx st = -1 \<and> (\<forall>i < dstNum st. 1 \<le> dstSize st ! i) \<and>
     ((\<forall>i < dstNum st. 1 < dstSize st ! i) \<or>
      (dstNum st > sizeNum st \<and> (\<forall>i < dstNum st. \<forall>j < dstNum st. dstSize st ! i = 1 \<longrightarrow> dstSize st ! j = 1 \<longrightarrow> i = j)))"

lemma fusedExpandIdx_spec:
  assumes n: "dstNum st = 1 \<or> dstNum st = 2 \<or> dstNum st = 3" and e: "expandOk st" and i: "i < 3"
  shows "(i < dstNum st \<and> dstSize st ! i > 1) \<or> int i = fusedExpandIdx st \<longleftrightarrow> i < dstNum st"
proof -
  have all: "(\<forall>i < (1 :: nat). P i) \<longleftrightarrow> P 0" "(\<forall>i < (2 :: nat). P i) \<longleftrightarrow> P 0 \<and> P 1"
    "(\<forall>i < (3 :: nat). P i) \<longleftrightarrow> P 0 \<and> P 1 \<and> P 2" for P
    by (auto simp: less_Suc_eq numeral_2_eq_2 numeral_3_eq_3)
  have i3: "i = 0 \<or> i = 1 \<or> i = 2" using i by auto
  show ?thesis using n e i3
    by (elim cases3 disjE) (auto simp: fusedExpandIdx_def expandOk_def all upt3)
qed

lemma fusedStrides_spec:
  assumes n: "dstNum st = 1 \<or> dstNum st = 2 \<or> dstNum st = 3" and e: "expandOk st"
  shows "fusedStrides st (fusedExpandIdx st) vs = replicate (3 - dstNum st) 0 @ map ((!) vs) [0..<dstNum st]"
proof -
  have c: "(i < dstNum st \<and> dstSize st ! i > 1) \<or> int i = fusedExpandIdx st \<longleftrightarrow> i < dstNum st"
    if "i \<in> set [0, 1, 2]" for i
    using fusedExpandIdx_spec [OF n e, of i] that by auto
  have "fusedStrides st (fusedExpandIdx st) vs =
      fst (fold (\<lambda>i (xs, idx). if i < dstNum st then (xs[i + (3 - dstNum st) := vs ! idx], idx + 1) else (xs, idx))
        [0, 1, 2] ([0, 0, 0], 0 :: nat))"
    unfolding fusedStrides_def by (intro arg_cong [where f = fst] fold_cong refl) (simp only: c)
  also have "\<dots> = replicate (3 - dstNum st) 0 @ map ((!) vs) [0..<dstNum st]"
    using n by (elim cases3) (simp_all add: upt3 eval_nat_numeral)
  finally show ?thesis .
qed

lemma fusedSizes_spec:
  assumes n: "dstNum st = 1 \<or> dstNum st = 2 \<or> dstNum st = 3"
  shows "fusedSizes st = replicate (3 - dstNum st) 1 @ map (\<lambda>i. dstMax st ! i - dstMin st ! i) [0..<dstNum st]"
  using n by (elim cases3) (simp_all add: fusedSizes_def upt3 eval_nat_numeral)

lemma applyFuse_loops:
  assumes "mStatus st = FUSE_REGION_COMPUTE" "dstSize st ! 0 \<noteq> 0"
    and n: "dstNum st = 1 \<or> dstNum st = 2 \<or> dstNum st = 3" and e: "expandOk st"
  shows "set (regionPairs (applyFuse st s d)) = move (newDstOffset st) (newSrcOffset st) `
      set (box (map (\<lambda>i. (dstMax st ! i - dstMin st ! i, newSrc st ! i, dstDst st ! i)) [0..<dstNum st]))"
    "r_origin (applyFuse st s d) = r_origin s"
proof -
  have a: "applyFuse st s d = mk_region (newSrcOffset st) (fusedStrides st (fusedExpandIdx st) (newSrc st))
      (newDstOffset st) (fusedStrides st (fusedExpandIdx st) (dstDst st)) (fusedSizes st) (r_origin s)"
    using assms by (simp add: applyFuse_def Let_def)
  show "set (regionPairs (applyFuse st s d)) = move (newDstOffset st) (newSrcOffset st) `
      set (box (map (\<lambda>i. (dstMax st ! i - dstMin st ! i, newSrc st ! i, dstDst st ! i)) [0..<dstNum st]))"
    unfolding a fusedStrides_spec [OF n e] fusedSizes_spec [OF n]
    using n by (elim cases3) (simp_all add: regionPairs_def mk_region_def loops_def upt3 eval_nat_numeral)
  show "r_origin (applyFuse st s d) = r_origin s" by (simp add: a mk_region_def)
qed

section \<open>Composition of boxes\<close>

lemma sorted_loops_unique:
  fixes xs ys :: "(int \<times> int \<times> int) list"
  assumes "sorted_wrt (>) (map fst xs)" "sorted_wrt (>) (map fst ys)" "mset xs = mset ys"
  shows "xs = ys"
  using assms
proof (induction xs arbitrary: ys)
  case (Cons x xs)
  then obtain y ys' where ys: "ys = y # ys'" by (cases ys) auto
  have "x = y"
  proof (rule ccontr)
    assume n: "x \<noteq> y"
    have "set (x # xs) = set (y # ys')" using Cons.prems(3) ys by (metis set_mset_mset)
    then have "x \<in> set ys'" "y \<in> set xs" using n by auto
    then have "fst x < fst y" "fst y < fst x" using Cons.prems(1,2) ys by auto
    then show False by simp
  qed
  then show ?case using Cons ys by auto
qed simp

lemma grid_perm:
  assumes "mset ls = mset ms"
  shows "grid T x ls \<longleftrightarrow> grid T x ms"
proof -
  have s: "set ls = set ms" using assms by (metis set_mset_mset)
  have d: "distinct (map fst ls) \<longleftrightarrow> distinct (map fst ms)" using assms by (metis mset_eq_imp_distinct_iff mset_map)
  have "(\<Sum>l\<leftarrow>ls. reach r l) = (\<Sum>l\<leftarrow>ms. reach r l)" for r
    using assms by (metis mset_map sum_mset_sum_list)
  then show ?thesis unfolding grid_def s d by simp
qed

lemma dot_perm:
  assumes "set vs = {..<n}" "distinct vs" "length is = n" "length T = n"
  shows "dot T is = dot (map ((!) T) vs) (map ((!) is) vs)"
proof -
  have "dot T is = (\<Sum>k<n. is ! k * T ! k)" using assms(3,4) by (simp add: sum_list_sum_nth lessThan_atLeast0)
  also have "\<dots> = (\<Sum>v\<leftarrow>vs. is ! v * T ! v)" using assms(1,2) by (simp add: sum_list_distinct_conv_sum_set)
  also have "\<dots> = dot (map ((!) T) vs) (map ((!) is) vs)"
    by (rule arg_cong [where f = sum_list], induction vs) simp_all
  finally show ?thesis .
qed

lemma inShape_perm:
  assumes "set vs \<subseteq> {..<length ns}" "inShape ns is"
  shows "inShape (map ((!) ns) vs) (map ((!) is) vs)"
  using assms by (auto simp: inShape_nth dest!: nth_mem)

definition rangeMin :: "int list \<Rightarrow> int list" where "rangeMin os = map (\<lambda>o1. max 0 (- o1)) os"

definition rangeMax :: "int list \<Rightarrow> int list \<Rightarrow> int list \<Rightarrow> int list" where
  "rangeMax ns ms os = map2 (\<lambda>n (m, o1). min (n - o1) m) ns (zip ms os)"

text \<open>
  The points at which two boxes of the same grid agree: the first index runs through a range, and
  the second differs from it by the difference of the digits.
\<close>

lemma boxes_agree:
  fixes T :: "int list"
  assumes \<sigma>: "set \<sigma> = {..<n}" "distinct \<sigma>"
    and len: "length T = n" "length ns = n" "length ms = n" "length os = n"
    and fit: "fits a (map (\<lambda>v. (T ! v, ns ! v)) \<sigma>)" "fits b (map (\<lambda>v. (T ! v, ms ! v)) \<sigma>)"
    and os: "map ((!) os) \<sigma> = map2 (-) (digs b (map ((!) T) \<sigma>)) (digs a (map ((!) T) \<sigma>))"
    and rem: "remain a (map ((!) T) \<sigma>) = remain b (map ((!) T) \<sigma>)"
    and idx: "inShape ns is" "inShape ms js"
  shows "a + dot T is = b + dot T js \<longleftrightarrow> is = map2 (+) js os"
proof -
  let ?T = "map ((!) T) \<sigma>" and ?i = "map ((!) is) \<sigma>" and ?j = "map ((!) js) \<sigma>"
  have li: "length is = n" "length js = n" using idx len by (auto dest: inShape_length)
  have ls: "length \<sigma> = n" using distinct_card [OF \<sigma>(2)] \<sigma>(1) by simp
  have z: "map (\<lambda>v. (T ! v, ks ! v)) \<sigma> = zip ?T (map ((!) ks) \<sigma>)" for ks
    by (rule nth_equalityI) simp_all
  have "dot T is = dot ?T ?i" "dot T js = dot ?T ?j" using dot_perm [OF \<sigma>] li len by auto
  moreover have "a + dot ?T ?i = b + dot ?T ?j \<longleftrightarrow>
      remain a ?T = remain b ?T \<and> map2 (+) ?i (digs a ?T) = map2 (+) ?j (digs b ?T)"
  proof (rule digs_unique)
    show "fits a (zip ?T (map ((!) ns) \<sigma>))" "fits b (zip ?T (map ((!) ms) \<sigma>))" using fit by (simp_all only: z)
    have "set \<sigma> \<subseteq> {..<length ns}" "set \<sigma> \<subseteq> {..<length ms}" by (simp_all only: \<sigma>(1) len order.refl)
    then show "inShape (map ((!) ns) \<sigma>) ?i" "inShape (map ((!) ms) \<sigma>) ?j"
      using inShape_perm idx by blast+
  qed simp_all
  moreover have "map2 (+) ?i (digs a ?T) = map2 (+) ?j (digs b ?T) \<longleftrightarrow> is = map2 (+) js os"
  proof -
    have o: "os ! (\<sigma> ! k) = digs b ?T ! k - digs a ?T ! k" if "k < n" for k
    proof -
      have "map ((!) os) \<sigma> ! k = map2 (-) (digs b ?T) (digs a ?T) ! k" using os by simp
      then show ?thesis using that ls by simp
    qed
    have "map2 (+) ?i (digs a ?T) = map2 (+) ?j (digs b ?T) \<longleftrightarrow>
        (\<forall>k < n. is ! (\<sigma> ! k) + digs a ?T ! k = js ! (\<sigma> ! k) + digs b ?T ! k)"
      using ls by (simp add: list_eq_iff_nth_eq)
    also have "\<dots> \<longleftrightarrow> (\<forall>k < n. is ! (\<sigma> ! k) = js ! (\<sigma> ! k) + os ! (\<sigma> ! k))"
    proof -
      have "is ! (\<sigma> ! k) + digs a ?T ! k = js ! (\<sigma> ! k) + digs b ?T ! k \<longleftrightarrow>
          is ! (\<sigma> ! k) = js ! (\<sigma> ! k) + os ! (\<sigma> ! k)" if "k < n" for k
        using o [OF that] by linarith
      then show ?thesis by blast
    qed
    also have "\<dots> \<longleftrightarrow> (\<forall>v < n. is ! v = js ! v + os ! v)"
    proof -
      have "(\<forall>v \<in> set \<sigma>. is ! v = js ! v + os ! v) \<longleftrightarrow> (\<forall>k < n. is ! (\<sigma> ! k) = js ! (\<sigma> ! k) + os ! (\<sigma> ! k))"
        by (simp add: all_set_conv_all_nth ls)
      then show ?thesis unfolding \<sigma>(1) by auto
    qed
    also have "\<dots> \<longleftrightarrow> is = map2 (+) js os" using li len by (simp add: list_eq_iff_nth_eq)
    finally show ?thesis .
  qed
  ultimately show ?thesis using rem by simp
qed

lemma inShape_range:
  assumes "length ns = n" "length ms = n" "length os = n" "length js = n"
  shows "inShape ms js \<and> inShape ns (map2 (+) js os) \<longleftrightarrow>
    inShape (map2 (-) (rangeMax ns ms os) (rangeMin os)) (map2 (-) js (rangeMin os))"
  using assms by (auto simp: inShape_nth rangeMax_def rangeMin_def)

lemma dot_map2_add:
  assumes "length xs = length u" "length ys = length u"
  shows "dot u (map2 (+) xs ys) = dot u xs + dot u ys"
  by (rule dot_add) (use assms in auto)

text \<open>Composing the pairs of the two boxes.\<close>

lemma boxes_compose:
  assumes len: "length T = n" "length U = n" "length V = n" "length ns = n" "length ms = n" "length os = n"
    and agree: "\<And>is js. inShape ns is \<Longrightarrow> inShape ms js \<Longrightarrow> a + dot T is = b + dot T js \<longleftrightarrow> is = map2 (+) js os"
  shows "{(d + dot V js, s + dot U is) | is js. inShape ns is \<and> inShape ms js \<and> a + dot T is = b + dot T js} =
    {(d + dot V (rangeMin os) + dot V ks, s + dot U os + dot U (rangeMin os) + dot U ks) | ks.
       inShape (map2 (-) (rangeMax ns ms os) (rangeMin os)) ks}" (is "?L = ?R")
proof
  have lm: "length (rangeMin os) = n" using len by (simp add: rangeMin_def)
  have lM: "length (rangeMax ns ms os) = n" using len by (simp add: rangeMax_def)
  show "?L \<subseteq> ?R"
  proof (rule subsetI, clarify)
    fix "is" js
    assume h: "inShape ns is" "inShape ms js" "a + dot T is = b + dot T js"
    then have i: "is = map2 (+) js os" using agree by blast
    have lj: "length js = n" using h(2) len by (auto dest: inShape_length)
    let ?k = "map2 (-) js (rangeMin os)"
    have "js = map2 (+) (rangeMin os) ?k" using lj lm by (simp add: list_eq_iff_nth_eq)
    then have j: "dot W js = dot W (rangeMin os) + dot W ?k" if "length W = n" for W
      using dot_map2_add [of "rangeMin os" W ?k] that lj lm by simp
    have "dot U is = dot U os + dot U js" using i dot_map2_add [of js U os] lj len by simp
    moreover have "inShape (map2 (-) (rangeMax ns ms os) (rangeMin os)) ?k"
      using inShape_range [OF len(4-6) lj] h i by simp
    ultimately show "\<exists>ks. (d + dot V js, s + dot U is) = (d + dot V (rangeMin os) + dot V ks,
        s + dot U os + dot U (rangeMin os) + dot U ks) \<and> inShape (map2 (-) (rangeMax ns ms os) (rangeMin os)) ks"
      using j [OF len(2)] j [OF len(3)] by (intro exI [of _ ?k]) simp
  qed
  show "?R \<subseteq> ?L"
  proof (rule subsetI, clarify)
    fix ks
    assume h: "inShape (map2 (-) (rangeMax ns ms os) (rangeMin os)) ks"
    have lk: "length ks = n" using h lm lM by (auto dest: inShape_length)
    let ?j = "map2 (+) (rangeMin os) ks"
    let ?i = "map2 (+) ?j os"
    have lj: "length ?j = n" using lk lm by simp
    have "map2 (-) ?j (rangeMin os) = ks" using lk lm by (simp add: list_eq_iff_nth_eq)
    then have s: "inShape ms ?j" "inShape ns ?i" using inShape_range [OF len(4-6) lj] h by simp_all
    have "a + dot T ?i = b + dot T ?j" using agree [OF s(2,1)] by simp
    moreover have "dot W ?j = dot W (rangeMin os) + dot W ks" if "length W = n" for W
      using dot_map2_add [of "rangeMin os" W ks] that lk lm by simp
    moreover have "dot U ?i = dot U ?j + dot U os" using dot_map2_add [of ?j U os] lj len by simp
    ultimately show "\<exists>is js. (d + dot V (rangeMin os) + dot V ks, s + dot U os + dot U (rangeMin os) + dot U ks) =
        (d + dot V js, s + dot U is) \<and> inShape ns is \<and> inShape ms js \<and> a + dot T is = b + dot T js"
      using s len(2,3) by (intro exI [of _ ?i] exI [of _ ?j]) simp
  qed
qed

section \<open>Splitting, on lists\<close>

definition splitAt :: "int \<Rightarrow> (int \<times> int \<times> int) list \<Rightarrow> (int \<times> int \<times> int) list \<Rightarrow> bool" where
  "splitAt ev L L' \<longleftrightarrow> (ev \<le> 0 \<and> L' = L) \<or>
     (\<exists>xs ys t w k m. 0 < ev \<and> L = xs @ (t, w, k * m) # ys \<and> ev = k * t \<and> 1 < k \<and> 1 \<le> m \<and>
        L' = xs @ [(k * t, k * w, m), (t, w, k)] @ ys)"

lemma expandFrom_split:
  assumes "expandStrideSize a b c n ev = (True, a', b', c', n')" "n \<le> 3" "0 < ev"
    "length a = 3" "length b = 3" "length c = 3" "\<forall>(t, w, m) \<in> set (tri a b c n). 0 < t \<and> 0 < m"
    "ev \<notin> fst ` set (tri a b c n)"
  shows "splitAt ev (tri a b c n) (tri a' b' c' n') \<and> n' = n + 1 \<and> n' \<le> 3 \<and>
    length a' = 3 \<and> length b' = 3 \<and> length c' = 3"
proof -
  let ?L = "tri a b c n"
  have "\<forall>i < n. 0 < a ! i \<and> 0 < c ! i" "\<forall>i < n. a ! i \<noteq> ev"
    using assms(7,8) by (force simp: tri_def)+
  from expandFrom_spec [OF assms(1) [unfolded expandStrideSize_def] order.refl assms(2,4-6) this(1) assms(3) this(2)]
  obtain i k m where i: "i < n" "1 < k" "1 \<le> m" "ev = k * a ! i" "c ! i = k * m" "n' = n + 1" "n' \<le> 3"
    "length a' = 3" "length b' = 3" "length c' = 3"
    "tri a' b' c' n' = take i ?L @ [(ev, k * b ! i, m), (a ! i, b ! i, k)] @ drop (i + 1) ?L" by blast
  have "?L = take i ?L @ (a ! i, b ! i, k * m) # drop (i + 1) ?L"
    using id_take_nth_drop [of i ?L] i by simp
  then have "splitAt ev ?L (tri a' b' c' n')"
    unfolding splitAt_def using i assms(3)
    by (intro disjI2 exI [of _ "take i ?L"] exI [of _ "drop (i + 1) ?L"] exI [of _ "a ! i"] exI [of _ "b ! i"]
        exI [of _ k] exI [of _ m]) simp
  then show ?thesis using i by blast
qed

lemma splitAt_box:
  assumes "splitAt ev L L'"
  shows "set (box (map (\<lambda>(t, w, n). (n, w, t)) L')) = set (box (map (\<lambda>(t, w, n). (n, w, t)) L))"
    "set (box (map (\<lambda>(t, w, n). (n, t, w)) L')) = set (box (map (\<lambda>(t, w, n). (n, t, w)) L))"
proof -
  have m: "set (box (us @ (m, k * u, k * v) # (k, u, v) # vs)) = set (box (us @ (k * m, u, v) # vs))"
    if "1 < k" for us vs and m k u v :: int
    using box_append_cong [OF box_merge [of k m u v vs], of us] that by (simp add: mult.commute)
  show "set (box (map (\<lambda>(t, w, n). (n, w, t)) L')) = set (box (map (\<lambda>(t, w, n). (n, w, t)) L))"
    "set (box (map (\<lambda>(t, w, n). (n, t, w)) L')) = set (box (map (\<lambda>(t, w, n). (n, t, w)) L))"
    using assms unfolding splitAt_def by (auto simp only: list.map map_append split_conv append.simps m)
qed

lemma splitAt_odiff: "splitAt ev L L' \<Longrightarrow> odiff L' x y = odiff L x y"
  unfolding splitAt_def by (auto simp: zero_less_mult_iff intro!: odiff_split)

lemma splitAt_grid:
  assumes s: "splitAt ev L L'" and c: "chain T" and g: "grid T x L" and e: "0 < ev \<Longrightarrow> ev \<in> T \<and> ev \<notin> fst ` set L"
  shows "grid T x L'" "fst ` set L' = (if 0 < ev then insert ev (fst ` set L) else fst ` set L)"
    "sorted_wrt (>) (map fst L) \<Longrightarrow> sorted_wrt (>) (map fst L')"
proof -
  have "grid T x L' \<and> fst ` set L' = (if 0 < ev then insert ev (fst ` set L) else fst ` set L) \<and>
    (sorted_wrt (>) (map fst L) \<longrightarrow> sorted_wrt (>) (map fst L'))"
    using s unfolding splitAt_def
  proof (elim disjE exE conjE)
    fix xs ys t w k m
    assume h: "0 < ev" "L = xs @ (t, w, k * m) # ys" "ev = k * t" "1 < k" "1 \<le> m"
      "L' = xs @ [(k * t, k * w, m), (t, w, k)] @ ys"
    have g': "grid T x (xs @ (t, w, k * m) # ys)" using g h by simp
    have t: "0 < t" using g' c by (auto simp: grid_def chain_def)
    have "grid T x L'" using grid_split [OF c g' h(4,5)] e h by simp
    moreover have "sorted_wrt (>) (map fst L')" if srt: "sorted_wrt (>) (map fst L)"
    proof -
      have "k * t < s" if i: "(s, v, n) \<in> set xs" for s v n
      proof -
        have "t < s" using srt i h by (fastforce simp: sorted_wrt_append)
        then have "t * (k * m) \<le> s" using gridD(5) [OF g', of t w "k * m" s v n] i by simp
        moreover have "k * t * 1 \<le> k * t * m" using h t by (intro mult_left_mono) auto
        ultimately have "k * t \<le> s" by (simp add: algebra_simps)
        moreover have "s \<noteq> k * t" using e h i by force
        ultimately show ?thesis by simp
      qed
      moreover have "t < k * t" using h t by simp
      ultimately show ?thesis using srt h by (fastforce simp: sorted_wrt_append)
    qed
    ultimately show ?thesis using h by auto
  qed (use g in auto)
  then show "grid T x L'" "fst ` set L' = (if 0 < ev then insert ev (fst ` set L) else fst ` set L)"
    "sorted_wrt (>) (map fst L) \<Longrightarrow> sorted_wrt (>) (map fst L')" by blast+
qed

lemma splitAt_sizes:
  assumes "splitAt ev L L'" "\<forall>l \<in> set L. 1 < snd (snd l)"
  shows "\<forall>l \<in> set L'. 1 \<le> snd (snd l)"
    "ev \<le> 0 \<Longrightarrow> \<forall>i < length L'. 1 < snd (snd (L' ! i))"
    "i < length L' \<Longrightarrow> j < length L' \<Longrightarrow> snd (snd (L' ! i)) = 1 \<Longrightarrow> snd (snd (L' ! j)) = 1 \<Longrightarrow> i = j"
proof -
  have "(\<forall>l \<in> set L'. 1 \<le> snd (snd l)) \<and> (\<exists>p. \<forall>i < length L'. i \<noteq> p \<longrightarrow> 1 < snd (snd (L' ! i))) \<and>
    (ev \<le> 0 \<longrightarrow> (\<forall>i < length L'. 1 < snd (snd (L' ! i))))"
    using assms(1) unfolding splitAt_def
  proof (elim disjE exE conjE)
    fix xs ys t w k m
    assume h: "0 < ev" "L = xs @ (t, w, k * m) # ys" "ev = k * t" "1 < k" "1 \<le> m"
      "L' = xs @ [(k * t, k * w, m), (t, w, k)] @ ys"
    have "1 < snd (snd (L' ! i))" if "i < length L'" "i \<noteq> length xs" for i
    proof -
      have "L' ! i \<in> set (xs @ (t, w, k) # ys)"
        using that h by (auto simp: nth_append nth_Cons split: nat.splits)
      then show ?thesis using assms(2) h by auto
    qed
    moreover have "\<forall>l \<in> set L'. 1 \<le> snd (snd l)" using assms(2) h by (auto dest: less_imp_le)
    ultimately show ?thesis using h(1) by (intro conjI exI [of _ "length xs"]) auto
  qed (use assms(2) in force)
  then show "\<forall>l \<in> set L'. 1 \<le> snd (snd l)" "ev \<le> 0 \<Longrightarrow> \<forall>i < length L'. 1 < snd (snd (L' ! i))"
    "i < length L' \<Longrightarrow> j < length L' \<Longrightarrow> snd (snd (L' ! i)) = 1 \<Longrightarrow> snd (snd (L' ! j)) = 1 \<Longrightarrow> i = j"
    by (auto, metis less_irrefl)
qed

section \<open>The theorem\<close>

lemma regionPairs_loops:
  assumes "\<forall>i \<in> {0, 1, 2}. 1 \<le> rsize r i"
  shows "set (regionPairs r) = move (doffset r) (soffset r) ` set (box (map (\<lambda>(t, w, n). (n, w, t)) (outLoops r)))"
    "set (regionPairs r) = move (doffset r) (soffset r) ` set (box (map (\<lambda>(t, w, n). (n, t, w)) (inLoops r)))"
proof -
  have p: "rsize r i > 1 \<longleftrightarrow> rsize r i \<noteq> 1" if "i \<in> {0, 1, 2}" for i using assms that by force
  have "map (\<lambda>(t, w, n). (n, w, t)) (outLoops r) = filter (\<lambda>l. fst l \<noteq> 1) (loops r)"
    "map (\<lambda>(t, w, n). (n, t, w)) (inLoops r) = filter (\<lambda>l. fst l \<noteq> 1) (loops r)"
    using p [of 0] p [of 1] p [of 2] by (simp_all add: outLoops_def inLoops_def loops_def)
  then show "set (regionPairs r) = move (doffset r) (soffset r) ` set (box (map (\<lambda>(t, w, n). (n, w, t)) (outLoops r)))"
    "set (regionPairs r) = move (doffset r) (soffset r) ` set (box (map (\<lambda>(t, w, n). (n, t, w)) (inLoops r)))"
    by (simp_all only: box_filter) (simp_all add: regionPairs_def)
qed

abbreviation pre :: "nat \<Rightarrow> int list \<Rightarrow> int list" where
  "pre n a \<equiv> map ((!) a) [0..<n]"

lemma tri_box:
  "set (box (map (\<lambda>(t, w, n). (n, w, t)) (tri a b c n))) = {(dot (pre n a) is, dot (pre n b) is) | is. inShape (pre n c) is}"
  "set (box (map (\<lambda>(t, w, n). (n, t, w)) (tri a b c n))) = {(dot (pre n b) is, dot (pre n a) is) | is. inShape (pre n c) is}"
  by (simp_all add: set_box_index tri_def comp_def)

lemma box_perm_loops:
  assumes "mset L = mset M"
  shows "set (box (map f L)) = set (box (map f M))"
  using assms by (intro box_perm) (metis mset_map)

text \<open>What the aligned arrays say about the points, once the remainders of the offsets vanish.\<close>

lemma aligned_compose:
  assumes n: "n = 1 \<or> n = 2 \<or> n = 3" and c: "chain G"
    and gs: "grid G a S" "sorted_wrt (>) (map fst S)" and gd: "grid G b (tri T V M n)"
    and al: "mset (tri T U N n) = mset S"
    and clip: "clipOffsets T a b n = (0, 0, os)"
  shows "{(d + x, s + z) | x y z. (x, y) \<in> set (box (map (\<lambda>(t, w, n). (n, t, w)) (tri T V M n))) \<and>
        (y + b - a, z) \<in> set (box (map (\<lambda>(t, w, n). (n, w, t)) S))} =
      move (d + (\<Sum>i\<leftarrow>[0..<n]. max 0 (- os ! i) * V ! i))
        (s + odiff S b a + (\<Sum>i\<leftarrow>[0..<n]. max 0 (- os ! i) * U ! i)) `
      set (box (map (\<lambda>i. (min (N ! i - os ! i) (M ! i) - max 0 (- os ! i), U ! i, V ! i)) [0..<n]))"
proof -
  define \<sigma> where "\<sigma> = take n (validIndex T n)"
  have dT: "distinct (map ((!) T) [0..<n])" using gd by (simp add: grid_def distinct_nth_tri)
  have pT: "\<forall>i < n. 0 < T ! i"
  proof (intro allI impI)
    fix i assume i: "i < n"
    then have "(T ! i, V ! i, M ! i) \<in> set (tri T V M n)" by (force simp: tri_def)
    then have "T ! i \<in> G" using gridD(3) [OF gd] by blast
    then show "0 < T ! i" using c by (auto simp: chain_def)
  qed
  have ab: "0 \<le> a" "0 \<le> b" using gs(1) gd by (simp_all add: grid_def)
  note V = validIndex_spec [OF n dT, folded \<sigma>_def]
  note O = clipOffsets_spec [OF n dT pT ab clip, folded \<sigma>_def]
  have sub: "v < n" if "v \<in> set \<sigma>" for v using V(1) that by simp
  have perm: "mset (map f \<sigma>) = mset (map f [0..<n])" for f :: "nat \<Rightarrow> int \<times> int \<times> int"
  proof -
    have "mset \<sigma> = mset [0..<n]" 
      using V(1,2) set_eq_iff_mset_eq_distinct [of \<sigma> "[0..<n]"] by (simp add: lessThan_atLeast0)
    then show ?thesis by simp
  qed
  have srt: "sorted_wrt (>) (map fst (map (\<lambda>v. (T ! v, f v)) \<sigma>))" for f :: "nat \<Rightarrow> int \<times> int"
    using V(3) by (simp add: comp_def)
  have S: "map (\<lambda>v. (T ! v, U ! v, N ! v)) \<sigma> = S"
    using sorted_loops_unique [OF srt gs(2)] perm al by (simp add: tri_def)
  let ?T = "pre n T" and ?U = "pre n U" and ?V = "pre n V" and ?N = "pre n N" and ?M = "pre n M" and ?os = "pre n os"
  have pm: "map ((!) (pre n X)) \<sigma> = map ((!) X) \<sigma>" for X using sub by (auto intro: map_cong)
  have fa: "fits a (map (\<lambda>v. (?T ! v, ?N ! v)) \<sigma>)"
  proof -
    have "map (\<lambda>l. (fst l, snd (snd l))) S = map (\<lambda>v. (?T ! v, ?N ! v)) \<sigma>"
      unfolding S [symmetric] using sub by (auto intro: map_cong)
    then show ?thesis using grid_fits [OF c gs] by simp
  qed
  have fb: "fits b (map (\<lambda>v. (?T ! v, ?M ! v)) \<sigma>)"
  proof -
    have "grid G b (map (\<lambda>v. (T ! v, V ! v, M ! v)) \<sigma>)"
      using gd grid_perm [OF perm, of G b "\<lambda>i. (T ! i, V ! i, M ! i)"] by (simp add: tri_def)
    from grid_fits [OF c this srt]
    have "fits b (map (\<lambda>v. (T ! v, M ! v)) \<sigma>)" by (simp add: comp_def)
    moreover have "map (\<lambda>v. (T ! v, M ! v)) \<sigma> = map (\<lambda>v. (?T ! v, ?M ! v)) \<sigma>" using sub by (auto intro: map_cong)
    ultimately show ?thesis by simp
  qed
  have agree: "a + dot ?T is = b + dot ?T js \<longleftrightarrow> is = map2 (+) js ?os" if "inShape ?N is" "inShape ?M js" for "is" js
    using boxes_agree [OF V(1,2), of ?T ?N ?M ?os a b "is" js] fa fb O that unfolding pm by simp
  have od: "odiff S b a = dot ?U ?os"
  proof -
    have "odiff S b a = dot (map (\<lambda>l. fst (snd l)) S) (map2 (-) (digs b (map fst S)) (digs a (map fst S)))"
      by (rule odiff_digs)
    also have "map fst S = map ((!) T) \<sigma>" unfolding S [symmetric] by (simp add: comp_def)
    also have "map (\<lambda>l. fst (snd l)) S = map ((!) U) \<sigma>" unfolding S [symmetric] by (simp add: comp_def)
    also note O(3) [symmetric]
    also have "dot (map ((!) U) \<sigma>) (map ((!) os) \<sigma>) = dot ?U ?os"
      using dot_perm [OF V(1,2), of ?os ?U] by (simp add: pm)
    finally show ?thesis .
  qed
  have bs: "set (box (map (\<lambda>(t, w, n). (n, w, t)) S)) = {(dot ?T is, dot ?U is) | is. inShape ?N is}"
    using box_perm_loops [OF al, of "\<lambda>(t, w, n). (n, w, t)"] tri_box(1) [of T U N n] by simp
  have rm: "dot W (rangeMin ?os) = (\<Sum>i\<leftarrow>[0..<n]. max 0 (- os ! i) * X ! i)" if "W = pre n X" for W X
    unfolding that rangeMin_def by (simp add: comp_def zip_map_map zip_same_conv_map split_def)
  have sz: "map2 (-) (rangeMax ?N ?M ?os) (rangeMin ?os) = map (\<lambda>i. min (N ! i - os ! i) (M ! i) - max 0 (- os ! i)) [0..<n]"
    unfolding rangeMax_def rangeMin_def by (rule nth_equalityI) simp_all
  have "{(d + x, s + z) | x y z. (x, y) \<in> set (box (map (\<lambda>(t, w, n). (n, t, w)) (tri T V M n))) \<and>
        (y + b - a, z) \<in> set (box (map (\<lambda>(t, w, n). (n, w, t)) S))} =
      {(d + dot ?V js, s + dot ?U is) | is js. inShape ?N is \<and> inShape ?M js \<and> a + dot ?T is = b + dot ?T js}"
    unfolding bs tri_box by (auto simp: algebra_simps) (metis add.commute add_diff_cancel_right')+
  also have "\<dots> = {(d + dot ?V (rangeMin ?os) + dot ?V ks, s + dot ?U ?os + dot ?U (rangeMin ?os) + dot ?U ks) | ks.
       inShape (map2 (-) (rangeMax ?N ?M ?os) (rangeMin ?os)) ks}"
    by (rule boxes_compose [of ?T n]) (simp_all add: agree)
  also have "\<dots> = move (d + dot ?V (rangeMin ?os)) (s + dot ?U ?os + dot ?U (rangeMin ?os)) `
      set (box (map (\<lambda>i. (min (N ! i - os ! i) (M ! i) - max 0 (- os ! i), U ! i, V ! i)) [0..<n]))"
    unfolding set_box_index sz by (simp add: comp_def setcompr_eq_image image_image)
  finally show ?thesis unfolding rm [OF refl] od .
qed

lemma expandSrcDims_spec:
  assumes r: "expandSrcDims ev st = (True, st')" and w: "wf_status st" "srcNum st \<le> 3"
    and L: "\<forall>(t, u, m) \<in> set (srcTri st). 0 < t \<and> 0 < m" "0 < ev \<longrightarrow> ev \<notin> fst ` set (srcTri st)"
  shows "splitAt ev (srcTri st) (srcTri st')" "wf_status st'" "srcNum st' \<le> 3"
    "st' = st\<lparr>srcDst := srcDst st', srcSrc := srcSrc st', srcSize := srcSize st', srcNum := srcNum st'\<rparr>"
proof -
  have "splitAt ev (srcTri st) (srcTri st') \<and> wf_status st' \<and> srcNum st' \<le> 3 \<and>
    st' = st\<lparr>srcDst := srcDst st', srcSrc := srcSrc st', srcSize := srcSize st', srcNum := srcNum st'\<rparr>"
  proof (cases "ev > 0")
    case True
    obtain a b c k where e: "expandStrideSize (srcDst st) (srcSrc st) (srcSize st) (srcNum st) ev = (True, a, b, c, k)"
      "st' = st\<lparr>srcDst := a, srcSrc := b, srcSize := c, srcNum := k\<rparr>"
      using r True by (auto simp: expandSrcDims_def split: prod.splits)
    from expandFrom_split [OF e(1) w(2) True _ _ _ L(1) L(2) [rule_format, OF True]] w(1)
    show ?thesis by (auto simp: e(2) wf_status_def)
  next
    case False
    then show ?thesis using r w by (simp add: expandSrcDims_def splitAt_def)
  qed
  then show "splitAt ev (srcTri st) (srcTri st')" "wf_status st'" "srcNum st' \<le> 3"
    "st' = st\<lparr>srcDst := srcDst st', srcSrc := srcSrc st', srcSize := srcSize st', srcNum := srcNum st'\<rparr>" by blast+
qed

lemma expandDstDims_spec:
  assumes r: "expandDstDims ev st = (True, st')" and w: "wf_status st" "dstNum st \<le> 3"
    and L: "\<forall>(t, u, m) \<in> set (dstTri st). 0 < t \<and> 0 < m" "0 < ev \<longrightarrow> ev \<notin> fst ` set (dstTri st)"
  shows "splitAt ev (dstTri st) (dstTri st')" "wf_status st'" "dstNum st' \<le> 3"
    "st' = st\<lparr>dstSrc := dstSrc st', dstDst := dstDst st', dstSize := dstSize st', dstNum := dstNum st'\<rparr>"
    "dstNum st' = (if 0 < ev then dstNum st + 1 else dstNum st)"
proof -
  have "splitAt ev (dstTri st) (dstTri st') \<and> wf_status st' \<and> dstNum st' \<le> 3 \<and>
    st' = st\<lparr>dstSrc := dstSrc st', dstDst := dstDst st', dstSize := dstSize st', dstNum := dstNum st'\<rparr> \<and>
    dstNum st' = (if 0 < ev then dstNum st + 1 else dstNum st)"
  proof (cases "ev > 0")
    case True
    obtain a b c k where e: "expandStrideSize (dstSrc st) (dstDst st) (dstSize st) (dstNum st) ev = (True, a, b, c, k)"
      "st' = st\<lparr>dstSrc := a, dstDst := b, dstSize := c, dstNum := k\<rparr>"
      using r True by (auto simp: expandDstDims_def split: prod.splits)
    from expandFrom_split [OF e(1) w(2) True _ _ _ L(1) L(2) [rule_format, OF True]] w(1)
    show ?thesis using True by (auto simp: e(2) wf_status_def)
  next
    case False
    then show ?thesis using r w by (simp add: expandDstDims_def splitAt_def)
  qed
  then show "splitAt ev (dstTri st) (dstTri st')" "wf_status st'" "dstNum st' \<le> 3"
    "st' = st\<lparr>dstSrc := dstSrc st', dstDst := dstDst st', dstSize := dstSize st', dstNum := dstNum st'\<rparr>"
    "dstNum st' = (if 0 < ev then dstNum st + 1 else dstNum st)" by blast+
qed

lemma offsetCompute_odiff:
  assumes "chain T" "fst ` set (outLoops s) \<subseteq> T" "0 \<le> x" "0 \<le> y"
  shows "offsetCompute s x y True = odiff (outLoops s) x y"
proof -
  have p: "0 < dstride s i" if "i \<in> {0, 1, 2}" "rsize s i > 1" for i
  proof -
    have "dstride s i \<in> fst ` set (outLoops s)" using that by (auto simp: outLoops_def image_iff)
    then show ?thesis using assms(1,2) by (auto simp: chain_def)
  qed
  note q = p [THEN less_imp_le]
  show ?thesis using p [of 0] p [of 1] p [of 2] q [of 0] q [of 1] q [of 2] assms(3,4)
    by (simp add: offsetCompute_def outLoops_def sdiv_nonneg smod_nonneg Let_def)
qed

text \<open>
  When a region may be fused into another (\<open>s\<close> produces the middle tensor, \<open>d\<close> reads it): their loops
  on the middle tensor are boxes of one grid of strides, and the producer writes in descending strides.
\<close>

definition fusable :: "Region \<Rightarrow> Region \<Rightarrow> bool" where
  "fusable s d \<longleftrightarrow> wf_region s \<and> wf_region d \<and> (\<forall>i \<in> {0, 1, 2}. 1 \<le> rsize s i \<and> 1 \<le> rsize d i) \<and>
     (let T = fst ` set (outLoops s) \<union> fst ` set (inLoops d)
      in chain T \<and> grid T (doffset s) (outLoops s) \<and> grid T (soffset d) (inLoops d)) \<and>
     sorted_wrt (>) (map fst (outLoops s))"

definition composed :: "Region \<Rightarrow> Region \<Rightarrow> (int \<times> int) set" where
  "composed s d = {(x, z). \<exists>y. (x, y) \<in> set (regionPairs d) \<and> (y, z) \<in> set (regionPairs s)}"

lemma composed_loops:
  assumes "fusable s d"
  shows "composed s d = {(doffset d + x, soffset s + z) | x y z.
    (x, y) \<in> set (box (map (\<lambda>(t, w, n). (n, t, w)) (inLoops d))) \<and>
    (y + soffset d - doffset s, z) \<in> set (box (map (\<lambda>(t, w, n). (n, w, t)) (outLoops s)))}"
proof -
  have "\<forall>i \<in> {0, 1, 2}. 1 \<le> rsize s i" "\<forall>i \<in> {0, 1, 2}. 1 \<le> rsize d i" using assms by (auto simp: fusable_def)
  then show ?thesis
    unfolding composed_def using regionPairs_loops(1) [of s] regionPairs_loops(2) [of d]
    by (auto simp: image_iff) (force simp: algebra_simps)+
qed

lemma matchAligned_compose:
  assumes m: "matchAligned s d st = (True, st')" and w: "wf_status st" "dstNum st \<le> 3" "0 < dstNum st"
    and e: "expandOk st" and c: "chain G" and sp: "splitAt ev (outLoops s) (srcTri st)" "splitAt ev' (inLoops d) (dstTri st)"
    and gs: "grid G (doffset s) (srcTri st)" "sorted_wrt (>) (map fst (srcTri st))" and gd: "grid G (soffset d) (dstTri st)"
    and eq: "fst ` set (srcTri st) = fst ` set (dstTri st)" and f: "fusable s d" "fst ` set (outLoops s) \<subseteq> G"
  shows "set (regionPairs (applyFuse st' s d)) = composed s d"
    "r_origin (applyFuse st' s d) = r_origin s \<or> composed s d = {}"
proof -
  let ?n = "dstNum st" and ?a = "doffset s" and ?b = "soffset d"
  obtain st1 where st1: "alignDims [0..<srcNum st] st = (True, st1)"
    using m by (auto simp: matchAligned_def Let_def split: prod.splits if_splits)
  have dist: "distinct (map fst (srcTri st))" "distinct (map fst (dstTri st))" using gs gd by (simp_all add: grid_def)
  note A = alignDims_mset [OF st1 w(2) _ _ dist eq]
  have A: "st1 = st\<lparr>newSrc := newSrc st1, newSrcSize := newSrcSize st1\<rparr>"
    "mset (tri (dstSrc st) (newSrc st1) (newSrcSize st1) ?n) = mset (srcTri st)"
    using A w(1) by (simp_all add: wf_status_def)
  have fld: "dstSrc st1 = dstSrc st" "dstSize st1 = dstSize st" "dstNum st1 = ?n" "dstMax st1 = dstMax st"
    "dstMin st1 = dstMin st" "dstDst st1 = dstDst st" "sizeNum st1 = sizeNum st" "expandIdx st1 = expandIdx st"
    by (subst A(1), simp)+
  let ?off = "offsetCompute s ?b ?a True + soffset s"
  let ?clip = "ClipDst (dstSrc st) ?a ?b (newSrcSize st1) (dstSize st) ?n (dstMax st) (dstMin st)"
  obtain mx mn where cl: "?clip = (True, mx, mn)"
    and st': "st' = (moveOffsets [0..<?n] (st1\<lparr>newSrcOffset := ?off, dstMax := mx, dstMin := mn, newDstOffset := doffset d\<rparr>))
      \<lparr>mStatus := FUSE_REGION_COMPUTE\<rparr>"
    using m by (auto simp: matchAligned_def Let_def st1 fld split: prod.splits if_splits)
  have n3: "?n = 1 \<or> ?n = 2 \<or> ?n = 3" using w(2,3) by auto
  have len: "length (dstMax st) = 3" "length (dstMin st) = 3" using w(1) by (simp_all add: wf_status_def)
  obtain os where os: "clipOffsets (dstSrc st) ?a ?b ?n = (0, 0, os)"
    "\<forall>i < ?n. mx ! i = min (newSrcSize st1 ! i - os ! i) (dstSize st ! i) \<and> mn ! i = max 0 (- os ! i)"
    using ClipDst_spec [OF cl w(3,2) len] by blast
  have ab: "0 \<le> ?a" "0 \<le> ?b" using gs(1) gd by (simp_all add: grid_def)
  have off: "?off = soffset s + odiff (srcTri st) ?b ?a"
    using offsetCompute_odiff [OF c f(2) ab(2,1)] splitAt_odiff [OF sp(1)] by simp
  have comp: "composed s d = move (doffset d + (\<Sum>i\<leftarrow>[0..<?n]. mn ! i * dstDst st ! i))
        (?off + (\<Sum>i\<leftarrow>[0..<?n]. mn ! i * newSrc st1 ! i)) `
      set (box (map (\<lambda>i. (mx ! i - mn ! i, newSrc st1 ! i, dstDst st ! i)) [0..<?n]))"
  proof -
    have "(\<Sum>i\<leftarrow>[0..<?n]. mn ! i * X ! i) = (\<Sum>i\<leftarrow>[0..<?n]. max 0 (- os ! i) * X ! i)" for X
      using os(2) by (intro arg_cong [where f = sum_list] map_cong) auto
    moreover have l: "map (\<lambda>i. (mx ! i - mn ! i, newSrc st1 ! i, dstDst st ! i)) [0..<?n] =
        map (\<lambda>i. (min (newSrcSize st1 ! i - os ! i) (dstSize st ! i) - max 0 (- os ! i), newSrc st1 ! i, dstDst st ! i)) [0..<?n]"
      using os(2) by (intro map_cong) auto
    ultimately show ?thesis
      unfolding composed_loops [OF f(1)] off splitAt_box(1) [OF sp(1), symmetric] splitAt_box(2) [OF sp(2), symmetric]
      using aligned_compose [OF n3 c gs gd A(2) os(1), of "doffset d" "soffset s"] by (simp only: l) 
  qed
  let ?u = "st1\<lparr>newSrcOffset := ?off, dstMax := mx, dstMin := mn, newDstOffset := doffset d\<rparr>"
  have mn: "\<forall>i \<in> set [0..<?n]. 0 \<le> dstMin ?u ! i" using os(2) by simp
  note M = moveOffsets_spec [OF mn]
  show "set (regionPairs (applyFuse st' s d)) = composed s d"
    "r_origin (applyFuse st' s d) = r_origin s \<or> composed s d = {}"
  proof (atomize (full), cases "\<exists>i < ?n. mx ! i \<le> mn ! i")
    case True
    then obtain i where i: "i < ?n" "mx ! i - mn ! i \<le> 0" by auto
    have "\<exists>i \<in> set [0..<?n]. dstMax ?u ! i \<le> dstMin ?u ! i" using True by auto
    then have "dstSize (moveOffsets [0..<?n] ?u) = [0, 0, 0]" using M by (simp only: if_True)
    then have "dstSize st' = [0, 0, 0]" using st' by simp
    moreover have "mStatus st' = FUSE_REGION_COMPUTE" using st' by simp
    moreover have "length (r_size d) = 3" using f(1) by (simp add: fusable_def wf_region_def)
    ultimately have "set (regionPairs (applyFuse st' s d)) = {}"
      by (simp add: applyFuse_def regionPairs_def loops_def box.simps(2))
    moreover have "set (box (map (\<lambda>i. (mx ! i - mn ! i, newSrc st1 ! i, dstDst st ! i)) [0..<?n])) = {}"
      unfolding set_box_index using i by (auto simp: inShape_nth)
    ultimately show "set (regionPairs (applyFuse st' s d)) = composed s d \<and>
        (r_origin (applyFuse st' s d) = r_origin s \<or> composed s d = {})" using comp by simp
  next
    case False
    then have "\<not> (\<exists>i \<in> set [0..<?n]. dstMax ?u ! i \<le> dstMin ?u ! i)" by auto
    then have u: "st' = (?u\<lparr>newDstOffset := doffset d + (\<Sum>i\<leftarrow>[0..<?n]. mn ! i * dstDst st ! i),
        newSrcOffset := ?off + (\<Sum>i\<leftarrow>[0..<?n]. mn ! i * newSrc st1 ! i)\<rparr>)\<lparr>mStatus := FUSE_REGION_COMPUTE\<rparr>"
      using M st' by (simp only: if_False) (simp add: fld)
    have e': "expandOk st'" using e by (simp add: u expandOk_def fld)
    have "1 \<le> dstSize st ! 0" using e w(3) by (simp add: expandOk_def)
    then have nz: "dstSize st' ! 0 \<noteq> 0" by (simp add: u fld)
    have "dstNum st' = 1 \<or> dstNum st' = 2 \<or> dstNum st' = 3" using n3 by (simp add: u fld)
    from applyFuse_loops [OF _ nz this e', of s d]
    show "set (regionPairs (applyFuse st' s d)) = composed s d \<and>
        (r_origin (applyFuse st' s d) = r_origin s \<or> composed s d = {})"
      unfolding comp by (simp add: u fld)
  qed
qed

lemma inLoops_sizes: "\<forall>l \<in> set (inLoops d). 1 < snd (snd l)" "\<forall>l \<in> set (outLoops s). 1 < snd (snd l)"
  by (auto simp: inLoops_def outLoops_def)

lemma grid_pos:
  assumes "chain G" "grid G x L"
  shows "\<forall>(t, w, n) \<in> set L. 0 < t \<and> 0 < n"
proof (clarify, intro conjI)
  fix t w n assume "(t, w, n) \<in> set L"
  then show "0 < t" "0 < n" using gridD(3,4) [OF assms(2)] assms(1) by (fastforce simp: chain_def)+
qed

lemma matchStrides_compose:
  assumes w: "wf_status st" and m: "matchStrides s d (collectDims s d st) = (True, st')" and f: "fusable s d"
    and ne: "outLoops s \<noteq> [] \<or> inLoops d \<noteq> []"
  shows "set (regionPairs (applyFuse st' s d)) = composed s d"
    "r_origin (applyFuse st' s d) = r_origin s \<or> composed s d = {}"
proof -
  let ?G = "fst ` set (outLoops s) \<union> fst ` set (inLoops d)"
  have c: "chain ?G" and g: "grid ?G (doffset s) (outLoops s)" "grid ?G (soffset d) (inLoops d)"
    and srt: "sorted_wrt (>) (map fst (outLoops s))" using f by (simp_all add: fusable_def Let_def)
  define st0 where "st0 = collectDims s d st"
  note C = collectDims_spec [OF w st0_def]
  obtain se de st1 st2 where se: "extraStride (srcStride st0) (dstStride st0) = Some se"
    and de: "extraStride (dstStride st0) (srcStride st0) = Some de"
    and x1: "expandSrcDims de st0 = (True, st1)" and x2: "expandDstDims se st1 = (True, st2)"
    and m2: "matchAligned s d st2 = (True, st')"
    using m unfolding st0_def [symmetric] matchStrides_def by (auto split: option.splits prod.splits if_splits)
  have sets: "((!) (srcDst st0)) ` {..<srcNum st0} = fst ` set (outLoops s)"
    "((!) (dstSrc st0)) ` {..<dstNum st0} = fst ` set (inLoops d)"
    using fst_set_tri [of "srcDst st0" "srcSrc st0" "srcSize st0" "srcNum st0"]
      fst_set_tri [of "dstSrc st0" "dstDst st0" "dstSize st0" "dstNum st0"] C(3,4) by simp_all
  have pos: "\<forall>k < srcNum st0. 0 < srcDst st0 ! k" "\<forall>k < dstNum st0. 0 < dstSrc st0 ! k"
  proof -
    have "\<forall>t \<in> ?G. 0 < t" using c by (simp add: chain_def)
    then have "\<forall>t \<in> ((!) (srcDst st0)) ` {..<srcNum st0}. 0 < t" "\<forall>t \<in> ((!) (dstSrc st0)) ` {..<dstNum st0}. 0 < t"
      unfolding sets by blast+
    then show "\<forall>k < srcNum st0. 0 < srcDst st0 ! k" "\<forall>k < dstNum st0. 0 < dstSrc st0 ! k" by auto
  qed
  note S = extraStride_spec [OF C(8,9) pos C(6,7) se, unfolded sets]
  note D = extraStride_spec [OF C(9,8) pos(2,1) C(7,6) de, unfolded sets]
  have de': "0 < de \<Longrightarrow> de \<in> ?G \<and> de \<notin> fst ` set (outLoops s)" using D by (auto split: if_splits)
  have se': "0 < se \<Longrightarrow> se \<in> ?G \<and> se \<notin> fst ` set (inLoops d)" using S by (auto split: if_splits)
  have nde: "0 < de \<longrightarrow> de \<notin> fst ` set (outLoops s)" and nse: "0 < se \<longrightarrow> se \<notin> fst ` set (inLoops d)"
    using de' se' by blast+
  note E1 = expandSrcDims_spec [OF x1 C(1,6), unfolded C(3), OF grid_pos [OF c g(1)] nde]
  have t1: "dstTri st1 = inLoops d" "dstNum st1 = dstNum st0" "sizeNum st1 = dstNum st0" "expandIdx st1 = -1"
    using arg_cong [OF E1(4), of dstSrc] arg_cong [OF E1(4), of dstDst] arg_cong [OF E1(4), of dstSize]
      arg_cong [OF E1(4), of dstNum] arg_cong [OF E1(4), of sizeNum] arg_cong [OF E1(4), of expandIdx] C(2,4,5)
    by simp_all
  have w1: "dstNum st1 \<le> 3" using t1 C by simp
  note E2 = expandDstDims_spec [OF x2 E1(2) w1, unfolded t1(1), OF grid_pos [OF c g(2)] nse]
  have t2: "srcTri st2 = srcTri st1" "sizeNum st2 = dstNum st0" "expandIdx st2 = -1"
    using arg_cong [OF E2(4), of srcDst] arg_cong [OF E2(4), of srcSrc] arg_cong [OF E2(4), of srcSize]
      arg_cong [OF E2(4), of srcNum] arg_cong [OF E2(4), of sizeNum] arg_cong [OF E2(4), of expandIdx] t1
    by simp_all
  note G1 = splitAt_grid [OF E1(1) c g(1) de'] and G2 = splitAt_grid [OF E2(1) c g(2) se']
  have fs: "fst ` set (srcTri st2) = ?G" "fst ` set (dstTri st2) = ?G"
    using G1(2) G2(2) S D t2(1) by (auto split: if_splits)
  then have eq: "fst ` set (srcTri st2) = fst ` set (dstTri st2)" by simp
  have "dstTri st2 \<noteq> []" using fs(2) ne by auto
  then have n0: "0 < dstNum st2" by (cases "dstNum st2") (simp_all add: tri_def)
  note Z = splitAt_sizes [OF E2(1) inLoops_sizes(1)]
  have e: "expandOk st2"
    unfolding expandOk_def
  proof (intro conjI)
    have el: "dstTri st2 ! i \<in> set (dstTri st2)" if "i < dstNum st2" for i using that by (intro nth_mem) simp
    show "expandIdx st2 = -1" by (rule t2)
    show "\<forall>i < dstNum st2. 1 \<le> dstSize st2 ! i" using Z(1) el by fastforce
    show "(\<forall>i < dstNum st2. 1 < dstSize st2 ! i) \<or>
      (dstNum st2 > sizeNum st2 \<and> (\<forall>i < dstNum st2. \<forall>j < dstNum st2. dstSize st2 ! i = 1 \<longrightarrow> dstSize st2 ! j = 1 \<longrightarrow> i = j))"
      using Z(2,3) E2(5) t1(2) t2(2) by (cases "0 < se") auto
  qed
  show "set (regionPairs (applyFuse st' s d)) = composed s d"
    "r_origin (applyFuse st' s d) = r_origin s \<or> composed s d = {}"
    using matchAligned_compose [OF m2 E2(2,3) n0 e c _ E2(1) _ _ G2(1) eq f, of de] E1(1) G1 srt t2(1) by auto
qed

text \<open>A copy keeps the positions: fusing it only moves the offset.\<close>

lemma box_same: "(x, y) \<in> set (box ls) \<Longrightarrow> \<forall>l \<in> set ls. fst (snd l) = snd (snd l) \<Longrightarrow> x = y"
proof (induction ls arbitrary: x y)
  case (Cons m ls)
  obtain n u v where m: "m = (n, u, v)" by (cases m)
  then obtain i where "(x - i * v, y - i * u) \<in> set (box ls)" using Cons.prems(1) by (auto simp: in_box_Cons)
  then have "x - i * v = y - i * u" using Cons.IH Cons.prems(2) by simp
  then show ?case using Cons.prems(2) m by simp
qed simp

lemma copy_compose:
  assumes "isCopyRegion s" "\<forall>i \<in> {0, 1, 2}. 1 \<le> rsize s i"
    and "snd ` set (regionPairs d) \<subseteq> fst ` set (regionPairs s)" "mStatus st = FUSE_SRC_COPY"
  shows "set (regionPairs (applyFuse st s d)) = composed s d" "r_origin (applyFuse st s d) = r_origin s"
proof -
  have "\<forall>l \<in> set (filter (\<lambda>l. fst l \<noteq> 1) (loops s)). fst (snd l) = snd (snd l)"
    using assms(1,2) by (auto simp: loops_def isCopyRegion_def)
  then have "x = y" if "(x, y) \<in> set (box (filter (\<lambda>l. fst l \<noteq> 1) (loops s)))" for x y
    using box_same [OF that] by blast
  then have eq: "(x, y) \<in> set (box (loops s)) \<Longrightarrow> x = y" for x y by (simp add: box_filter)
  have s: "z = y - doffset s + soffset s" if yz: "(y, z) \<in> set (regionPairs s)" for y z
  proof -
    from yz obtain a b where "(a, b) \<in> set (box (loops s))" "y = doffset s + a" "z = soffset s + b"
      by (auto simp: regionPairs_def)
    then show ?thesis using eq [of a b] by simp
  qed
  let ?f = "applyFuse st s d"
  have f: "?f = d\<lparr>r_origin := r_origin s, r_src := (r_src d)\<lparr>v_offset := soffset d + (soffset s - doffset s)\<rparr>\<rparr>"
    using assms(4) by (simp add: applyFuse_def)
  show "r_origin ?f = r_origin s" by (simp add: f)
  have "loops ?f = loops d" by (simp add: f loops_def)
  then have p: "set (regionPairs ?f) = (\<lambda>(x, y). (x, y - doffset s + soffset s)) ` set (regionPairs d)"
    by (force simp: regionPairs_def f image_image)
  show "set (regionPairs ?f) = composed s d"
  proof (rule set_eqI, clarify)
    fix x z
    have "(x, z) \<in> composed s d \<longleftrightarrow> (\<exists>y. (x, y) \<in> set (regionPairs d) \<and> z = y - doffset s + soffset s)"
    proof
      assume "(x, z) \<in> composed s d"
      then show "\<exists>y. (x, y) \<in> set (regionPairs d) \<and> z = y - doffset s + soffset s"
        using s unfolding composed_def by blast
    next
      assume "\<exists>y. (x, y) \<in> set (regionPairs d) \<and> z = y - doffset s + soffset s"
      then obtain y where y: "(x, y) \<in> set (regionPairs d)" "z = y - doffset s + soffset s" by blast
      then have "y \<in> fst ` set (regionPairs s)" using assms(3) by force
      then obtain z' where "(y, z') \<in> set (regionPairs s)" by force
      then show "(x, z) \<in> composed s d" using s [of y z'] y unfolding composed_def by blast
    qed
    then show "(x, z) \<in> set (regionPairs ?f) \<longleftrightarrow> (x, z) \<in> composed s d" unfolding p by auto
  qed
qed


definition w_status :: FuseStatus where
  "w_status = \<lparr>mStatus = FUSE_SRC_COPY, srcDst = [0, 0, 0], srcSrc = [0, 0, 0], dstSrc = [0, 0, 0], dstDst = [0, 0, 0],
     srcSize = [0, 0, 0], dstSize = [0, 0, 0], newSrc = [0, 0, 0], dstStride = [0, 0, 0], srcStride = [0, 0, 0],
     dstMin = [0, 0, 0], dstMax = [0, 0, 0], newSrcSize = [0, 0, 0], srcNum = 0, dstNum = 0, sizeNum = 0,
     newSrcOffset = 0, newDstOffset = 0, expandIdx = 0\<rparr>"

text \<open>A concatenation writes two rows of three into rows of seven; a slice takes columns 1 to 4 of them.\<close>

definition w_concat :: Region where "w_concat = mk_region 0 [3, 1, 1] 0 [7, 1, 1] [2, 3, 1] (Some 1)"
definition w_slice :: Region where "w_slice = mk_region 1 [7, 1, 1] 0 [4, 1, 1] [2, 4, 1] (Some 2)"


end
