(* ===== verification/Geometry_Results.thy ===== *)
theory Geometry_Results
  imports Geometry_Axis_Correct Geometry_Permute Geometry_Broadcast Geometry_Convert Geometry_Tile_Correct Geometry_Crop_Correct
    Region_Fuse_Correct Shape_Axis_Correct Shape_Layout_Correct
begin

text \<open>
  The shape stage and the geometry stage together: an operator's shape computer fixes the output
  tensor, its geometry computer the regions, and the raster command then leaves the right element of
  the right input at every index of the output. An element of a tensor with extents \<open>ds\<close> is named by
  its multi-dimensional index \<open>is\<close> (\<open>inShape ds is\<close>) and stored at \<open>lin ds is\<close>; \<open>env i\<close> is the memory of
  the tensor with number \<open>i\<close>, \<open>mem\<close> the output's memory before.
\<close>

lemma raster_element:
  "describes rs ds (\<lambda>is. Some (i, g is)) \<Longrightarrow> inShape ds is \<Longrightarrow> raster zero env out rs mem (lin ds is) = env i (g is)"
  by (erule raster_described) simp_all

section \<open>Concat\<close>

lemma real_axis_range:
  assumes "- dimensions t \<le> axis" "axis < dimensions t"
  shows "0 \<le> real_axis axis t" "real_axis axis t < dimensions t"
  using assms by (auto simp: real_axis_def)

lemma concat_tensors:
  fixes ins :: "(nat \<times> Tensor) list" and axis n :: int
  assumes "ConcatSizeComputer axis (map snd ins) [out] = Some [out']"
    and "\<forall>(i, t) \<in> set ins. dimensions t = n \<and> positive (shape t)" "ins \<noteq> []" "- n \<le> axis" "axis < n"
  defines "a \<equiv> (if axis < 0 then n + axis else axis)"
  shows "0 \<le> a" "a < n" "dimensions out' = n" "positive (shape out')"
    "tlength out' a = sum_list (map (\<lambda>(i, t). tlength t a) ins)"
    "\<forall>(i, t) \<in> set ins. shape t = (shape out')[nat a := tlength t a]"
proof -
  obtain i0 t0 ts where c: "ins = (i0, t0) # ts" using assms(3) by (cases ins) auto
  have d: "dimensions t0 = n" "\<forall>t \<in> set (map snd ts). dimensions t = dimensions t0" using assms(2) c by auto
  have a: "real_axis axis t0 = a" using d(1) by (simp add: a_def real_axis_def)
  show r: "0 \<le> a" "a < n" using assms(4,5) by (auto simp: a_def)
  have g: "\<forall>t \<in> set (map snd ts). agree_off a t t0" and o: "dimensions out' = n" and
    e: "\<forall>k \<in> {0..<n}. extent out' k = (if k = a then sum_list (map (\<lambda>t. extent t k) (t0 # map snd ts)) else extent t0 k)"
    using Concat_eval [OF d(2), of axis out] assms(1) d(1) unfolding a by (simp_all add: c)
  show "dimensions out' = n" by (rule o)
  have off: "shape t = (shape out')[nat a := tlength t a]" if t: "t \<in> set (t0 # map snd ts)" for t
  proof (rule shape_update_axis)
    show n: "dimensions t = dimensions out'" using t d o by (metis set_ConsD)
    fix k assume k: "0 \<le> k" "k < dimensions out'" "k \<noteq> a"
    have "tlength t k = tlength t0 k" using t g k n o by (auto simp: agree_off_def)
    then show "tlength t k = tlength out' k" using e k o by simp
  qed (use r o in simp_all)
  have "shape t = (shape out')[nat a := tlength t a]" if "(i, t) \<in> set ins" for i t
    by (rule off) (use that c in \<open>auto intro: rev_image_eqI\<close>)
  then show "\<forall>(i, t) \<in> set ins. shape t = (shape out')[nat a := tlength t a]" by blast
  have "map (\<lambda>t. extent t a) (t0 # map snd ts) = map (\<lambda>(i, t). tlength t a) ins" by (simp add: c split_def comp_def)
  then show s: "tlength out' a = sum_list (map (\<lambda>(i, t). tlength t a) ins)" using e r by simp
  have p: "0 < tlength t k" if "(i, t) \<in> set ins" "0 \<le> k" "k < n" for i t k using assms(2) that by (fastforce simp: set_shape)
  then have "0 < sum_list (map (\<lambda>(i, t). tlength t a) ins)"
  proof -
    have "0 \<le> sum_list (map (\<lambda>(i, t). tlength t a) ts)"
    proof (rule sum_list_nonneg, clarsimp)
      fix i t assume "(i, t) \<in> set ts"
      then show "0 \<le> tlength t a" using p [of i t a] r by (simp add: c)
    qed
    moreover have "0 < tlength t0 a" using p [of i0 t0 a] r by (simp add: c)
    ultimately show ?thesis by (simp add: c)
  qed
  then have a: "0 < tlength out' a" unfolding s .
  have "0 < tlength out' k" if k: "0 \<le> k" "k < n" for k
    using a e p [of i0 t0 k] k by (cases "k = a") (simp_all add: c)
  then show "positive (shape out')" unfolding set_shape o by simp
qed

lemma concat_raster:
  fixes ins :: "(nat \<times> Tensor) list" and out' :: Tensor and axis :: int
  defines "a \<equiv> (if axis < 0 then dimensions out' + axis else axis)"
  assumes "0 \<le> a" "a < dimensions out'" "positive (shape out')"
    and "tlength out' a = sum_list (map (\<lambda>(i, t). tlength t a) ins)"
    and "\<forall>(i, t) \<in> set ins. shape t = (shape out')[nat a := tlength t a] \<and> 0 < tlength t a \<and> elementSize t \<noteq> 0"
    and "k < length ins" "ins ! k = (i, t)" "inShape (shape t) js"
    and "is = js[nat a := js ! nat a + sum_list (map (\<lambda>(i, t). tlength t a) (take k ins))]"
  shows "inShape (shape out') is"
    and "raster zero env out' (GeometryConcat (OpType_Concat axis) ins out') mem (lin (shape out') is) =
      env i (lin (shape t) js)"
proof -
  let ?L = "concatLens False a ins"
  have la: "nat a < length (shape out')" using assms(2,3) by simp
  have t: "shape t = (shape out')[nat a := tlength t a]" using assms(6-8) nth_mem [of k ins] by fastforce
  have js: "length js = length (shape out')" "0 \<le> js ! nat a" "js ! nat a < tlength t a"
    using inShape_length [OF assms(9)] assms(9) la unfolding t inShape_nth by (auto dest!: spec [of _ "nat a"])
  have lens: "map snd ?L = map (\<lambda>(i, t). tlength t a) ins" by (simp add: split_def comp_def)
  have pre: "sum_list (map snd (take k ?L)) = sum_list (map (\<lambda>(i, t). tlength t a) (take k ins))"
    by (simp add: take_map split_def comp_def)
  have nn: "\<forall>x \<in> set ?L. 0 \<le> snd x" using assms(6) by fastforce
  have at: "concatAt ?L (is ! nat a) = Some (i, tlength t a, js ! nat a)"
    using concatAt_nth [of k ?L "js ! nat a"] assms(7,8) js nn la by (simp add: assms(10) pre [symmetric] add.commute)
  have "is ! nat a < tlength out' a" using concatAt_sum [OF at nn] assms(5) unfolding lens by simp
  moreover have "0 \<le> is ! nat a"
  proof -
    have "0 \<le> sum_list (map snd (take k ?L))" using nn by (intro sum_list_nonneg) (auto simp: split_def dest!: in_set_takeD)
    then show ?thesis unfolding pre using js la by (simp add: assms(10))
  qed
  moreover have "0 \<le> is ! m \<and> is ! m < shape out' ! m" if "m < length (shape out')" "m \<noteq> nat a" for m
    using assms(9) that la unfolding t inShape_nth by (auto simp: assms(10))
  ultimately show ii: "inShape (shape out') is"
    using js(1) la assms(2) unfolding inShape_nth by (auto simp: assms(10) shape_nth nth_list_update)
  have ax: "(if basicAxis (OpType_Concat axis) < 0 then dimensions out' + basicAxis (OpType_Concat axis)
      else basicAxis (OpType_Concat axis)) = a" "inputFix (OpType_Concat axis) = False" by (simp_all add: a_def)
  have d: "describes (GeometryConcat (OpType_Concat axis) ins out') (shape out') (concatSource (shape out') (nat a) ?L)"
    by (rule Concat_describes [of "OpType_Concat axis" out' ins, unfolded ax])
      (use assms(2-6) lens in \<open>auto simp: split_def comp_def\<close>)
  have "concatSource (shape out') (nat a) ?L is = Some (i, lin (shape t) js)"
    using at js(1) la by (simp add: concatSource_def t [symmetric]) (simp add: assms(10))
  then show "raster zero env out' (GeometryConcat (OpType_Concat axis) ins out') mem (lin (shape out') is) =
      env i (lin (shape t) js)"
    by (rule raster_described [OF d ii])
qed

text \<open>
  C17. \<^verbatim>\<open>Concat\<close>, shape and data: when the shape computer accepts the inputs, element \<open>js\<close> of input \<open>k\<close> is
  found in the output at the same index, moved along the axis by the extents of the inputs before it.
\<close>

theorem Concat_computes:
  fixes ins :: "(nat \<times> Tensor) list" and axis n :: int
  assumes "ConcatSizeComputer axis (map snd ins) [out] = Some [out']" "- n \<le> axis" "axis < n"
    and "\<forall>(i, t) \<in> set ins. dimensions t = n \<and> positive (shape t) \<and> elementSize t \<noteq> 0"
    and "k < length ins" "ins ! k = (i, t)" "inShape (shape t) js" "a = (if axis < 0 then n + axis else axis)"
    and "is = js[nat a := js ! nat a + sum_list (map (\<lambda>(i, t). tlength t a) (take k ins))]"
  shows "inShape (shape out') is \<and>
    raster zero env out' (GeometryConcat (OpType_Concat axis) ins out') mem (lin (shape out') is) = env i (lin (shape t) js)"
proof -
  have "ins \<noteq> []" using assms(5) by auto
  moreover have "\<forall>(i, t) \<in> set ins. dimensions t = n \<and> positive (shape t)" using assms(4) by auto
  ultimately have "0 \<le> a" "a < n" "dimensions out' = n" "positive (shape out')"
    "tlength out' a = sum_list (map (\<lambda>(i, t). tlength t a) ins)"
    "\<forall>(i, t) \<in> set ins. shape t = (shape out')[nat a := tlength t a]"
    using concat_tensors [OF assms(1) _ _ assms(2,3)] unfolding assms(8) [symmetric] by blast+
  note c = this
  have p: "0 < tlength t' a" if "(i', t') \<in> set ins" for i' t' using assms(4) that c(1,2) by (fastforce simp: set_shape)
  have in_t: "\<forall>(i, t) \<in> set ins. shape t = (shape out')[nat a := tlength t a] \<and> 0 < tlength t a \<and> elementSize t \<noteq> 0"
    using c(6) p assms(4) by (auto simp: split_def)
  have a: "(if axis < 0 then dimensions out' + axis else axis) = a" using c(3) assms(8) by simp
  note r = concat_raster [of axis out', unfolded a, OF c(1) _ c(4,5) in_t assms(5-7) assms(9)]
  show ?thesis using r c(2,3) by simp
qed

theorem Concat_computes_witness:
  "\<exists>out'. ConcatSizeComputer (-1) [w_tensor [2, 3], w_tensor [2, 4]] [w_tensor []] = Some [out'] \<and>
     raster (0 :: int) (\<lambda>i x. 100 * int i + x) out'
       (GeometryConcat (OpType_Concat (-1)) [(1, w_tensor [2, 3]), (2, w_tensor [2, 4])] out') (\<lambda>_. 0) 12 = 206"
proof -
  let ?ins = "[(1, w_tensor [2, 3]), (2, w_tensor [2, 4])] :: (nat \<times> Tensor) list"
  have s: "map_option (map shape) (ConcatSizeComputer (-1) (map snd ?ins) [w_tensor []]) = Some [[2, 7]]" by code_simp
  then obtain out' where o: "ConcatSizeComputer (-1) (map snd ?ins) [w_tensor []] = Some [out']" "shape out' = [2, 7]"
    by auto
  have e: "shape (w_tensor [2, 3]) = [2, 3]" "shape (w_tensor [2, 4]) = [2, 4]" "elementSize (w_tensor [2, 3]) = 6"
    "elementSize (w_tensor [2, 4]) = 8" "extent (w_tensor [2, 3]) 1 = 3" by code_simp+
  have "inShape (shape out') [1, 5] \<and> raster (0 :: int) (\<lambda>i x. 100 * int i + x) out'
      (GeometryConcat (OpType_Concat (-1)) ?ins out') (\<lambda>_. 0) (lin (shape out') [1, 5]) = 100 * int 2 + lin (shape (w_tensor [2, 4])) [1, 2]"
    by (rule Concat_computes [OF o(1), where n = 2 and k = 1 and a = 1]) (use e in \<open>simp_all add: inShape_def\<close>)
  then show ?thesis using o e by simp
qed

section \<open>Slice, then Concat\<close>

lemma concatAt_split:
  assumes "concatAt ns j = Some (i, n, m)" "distinct (map fst ns)"
  shows "\<exists>k < length ns. ns ! k = (i, n) \<and> j = m + sum_list (map snd (take k ns))"
  using assms
proof (induction ns j rule: concatAt.induct)
  case (2 i' n' ns j)
  show ?case
  proof (cases "j < n'")
    case False
    then obtain k where "k < length ns" "ns ! k = (i, n)" "j - n' = m + sum_list (map snd (take k ns))" using 2 by auto
    then show ?thesis by (intro exI [of _ "Suc k"]) simp
  qed (use 2 in auto)
qed simp

text \<open>
  C18. Slicing a tensor and concatenating the parts on the same axis gives back its data: whatever lengths
  the parts have on the axis, if they add up to the tensor's, then every element of the result is the
  element of the tensor with the same index.
\<close>

theorem Slice_Concat_identity:
  fixes input :: Tensor and axis :: int and env :: "nat \<Rightarrow> int \<Rightarrow> 'a"
  assumes "a = (if axis < 0 then dimensions input + axis else axis)" "0 \<le> a" "a < dimensions input"
    and "positive (shape input)" "0 < elementSize input"
    and "\<forall>p \<in> set parts. shape p = (shape input)[nat a := tlength p a] \<and> 0 < tlength p a \<and> elementSize p \<noteq> 0"
    and "sum_list (map (\<lambda>p. tlength p a) parts) = tlength input a"
    and "shape out' = shape input" "dimensions out' = dimensions input" "inShape (shape input) is"
    and "sliced = (\<lambda>k. raster zero env (parts ! k) (GeometrySlice (OpType_Slice axis) i input parts ! k) (mems k))"
  shows "raster zero sliced out' (GeometryConcat (OpType_Concat axis) (zip [0..<length parts] parts) out') mem
    (lin (shape out') is) = env i (lin (shape input) is)"
proof -
  let ?ins = "zip [0..<length parts] parts"
  have la: "nat a < length (shape input)" using assms(2,3) by simp
  have ls: "map (\<lambda>(i, t). tlength t a) ?ins = map (\<lambda>p. tlength p a) parts"
    by (intro nth_equalityI) (auto simp: split_def)
  have oa: "tlength out' a = tlength input a"
    using arg_cong [OF assms(8), of "\<lambda>ds. ds ! nat a"] assms(2,3,9) by (simp add: shape_nth)
  let ?L = "concatLens False a ?ins"
  have L: "map snd ?L = map (\<lambda>p. tlength p a) parts" using ls by (simp add: split_def comp_def)
  have ai: "0 \<le> is ! nat a" "is ! nat a < tlength input a" "length is = length (shape input)"
    using assms(2,3,10) unfolding inShape_nth by (auto simp: shape_nth dest!: spec [of _ "nat a"])
  then obtain i' n m where at: "concatAt ?L (is ! nat a) = Some (i', n, m)"
    using concatAt_total [of "is ! nat a" ?L] L assms(7) by auto
  moreover have "map fst ?L = [0..<length parts]" by (intro nth_equalityI) (auto simp: split_def)
  ultimately obtain k where k: "k < length parts" "?L ! k = (i', n)" "is ! nat a = m + sum_list (map snd (take k ?L))"
    using concatAt_split [OF at] by auto
  have p: "shape (parts ! k) = (shape input)[nat a := n]" "n = tlength (parts ! k) a"
    using assms(6) k(1,2) by (auto simp: split_def)
  have pre: "sum_list (map snd (take k ?L)) = sum_list (map (\<lambda>p. tlength p a) (take k parts))"
    unfolding take_map [symmetric] L by simp
  have "\<forall>x \<in> set ?L. 0 \<le> snd x" using assms(6) by (force dest: set_zip_rightD)
  then have m: "0 \<le> m" "m < n" using concatAt_range [OF at ai(1)] by simp_all
  let ?js = "is[nat a := m]"
  have whole: "is = ?js[nat a := m + sum_list (map (\<lambda>p. tlength p a) (take k parts))]"
    using k(3) pre by (metis list_update_id list_update_overwrite)
  have tk: "map (\<lambda>(i, t). tlength t a) (take k ?ins) = map (\<lambda>p. tlength p a) (take k parts)"
    unfolding take_map [symmetric] ls ..
  have js: "inShape (shape (parts ! k)) ?js"
    unfolding p(1) using assms(10) m la unfolding inShape_nth by (auto simp: nth_list_update)
  have "raster zero sliced out' (GeometryConcat (OpType_Concat axis) ?ins out') mem (lin (shape out') is) =
      sliced k (lin (shape (parts ! k)) ?js)"
  proof (rule concat_raster(2) [of axis out' ?ins k k "parts ! k" ?js "is"])
    have a: "(if axis < 0 then dimensions out' + axis else axis) = a" using assms(1,9) by simp
    show "is = ?js[nat (if axis < 0 then dimensions out' + axis else axis) :=
        ?js ! nat (if axis < 0 then dimensions out' + axis else axis) +
        sum_list (map (\<lambda>(i, t). tlength t (if axis < 0 then dimensions out' + axis else axis)) (take k ?ins))]"
      unfolding a tk using whole ai(3) la by simp
  qed (use assms(1-9) ls oa js k(1) in \<open>auto simp: set_zip\<close>)
  also have "\<dots> = env i (lin (shape input) is)"
  proof -
    have ax: "(if axis < 0 then axis + dimensions input else axis) = a" using assms(1) by simp
    have d: "describes (GeometrySlice (OpType_Slice axis) i input parts ! k) (shape (parts ! k))
        (\<lambda>is. Some (i, lin (shape input) (is[nat a := is ! nat a + sum_list (map (\<lambda>p. tlength p a) (take k parts))])))"
      unfolding p(1) p(2)
      by (rule Slice_describes [of "OpType_Slice axis" input, unfolded SliceOp.case if_False ax]) (use assms(1-5) k(1) in simp_all)
    have "?js[nat a := ?js ! nat a + sum_list (map (\<lambda>p. tlength p a) (take k parts))] = is"
      using whole ai(3) la by simp
    then show ?thesis unfolding assms(11) using raster_element [OF d js] by simp
  qed
  finally show ?thesis .
qed

theorem Slice_Concat_identity_witness:
  "\<exists>parts. SliceComputer 1 NetSource_CAFFE (Some [3]) [w_tensor [2, 5]] [w_tensor [], w_tensor []] = Some parts \<and>
    raster (0 :: int) (\<lambda>k. raster 0 (\<lambda>_ x. x * x) (parts ! k) (GeometrySlice (OpType_Slice 1) 7 (w_tensor [2, 5]) parts ! k) (\<lambda>_. 0))
      (w_tensor [2, 5]) (GeometryConcat (OpType_Concat 1) (zip [0..<length parts] parts) (w_tensor [2, 5])) (\<lambda>_. 0) 9 = 81"
proof -
  have "map_option (map (\<lambda>p. (shape p, elementSize p, extent p 1)))
      (SliceComputer 1 NetSource_CAFFE (Some [3]) [w_tensor [2, 5]] [w_tensor [], w_tensor []]) = Some [([2, 3], 6, 3), ([2, 2], 4, 2)]"
    by code_simp
  then obtain p q where s: "SliceComputer 1 NetSource_CAFFE (Some [3]) [w_tensor [2, 5]] [w_tensor [], w_tensor []] = Some [p, q]"
    "shape p = [2, 3]" "shape q = [2, 2]" "elementSize p = 6" "elementSize q = 4" "extent p 1 = 3" "extent q 1 = 2" by auto
  have e: "shape (w_tensor [2, 5]) = [2, 5]" "elementSize (w_tensor [2, 5]) = 10" "extent (w_tensor [2, 5]) 1 = 5" by code_simp+
  have "raster (0 :: int) (\<lambda>k. raster 0 (\<lambda>_ x. x * x) ([p, q] ! k) (GeometrySlice (OpType_Slice 1) 7 (w_tensor [2, 5]) [p, q] ! k) (\<lambda>_. 0))
      (w_tensor [2, 5]) (GeometryConcat (OpType_Concat 1) (zip [0..<length [p, q]] [p, q]) (w_tensor [2, 5])) (\<lambda>_. 0)
      (lin (shape (w_tensor [2, 5])) [1, 4]) = lin (shape (w_tensor [2, 5])) [1, 4] * lin (shape (w_tensor [2, 5])) [1, 4]"
    by (rule Slice_Concat_identity [where a = 1 and mems = "\<lambda>_ _. 0"]) (use s e in \<open>simp_all add: inShape_def\<close>)
  then show ?thesis using s(1) e by simp
qed

section \<open>Transpose\<close>

text \<open>
  C19. \<^verbatim>\<open>Transpose\<close>, shape and data: when the shape computer accepts the permutation, the element of the
  input at \<open>js\<close> is found in the output at the permuted index, whatever axes the geometry computer merges,
  reorders or unrolls.
\<close>

theorem Transpose_computes:
  assumes "TransposeComputer [input, perm] [out] = Some [out']" "positive (shape input)" "inShape (shape input) js"
    and "is = map (\<lambda>k. js ! nat (hostv perm k)) [0..dimensions input - 1]"
  shows "inShape (shape out') is \<and>
    raster zero env out' (GeometryPermute (OpType_Transpose perm) i input) mem (lin (shape out') is) = env i (lin (shape input) js)"
proof -
  let ?axes = "map (hostv perm) [0..dimensions input - 1]"
  have p: "perm_ok input perm" "shape out' = map (tlength input) ?axes"
    using Transpose_permutes [of input perm out] assms(1) by (auto simp: comp_def)
  note m = perm_ok_mset [OF p(1)]
  have "is": "is = map (\<lambda>a. js ! nat a) ?axes" using assms(4) by (simp add: comp_def)
  note x = permute_index [OF m assms(3), folded "is" p(2)]
  have "describes (GeometryPermute (OpType_Transpose perm) i input) (shape out')
      (\<lambda>is. Some (i, 0 + dot (map (axisStride input) ?axes) is))"
    using ComputePermuteRegion_describes [OF m assms(2), of i] p(2) by (simp add: GeometryPermute_def)
  from raster_element [OF this x(1)] x show ?thesis by simp
qed

theorem Transpose_computes_witness:
  "\<exists>out'. TransposeComputer [w_tensor [2, 3, 4], w_shape_arg [2, 0, 1]] [w_tensor []] = Some [out'] \<and> shape out' = [4, 2, 3] \<and>
    raster (0 :: int) (\<lambda>_ x. x) out' (GeometryPermute (OpType_Transpose (w_shape_arg [2, 0, 1])) 1 (w_tensor [2, 3, 4])) (\<lambda>_. 0)
      (lin [4, 2, 3] [3, 1, 2]) = lin [2, 3, 4] [1, 2, 3]"
proof -
  have "map_option (map shape) (TransposeComputer [w_tensor [2, 3, 4], w_shape_arg [2, 0, 1]] [w_tensor []]) = Some [[4, 2, 3]]"
    by code_simp
  then obtain out' where o: "TransposeComputer [w_tensor [2, 3, 4], w_shape_arg [2, 0, 1]] [w_tensor []] = Some [out']"
    "shape out' = [4, 2, 3]" by auto
  have e: "shape (w_tensor [2, 3, 4]) = [2, 3, 4]"
    "map (\<lambda>k. [1, 2, 3 :: int] ! nat (hostv (w_shape_arg [2, 0, 1]) k)) [0..2] = [3, 1, 2]"
    by code_simp+
  have "inShape (shape out') [3, 1, 2] \<and> raster (0 :: int) (\<lambda>_ x. x) out'
      (GeometryPermute (OpType_Transpose (w_shape_arg [2, 0, 1])) 1 (w_tensor [2, 3, 4])) (\<lambda>_. 0) (lin (shape out') [3, 1, 2]) =
      lin (shape (w_tensor [2, 3, 4])) [1, 2, 3]"
    by (rule Transpose_computes [OF o(1)]) (simp_all add: e inShape_def)
  then show ?thesis using o e by simp
qed

section \<open>Tile\<close>

text \<open>
  C21. \<^verbatim>\<open>Tile\<close>, shape and data: for positive multiples, every element of the output is the element of the
  input whose index is the output's index modulo the input's extents.
\<close>

theorem Tile_computes:
  assumes "TileComputer [t, muls] [out] = Some [out']" "0 \<le> dimensions t" "positive (shape t)"
    and "\<forall>k \<in> {0..<dimensions t}. 0 < hostv muls k" "inShape (shape out') is"
  shows "raster zero env out' (GeometryTile i t muls out') mem (lin (shape out') is) =
    env i (lin (shape t) (map2 (mod) is (shape t)))"
proof -
  have "dimensions out' = dimensions t" "\<forall>k \<in> {0..<dimensions t}. tlength out' k = tlength t k * hostv muls k"
    using assms(1) by (auto simp: TileComputer_def Let_def)
  then have "describes (GeometryTile i t muls out') (shape out') (\<lambda>is. Some (i, lin (shape t) (map2 (mod) is (shape t))))"
    using GeometryTile_describes [of t out' muls i] assms(2-4) by simp
  from raster_element [OF this assms(5)] show ?thesis .
qed

theorem Tile_computes_witness:
  "\<exists>out'. TileComputer [w_tensor [2, 3], w_shape_arg [2, 2]] [w_tensor []] = Some [out'] \<and> shape out' = [4, 6] \<and>
    raster (0 :: int) (\<lambda>_ x. x) out' (GeometryTile 1 (w_tensor [2, 3]) (w_shape_arg [2, 2]) out') (\<lambda>_. 0) (lin [4, 6] [3, 4]) = 4"
proof -
  have "map_option (map shape) (TileComputer [w_tensor [2, 3], w_shape_arg [2, 2]] [w_tensor []]) = Some [[4, 6]]" by code_simp
  then obtain out' where o: "TileComputer [w_tensor [2, 3], w_shape_arg [2, 2]] [w_tensor []] = Some [out']" "shape out' = [4, 6]"
    by auto
  have e: "shape (w_tensor [2, 3]) = [2, 3]" by code_simp
  have "\<forall>k \<in> set [0..1]. 0 < hostv (w_shape_arg [2, 2]) k" by code_simp
  then have "raster (0 :: int) (\<lambda>_ x. x) out' (GeometryTile 1 (w_tensor [2, 3]) (w_shape_arg [2, 2]) out') (\<lambda>_. 0)
      (lin (shape out') [3, 4]) = lin (shape (w_tensor [2, 3])) (map2 (mod) [3, 4] (shape (w_tensor [2, 3])))"
    by (intro Tile_computes [OF o(1)]) (use o e in \<open>auto simp: inShape_def\<close>)
  then show ?thesis using o e by simp
qed

section \<open>BroadcastTo\<close>



section \<open>Space to depth and back\<close>


lemma depth_shapes:
  assumes "SpaceToDepthSizeComputer b [t] [out] = Some [d]" "DepthToSpaceSizeComputer b [d] [out2] = Some [t']"
  shows "dimensions t = 4" "0 < b" "dimensions d = 4" "dimensions t' = 4"
    "dimensionFormat d = dimensionFormat t" "dimensionFormat t' = dimensionFormat t"
    "batch d = batch t" "channel d = b * b * channel t" "height t = height d * b" "width t = width d * b"
    "batch t' = batch t" "channel t' = channel t" "height t' = height t" "width t' = width t"
proof -
  have g: "dimensions t = 4 \<and> 0 < b \<and> height t smod b = 0 \<and> width t smod b = 0"
    using assms(1) by (auto simp: SpaceToDepthSizeComputer_def Let_def height_def width_def split: if_splits)
  then have "0 < b * b" by simp
  then have c: "x * (b * b) sdiv (b * b) = x" for x by (rule sdiv_mult_cancel)
  note ex = sdiv_smod_exact [of "height t" b] sdiv_smod_exact [of "width t" b]
  have "dimensions t = 4 \<and> 0 < b \<and> dimensions d = 4 \<and> dimensions t' = 4 \<and>
    dimensionFormat d = dimensionFormat t \<and> dimensionFormat t' = dimensionFormat t \<and>
    batch d = batch t \<and> channel d = b * b * channel t \<and> height t = height d * b \<and> width t = width d * b \<and>
    batch t' = batch t \<and> channel t' = channel t \<and> height t' = height t \<and> width t' = width t"
    using assms g ex by (cases "dimensionFormat t = MNN_DATA_FORMAT_NHWC")
      (auto simp: SpaceToDepthSizeComputer_def DepthToSpaceSizeComputer_def Let_def height_def width_def batch_def
        channel_def is_tensorflow_def c)
  then show "dimensions t = 4" "0 < b" "dimensions d = 4" "dimensions t' = 4"
    "dimensionFormat d = dimensionFormat t" "dimensionFormat t' = dimensionFormat t"
    "batch d = batch t" "channel d = b * b * channel t" "height t = height d * b" "width t = width d * b"
    "batch t' = batch t" "channel t' = channel t" "height t' = height t" "width t' = width t" by blast+
qed

text \<open>
  C24. \<^verbatim>\<open>SpaceToDepth\<close> followed by \<^verbatim>\<open>DepthToSpace\<close> with the same block size and channel order, shape and
  data: the second operator's output has the input's shape, and holds the input's element at every index,
  in both dimension formats.
\<close>

theorem SpaceToDepth_identity:
  assumes "SpaceToDepthSizeComputer b [t] [out] = Some [d]" "DepthToSpaceSizeComputer b [d] [out2] = Some [t']"
    and "inShape (shape t) is" "deep = raster zero env d (GeometryDepthToSpace True b mode i t d) mem"
  shows "shape t' = shape t \<and>
    raster zero (\<lambda>_. deep) t' (GeometryDepthToSpace False b mode j d t') mem' (lin (shape t') is) = env i (lin (shape t) is)"
proof -
  note s = depth_shapes [OF assms(1,2)]
  let ?f = "dimensionFormat t" and ?B = "batch t" and ?C = "channel t" and ?H = "height d" and ?W = "width d"
  have t: "shape t = plane ?f ?B ?C (?H * b) (?W * b)" "shape t' = shape t" "shape d = plane ?f ?B (b * b * ?C) ?H ?W"
    using shape_plane [OF s(1)] shape_plane [OF s(3)] shape_plane [OF s(4)] s(5-) by simp_all
  obtain p c h w where i: "is = plane ?f p c h w" "0 \<le> p" "p < ?B" "0 \<le> c" "c < ?C" "0 \<le> h" "h < ?H * b" "0 \<le> w" "w < ?W * b"
    using assms(3) unfolding t(1) plane_index by blast
  let ?ch = "depthChannel mode b ?C c h w"
  let ?js = "plane ?f p ?ch (h div b) (w div b)"
  have r: "0 \<le> h mod b" "h mod b < b" "0 \<le> w mod b" "w mod b < b" using s(2) by simp_all
  note ch = depthChannel_block [OF s(2) i(4,5) r, of mode "h div b" "w div b", simplified]
  have js: "inShape (shape d) ?js"
    unfolding t(3) using i ch(1,2) s(2) div_pos_less [OF s(2)] by (simp add: pos_imp_zdiv_nonneg_iff)
  have returns: "describes (GeometryDepthToSpace False b mode j d t') (plane ?f ?B ?C (?H * b) (?W * b))
    (\<lambda>is. case unplane ?f is of (p, c, h, w) \<Rightarrow>
      Some (j, lin (plane ?f ?B (b * b * ?C) ?H ?W) (plane ?f p (depthChannel mode b ?C c h w) (h div b) (w div b))))"
    by (rule DepthToSpace_describes) (use s in simp_all)
  have leaves: "describes (GeometryDepthToSpace True b mode i t d) (plane ?f ?B (b * b * ?C) ?H ?W)
    (\<lambda>is. case unplane ?f is of (p, ch, h, w) \<Rightarrow> case blockOf mode b ?C ch of (c, hb, wb) \<Rightarrow>
      Some (i, lin (plane ?f ?B ?C (?H * b) (?W * b)) (plane ?f p c (h * b + hb) (w * b + wb))))"
    by (rule SpaceToDepth_describes) (use s i in simp_all)
  have "raster zero (\<lambda>_. deep) t' (GeometryDepthToSpace False b mode j d t') mem' (lin (shape t') is) = deep (lin (shape d) ?js)"
    unfolding t by (rule raster_described [OF returns]) (use i in simp_all)
  also have "\<dots> = env i (lin (shape t) is)"
    unfolding assms(4) t by (rule raster_described [OF leaves]) (use js ch(3) i t in simp_all)
  finally show ?thesis using t(2) by simp
qed

theorem SpaceToDepth_identity_witness:
  "\<exists>d t'. SpaceToDepthSizeComputer 2 [w_tensor [1, 3, 4, 6]] [w_tensor []] = Some [d] \<and>
    DepthToSpaceSizeComputer 2 [d] [w_tensor []] = Some [t'] \<and>
    raster (0 :: int) (\<lambda>_. raster 0 (\<lambda>_ x. x) d (GeometryDepthToSpace True 2 DepthToSpaceMode_CRD 1 (w_tensor [1, 3, 4, 6]) d) (\<lambda>_. 0))
      t' (GeometryDepthToSpace False 2 DepthToSpaceMode_CRD 2 d t') (\<lambda>_. 0) 53 = 53"
proof -
  let ?t = "w_tensor [1, 3, 4, 6]"
  have "map_option length (SpaceToDepthSizeComputer 2 [?t] [w_tensor []]) = Some 1"
    "map_option length (DepthToSpaceSizeComputer 2 [d] [w_tensor []]) = Some 1" for d
    by code_simp (simp add: DepthToSpaceSizeComputer_def Let_def)
  then obtain d t' where o: "SpaceToDepthSizeComputer 2 [?t] [w_tensor []] = Some [d]"
    "DepthToSpaceSizeComputer 2 [d] [w_tensor []] = Some [t']"
    by (fastforce simp: length_Suc_conv)
  have e: "shape ?t = [1, 3, 4, 6]" by code_simp
  have "shape t' = shape ?t \<and>
    raster (0 :: int) (\<lambda>_. raster 0 (\<lambda>_ x. x) d (GeometryDepthToSpace True 2 DepthToSpaceMode_CRD 1 ?t d) (\<lambda>_. 0))
      t' (GeometryDepthToSpace False 2 DepthToSpaceMode_CRD 2 d t') (\<lambda>_. 0) (lin (shape t') [0, 2, 0, 5]) = lin (shape ?t) [0, 2, 0, 5]"
    by (rule SpaceToDepth_identity [OF o _ refl]) (simp add: e inShape_def)
  moreover have "lin (shape ?t) [0, 2, 0, 5] = 53" by (simp add: e)
  ultimately show ?thesis using o by metis
qed

section \<open>ConvertTensor and Reshape\<close>

lemma convert_raster:
  assumes "dimensions t = 4" "positive (shape t)" "chw_format (dimensionFormat t)" "chw_format (dimensionFormat u)"
    and "0 \<le> b" "b < batch t" "0 \<le> c" "c < channel t" "0 \<le> h" "h < height t" "0 \<le> w" "w < width t"
  shows "raster zero env out (ConvertUtils_compute i t u) mem
      (lin (plane (dimensionFormat u) (batch t) (channel t) (height t) (width t)) (plane (dimensionFormat u) b c h w)) =
    env i (lin (shape t) (plane (dimensionFormat t) b c h w))"
  by (rule raster_described [OF Convert_describes [OF assms(1-4)]]) (use assms shape_plane [OF assms(1)] in simp_all)

text \<open>
  C25. Converting a four-dimensional tensor to another dimension format and back, shape and data: the result
  has the tensor's shape and holds the tensor's element at every index.
\<close>

theorem Convert_identity:
  assumes "TensorConvertSizeComputer f [t] [out] = Some [u]" "TensorConvertSizeComputer (dimensionFormat t) [u] [out2] = Some [t']"
    and "dimensions t = 4" "positive (shape t)" "chw_format (dimensionFormat t)" "chw_format f" "inShape (shape t) is"
    and "mid = raster zero env u (ConvertUtils_compute i t u) mem"
  shows "shape t' = shape t \<and>
    raster zero (\<lambda>_. mid) t' (ConvertUtils_compute j u t') mem' (lin (shape t') is) = env i (lin (shape t) is)"
proof -
  note s = TensorConvert_roundtrip [of t f out out2]
  have u: "dimensionFormat u = f" "shape t' = shape t" "dimensionFormat t' = dimensionFormat t"
    "batch u = batch t" "channel u = channel t" "height u = height t" "width u = width t"
    using s assms(1-6) by auto
  have d: "dimensions u = 4" using TensorConvert_eval [of t f out] assms(1,3,5,6) by auto
  obtain b c h w where i: "is = plane (dimensionFormat t) b c h w" "0 \<le> b" "b < batch t" "0 \<le> c" "c < channel t"
    "0 \<le> h" "h < height t" "0 \<le> w" "w < width t"
    using assms(7) unfolding shape_plane [OF assms(3)] plane_index by blast
  have su: "shape u = plane f (batch t) (channel t) (height t) (width t)" using shape_plane [OF d] u by simp
  have pos: "positive (shape u)" using assms(4) unfolding su shape_plane [OF assms(3)] positive_plane by simp
  have "raster zero (\<lambda>_. mid) t' (ConvertUtils_compute j u t') mem' (lin (shape t') is) = mid (lin (shape u) (plane f b c h w))"
    using convert_raster [OF d pos, where u = t' and b = b and c = c and h = h and w = w and i = j and out = t'] u i(2-) assms(5,6)
    unfolding i(1) shape_plane [OF assms(3)] u(2) by simp
  also have "\<dots> = env i (lin (shape t) is)"
    unfolding assms(8) su i(1) u(1) [symmetric] by (rule convert_raster) (use assms u(1) i in simp_all)
  finally show ?thesis using u(2) by simp
qed

theorem Convert_identity_witness:
  "\<exists>u t'. TensorConvertSizeComputer MNN_DATA_FORMAT_NHWC [w_tensor [1, 3, 4, 5]] [w_tensor []] = Some [u] \<and> shape u = [1, 4, 5, 3] \<and>
    TensorConvertSizeComputer MNN_DATA_FORMAT_NCHW [u] [w_tensor []] = Some [t'] \<and>
    raster (0 :: int) (\<lambda>_. raster 0 (\<lambda>_ x. x) u (ConvertUtils_compute 1 (w_tensor [1, 3, 4, 5]) u) (\<lambda>_. 0))
      t' (ConvertUtils_compute 2 u t') (\<lambda>_. 0) 47 = 47"
proof -
  let ?t = "w_tensor [1, 3, 4, 5]"
  have e: "shape ?t = [1, 3, 4, 5]" "dimensionFormat ?t = MNN_DATA_FORMAT_NCHW" by code_simp+
  have "map_option (map shape) (TensorConvertSizeComputer MNN_DATA_FORMAT_NHWC [?t] [w_tensor []]) = Some [[1, 4, 5, 3]]"
    by code_simp
  then obtain u where o: "TensorConvertSizeComputer MNN_DATA_FORMAT_NHWC [?t] [w_tensor []] = Some [u]" "shape u = [1, 4, 5, 3]" by auto
  obtain t' where o2: "TensorConvertSizeComputer (dimensionFormat ?t) [u] [w_tensor []] = Some [t']"
    using TensorConvert_roundtrip [of ?t MNN_DATA_FORMAT_NHWC "w_tensor []" "w_tensor []"] o e by (auto simp: chw_format_def)
  have "shape t' = shape ?t \<and>
    raster (0 :: int) (\<lambda>_. raster 0 (\<lambda>_ x. x) u (ConvertUtils_compute 1 ?t u) (\<lambda>_. 0)) t' (ConvertUtils_compute 2 u t') (\<lambda>_. 0)
      (lin (shape t') [0, 2, 1, 2]) = lin (shape ?t) [0, 2, 1, 2]"
    by (rule Convert_identity [OF o(1) o2 _ _ _ _ _ refl]) (simp_all add: e inShape_def chw_format_def)
  moreover have "lin (shape ?t) [0, 2, 1, 2] = 47" by (simp add: e)
  ultimately show ?thesis using o o2 unfolding e(2) by metis
qed

lemma setup_channels_last:
  assumes "dimensions t = 4" "caffeFormat (dimensionFormat t)"
  obtains w where "setupTensorInfo t newTensor MNN_DATA_FORMAT_NHWC = Some w" "dimensions w = 4"
    "dimensionFormat w = MNN_DATA_FORMAT_NHWC" "batch w = batch t" "channel w = channel t" "height w = height t" "width w = width t"
  using assms by (auto simp: setupTensorInfo_def newTensor_def Let_def caffeFormat_def tfFormat_def batch_def channel_def
      height_def width_def is_tensorflow_def)

text \<open>
  C26. \<^verbatim>\<open>Reshape\<close> of a packed tensor in channels-last order: through the two conversions that the geometry
  computer makes, the element of the output at some batch, channel, row and column is the element of the
  input that has the same position when both are laid out with the channels last.
\<close>

theorem Reshape_channels_last:
  assumes "GeometryReshape MNN_DATA_FORMAT_NHWC i j t virtual out = Some (rs, Some ms)"
    and "dimensions t = 4" "dimensions out = 4" "dimensionFormat t = MNN_DATA_FORMAT_NC4HW4" "dimensionFormat out = MNN_DATA_FORMAT_NC4HW4"
    and "positive (shape t)" "positive (shape out)"
    and "inShape (plane MNN_DATA_FORMAT_NHWC (batch t) (channel t) (height t) (width t)) (plane MNN_DATA_FORMAT_NHWC b c h w)"
    and "inShape (plane MNN_DATA_FORMAT_NHWC (batch out) (channel out) (height out) (width out)) (plane MNN_DATA_FORMAT_NHWC b' c' h' w')"
    and "lin (plane MNN_DATA_FORMAT_NHWC (batch out) (channel out) (height out) (width out)) (plane MNN_DATA_FORMAT_NHWC b' c' h' w') =
      lin (plane MNN_DATA_FORMAT_NHWC (batch t) (channel t) (height t) (width t)) (plane MNN_DATA_FORMAT_NHWC b c h w)"
    and "mid = raster zero env u ms mem"
  shows "raster zero (\<lambda>_. mid) out rs mem' (lin (shape out) [b', c', h', w']) = env i (lin (shape t) [b, c, h, w])"
proof -
  have f: "caffeFormat (dimensionFormat t)" "caffeFormat (dimensionFormat out)" using assms(4,5) by (simp_all add: caffeFormat_def)
  obtain x where x: "setupTensorInfo t newTensor MNN_DATA_FORMAT_NHWC = Some x" "dimensions x = 4" "dimensionFormat x = MNN_DATA_FORMAT_NHWC"
    "batch x = batch t" "channel x = channel t" "height x = height t" "width x = width t"
    using setup_channels_last [OF assms(2) f(1)] by blast
  obtain y where y: "setupTensorInfo out newTensor MNN_DATA_FORMAT_NHWC = Some y" "dimensions y = 4" "dimensionFormat y = MNN_DATA_FORMAT_NHWC"
    "batch y = batch out" "channel y = channel out" "height y = height out" "width y = width out"
    using setup_channels_last [OF assms(3) f(2)] by blast
  have ne: "ConvertUtils_compute i t x \<noteq> []" by (simp add: ConvertUtils_compute_def Let_def)
  have rs: "rs = ConvertUtils_compute j y out" "ms = ConvertUtils_compute i t x"
    using assms(1,4) x(1) y(1) ne by (simp_all add: GeometryReshape_def Let_def)
  have pos: "positive (shape y)" using assms(7) unfolding shape_plane [OF y(2)] shape_plane [OF assms(3)] positive_plane y(4-7) .
  have p: "[b', c', h', w'] = plane (dimensionFormat out) b' c' h' w'" "[b, c, h, w] = plane (dimensionFormat t) b c h w"
    using assms(4,5) by (simp_all add: plane_def)
  have "raster zero (\<lambda>_. mid) out rs mem' (lin (shape out) [b', c', h', w']) = mid (lin (shape y) (plane MNN_DATA_FORMAT_NHWC b' c' h' w'))"
    using convert_raster [OF y(2) pos, where u = out and b = b' and c = c' and h = h' and w = w' and i = j and out = out] assms(5,9) y(3-7)
    unfolding rs p shape_plane [OF assms(3)] by (simp add: chw_format_def)
  also have "lin (shape y) (plane MNN_DATA_FORMAT_NHWC b' c' h' w') =
      lin (plane (dimensionFormat x) (batch t) (channel t) (height t) (width t)) (plane (dimensionFormat x) b c h w)"
    using assms(10) unfolding shape_plane [OF y(2)] x(3) y(3-7) .
  also have "mid \<dots> = env i (lin (shape t) [b, c, h, w])"
    unfolding assms(11) rs p by (rule convert_raster) (use assms x(3) in \<open>simp_all add: chw_format_def\<close>)
  finally show ?thesis .
qed

theorem Reshape_channels_last_witness:
  "\<exists>rs ms. GeometryReshape MNN_DATA_FORMAT_NHWC 1 2 ((w_tensor [1, 4, 1, 3])\<lparr>dimensionFormat := MNN_DATA_FORMAT_NC4HW4\<rparr>) None
      ((w_tensor [1, 6, 1, 2])\<lparr>dimensionFormat := MNN_DATA_FORMAT_NC4HW4\<rparr>) = Some (rs, Some ms) \<and>
    raster (0 :: int) (\<lambda>_. raster 0 (\<lambda>_ x. x) (w_tensor []) ms (\<lambda>_. 0))
      ((w_tensor [1, 6, 1, 2])\<lparr>dimensionFormat := MNN_DATA_FORMAT_NC4HW4\<rparr>) rs (\<lambda>_. 0) 1 = 7"
proof -
  let ?t = "(w_tensor [1, 4, 1, 3])\<lparr>dimensionFormat := MNN_DATA_FORMAT_NC4HW4\<rparr>"
  let ?out = "(w_tensor [1, 6, 1, 2])\<lparr>dimensionFormat := MNN_DATA_FORMAT_NC4HW4\<rparr>"
  have e: "shape (w_tensor [1, 4, 1, 3]) = [1, 4, 1, 3]" "shape (w_tensor [1, 6, 1, 2]) = [1, 6, 1, 2]" by code_simp+
  have d: "batch ?t = 1" "channel ?t = 4" "height ?t = 1" "width ?t = 3" "batch ?out = 1" "channel ?out = 6" "height ?out = 1" "width ?out = 2"
    by code_simp+
  obtain rs ms where o: "GeometryReshape MNN_DATA_FORMAT_NHWC 1 2 ?t None ?out = Some (rs, Some ms)"
  proof -
    have "map_option (\<lambda>(rs, ms). ms \<noteq> None) (GeometryReshape MNN_DATA_FORMAT_NHWC 1 2 ?t None ?out) = Some True" by code_simp
    then show thesis using that by (auto split: prod.splits)
  qed
  have "raster (0 :: int) (\<lambda>_. raster 0 (\<lambda>_ x. x) (w_tensor []) ms (\<lambda>_. 0)) ?out rs (\<lambda>_. 0) (lin (shape ?out) [0, 0, 0, 1]) =
      lin (shape ?t) [0, 2, 0, 1]"
    by (rule Reshape_channels_last [OF o, where mid = "raster 0 (\<lambda>_ x. x) (w_tensor []) ms (\<lambda>_. 0)"]) (simp_all add: e d plane_def inShape_def)
  then have "raster (0 :: int) (\<lambda>_. raster 0 (\<lambda>_ x. x) (w_tensor []) ms (\<lambda>_. 0)) ?out rs (\<lambda>_. 0) 1 = 7" by (simp add: e)
  then show ?thesis using o by blast
qed

section \<open>Crop and padding\<close>

lemma fold_setLength_if:
  "dimensions (fold (\<lambda>i ob. if i < a then setLength i (f i) ob else ob) ks t) = dimensions t"
  by (induction ks arbitrary: t) simp_all

text \<open>
  C22. \<^verbatim>\<open>Crop\<close>, shape and data: when the block fits, the element of the output at an index is the element of
  the input at that index plus the offsets, one for every axis from the operator's axis on.
\<close>

theorem Crop_computes:
  assumes "CropSizeComputer axis [input, reference] [out] = Some [out']" "dimensions reference = dimensions input"
    and "positive (shape out')" "inShape (shape out') is"
    and "\<forall>k \<in> {0..<dimensions input}. 0 \<le> cropOffsets axis offs input ! nat k \<and>
      cropOffsets axis offs input ! nat k + tlength out' k \<le> tlength input k"
  shows "raster zero env out' (GeometryCrop axis offs i input out') mem (lin (shape out') is) =
    env i (lin (shape input) (map2 (+) (cropOffsets axis offs input) is))"
proof -
  have "dimensions out' = dimensions input"
    using assms(1,2) by (auto simp: CropSizeComputer_def Let_def fold_setLength_if)
  from raster_element [OF GeometryCrop_describes [OF this assms(3,5)] assms(4)] show ?thesis .
qed

theorem Crop_computes_witness:
  "\<exists>out'. CropSizeComputer 2 [w_tensor [1, 2, 5, 6], w_tensor [1, 2, 2, 3]] [w_tensor []] = Some [out'] \<and> shape out' = [1, 2, 2, 3] \<and>
    raster (0 :: int) (\<lambda>_ x. x) out' (GeometryCrop 2 [3, 1] 1 (w_tensor [1, 2, 5, 6]) out') (\<lambda>_. 0) (lin [1, 2, 2, 3] [0, 1, 1, 2]) =
    lin [1, 2, 5, 6] [0, 1, 4, 3]"
proof -
  have "map_option (map shape) (CropSizeComputer 2 [w_tensor [1, 2, 5, 6], w_tensor [1, 2, 2, 3]] [w_tensor []]) = Some [[1, 2, 2, 3]]"
    by code_simp
  then obtain out' where o: "CropSizeComputer 2 [w_tensor [1, 2, 5, 6], w_tensor [1, 2, 2, 3]] [w_tensor []] = Some [out']"
    "shape out' = [1, 2, 2, 3]" by auto
  let ?t = "w_tensor [1, 2, 5, 6]"
  have e: "shape ?t = [1, 2, 5, 6]" "cropOffsets 2 [3, 1] ?t = [0, 0, 3, 1]" "dimensions ?t = 4" "dimensions (w_tensor [1, 2, 2, 3]) = 4"
    by code_simp+
  have t: "tlength ?t 0 = 1" "tlength ?t 1 = 2" "tlength ?t 2 = 5" "tlength ?t 3 = 6" by code_simp+
  have "nat (dimensions out') = 4" using o(2) length_shape [of out'] by simp
  then have x: "tlength out' 0 = 1" "tlength out' 1 = 2" "tlength out' 2 = 2" "tlength out' 3 = 3"
    using shape_nth [of 0 out'] shape_nth [of 1 out'] shape_nth [of 2 out'] shape_nth [of 3 out'] o(2) by simp_all
  have "{0..<4 :: int} = {0, 1, 2, 3}" by auto
  then have "raster (0 :: int) (\<lambda>_ x. x) out' (GeometryCrop 2 [3, 1] 1 ?t out') (\<lambda>_. 0) (lin (shape out') [0, 1, 1, 2]) =
      lin (shape ?t) (map2 (+) (cropOffsets 2 [3, 1] ?t) [0, 1, 1, 2])"
    by (intro Crop_computes [OF o(1)]) (simp_all add: o e t x inShape_def)
  then show ?thesis using o by (simp add: e)
qed



section \<open>The test of the raster command\<close>

theorem regionIsFull_covers_witness:
  "regionIsFull (w_tensor [5]) [mk_region 0 [1, 1, 1] 0 [1, 1, 1] [1, 1, 2] (Some 1), mk_region 0 [1, 1, 1] 2 [1, 1, 1] [1, 1, 3] (Some 2)] \<longleftrightarrow>
    {0, 1, 2, 3, 4} = {0..<5 :: int}"
proof -
  let ?rs = "[mk_region 0 [1, 1, 1] 0 [1, 1, 1] [1, 1, 2] (Some 1), mk_region 0 [1, 1, 1] 2 [1, 1, 1] [1, 1, 3] (Some 2)]"
  have m: "moves ?rs = [(0, 1, 0), (1, 1, 1), (2, 2, 0), (3, 2, 1), (4, 2, 2)]" by code_simp
  have e: "elementCount (w_tensor [5]) = 5" by code_simp
  have p: "proper ?rs" by (simp add: proper_def mk_region_def)
  show ?thesis using regionIsFull_covers [OF p, of "w_tensor [5]"] unfolding m e by simp
qed

end
