(* ===== verification/Geometry_Flaws.thy ===== *)
theory Geometry_Flaws
  imports Region_Fuse_Correct Geometry_Raster Geometry_Axis Geometry_Layout Shape_Layout_Correct
begin

text \<open>
  Where the geometry stage goes wrong: concrete operators, all accepted by the shape stage, whose regions
  write outside the output, read outside the input or take the wrong element, and a pair of regions whose
  fusion loses an element. \<open>fst ` set (moves rs)\<close> are the positions that regions write, the third
  components the positions they read.
\<close>

section \<open>Fusion without coverage\<close>

text \<open>
  Without the coverage that fusion needs, it loses elements. A tensor of two elements is padded by one on
  both sides, reshaped to a 2 by 2 matrix and transposed: \<^verbatim>\<open>match\<close> accepts the two regions, and the fused
  one writes one of the two elements.
\<close>

definition w_pad :: Region where
  "w_pad = mk_region 0 [1, 1, 1] 1 [1, 1, 1] [1, 1, 2] (Some 1)"

definition w_turn :: Region where
  "w_turn = mk_region 0 [0, 1, 2] 0 [0, 2, 1] [1, 2, 2] (Some 2)"

text \<open>
  C38. Flaw. A tensor of two elements is padded by one on both sides, reshaped to a 2 by 2 matrix and
  transposed: the region of the padding and the region of the transposition compose to two copies, but
  \<^verbatim>\<open>match\<close> accepts them and the fused region makes only one.
\<close>

theorem fuse_loses_element:
  "GeometryPad PadValueMode_CONSTANT None 1 (w_tensor [2]) (w_shape_arg [1, 1]) None (w_tensor [4]) = [w_pad] \<and>
   GeometryPermute (OpType_Permute None) 2 (w_tensor [2, 2]) = [w_turn] \<and>
   {(x, z). \<exists>y. (x, y) \<in> set (regionPairs w_turn) \<and> (y, z) \<in> set (regionPairs w_pad)} = {(2, 0), (1, 1)} \<and>
   (\<exists>st'. match w_pad w_turn w_status = (True, st') \<and> set (regionPairs (applyFuse st' w_pad w_turn)) = {(2, 0)})"
proof (intro conjI)
  show "GeometryPad PadValueMode_CONSTANT None 1 (w_tensor [2]) (w_shape_arg [1, 1]) None (w_tensor [4]) = [w_pad]"
    "GeometryPermute (OpType_Permute None) 2 (w_tensor [2, 2]) = [w_turn]" by code_simp+
  have "set (regionPairs w_turn) = {(0, 0), (1, 2), (2, 1), (3, 3)}" "set (regionPairs w_pad) = {(1, 0), (2, 1)}"
    by code_simp+
  then show "{(x, z). \<exists>y. (x, y) \<in> set (regionPairs w_turn) \<and> (y, z) \<in> set (regionPairs w_pad)} = {(2, 0), (1, 1)}" by auto
  let ?st' = "snd (match w_pad w_turn w_status)"
  have "match w_pad w_turn w_status = (True, ?st')" by code_simp
  moreover have "set (regionPairs (applyFuse ?st' w_pad w_turn)) = {(2, 0)}" by code_simp
  ultimately show "\<exists>st'. match w_pad w_turn w_status = (True, st') \<and> set (regionPairs (applyFuse st' w_pad w_turn)) = {(2, 0)}"
    by blast
qed

section \<open>StridedSlice\<close>

text \<open>
  C39. Flaw. Ten elements sliced from 9 down to 4 by steps of -1: the shape stage gives five elements, but
  the geometry stage limits the end to the number of dimensions and writes eight.
\<close>

theorem StridedSlice_reverse_overruns:
  "\<exists>out' rs. StridedSliceComputer 0 0 0 0 0 0 [w_tensor [10], w_shape_arg [9], w_shape_arg [4], w_shape_arg [-1]] [w_tensor []] =
       Some [out'] \<and>
     GeometryStridedSlice 0 0 0 0 0 0 1 2 3 [w_tensor [10], w_shape_arg [9], w_shape_arg [4], w_shape_arg [-1]] = Some (rs, None) \<and>
     elementCount out' = 5 \<and> map fst (moves rs) = [0..7]"
proof -
  have "map_option (map elementCount)
      (StridedSliceComputer 0 0 0 0 0 0 [w_tensor [10], w_shape_arg [9], w_shape_arg [4], w_shape_arg [-1]] [w_tensor []]) = Some [5]"
    by code_simp
  moreover have "map_option (\<lambda>(rs, extra). (map fst (moves rs), extra))
      (GeometryStridedSlice 0 0 0 0 0 0 1 2 3 [w_tensor [10], w_shape_arg [9], w_shape_arg [4], w_shape_arg [-1]]) = Some ([0..7], None)"
    by code_simp
  ultimately show ?thesis by auto
qed

section \<open>Pad\<close>

text \<open>
  C40. Flaw. Padding three elements by -1 on the left gives two elements, but the geometry stage looks for
  positive paddings only and copies all three. Padding in reflect mode with more than three axes reads
  behind the end of the input: with extents 1, 3, 2, 3, 2, 3, position 142 of 108.
\<close>

theorem Pad_overruns:
  "map_option (map (\<lambda>out'. (elementCount out',
       map fst (moves (GeometryPad PadValueMode_CONSTANT None 1 (w_tensor [3]) (w_shape_arg [-1, 0]) None out')))))
     (PaddingComputer [w_tensor [3], w_shape_arg [-1, 0]] [w_tensor []]) = Some [(2, [0, 1, 2])] \<and>
   elementCount (w_tensor [1, 3, 2, 3, 2, 3]) = 108 \<and>
   map_option (map (\<lambda>out'. \<exists>m \<in> set (moves (GeometryPad PadValueMode_REFLECT None 1 (w_tensor [1, 3, 2, 3, 2, 3])
       (w_shape_arg [0, 0, 1, 0, 0, 0, 1, 0, 0, 0, 1, 0]) None out')). snd (snd m) = 142))
     (PaddingComputer [w_tensor [1, 3, 2, 3, 2, 3], w_shape_arg [0, 0, 1, 0, 0, 0, 1, 0, 0, 0, 1, 0]] [w_tensor []]) = Some [True]"
  by (intro conjI; code_simp)

section \<open>SpaceToBatchND\<close>

definition w_fun :: "int list \<Rightarrow> int \<Rightarrow> int" where
  "w_fun xs i = (if 0 \<le> i \<and> i < int (length xs) then xs ! nat i else 0)"

text \<open>
  Flaw. Two rows of four elements with two rows of padding on top and blocks of 2 by 2: the first
  element that the geometry stage copies is element 2, where block row 1, block column 0 holds element 0,
  and it reads element 8 of 8, because it computes the first column from the first row.
\<close>

theorem SpaceToBatch_uneven_padding:
  "map_option (map (\<lambda>out'. (shape out', map (\<lambda>(x, i, y). (x, y))
       (moves (GeometrySpaceToBatchND False 2 (w_fun [2, 2]) (w_fun [2, 0, 0, 0]) 1 (w_tensor [1, 1, 2, 4]) out'))))) 
     (SpaceToBatchNDSizeComputer 2 (w_fun [2, 2]) (w_fun [2, 0, 0, 0]) [w_tensor [1, 1, 2, 4]] [w_tensor []]) =
   Some [([4, 1, 2, 2], [(2, 2), (3, 4), (6, 3), (7, 5), (10, 6), (11, 8), (14, 7), (15, 9)])]"
  by code_simp

end
