(* ===== verification/Eager_Pool.thy ===== *)
theory Eager_Pool
  imports MNN_Prelude
begin

text \<open>
  The eager memory pool of MNN (\<^verbatim>\<open>source/core/BufferAllocator.cpp\<close>, \<^verbatim>\<open>EagerBufferAllocator\<close>): memory is
  obtained from an \<^verbatim>\<open>Allocator\<close> when it is asked for, cut into nodes and reused. A \<^verbatim>\<open>SharedPtr<Node>\<close> is the
  number of the node in a store, numbers are given out in the order in which nodes are made, and the
  base address \<open>first\<close> of a pointer is a number other than that of the null pointer. What
  \<^verbatim>\<open>mAllocator->onAlloc\<close> answers is an argument of the operation that may call it, \<^const>\<open>None\<close> for null.
  \<^verbatim>\<open>size_t\<close> values are \<^typ>\<open>nat\<close>, with the wrap-around written out where the code subtracts.
\<close>

section \<open>State\<close>

record PoolNode =
  pointer :: "nat \<times> nat"
  nodeParent :: "nat option"
  nodeSize :: nat
  nodeCount :: nat

type_synonym FREELIST = "(nat \<times> nat) list"

datatype ListRef = MainList | Group nat

record Pool =
  pnodes :: "nat \<Rightarrow> PoolNode"
  pnext :: nat
  mUsedList :: "((nat \<times> nat) \<times> nat) list"
  mFreeList :: FREELIST
  mCurrentFreeList :: "nat option"
  mGroups :: "FREELIST list"
  mTotalSize :: nat
  mAlign :: nat
  mMinAllocSize :: nat

definition initPool :: "nat \<Rightarrow> nat \<Rightarrow> Pool" where
  "initPool align minAllocSize = \<lparr>pnodes = (\<lambda>_. \<lparr>pointer = (0, 0), nodeParent = None, nodeSize = 0, nodeCount = 0\<rparr>),
     pnext = 0, mUsedList = [], mFreeList = [], mCurrentFreeList = None, mGroups = [], mTotalSize = 0,
     mAlign = align, mMinAllocSize = minAllocSize\<rparr>"

text \<open>A free list is a \<^verbatim>\<open>std::multimap\<close> from sizes to nodes: an entry is put behind those of the same size.\<close>

definition mapInsert :: "nat \<Rightarrow> nat \<Rightarrow> FREELIST \<Rightarrow> FREELIST" where
  "mapInsert k n l = takeWhile (\<lambda>e. fst e \<le> k) l @ (k, n) # dropWhile (\<lambda>e. fst e \<le> k) l"

definition lowerBound :: "nat \<Rightarrow> FREELIST \<Rightarrow> (nat \<times> nat) option" where
  "lowerBound k l = find (\<lambda>e. k \<le> fst e) l"

fun getList :: "ListRef \<Rightarrow> Pool \<Rightarrow> FREELIST" where
  "getList MainList s = mFreeList s"
| "getList (Group g) s = mGroups s ! g"

fun changeList :: "ListRef \<Rightarrow> (FREELIST \<Rightarrow> FREELIST) \<Rightarrow> Pool \<Rightarrow> Pool" where
  "changeList MainList f s = s\<lparr>mFreeList := f (mFreeList s)\<rparr>"
| "changeList (Group g) f s = s\<lparr>mGroups := (mGroups s)[g := f (mGroups s ! g)]\<rparr>"

text \<open>\<^verbatim>\<open>mUsedList.insert\<close> keeps an entry that is there, \<^verbatim>\<open>mUsedList[pointer] = node\<close> replaces it.\<close>

definition insertUsed :: "nat \<times> nat \<Rightarrow> nat \<Rightarrow> Pool \<Rightarrow> Pool" where
  "insertUsed p n s = (if p \<in> fst ` set (mUsedList s) then s else s\<lparr>mUsedList := (p, n) # mUsedList s\<rparr>)"

definition setUsed :: "nat \<times> nat \<Rightarrow> nat \<Rightarrow> Pool \<Rightarrow> Pool" where
  "setUsed p n s = s\<lparr>mUsedList := (p, n) # filter (\<lambda>e. fst e \<noteq> p) (mUsedList s)\<rparr>"

definition changeNode :: "nat \<Rightarrow> (PoolNode \<Rightarrow> PoolNode) \<Rightarrow> Pool \<Rightarrow> Pool" where
  "changeNode n f s = s\<lparr>pnodes := (pnodes s)(n := f (pnodes s n))\<rparr>"

definition newNode :: "PoolNode \<Rightarrow> Pool \<Rightarrow> Pool" where
  "newNode n s = s\<lparr>pnodes := (pnodes s)(pnext s := n), pnext := Suc (pnext s)\<rparr>"

definition countUp :: "nat \<Rightarrow> Pool \<Rightarrow> Pool" where
  "countUp n s = changeNode n (nodeCount_update (\<lambda>c. c + 1)) s"

definition countDown :: "nat \<Rightarrow> Pool \<Rightarrow> Pool" where
  "countDown n s = changeNode n (nodeCount_update (\<lambda>c. if c = 0 then 2 ^ 64 - 1 else c - 1)) s"

section \<open>Taking memory\<close>

definition getFromFreeList :: "ListRef \<Rightarrow> nat \<Rightarrow> bool \<Rightarrow> nat \<Rightarrow> Pool \<Rightarrow> ((nat \<times> nat) \<times> Pool) option" where
  "getFromFreeList list sz permiteSplit align s =
     (let needExtraSize = mAlign s mod align \<noteq> 0;
          realSize = (if needExtraSize then sz + align - 1 else sz)
      in case lowerBound realSize (getList list s) of
           None \<Rightarrow> None
         | Some (k, x) \<Rightarrow>
             (let n = pnodes s x; (base, originOffset) = pointer n;
                  offset = (if needExtraSize then align_up originOffset align else originOffset);
                  realSize = (if needExtraSize then sz + offset - originOffset else realSize);
                  s = (case nodeParent n of Some p \<Rightarrow> if permiteSplit then countUp p s else s | None \<Rightarrow> s);
                  sizeAlign = align_up realSize (mAlign s)
              in if sizeAlign \<ge> k \<or> \<not> permiteSplit then
                   Some ((base, offset), changeList list (remove1 (k, x)) (insertUsed (base, offset) x s))
                 else
                   (let first = pnext s; second = Suc first;
                        s = newNode \<lparr>pointer = (base, originOffset), nodeParent = Some x, nodeSize = sizeAlign, nodeCount = 0\<rparr> s;
                        s = countUp x (insertUsed (base, offset) first s);
                        s = newNode \<lparr>pointer = (base, originOffset + sizeAlign), nodeParent = Some x,
                              nodeSize = nodeSize n - sizeAlign, nodeCount = 0\<rparr> s
                    in Some ((base, offset),
                         changeList list (\<lambda>l. mapInsert (nodeSize n - sizeAlign) second (remove1 (k, x) l)) s))))"

text \<open>The list that memory is put into: that of the group if one is open.\<close>

definition targetList :: "Pool \<Rightarrow> ListRef" where
  "targetList s = (case mCurrentFreeList s of Some g \<Rightarrow> Group g | None \<Rightarrow> MainList)"

definition reuse :: "nat \<Rightarrow> nat \<Rightarrow> Pool \<Rightarrow> ((nat \<times> nat) \<times> Pool) option" where
  "reuse sz align s =
     (case (case mCurrentFreeList s of Some g \<Rightarrow> getFromFreeList (Group g) sz False align s | None \<Rightarrow> None) of
        Some r \<Rightarrow> Some r
      | None \<Rightarrow> getFromFreeList MainList sz True align s)"

text \<open>The size that \<^verbatim>\<open>onAlloc\<close> is asked for.\<close>

definition allocSize :: "nat \<Rightarrow> Pool \<Rightarrow> nat" where
  "allocSize sz s = (if mMinAllocSize s \<noteq> 0 then max (mMinAllocSize s) sz else sz)"

definition allocNew :: "nat \<Rightarrow> nat \<times> nat \<Rightarrow> Pool \<Rightarrow> Pool" where
  "allocNew sz p s =
     (let total = allocSize sz s; node = pnext s;
          s = newNode \<lparr>pointer = p, nodeParent = None, nodeSize = total, nodeCount = 0\<rparr>
                (s\<lparr>mTotalSize := mTotalSize s + total\<rparr>)
      in if total > sz then
           (let sz = align_up sz (mAlign s); rest = (total + 2 ^ 64 - sz) mod 2 ^ 64;
                first = pnext s; second = Suc first;
                s = newNode \<lparr>pointer = p, nodeParent = Some node, nodeSize = sz, nodeCount = 0\<rparr> s;
                s = changeNode node (nodeCount_update (\<lambda>_. 1)) (insertUsed p first s);
                s = newNode \<lparr>pointer = (fst p, snd p + sz), nodeParent = Some node, nodeSize = rest, nodeCount = 0\<rparr> s
            in changeList (targetList s) (mapInsert rest second) s)
         else setUsed p node s)"

definition pool_alloc :: "nat \<Rightarrow> bool \<Rightarrow> nat \<Rightarrow> (nat \<times> nat) option \<Rightarrow> Pool \<Rightarrow> (nat \<times> nat) option \<times> Pool" where
  "pool_alloc sz separate align answer s =
     (let align = (if align = 0 then mAlign s else align)
      in case (if separate then None else reuse sz align s) of
           Some (p, s) \<Rightarrow> (Some p, s)
         | None \<Rightarrow>
             (case answer of
                None \<Rightarrow> (None, s)
              | Some p \<Rightarrow> (Some p, allocNew sz p s)))"

section \<open>Giving memory back\<close>

text \<open>
  The loop of \<^verbatim>\<open>returnMemory\<close> over the parents that are no longer used; every chain of parents is shorter
  than the number of nodes, which is the fuel.
\<close>

fun mergeUp :: "nat \<Rightarrow> ListRef \<Rightarrow> nat \<Rightarrow> Pool \<Rightarrow> Pool" where
  "mergeUp 0 list p s = s"
| "mergeUp (Suc fuel) list p s =
     (if nodeCount (pnodes s p) \<noteq> 0 then s
      else
        (let s = changeList list (\<lambda>l. mapInsert (nodeSize (pnodes s p)) p
               (filter (\<lambda>e. nodeParent (pnodes s (snd e)) \<noteq> Some p) l)) s
         in case nodeParent (pnodes s p) of
              None \<Rightarrow> s
            | Some q \<Rightarrow> mergeUp fuel list q (countDown q s)))"

definition returnMemory :: "ListRef \<Rightarrow> nat \<Rightarrow> bool \<Rightarrow> Pool \<Rightarrow> Pool" where
  "returnMemory list n permitMerge s =
     (let s = changeList list (mapInsert (nodeSize (pnodes s n)) n) s
      in case nodeParent (pnodes s n) of
           Some p \<Rightarrow> if permitMerge then mergeUp (pnext s) list p (countDown p s) else s
         | None \<Rightarrow> s)"

definition pool_free :: "nat \<times> nat \<Rightarrow> Pool \<Rightarrow> bool \<times> Pool" where
  "pool_free p s =
     (case map_of (mUsedList s) p of
        None \<Rightarrow> (False, s)
      | Some n \<Rightarrow>
          (let s = s\<lparr>mUsedList := filter (\<lambda>e. fst e \<noteq> p) (mUsedList s)\<rparr>
           in (True, returnMemory (targetList s) n (mCurrentFreeList s = None) s)))"

definition pool_release :: "bool \<Rightarrow> Pool \<Rightarrow> Pool" where
  "pool_release allRelease s =
     (if allRelease then s\<lparr>mUsedList := [], mFreeList := [], mTotalSize := 0\<rparr>
      else
        (let root = (\<lambda>e :: nat \<times> nat. nodeParent (pnodes s (snd e)) = None)
         in s\<lparr>mTotalSize := foldl (\<lambda>t e. t - fst e) (mTotalSize s) (filter root (mFreeList s)),
              mFreeList := filter (\<lambda>e. \<not> root e) (mFreeList s)\<rparr>))"

section \<open>Groups\<close>

definition pool_barrierEnd :: "Pool \<Rightarrow> Pool" where
  "pool_barrierEnd s = (fold (\<lambda>e. returnMemory MainList (snd e) True) (concat (mGroups s)) s)\<lparr>mGroups := []\<rparr>"

definition pool_beginGroup :: "Pool \<Rightarrow> Pool" where
  "pool_beginGroup s = s\<lparr>mCurrentFreeList := Some (length (mGroups s)), mGroups := mGroups s @ [[]]\<rparr>"

definition pool_endGroup :: "Pool \<Rightarrow> Pool" where
  "pool_endGroup s = s\<lparr>mCurrentFreeList := None\<rparr>"

section \<open>What is referenced\<close>

text \<open>
  \<^verbatim>\<open>~Node\<close> gives a chunk back to the \<^verbatim>\<open>Allocator\<close> when the last reference to a node without a parent goes:
  a node is referenced by the lists and by its children.
\<close>

fun ancestors :: "nat \<Rightarrow> Pool \<Rightarrow> nat \<Rightarrow> nat list" where
  "ancestors 0 s n = []"
| "ancestors (Suc fuel) s n = n # (case nodeParent (pnodes s n) of None \<Rightarrow> [] | Some p \<Rightarrow> ancestors fuel s p)"

definition entries :: "Pool \<Rightarrow> nat list" where
  "entries s = map snd (mUsedList s) @ map snd (mFreeList s) @ map snd (concat (mGroups s))"

definition referenced :: "Pool \<Rightarrow> nat list" where
  "referenced s = remdups (concat (map (ancestors (pnext s) s) (entries s)))"

text \<open>The chunks of the \<^verbatim>\<open>Allocator\<close> that the pool has, and those an operation gives back.\<close>

definition chunks :: "Pool \<Rightarrow> ((nat \<times> nat) \<times> nat) list" where
  "chunks s = map (\<lambda>n. (pointer (pnodes s n), nodeSize (pnodes s n)))
     (filter (\<lambda>n. nodeParent (pnodes s n) = None) (referenced s))"

definition onReleased :: "Pool \<Rightarrow> Pool \<Rightarrow> (nat \<times> nat) list" where
  "onReleased s s' = map (\<lambda>n. pointer (pnodes s n))
     (filter (\<lambda>n. nodeParent (pnodes s n) = None \<and> n \<notin> set (referenced s')) (referenced s))"

end
