(* ===== verification/Eager_Forest.thy ===== *)
theory Eager_Forest
  imports Eager_Pool
begin

text \<open>
  The forest that the nodes of a pool form, apart from how the pool stores it: \<open>P\<close> is the parent of a node,
  \<open>A\<close> the nodes that are referenced, \<open>L\<close> those that are in a list (the leaves), \<open>F\<close> those in the free
  list, \<open>R\<close> the bytes of a node and \<open>C\<close> its use count. Every change that the pool makes is one of six.
\<close>

definition busy :: "(nat \<Rightarrow> nat option) \<Rightarrow> nat set \<Rightarrow> nat set \<Rightarrow> nat \<Rightarrow> nat set" where
  "busy P A F n = {c \<in> A. P c = Some n \<and> c \<notin> F}"

definition tree_shaped :: "(nat \<Rightarrow> nat option) \<Rightarrow> nat set \<Rightarrow> nat set \<Rightarrow> (nat \<Rightarrow> 'b set) \<Rightarrow> bool" where
  "tree_shaped P A L R \<longleftrightarrow> finite A \<and> L \<subseteq> A \<and>
     (\<forall>n \<in> A. \<forall>p. P n = Some p \<longrightarrow> p \<in> A \<and> p \<notin> L \<and> p < n \<and> R n \<subseteq> R p) \<and>
     (\<forall>n \<in> A - L. \<exists>c \<in> A. P c = Some n) \<and>
     (\<forall>m \<in> A. \<forall>n \<in> A. m \<noteq> n \<longrightarrow> P m = P n \<longrightarrow> R m \<inter> R n = {})"

definition forest :: "(nat \<Rightarrow> nat option) \<Rightarrow> nat set \<Rightarrow> nat set \<Rightarrow> nat set \<Rightarrow> (nat \<Rightarrow> 'b set) \<Rightarrow> (nat \<Rightarrow> nat) \<Rightarrow> bool" where
  "forest P A L F R C \<longleftrightarrow> tree_shaped P A L R \<and> F \<subseteq> L \<and> (\<forall>n \<in> A. C n = card (busy P A F n))"

lemma finite_busy: "finite A \<Longrightarrow> finite (busy P A F n)"
  by (simp add: busy_def)

lemma tree_shapedD:
  assumes "tree_shaped P A L R"
  shows "finite A" "L \<subseteq> A" "n \<in> A \<Longrightarrow> P n = Some p \<Longrightarrow> p \<in> A \<and> p \<notin> L \<and> p < n \<and> R n \<subseteq> R p"
    "n \<in> A \<Longrightarrow> n \<notin> L \<Longrightarrow> \<exists>c \<in> A. P c = Some n"
    "m \<in> A \<Longrightarrow> n \<in> A \<Longrightarrow> m \<noteq> n \<Longrightarrow> P m = P n \<Longrightarrow> R m \<inter> R n = {}"
  using assms by (simp_all add: tree_shaped_def)

lemma leaf_childless: "tree_shaped P A L R \<Longrightarrow> x \<in> L \<Longrightarrow> c \<in> A \<Longrightarrow> P c \<noteq> Some x"
  using tree_shapedD(3) by metis

lemma forest_cong:
  assumes "forest P A L F R C" "\<And>n. n \<in> A \<Longrightarrow> P' n = P n" "\<And>n. n \<in> A \<Longrightarrow> R' n = R n" "\<And>n. n \<in> A \<Longrightarrow> C' n = C n"
  shows "forest P' A L F R' C'"
proof -
  have b: "busy P' A F n = busy P A F n" for n using assms(2) by (auto simp: busy_def)
  have p: "P n = Some p \<Longrightarrow> n \<in> A \<Longrightarrow> p \<in> A" for n p using assms(1) tree_shapedD(3) unfolding forest_def by metis
  have "tree_shaped P' A L R'"
    using assms(1) p unfolding forest_def tree_shaped_def by (simp add: assms(2,3) cong: conj_cong)
  then show ?thesis using assms(1,4) by (simp add: forest_def b)
qed

section \<open>The six changes\<close>

lemma forest_take:
  assumes "forest P A L F R C" "x \<in> F" "\<And>n. n \<in> A \<Longrightarrow> C' n = C n + (if P x = Some n then 1 else 0)"
  shows "forest P A L (F - {x}) R C'"
proof -
  have f: "tree_shaped P A L R" "x \<in> A" "finite A" using assms(1,2) by (auto simp: forest_def tree_shaped_def)
  have "busy P A (F - {x}) n = (if P x = Some n then insert x (busy P A F n) else busy P A F n)" for n
    using f(2) by (auto simp: busy_def)
  moreover have "x \<notin> busy P A F n" for n using assms(2) by (simp add: busy_def)
  ultimately show ?thesis using assms f(3) finite_busy [of A P F] by (auto simp: forest_def)
qed

lemma forest_give:
  assumes "forest P A L F R C" "x \<in> L" "x \<notin> F" "\<And>n. n \<in> A \<Longrightarrow> C' n = (if P x = Some n then C n - 1 else C n)"
  shows "forest P A L (insert x F) R C'" "P x = Some n \<Longrightarrow> 0 < C n"
proof -
  have f: "tree_shaped P A L R" "x \<in> A" "finite A" using assms(1,2) by (auto simp: forest_def tree_shaped_def)
  have "busy P A (insert x F) n = (if P x = Some n then busy P A F n - {x} else busy P A F n)" for n
    by (auto simp: busy_def)
  moreover have x: "x \<in> busy P A F n" if "P x = Some n" for n using that f(2) assms(3) by (simp add: busy_def)
  ultimately show "forest P A L (insert x F) R C'"
    using assms f finite_busy [of A P F] by (auto simp: forest_def)
  show "0 < C n" if n: "P x = Some n"
  proof -
    have "n \<in> A" using tree_shapedD(3) [OF f(1,2) n] by simp
    then have "C n = card (busy P A F n)" using assms(1) by (simp add: forest_def)
    then show ?thesis using x [OF n] finite_busy [OF f(3), of P F n] by (auto simp: card_gt_0_iff)
  qed
qed

lemma forest_root:
  assumes "forest P A L F R C" "r \<notin> A" "P' r = None" "C' r = 0" "\<And>m. m \<in> A \<Longrightarrow> P m = None \<Longrightarrow> R m \<inter> R' r = {}"
    and "\<And>n. n \<in> A \<Longrightarrow> P' n = P n" "\<And>n. n \<in> A \<Longrightarrow> R' n = R n" "\<And>n. n \<in> A \<Longrightarrow> C' n = C n"
  shows "forest P' (insert r A) (insert r L) F R' C'"
proof -
  have f: "forest P' A L F R' C'" by (rule forest_cong [OF assms(1)]) (use assms in auto)
  have t: "tree_shaped P' A L R'" "F \<subseteq> L" using f by (auto simp: forest_def)
  note d = tree_shapedD [OF t(1)]
  have "P' n \<noteq> Some r" if "n \<in> A" for n using d(3) [OF that, of r] assms(2) by blast
  then have b: "busy P' (insert r A) F n = busy P' A F n" if "n \<in> A" for n using assms(3) by (auto simp: busy_def)
  have b0: "busy P' (insert r A) F r = {}" using d(3) assms(2,3) by (auto simp: busy_def)
  have "tree_shaped P' (insert r A) (insert r L) R'"
    unfolding tree_shaped_def
  proof (intro conjI ballI allI impI)
    show "finite (insert r A)" "insert r L \<subseteq> insert r A" using d(1,2) by auto
    show "\<exists>c \<in> insert r A. P' c = Some n" if "n \<in> insert r A - insert r L" for n using that d(4) by auto
    show "R' m \<inter> R' n = {}" if mn: "m \<in> insert r A" "n \<in> insert r A" "m \<noteq> n" "P' m = P' n" for m n
      using mn d(5) [of m n] assms(3,5,6,7) by (metis inf_commute insertE)
    fix n p assume n: "n \<in> insert r A" "P' n = Some p"
    then have "n \<in> A" using assms(3) by auto
    then show "p \<in> insert r A" "p \<notin> insert r L" "p < n" "R' n \<subseteq> R' p" using d(3) [OF _ n(2)] assms(2) by auto
  qed
  then show ?thesis using f b b0 assms(4) t(2) by (auto simp: forest_def)
qed

lemma forest_cut:
  assumes "forest P A L F R C" "x \<in> L" "x \<notin> F" "a \<notin> A" "b \<notin> A" "a \<noteq> b" "x < a" "x < b"
    and "P' a = Some x" "P' b = Some x" "R' a \<subseteq> R x" "R' b \<subseteq> R x" "R' a \<inter> R' b = {}" "C' a = 0" "C' b = 0" "C' x = 1"
    and "\<And>n. n \<in> A \<Longrightarrow> P' n = P n" "\<And>n. n \<in> A \<Longrightarrow> R' n = R n" "\<And>n. n \<in> A \<Longrightarrow> n \<noteq> x \<Longrightarrow> C' n = C n"
  shows "forest P' (A \<union> {a, b}) (L - {x} \<union> {a, b}) (insert b F) R' C'"
proof -
  let ?A = "A \<union> {a, b}" and ?L = "L - {x} \<union> {a, b}"
  have t: "tree_shaped P A L R" "F \<subseteq> L" "\<forall>n \<in> A. C n = card (busy P A F n)" using assms(1) by (auto simp: forest_def)
  note d = tree_shapedD [OF t(1)]
  have x: "x \<in> A" using assms(2) d(2) by blast
  have leaf: "P c \<noteq> Some x" if "c \<in> A" for c using leaf_childless [OF t(1) assms(2) that] .
  have "tree_shaped P' ?A ?L R'"
    unfolding tree_shaped_def
  proof (intro conjI ballI allI impI)
    show "finite ?A" "?L \<subseteq> ?A" using d(1,2) by auto
    show "\<exists>c \<in> ?A. P' c = Some n" if "n \<in> ?A - ?L" for n
    proof (cases "n = x")
      case False
      then have "n \<in> A" "n \<notin> L" using that by auto
      then show ?thesis using d(4) assms(17) by (metis UnI1)
    qed (use assms(9) in auto)
    show "R' m \<inter> R' n = {}" if mn: "m \<in> ?A" "n \<in> ?A" "m \<noteq> n" "P' m = P' n" for m n
    proof -
      have "P' k \<noteq> Some x" if "k \<in> A" for k using leaf [OF that] assms(17) [OF that] by simp
      then have "m \<in> A \<and> n \<in> A \<or> {m, n} = {a, b}" using mn assms(9,10) by (metis UnE doubleton_eq_iff empty_iff insertE)
      then show ?thesis
      proof
        assume "m \<in> A \<and> n \<in> A"
        then show ?thesis using d(5) [of m n] mn assms(17,18) by simp
      next
        assume "{m, n} = {a, b}"
        then show ?thesis using assms(13) by (auto simp: doubleton_eq_iff)
      qed
    qed
    fix n p assume n: "n \<in> ?A" "P' n = Some p"
    have "p \<in> ?A \<and> p \<notin> ?L \<and> p < n \<and> R' n \<subseteq> R' p"
    proof (cases "n \<in> A")
      case True
      then have "p \<in> A" "p \<notin> L" "p < n" "R n \<subseteq> R p" using d(3) [of n p] n assms(17) by auto
      then show ?thesis using True assms(4,5,18) by auto
    next
      case False
      then have "p = x" "x < n" "R' n \<subseteq> R x" using n assms(7-12) by auto
      then show ?thesis using x assms(4,5,6,18) by auto
    qed
    then show "p \<in> ?A" "p \<notin> ?L" "p < n" "R' n \<subseteq> R' p" by auto
  qed
  moreover have "insert b F \<subseteq> ?L" using t(2) assms(3) by auto
  moreover have "C' n = card (busy P' ?A (insert b F) n)" if n: "n \<in> ?A" for n
  proof -
    consider "n = a \<or> n = b" | "n = x" | "n \<in> A" "n \<noteq> x" using n by auto
    then show ?thesis
    proof cases
      case 1
      then have "busy P' ?A (insert b F) n = {}"
        using d(3) assms(4,5,7-10,17) by (fastforce simp: busy_def)
      then show ?thesis using 1 assms(14,15) by auto
    next
      case 2
      have "a \<notin> F" using assms(4) d(2) t(2) by auto
      then have "busy P' ?A (insert b F) n = {a}"
        using leaf assms(6,9,17) 2 by (auto simp: busy_def)
      then show ?thesis using 2 assms(16) by simp
    next
      case 3
      have "busy P' ?A (insert b F) n = busy P A F n"
        using 3 assms(5,9,10,17) by (auto simp: busy_def)
      then show ?thesis using 3 t(3) assms(19) by simp
    qed
  qed
  ultimately show ?thesis by (simp add: forest_def)
qed

lemma forest_merge:
  assumes "forest P A L F R C" "p \<in> A" "p \<notin> L" "C p = 0" "\<And>n. n \<in> A \<Longrightarrow> C' n = (if P p = Some n then C n - 1 else C n)"
  defines "K \<equiv> {c \<in> A. P c = Some p}"
  shows "forest P (A - K) (insert p (L - K)) (insert p (F - K)) R C'" "K \<subseteq> F" "P p = Some n \<Longrightarrow> 0 < C n"
proof -
  have t: "tree_shaped P A L R" "F \<subseteq> L" "\<And>n. n \<in> A \<Longrightarrow> C n = card (busy P A F n)" using assms(1) by (auto simp: forest_def)
  note d = tree_shapedD [OF t(1)]
  have "busy P A F p = {}" using t(3) [OF assms(2)] assms(4) finite_busy [OF d(1)] by (metis card_0_eq)
  then show K: "K \<subseteq> F" by (auto simp: K_def busy_def)
  have pK: "p \<notin> K" using K t(2) assms(3) by auto
  have up: "q \<in> A - K" "q \<notin> L" if "n \<in> A" "P n = Some q" for n q using d(3) [OF that] K t(2) by auto
  have "tree_shaped P (A - K) (insert p (L - K)) R"
    unfolding tree_shaped_def
  proof (intro conjI ballI allI impI)
    show "finite (A - K)" "insert p (L - K) \<subseteq> A - K" using d(1,2) assms(2) pK by auto
    show "\<exists>c \<in> A - K. P c = Some n" if n: "n \<in> A - K - insert p (L - K)" for n
    proof -
      obtain c where "c \<in> A" "P c = Some n" using n d(4) [of n] by auto
      moreover from this have "c \<notin> K" using n by (auto simp: K_def)
      ultimately show ?thesis by blast
    qed
    show "R m \<inter> R n = {}" if "m \<in> A - K" "n \<in> A - K" "m \<noteq> n" "P m = P n" for m n using that d(5) by blast
    fix n q assume n: "n \<in> A - K" "P n = Some q"
    then have "q \<noteq> p" by (auto simp: K_def)
    then show "q \<in> A - K" "q \<notin> insert p (L - K)" "q < n" "R n \<subseteq> R q" using up [of n q] n d(3) [of n q] by auto
  qed
  moreover have "insert p (F - K) \<subseteq> insert p (L - K)" using t(2) by auto
  moreover have "C' n = card (busy P (A - K) (insert p (F - K)) n)" if n: "n \<in> A - K" for n
  proof -
    have "busy P (A - K) (insert p (F - K)) n = busy P A F n - {p}"
      using K by (auto simp: busy_def K_def)
    moreover have "p \<in> busy P A F n \<longleftrightarrow> P p = Some n" using assms(2,3) t(2) by (auto simp: busy_def)
    ultimately show ?thesis using assms(5) t(3) n finite_busy [OF d(1)] by auto
  qed
  ultimately show "forest P (A - K) (insert p (L - K)) (insert p (F - K)) R C'" by (simp add: forest_def)
  show "0 < C n" if n: "P p = Some n"
  proof -
    have "n \<in> A" using d(3) [OF assms(2) n] by simp
    moreover have "p \<in> busy P A F n" using n assms(2,3) t(2) by (auto simp: busy_def)
    ultimately show ?thesis using t(3) finite_busy [OF d(1)] by (metis card_gt_0_iff empty_iff)
  qed
qed

lemma forest_drop:
  assumes "forest P A L F R C" "x \<in> F" "P x = None"
  shows "forest P (A - {x}) (L - {x}) (F - {x}) R C"
proof -
  have t: "tree_shaped P A L R" "F \<subseteq> L" "\<And>n. n \<in> A \<Longrightarrow> C n = card (busy P A F n)" using assms(1) by (auto simp: forest_def)
  note d = tree_shapedD [OF t(1)]
  have leaf: "P c \<noteq> Some x" if "c \<in> A" for c using leaf_childless [OF t(1) _ that] t(2) assms(2) by blast
  have "tree_shaped P (A - {x}) (L - {x}) R"
    unfolding tree_shaped_def
  proof (intro conjI ballI allI impI)
    show "finite (A - {x})" "L - {x} \<subseteq> A - {x}" using d(1,2) by auto
    show "\<exists>c \<in> A - {x}. P c = Some n" if n: "n \<in> A - {x} - (L - {x})" for n
    proof -
      obtain c where "c \<in> A" "P c = Some n" using n d(4) [of n] by auto
      moreover from this have "c \<noteq> x" using assms(3) by auto
      ultimately show ?thesis by blast
    qed
    show "R m \<inter> R n = {}" if "m \<in> A - {x}" "n \<in> A - {x}" "m \<noteq> n" "P m = P n" for m n using that d(5) by blast
    fix n p assume "n \<in> A - {x}" "P n = Some p"
    then show "p \<in> A - {x}" "p \<notin> L - {x}" "p < n" "R n \<subseteq> R p" using d(3) [of n p] leaf [of n] by auto
  qed
  moreover have "busy P (A - {x}) (F - {x}) n = busy P A F n" if "n \<in> A" for n
    using assms(2,3) by (auto simp: busy_def)
  ultimately show ?thesis using t by (auto simp: forest_def)
qed

section \<open>What the shape gives\<close>

lemma up_closed:
  assumes "tree_shaped P A L R" "(\<lambda>n p. P n = Some p)\<^sup>*\<^sup>* x c" "x \<in> A"
  shows "c \<in> A \<and> R x \<subseteq> R c"
  using assms(2,3)
proof (induction rule: rtranclp_induct)
  case (step c p)
  then show ?case using tree_shapedD(3) [OF assms(1), of c p] by blast
qed simp

text \<open>Two nodes are apart or one is an ancestor of the other.\<close>

lemma laminar:
  assumes "tree_shaped P A L R" "x \<in> A" "y \<in> A"
  shows "R x \<inter> R y = {} \<or> (\<lambda>n p. P n = Some p)\<^sup>*\<^sup>* x y \<or> (\<lambda>n p. P n = Some p)\<^sup>*\<^sup>* y x"
  using assms(2,3)
proof (induction "x + y" arbitrary: x y rule: less_induct)
  case less
  note d = tree_shapedD [OF assms(1)]
  let ?up = "\<lambda>n p. P n = Some p"
  have step: "R x \<inter> R y = {} \<or> ?up\<^sup>*\<^sup>* x y \<or> ?up\<^sup>*\<^sup>* y x"
    if xy: "x \<in> A" "y \<in> A" "P y = Some q" and IH: "R x \<inter> R q = {} \<or> ?up\<^sup>*\<^sup>* x q \<or> ?up\<^sup>*\<^sup>* q x" for x y q
  proof -
    have q: "q \<in> A" "R y \<subseteq> R q" using d(3) [OF xy(2,3)] by auto
    consider "R x \<inter> R q = {}" | "?up\<^sup>*\<^sup>* q x" | "?up\<^sup>*\<^sup>* x q" "x \<noteq> q" using IH by blast
    then show ?thesis
    proof cases
      case 1
      then show ?thesis using q(2) by blast
    next
      case 2
      then show ?thesis using xy(3) by (meson converse_rtranclp_into_rtranclp)
    next
      case 3
      then obtain c where c: "?up\<^sup>*\<^sup>* x c" "P c = Some q" by (auto elim: rtranclp.cases)
      have "c \<in> A \<and> R x \<subseteq> R c" by (rule up_closed [OF assms(1) c(1) xy(1)])
      then have "c = y \<or> R x \<inter> R y = {}" using d(5) [of c y] xy c(2) by (cases "c = y") auto
      then show ?thesis using c(1) by blast
    qed
  qed
  show ?case
  proof (cases "P y")
    case (Some q)
    then have "q < y" "q \<in> A" using d(3) less.prems by auto
    then show ?thesis using step [OF less.prems Some less.hyps [of x q]] less.prems by simp
  next
    case None
    show ?thesis
    proof (cases "P x")
      case (Some q)
      then have q: "q < x" "q \<in> A" using d(3) less.prems by auto
      then have "R y \<inter> R q = {} \<or> ?up\<^sup>*\<^sup>* y q \<or> ?up\<^sup>*\<^sup>* q y" using less.hyps [of y q] less.prems by simp
      then show ?thesis using step [OF less.prems(2,1) Some] by blast
    next
      case none: None
      then show ?thesis using d(5) [of x y] None less.prems by (cases "x = y") auto
    qed
  qed
qed

lemma leaves_apart:
  assumes "tree_shaped P A L R" "x \<in> L" "y \<in> L" "x \<noteq> y"
  shows "R x \<inter> R y = {}"
proof -
  note d = tree_shapedD [OF assms(1)]
  have "\<not> (\<lambda>n p. P n = Some p)\<^sup>*\<^sup>* m n" if mn: "m \<in> L" "n \<in> L" "m \<noteq> n" for m n
  proof
    assume "(\<lambda>n p. P n = Some p)\<^sup>*\<^sup>* m n"
    then obtain c where c: "(\<lambda>n p. P n = Some p)\<^sup>*\<^sup>* m c" "P c = Some n" using mn(3) by (auto elim: rtranclp.cases)
    have "c \<in> A" using up_closed [OF assms(1) c(1)] mn(1) d(2) by blast
    then show False using leaf_childless [OF assms(1) mn(2)] c(2) by blast
  qed
  then show ?thesis using laminar [OF assms(1), of x y] assms(2-4) d(2) by blast
qed

lemma root_covers:
  assumes "tree_shaped P A L R" "n \<in> A"
  shows "\<exists>r \<in> A. P r = None \<and> R n \<subseteq> R r"
  using assms(2)
proof (induction n rule: less_induct)
  case (less n)
  show ?case
  proof (cases "P n")
    case (Some p)
    then show ?thesis using less tree_shapedD(3) [OF assms(1) less.prems Some] by fastforce
  qed (use less in blast)
qed

text \<open>When every leaf is free and no inner node has count zero, there are no inner nodes.\<close>

lemma all_free:
  assumes "forest P A L F R C" "F = L" "\<And>n. n \<in> A \<Longrightarrow> n \<notin> L \<Longrightarrow> C n \<noteq> 0"
  shows "A = L" "n \<in> A \<Longrightarrow> P n = None"
proof -
  have t: "tree_shaped P A L R" "\<And>n. n \<in> A \<Longrightarrow> C n = card (busy P A F n)" using assms(1) by (auto simp: forest_def)
  note d = tree_shapedD [OF t(1)]
  show e: "A = L"
  proof (rule ccontr)
    assume "A \<noteq> L"
    then have ne: "A - L \<noteq> {}" "finite (A - L)" using d(1,2) by auto
    let ?m = "Max (A - L)"
    have m: "?m \<in> A" "?m \<notin> L" using Max_in [OF ne(2,1)] by auto
    then have "busy P A F ?m \<noteq> {}" using assms(3) [OF m] t(2) by fastforce
    then obtain c where c: "c \<in> A" "P c = Some ?m" "c \<notin> L" using assms(2) by (auto simp: busy_def)
    then have "?m < c" using d(3) by blast
    moreover have "c \<le> ?m" using c ne(2) by (simp add: Max_ge)
    ultimately show False by simp
  qed
  show "P n = None" if "n \<in> A" for n
  proof (cases "P n")
    case (Some p)
    then show ?thesis using d(3) [OF that Some] e by blast
  qed
qed

end
