(* ===== verification/Eager_Correct.thy ===== *)
theory Eager_Correct
  imports Eager_Forest "HOL-Library.Multiset"
begin

text \<open>
  The eager pool keeps its invariant: the nodes that are referenced form a forest, the lists hold its leaves,
  a use count is the number of children that are in use, nodes whose children are all free are merged, and
  \<^verbatim>\<open>mTotalSize\<close> is the size of the chunks of the allocator below.
\<close>

section \<open>Reading the store\<close>

abbreviation par :: "Pool \<Rightarrow> nat \<Rightarrow> nat option" where "par s \<equiv> \<lambda>n. nodeParent (pnodes s n)"
abbreviation cnt :: "Pool \<Rightarrow> nat \<Rightarrow> nat" where "cnt s \<equiv> \<lambda>n. nodeCount (pnodes s n)"
abbreviation sz :: "Pool \<Rightarrow> nat \<Rightarrow> nat" where "sz s \<equiv> \<lambda>n. nodeSize (pnodes s n)"
abbreviation freeNodes :: "Pool \<Rightarrow> nat list" where "freeNodes s \<equiv> map snd (mFreeList s)"

text \<open>The bytes from an offset of a chunk on, and those of a node.\<close>

definition block :: "nat \<times> nat \<Rightarrow> nat \<Rightarrow> (nat \<times> nat) set" where
  "block p k = {fst p} \<times> {snd p..<snd p + k}"

definition bytes :: "Pool \<Rightarrow> nat \<Rightarrow> (nat \<times> nat) set" where
  "bytes s n = block (pointer (pnodes s n)) (nodeSize (pnodes s n))"

lemma in_block: "x \<in> block p k \<longleftrightarrow> fst x = fst p \<and> snd p \<le> snd x \<and> snd x < snd p + k"
  by (cases x) (auto simp: block_def)

lemma mset_mapInsert: "mset (mapInsert k n l) = add_mset (k, n) (mset l)"
  unfolding mapInsert_def by (metis mset_append mset.simps(2) takeWhile_dropWhile_id union_mset_add_mset_right)

lemma set_mapInsert [simp]: "set (mapInsert k n l) = insert (k, n) (set l)"
  using arg_cong [OF mset_mapInsert, of set_mset] by simp

lemma mset_nodes_mapInsert [simp]: "image_mset snd (mset (mapInsert k n l)) = add_mset n (image_mset snd (mset l))"
  by (simp add: mset_mapInsert)

text \<open>The lists are ordered, as a \<^verbatim>\<open>std::multimap\<close> is.\<close>

lemma mapInsert_Cons: "mapInsert k n (e # l) = (if fst e \<le> k then e # mapInsert k n l else (k, n) # e # l)"
  by (simp add: mapInsert_def)

lemma sorted_mapInsert [simp]: "sorted (map fst l) \<Longrightarrow> sorted (map fst (mapInsert k n l))"
proof (induction l)
  case (Cons e l)
  then show ?case by (auto simp: mapInsert_Cons)
qed (simp add: mapInsert_def)

lemma lowerBound_SomeD:
  assumes "lowerBound k l = Some e"
  shows "e \<in> set l" "k \<le> fst e"
  using assms by (auto simp: lowerBound_def find_Some_iff)

section \<open>The core of the invariant\<close>

text \<open>
  \<open>rest\<close> are the entries outside the free list, \<open>A\<close> the referenced nodes. In \<open>merged\<close>, \<open>p\<close> is the node that the
  loop of \<^verbatim>\<open>returnMemory\<close> is at.
\<close>

definition core :: "Pool \<Rightarrow> nat list \<Rightarrow> nat set \<Rightarrow> bool" where
  "core s rest A \<longleftrightarrow> forest (par s) A (set (freeNodes s @ rest)) (set (freeNodes s)) (bytes s) (cnt s) \<and>
     distinct (freeNodes s @ rest) \<and> (\<forall>n \<in> A. n < pnext s) \<and> (\<forall>e \<in> set (mFreeList s). fst e = sz s (snd e)) \<and>
     sorted (map fst (mFreeList s)) \<and> mTotalSize s = sum (sz s) {n \<in> A. par s n = None}"

definition merged :: "Pool \<Rightarrow> nat list \<Rightarrow> nat set \<Rightarrow> nat set \<Rightarrow> bool" where
  "merged s rest A X \<longleftrightarrow> (\<forall>n \<in> A. n \<notin> set (freeNodes s @ rest) \<longrightarrow> cnt s n = 0 \<longrightarrow> n \<in> X)"

text \<open>Operations never change where a node is; they add nodes.\<close>

definition extends :: "Pool \<Rightarrow> Pool \<Rightarrow> bool" where
  "extends s s' \<longleftrightarrow> pnext s \<le> pnext s' \<and> mAlign s' = mAlign s \<and> mMinAllocSize s' = mMinAllocSize s \<and>
     (\<forall>n < pnext s. par s' n = par s n \<and> sz s' n = sz s n \<and> pointer (pnodes s' n) = pointer (pnodes s n))"

definition same_users :: "Pool \<Rightarrow> Pool \<Rightarrow> bool" where
  "same_users s s' \<longleftrightarrow> extends s s' \<and> mUsedList s' = mUsedList s \<and> mGroups s' = mGroups s \<and>
     mCurrentFreeList s' = mCurrentFreeList s \<and> mTotalSize s' = mTotalSize s \<and> pnext s' = pnext s"

lemma extends_refl: "extends s s" by (simp add: extends_def)
lemma extends_trans: "extends s t \<Longrightarrow> extends t u \<Longrightarrow> extends s u" by (simp add: extends_def)
lemma same_users_refl: "same_users s s" by (simp add: same_users_def extends_refl)
lemma same_users_trans: "same_users s t \<Longrightarrow> same_users t u \<Longrightarrow> same_users s u"
  unfolding same_users_def using extends_trans by metis

lemma extends_bytes: "extends s s' \<Longrightarrow> n < pnext s \<Longrightarrow> bytes s' n = bytes s n"
  by (simp add: extends_def bytes_def)

lemma count_fields [simp]:
  "par (countUp q s) n = par s n" "par (countDown q s) n = par s n" "sz (countUp q s) n = sz s n" "sz (countDown q s) n = sz s n"
  "bytes (countUp q s) = bytes s" "bytes (countDown q s) = bytes s"
  "pointer (pnodes (countUp q s) n) = pointer (pnodes s n)" "pointer (pnodes (countDown q s) n) = pointer (pnodes s n)"
  "pnext (countUp q s) = pnext s" "pnext (countDown q s) = pnext s"
  "mUsedList (countUp q s) = mUsedList s" "mUsedList (countDown q s) = mUsedList s"
  "mFreeList (countUp q s) = mFreeList s" "mFreeList (countDown q s) = mFreeList s"
  "mGroups (countUp q s) = mGroups s" "mGroups (countDown q s) = mGroups s"
  "mCurrentFreeList (countUp q s) = mCurrentFreeList s" "mCurrentFreeList (countDown q s) = mCurrentFreeList s"
  "mTotalSize (countUp q s) = mTotalSize s" "mTotalSize (countDown q s) = mTotalSize s"
  "mAlign (countUp q s) = mAlign s" "mAlign (countDown q s) = mAlign s"
  "mMinAllocSize (countUp q s) = mMinAllocSize s" "mMinAllocSize (countDown q s) = mMinAllocSize s"
  by (auto simp: countUp_def countDown_def changeNode_def bytes_def fun_eq_iff)

lemma count_values [simp]:
  "cnt (countUp q s) n = (if n = q then cnt s n + 1 else cnt s n)"
  "0 < cnt s q \<Longrightarrow> cnt (countDown q s) n = (if n = q then cnt s n - 1 else cnt s n)"
  by (auto simp: countUp_def countDown_def changeNode_def)

lemma count_same [simp]: "same_users s (countUp q s)" "same_users s (countDown q s)"
  by (simp_all add: same_users_def extends_def)

lemma changeMain_fields [simp]: "pnodes (changeList MainList f s) = pnodes s" "bytes (s\<lparr>mFreeList := l\<rparr>) = bytes s"
  "same_users s (changeList MainList f s)" "same_users s (s\<lparr>mFreeList := l\<rparr>)"
  by (simp_all add: bytes_def fun_eq_iff same_users_def extends_def)

lemma roots_bytes: "core s rest A \<Longrightarrow> finite A" by (simp add: core_def forest_def tree_shaped_def)

section \<open>Giving memory back\<close>

lemma mergeUp_core:
  assumes "core s rest A" "merged s rest A {p}" "p \<in> A" "p \<notin> set (freeNodes s @ rest)" "p < fuel"
  shows "\<exists>A'. core (mergeUp fuel MainList p s) rest A' \<and> merged (mergeUp fuel MainList p s) rest A' {} \<and>
    same_users s (mergeUp fuel MainList p s) \<and> {n \<in> A'. par s n = None} = {n \<in> A. par s n = None}"
  using assms
proof (induction fuel arbitrary: p s A)
  case (Suc fuel)
  show ?case
  proof (cases "cnt s p = 0")
    case False
    then have "merged s rest A {}" using Suc.prems(2) by (auto simp: merged_def)
    then show ?thesis using False Suc.prems(1) same_users_refl by auto
  next
    case True
    let ?E = "set (freeNodes s @ rest)" and ?K = "{c \<in> A. par s c = Some p}"
    let ?s = "changeList MainList (\<lambda>l. mapInsert (sz s p) p (filter (\<lambda>e. par s (snd e) \<noteq> Some p) l)) s"
    let ?t = "case par s p of None \<Rightarrow> ?s | Some q \<Rightarrow> countDown q ?s"
    have f: "forest (par s) A ?E (set (freeNodes s)) (bytes s) (cnt s)" and dist: "distinct (freeNodes s @ rest)"
      using Suc.prems(1) by (auto simp: core_def)
    then have inA: "?E \<subseteq> A" by (simp add: forest_def tree_shaped_def)
    note m = forest_merge [OF f Suc.prems(3,4) True]
    have K: "?K \<subseteq> set (freeNodes s)" "par s p = Some q \<Longrightarrow> 0 < cnt s q" for q
      using m(2,3) [OF refl] by auto
    have free: "set (freeNodes ?t) = insert p (set (freeNodes s) - ?K)"
      using inA by (auto split: option.splits)
    have d: "distinct (freeNodes ?t @ rest)"
    proof -
      have "mset (freeNodes ?t) = add_mset p (mset (map snd (filter (\<lambda>e. par s (snd e) \<noteq> Some p) (mFreeList s))))"
        by (simp split: option.split)
      then have "distinct (freeNodes ?t) \<longleftrightarrow> distinct (p # map snd (filter (\<lambda>e. par s (snd e) \<noteq> Some p) (mFreeList s)))"
        by (intro mset_eq_imp_distinct_iff) simp
      moreover have "distinct (map snd (filter (\<lambda>e. par s (snd e) \<noteq> Some p) (mFreeList s)))"
        using dist by (auto simp: distinct_map inj_on_def)
      ultimately show ?thesis using dist Suc.prems(4) free by auto
    qed
    have E: "set (freeNodes ?t @ rest) = insert p (?E - ?K)" using free K(1) dist by auto
    have g: "forest (par ?t) (A - ?K) (set (freeNodes ?t @ rest)) (set (freeNodes ?t)) (bytes ?t) (cnt ?t)"
      unfolding E free using m(1) [of "cnt ?t"] K(2) by (auto split: option.splits)
    have roots: "{n \<in> A - ?K. par s n = None} = {n \<in> A. par s n = None}" by auto
    have same: "same_users s ?t"
      using same_users_trans [OF changeMain_fields(3) count_same(2)] by (auto split: option.splits)
    have c: "core ?t rest (A - ?K)"
      using g d Suc.prems(1) roots same unfolding core_def same_users_def extends_def by (auto simp: sorted_filter split: option.splits)
    show ?thesis
    proof (cases "par s p")
      case None
      have "merged ?t rest (A - ?K) {}"
        using Suc.prems(2) E None unfolding merged_def by auto
      then show ?thesis using c same roots True None by (auto intro!: exI [of _ "A - ?K"] simp: Let_def)
    next
      case (Some q)
      have q: "q \<in> A" "q \<notin> ?E" "q < p" using f Suc.prems(3) Some unfolding forest_def tree_shaped_def by blast+
      have k: "q \<notin> ?K" using q(2) K(1) by auto
      have "merged ?t rest (A - ?K) {q}"
        using Suc.prems(2) K(2) [OF Some] E Some unfolding merged_def by auto
      moreover have "q \<notin> set (freeNodes ?t @ rest)" using q E by auto
      ultimately obtain A' where A': "core (mergeUp fuel MainList q ?t) rest A'" "merged (mergeUp fuel MainList q ?t) rest A' {}"
        "same_users ?t (mergeUp fuel MainList q ?t)" "{n \<in> A'. par ?t n = None} = {n \<in> A - ?K. par ?t n = None}"
        using Suc.IH [OF c, of q] q k Suc.prems(5) by auto
      have e: "mergeUp (Suc fuel) MainList p s = mergeUp fuel MainList q ?t" using True Some by (simp add: Let_def)
      have "{n \<in> A'. par s n = None} = {n \<in> A. par s n = None}" using A'(4) roots Some by simp
      then show ?thesis unfolding e using A' same_users_trans [OF same A'(3)] by blast
    qed
  qed
qed simp

lemma returnMemory_core:
  assumes "core s (n # rest) A" "merged s (n # rest) A {}"
  shows "\<exists>A'. core (returnMemory MainList n True s) rest A' \<and> merged (returnMemory MainList n True s) rest A' {} \<and>
    same_users s (returnMemory MainList n True s) \<and> {m \<in> A'. par s m = None} = {m \<in> A. par s m = None}"
proof -
  let ?s = "changeList MainList (mapInsert (sz s n) n) s"
  let ?t = "case par s n of None \<Rightarrow> ?s | Some q \<Rightarrow> countDown q ?s"
  let ?E = "set (freeNodes s @ n # rest)"
  have f: "forest (par s) A ?E (set (freeNodes s)) (bytes s) (cnt s)" and dist: "distinct (freeNodes s @ n # rest)"
    using assms(1) by (auto simp: core_def)
  note g = forest_give [OF f, of n]
  have pos: "par s n = Some q \<Longrightarrow> 0 < cnt s q" for q using g(2) dist by auto
  have free: "set (freeNodes ?t) = insert n (set (freeNodes s))" by (auto split: option.splits)
  have E: "set (freeNodes ?t @ rest) = ?E" using free by auto
  have fo: "forest (par ?t) A (set (freeNodes ?t @ rest)) (set (freeNodes ?t)) (bytes ?t) (cnt ?t)"
    unfolding E free using g(1) [of "cnt ?t"] pos dist by (auto split: option.splits)
  have d: "distinct (freeNodes ?t @ rest)"
  proof -
    have "mset (freeNodes ?t @ rest) = mset (freeNodes s @ n # rest)" by (simp split: option.split)
    then show ?thesis using dist mset_eq_imp_distinct_iff by blast
  qed
  have same: "same_users s ?t"
    using same_users_trans [OF changeMain_fields(3) count_same(2)] by (auto split: option.splits)
  have c: "core ?t rest A"
    using fo d assms(1) same unfolding core_def same_users_def extends_def by (auto split: option.splits)
  show ?thesis
  proof (cases "par s n")
    case None
    then have "merged ?t rest A {}" using assms(2) E unfolding merged_def by auto
    then show ?thesis using c same None by (auto simp: returnMemory_def Let_def)
  next
    case (Some q)
    have "n \<in> A" using f unfolding forest_def tree_shaped_def by auto
    then have q: "q \<in> A" "q \<notin> ?E" using f Some unfolding forest_def tree_shaped_def by blast+
    have "merged ?t rest A {q}" using assms(2) pos [OF Some] E Some unfolding merged_def by auto
    moreover have "q \<notin> set (freeNodes ?t @ rest)" using q(2) E by simp
    moreover have "q < pnext s" using q(1) assms(1) by (simp add: core_def)
    ultimately obtain A' where A': "core (mergeUp (pnext s) MainList q ?t) rest A'" "merged (mergeUp (pnext s) MainList q ?t) rest A' {}"
      "same_users ?t (mergeUp (pnext s) MainList q ?t)" "{m \<in> A'. par ?t m = None} = {m \<in> A. par ?t m = None}"
      using mergeUp_core [OF c _ q(1)] by blast
    have e: "returnMemory MainList n True s = mergeUp (pnext s) MainList q ?t"
      using Some by (simp add: returnMemory_def Let_def)
    show ?thesis unfolding e using A' same_users_trans [OF same A'(3)] Some by auto
  qed
qed

lemma core_mset: "core s rest A \<Longrightarrow> mset rest = mset rest' \<Longrightarrow> core s rest' A"
  unfolding core_def using mset_eq_imp_distinct_iff [of "freeNodes s @ rest" "freeNodes s @ rest'"] mset_eq_setD [of rest rest'] by auto

lemma merged_mset: "merged s rest A X \<Longrightarrow> mset rest = mset rest' \<Longrightarrow> merged s rest' A X"
  unfolding merged_def using mset_eq_setD [of rest rest'] by auto

section \<open>Taking memory\<close>

lemma mset_remove1_nodes: "(k, x) \<in> set l \<Longrightarrow> mset (map snd l) = add_mset x (mset (map snd (remove1 (k, x) l)))"
proof -
  assume "(k, x) \<in> set l"
  then have "mset l = add_mset (k, x) (mset (remove1 (k, x) l))" by simp
  then have "image_mset snd (mset l) = image_mset snd (add_mset (k, x) (mset (remove1 (k, x) l)))" by simp
  then show ?thesis by (simp add: mset_map)
qed

lemma sorted_remove1: "sorted (map fst l) \<Longrightarrow> sorted (map fst (remove1 (e :: nat \<times> nat) l))"
  by (induction l) (auto dest: notin_set_remove1 set_remove1_subset [THEN subsetD])

abbreviation claimed :: "nat \<Rightarrow> Pool \<Rightarrow> Pool" where
  "claimed x s \<equiv> (case par s x of Some q \<Rightarrow> countUp q s | None \<Rightarrow> s)"

lemma take_core:
  assumes "core s rest A" "merged s rest A {}" "(k, x) \<in> set (mFreeList s)"
    and "pnodes t = pnodes (claimed x s)" "mFreeList t = remove1 (k, x) (mFreeList s)" "pnext t = pnext s" "mTotalSize t = mTotalSize s"
  shows "core t (x # rest) A" "merged t (x # rest) A {}"
proof -
  have f: "forest (par s) A (set (freeNodes s @ rest)) (set (freeNodes s)) (bytes s) (cnt s)"
    and dist: "distinct (freeNodes s @ rest)" using assms(1) by (auto simp: core_def)
  have m: "mset (freeNodes s) = add_mset x (mset (freeNodes t))"
    using mset_remove1_nodes [OF assms(3)] assms(5) by simp
  have dx: "distinct (x # freeNodes t @ rest)"
  proof -
    have "mset (x # freeNodes t @ rest) = mset (freeNodes s @ rest)" using m by simp
    then show ?thesis using dist mset_eq_imp_distinct_iff by blast
  qed
  have S: "set (freeNodes s) = insert x (set (freeNodes t))" using arg_cong [OF m, of set_mset] by simp
  then have free: "set (freeNodes t) = set (freeNodes s) - {x}" and E: "set (freeNodes t @ x # rest) = set (freeNodes s @ rest)"
    using dx by auto
  have g: "par t = par s" "bytes t = bytes s" "sz t = sz s" "cnt t n = cnt s n + (if par s x = Some n then 1 else 0)" for n
    using assms(4) by (auto simp: bytes_def fun_eq_iff split: option.splits)
  have gs: "sz t n = sz s n" "par t n = par s n" for n using fun_cong [OF g(3)] fun_cong [OF g(1)] by auto
  have x: "x \<in> set (freeNodes s)" using S by simp
  have "forest (par t) A (set (freeNodes t @ x # rest)) (set (freeNodes t)) (bytes t) (cnt t)"
    unfolding E free g(1,2) by (rule forest_take [OF f x]) (simp add: g(4))
  moreover have "\<forall>e \<in> set (mFreeList t). fst e = sz t (snd e)"
    using assms(1) set_remove1_subset [of "(k, x)" "mFreeList s"] unfolding assms(5) gs core_def by blast
  moreover have "sorted (map fst (mFreeList t))" using assms(1) sorted_remove1 unfolding assms(5) core_def by blast
  moreover have "sum (sz t) {n \<in> A. par t n = None} = mTotalSize t" "\<forall>n \<in> A. n < pnext t"
    using assms(1,6,7) by (simp_all add: core_def gs)
  ultimately show "core t (x # rest) A" using dx unfolding core_def by auto
  show "merged t (x # rest) A {}"
    using assms(2) E g(4) unfolding merged_def by (metis add_is_0 empty_iff)
qed

lemma core_leaf_count:
  assumes "core s rest A" "x \<in> set (freeNodes s @ rest)"
  shows "cnt s x = 0" "x \<in> A"
proof -
  have f: "forest (par s) A (set (freeNodes s @ rest)) (set (freeNodes s)) (bytes s) (cnt s)" using assms(1) by (simp add: core_def)
  then have t: "tree_shaped (par s) A (set (freeNodes s @ rest)) (bytes s)" by (simp add: forest_def)
  show x: "x \<in> A" using tree_shapedD(2) [OF t] assms(2) by blast
  have "busy (par s) A (set (freeNodes s)) x = {}" using leaf_childless [OF t assms(2)] by (auto simp: busy_def)
  then show "cnt s x = 0" using f x by (simp add: forest_def)
qed

lemma cut_core:
  fixes s u :: Pool
  defines "a \<equiv> pnext s" and "b \<equiv> Suc (pnext s)"
  assumes "core s (x # rest) A" "merged s (x # rest) A {}" "m \<le> sz s x"
    and "pnodes u = (pnodes s)(x := (pnodes s x)\<lparr>nodeCount := 1\<rparr>,
      a := \<lparr>pointer = pointer (pnodes s x), nodeParent = Some x, nodeSize = m, nodeCount = 0\<rparr>,
      b := \<lparr>pointer = (fst (pointer (pnodes s x)), snd (pointer (pnodes s x)) + m), nodeParent = Some x, nodeSize = sz s x - m, nodeCount = 0\<rparr>)"
    and "mFreeList u = mapInsert (sz s x - m) b (mFreeList s)" "pnext u = Suc b" "mTotalSize u = mTotalSize s"
  shows "core u (a # rest) (A \<union> {a, b})" "merged u (a # rest) (A \<union> {a, b}) {}"
proof -
  have f: "forest (par s) A (set (freeNodes s @ x # rest)) (set (freeNodes s)) (bytes s) (cnt s)"
    and dist: "distinct (freeNodes s @ x # rest)" using assms(3) by (auto simp: core_def)
  have A: "x \<in> A" "\<forall>n \<in> A. n < a" "set (freeNodes s @ x # rest) \<subseteq> A"
    using assms(3) core_leaf_count(2) [OF assms(3)] by (auto simp: core_def a_def)
  then have new: "a \<notin> A" "b \<notin> A" "a \<noteq> b" "x < a" "x < b" by (auto simp: a_def b_def)
  have nodes: "par u a = Some x" "par u b = Some x" "sz u a = m" "sz u b = sz s x - m" "cnt u a = 0" "cnt u b = 0" "cnt u x = 1"
    "bytes u a = block (pointer (pnodes s x)) m"
    "bytes u b = block (fst (pointer (pnodes s x)), snd (pointer (pnodes s x)) + m) (sz s x - m)"
    using new assms(6) by (auto simp: bytes_def)
  have old: "par u n = par s n" "sz u n = sz s n" "bytes u n = bytes s n" "n \<noteq> x \<Longrightarrow> cnt u n = cnt s n" if "n \<in> A" for n
    using that new assms(6) by (auto simp: bytes_def)
  have E: "set (freeNodes u @ a # rest) = set (freeNodes s @ x # rest) - {x} \<union> {a, b}" "set (freeNodes u) = insert b (set (freeNodes s))"
    using dist unfolding assms(7) by auto
  have "forest (par u) (A \<union> {a, b}) (set (freeNodes u @ a # rest)) (set (freeNodes u)) (bytes u) (cnt u)"
    unfolding E by (rule forest_cut [OF f, of x a b])
      (use dist new nodes old assms(5) in \<open>auto simp: bytes_def in_block\<close>)
  moreover have "distinct (freeNodes u @ a # rest)"
  proof -
    have "distinct (b # a # freeNodes s @ rest)" using dist new A(3) by auto
    moreover have "mset (freeNodes u @ a # rest) = mset (b # a # freeNodes s @ rest)" by (simp add: assms(7))
    ultimately show ?thesis using mset_eq_imp_distinct_iff by blast
  qed
  moreover have "\<forall>n \<in> A \<union> {a, b}. n < pnext u" using A(2) assms(8) by (auto simp: a_def b_def)
  moreover have "\<forall>e \<in> set (mFreeList u). fst e = sz u (snd e)"
  proof -
    have "sz u (snd e) = sz s (snd e)" if "e \<in> set (mFreeList s)" for e using old(2) [of "snd e"] A(3) that by auto
    then show ?thesis using assms(3) nodes(4) unfolding core_def assms(7) by auto
  qed
  moreover have "mTotalSize u = sum (sz u) {n \<in> A \<union> {a, b}. par u n = None}"
  proof -
    have "{n \<in> A \<union> {a, b}. par u n = None} = {n \<in> A. par s n = None}" using nodes old by auto
    then show ?thesis using assms(3,9) old by (simp add: core_def)
  qed
  moreover have "sorted (map fst (mFreeList u))" using assms(3,7) by (simp add: core_def)
  ultimately show "core u (a # rest) (A \<union> {a, b})" unfolding core_def by blast
  show "merged u (a # rest) (A \<union> {a, b}) {}"
    unfolding merged_def
  proof (intro ballI impI)
    fix n assume n: "n \<in> A \<union> {a, b}" "n \<notin> set (freeNodes u @ a # rest)" "cnt u n = 0"
    then have "n \<noteq> x" using nodes(7) by auto
    then have "n \<in> A" "n \<notin> set (freeNodes s @ x # rest)" "cnt s n = 0" using n E new nodes old(4) by auto
    then show "n \<in> {}" using assms(4) by (auto simp: merged_def)
  qed
qed

lemma root_core:
  fixes s u :: Pool
  defines "r \<equiv> pnext s"
  assumes "core s rest A" "merged s rest A {}" "\<And>m. m \<in> A \<Longrightarrow> par s m = None \<Longrightarrow> bytes s m \<inter> block p k = {}"
    and "pnodes u = (pnodes s)(r := \<lparr>pointer = p, nodeParent = None, nodeSize = k, nodeCount = 0\<rparr>)"
    and "mFreeList u = mFreeList s" "pnext u = Suc r" "mTotalSize u = mTotalSize s + k"
  shows "core u (r # rest) (insert r A)" "merged u (r # rest) (insert r A) {}"
proof -
  have f: "forest (par s) A (set (freeNodes s @ rest)) (set (freeNodes s)) (bytes s) (cnt s)"
    and dist: "distinct (freeNodes s @ rest)" using assms(2) by (auto simp: core_def)
  have A: "\<forall>n \<in> A. n < r" "set (freeNodes s @ rest) \<subseteq> A"
    using assms(2) core_leaf_count(2) [OF assms(2)] by (auto simp: core_def r_def)
  then have new: "r \<notin> A" by auto
  have nodes: "par u r = None" "sz u r = k" "cnt u r = 0" "bytes u r = block p k" using assms(5) by (auto simp: bytes_def)
  have old: "par u n = par s n" "sz u n = sz s n" "bytes u n = bytes s n" "cnt u n = cnt s n" if "n \<in> A" for n
    using that new assms(5) by (auto simp: bytes_def)
  have E: "set (freeNodes u @ r # rest) = insert r (set (freeNodes s @ rest))" using assms(6) by auto
  have "forest (par u) (insert r A) (set (freeNodes u @ r # rest)) (set (freeNodes u)) (bytes u) (cnt u)"
    unfolding E unfolding assms(6) by (rule forest_root [OF f new]) (use nodes old assms(4) in auto)
  moreover have "distinct (freeNodes u @ r # rest)" using dist new A(2) assms(6) by auto
  moreover have "\<forall>n \<in> insert r A. n < pnext u" using A(1) assms(7) by auto
  moreover have "\<forall>e \<in> set (mFreeList u). fst e = sz u (snd e)"
  proof -
    have "sz u (snd e) = sz s (snd e)" if "e \<in> set (mFreeList s)" for e using old(2) [of "snd e"] A(2) that by auto
    then show ?thesis using assms(2) unfolding core_def assms(6) by auto
  qed
  moreover have "mTotalSize u = sum (sz u) {n \<in> insert r A. par u n = None}"
  proof -
    have "{n \<in> insert r A. par u n = None} = insert r {n \<in> A. par s n = None}" using nodes old by auto
    moreover have "finite A" using f by (simp add: forest_def tree_shaped_def)
    ultimately show ?thesis using assms(2,8) old nodes new by (simp add: core_def)
  qed
  moreover have "sorted (map fst (mFreeList u))" using assms(2,6) by (simp add: core_def)
  ultimately show "core u (r # rest) (insert r A)" unfolding core_def by blast
  show "merged u (r # rest) (insert r A) {}" using assms(3) E old(4) by (auto simp: merged_def assms(6))
qed

end
