(* ===== verification/Eager_Operations.thy ===== *)
theory Eager_Operations
  imports Eager_Correct
begin

text \<open>
  Every operation of the eager pool keeps its invariant \<open>pool_inv\<close> and \<open>holds\<close>, which says that each
  address that clients hold is in use and its bytes are those of one node of its own.
\<close>

section \<open>The invariant of a pool and its clients\<close>

definition others :: "Pool \<Rightarrow> nat list" where
  "others s = map snd (mUsedList s) @ map snd (concat (mGroups s))"

definition used_ok :: "Pool \<Rightarrow> bool" where
  "used_ok s \<longleftrightarrow> distinct (map fst (mUsedList s)) \<and> (\<forall>e \<in> set (mUsedList s). fst e \<in> bytes s (snd e))"

definition groups_ok :: "Pool \<Rightarrow> bool" where
  "groups_ok s \<longleftrightarrow> (\<forall>l \<in> set (mGroups s). \<forall>e \<in> set l. fst e = sz s (snd e)) \<and>
     (\<forall>g. mCurrentFreeList s = Some g \<longrightarrow> g < length (mGroups s)) \<and> 0 < mAlign s \<and>
     (mMinAllocSize s \<noteq> 0 \<longrightarrow> mGroups s = [] \<and> mAlign s dvd mMinAllocSize s \<and> mMinAllocSize s < 2 ^ 64)"

definition pool_inv :: "Pool \<Rightarrow> nat set \<Rightarrow> bool" where
  "pool_inv s A \<longleftrightarrow> core s (others s) A \<and> merged s (others s) A {} \<and> used_ok s \<and> groups_ok s"

text \<open>The chunks of the allocator below, as the pool knows them.\<close>

definition roots :: "Pool \<Rightarrow> nat set \<Rightarrow> (nat \<times> (nat \<times> nat) \<times> nat) set" where
  "roots s A = (\<lambda>n. (n, pointer (pnodes s n), sz s n)) ` {n \<in> A. par s n = None}"

lemma roots_same:
  assumes "extends s t" "\<forall>n \<in> A. n < pnext s" "{n \<in> A'. par t n = None} = {n \<in> A. par s n = None}"
  shows "roots t A' = roots s A"
  unfolding roots_def assms(3) using assms(1,2) by (intro image_cong) (auto simp: extends_def)

text \<open>What clients hold: an address and the size that was asked for.\<close>

type_synonym Held = "((nat \<times> nat) \<times> nat) list"

definition holds :: "Pool \<Rightarrow> Held \<Rightarrow> bool" where
  "holds s H \<longleftrightarrow> distinct (map fst H) \<and> fst ` set H = fst ` set (mUsedList s) \<and>
     (\<forall>(p, k) \<in> set H. \<forall>n. (p, n) \<in> set (mUsedList s) \<longrightarrow> block p k \<subseteq> bytes s n)"

lemma pool_fields [simp]:
  "pnodes (insertUsed p n s) = pnodes s" "mFreeList (insertUsed p n s) = mFreeList s" "mGroups (insertUsed p n s) = mGroups s"
  "pnext (insertUsed p n s) = pnext s" "mTotalSize (insertUsed p n s) = mTotalSize s" "mAlign (insertUsed p n s) = mAlign s"
  "mCurrentFreeList (insertUsed p n s) = mCurrentFreeList s" "mMinAllocSize (insertUsed p n s) = mMinAllocSize s"
  "mUsedList (insertUsed p n s) = (if p \<in> fst ` set (mUsedList s) then mUsedList s else (p, n) # mUsedList s)"
  by (simp_all add: insertUsed_def)

lemma newNode_fields [simp]:
  "pnodes (newNode n s) = (pnodes s)(pnext s := n)" "pnext (newNode n s) = Suc (pnext s)" "mFreeList (newNode n s) = mFreeList s"
  "mGroups (newNode n s) = mGroups s" "mTotalSize (newNode n s) = mTotalSize s" "mAlign (newNode n s) = mAlign s"
  "mCurrentFreeList (newNode n s) = mCurrentFreeList s" "mMinAllocSize (newNode n s) = mMinAllocSize s"
  "mUsedList (newNode n s) = mUsedList s"
  by (simp_all add: newNode_def)

lemma pnodes_countUp: "pnodes (countUp n s) = (pnodes s)(n := nodeCount_update (\<lambda>c. c + 1) (pnodes s n))"
  by (simp add: countUp_def changeNode_def)

lemma claimed_fields [simp]:
  "mFreeList (claimed x s) = mFreeList s" "mGroups (claimed x s) = mGroups s" "mUsedList (claimed x s) = mUsedList s"
  "pnext (claimed x s) = pnext s" "mTotalSize (claimed x s) = mTotalSize s" "mAlign (claimed x s) = mAlign s"
  "mCurrentFreeList (claimed x s) = mCurrentFreeList s" "mMinAllocSize (claimed x s) = mMinAllocSize s"
  "par (claimed x s) n = par s n" "sz (claimed x s) n = sz s n" "pointer (pnodes (claimed x s) n) = pointer (pnodes s n)"
  by (simp_all split: option.split)

lemma bytes_fields: "pnodes t = pnodes s \<Longrightarrow> bytes t = bytes s"
  by (simp add: bytes_def fun_eq_iff)

lemma core_fields:
  "core s rest A \<Longrightarrow> pnodes t = pnodes s \<Longrightarrow> mFreeList t = mFreeList s \<Longrightarrow> pnext t = pnext s \<Longrightarrow> mTotalSize t = mTotalSize s \<Longrightarrow>
   core t rest A"
  unfolding core_def using bytes_fields [of t s] by simp

lemma merged_fields:
  "merged s rest A X \<Longrightarrow> pnodes t = pnodes s \<Longrightarrow> mFreeList t = mFreeList s \<Longrightarrow> merged t rest A X"
  by (simp add: merged_def)

lemma mset_concat_update:
  "g < length xs \<Longrightarrow> mset (concat (xs[g := l])) + mset (xs ! g) = mset (concat xs) + mset l"
proof (induction xs arbitrary: g)
  case (Cons y xs)
  then show ?case by (cases g) (auto simp: add_ac)
qed simp

lemma leaves_disjoint:
  assumes "core s rest A" "m \<in> set (freeNodes s @ rest)" "n \<in> set (freeNodes s @ rest)" "m \<noteq> n"
  shows "bytes s m \<inter> bytes s n = {}"
  using assms leaves_apart unfolding core_def forest_def by metis

lemma holdsD:
  assumes "holds s H" "(q, j) \<in> set H" "(q, n) \<in> set (mUsedList s)"
  shows "block q j \<subseteq> bytes s n"
proof -
  have "case (q, j) of (p, k) \<Rightarrow> \<forall>n. (p, n) \<in> set (mUsedList s) \<longrightarrow> block p k \<subseteq> bytes s n"
    using assms(1,2) unfolding holds_def by blast
  then show ?thesis using assms(3) by simp
qed

lemma holdsI:
  assumes "distinct (map fst H)" "fst ` set H = fst ` set (mUsedList s)"
    and "\<And>q j n. (q, j) \<in> set H \<Longrightarrow> (q, n) \<in> set (mUsedList s) \<Longrightarrow> block q j \<subseteq> bytes s n"
  shows "holds s H"
  unfolding holds_def using assms(1,2) by (intro conjI ballI) (use assms(3) in \<open>simp_all add: split_beta\<close>)

definition users_old :: "Pool \<Rightarrow> bool" where
  "users_old s \<longleftrightarrow> used_ok s \<and> (\<forall>n \<in> set (others s). n < pnext s)"

lemma pool_users: "pool_inv s A \<Longrightarrow> users_old s"
proof -
  assume p: "pool_inv s A"
  then have c: "core s (others s) A" "\<forall>n \<in> A. n < pnext s" by (simp_all add: pool_inv_def core_def)
  have "n < pnext s" if "n \<in> set (others s)" for n
  proof -
    have "n \<in> A" by (rule core_leaf_count(2) [OF c(1)]) (use that in simp)
    then show ?thesis using c(2) by blast
  qed
  then show ?thesis using p by (simp add: users_old_def pool_inv_def)
qed

lemma used_node:
  assumes "users_old s" "extends s u" "(p, n) \<in> set (mUsedList s)"
  shows "p \<in> bytes u n" "bytes u n = bytes s n" "n \<in> set (map snd (mUsedList s))"
proof -
  show m: "n \<in> set (map snd (mUsedList s))" using assms(3) by force
  then have "n < pnext s" using assms(1) by (auto simp: users_old_def others_def)
  then show b: "bytes u n = bytes s n" using extends_bytes [OF assms(2)] by simp
  show "p \<in> bytes u n" using assms(1,3) unfolding b users_old_def used_ok_def by force
qed

text \<open>An entry that becomes used.\<close>

lemma key_fresh:
  assumes "users_old s" "extends s u" "core u (x # map snd (mUsedList s) @ G) A'" "p \<in> bytes u x"
  shows "p \<notin> fst ` set (mUsedList s)"
proof
  assume "p \<in> fst ` set (mUsedList s)"
  then obtain n where n: "(p, n) \<in> set (mUsedList s)" by force
  note u = used_node [OF assms(1,2) n]
  have "n \<noteq> x" using u(3) assms(3) by (auto simp: core_def)
  then show False using leaves_disjoint [OF assms(3), of x n] u(1,3) assms(4) by auto
qed

lemma handed_out:
  assumes "users_old s" "holds s H" "extends s u" "core u (x # map snd (mUsedList s) @ G) A'" "merged u (x # map snd (mUsedList s) @ G) A' {}"
    and "block p k \<subseteq> bytes u x" "0 < k"
    and "mUsedList u = (if p \<in> fst ` set (mUsedList s) then mUsedList s else (p, x) # mUsedList s)"
    and "mset (map snd (concat (mGroups u))) = mset G" "groups_ok u"
  shows "pool_inv u A' \<and> holds u ((p, k) # H)"
proof -
  have pin: "p \<in> bytes u x" using assms(6,7) by (auto simp: in_block subset_eq)
  have new: "p \<notin> fst ` set (mUsedList s)" by (rule key_fresh [OF assms(1,3,4) pin])
  then have U: "mUsedList u = (p, x) # mUsedList s" using assms(8) by simp
  have "mset (others u) = mset (x # map snd (mUsedList s) @ G)" using assms(9) by (simp add: others_def U)
  then have "core u (others u) A'" "merged u (others u) A' {}" using core_mset [OF assms(4)] merged_mset [OF assms(5)] by auto
  moreover have "used_ok u"
  proof -
    have "fst e \<in> bytes u (snd e)" if "e \<in> set (mUsedList s)" for e
      using used_node(1) [OF assms(1,3), of "fst e" "snd e"] that by simp
    then show ?thesis using assms(1) new pin by (simp add: users_old_def used_ok_def U)
  qed
  moreover have "holds u ((p, k) # H)"
  proof -
    have H: "distinct (map fst H)" "fst ` set H = fst ` set (mUsedList s)"
      using assms(2) by (auto simp: holds_def)
    have "block q j \<subseteq> bytes u n" if q: "(q, j) \<in> set ((p, k) # H)" "(q, n) \<in> set (mUsedList u)" for q j n
    proof (cases "q = p")
      case True
      then have "(q, j) \<notin> set H" "(q, n) \<notin> set (mUsedList s)" using new H(2) by (metis image_eqI fst_conv)+
      then show ?thesis using q assms(6) True by (auto simp: U)
    next
      case False
      then have q: "(q, j) \<in> set H" "(q, n) \<in> set (mUsedList s)" using q by (auto simp: U)
      show ?thesis using holdsD [OF assms(2) q] used_node(2) [OF assms(1,3) q(2)] by simp
    qed
    moreover have "distinct (map fst ((p, k) # H))" "fst ` set ((p, k) # H) = fst ` set (mUsedList u)" using H new U by auto
    ultimately show ?thesis unfolding holds_def by blast
  qed
  ultimately show ?thesis using assms(10) by (simp add: pool_inv_def)
qed

section \<open>Reusing memory\<close>

lemma getFromFreeList_cases:
  assumes "getFromFreeList list k permit align s = Some (p, s')" "0 < align" "0 < mAlign s" "\<forall>e \<in> set (getList list s). fst e = sz s (snd e)"
  defines "claim \<equiv> (\<lambda>x. if permit then claimed x s else s)"
  obtains (whole) x where "(sz s x, x) \<in> set (getList list s)" "block p k \<subseteq> bytes s x"
      "s' = changeList list (remove1 (sz s x, x)) (insertUsed p x (claim x))"
  | (split) x m where "permit" "(sz s x, x) \<in> set (getList list s)" "m \<le> sz s x" "block p k \<subseteq> block (pointer (pnodes s x)) m"
      "s' = changeList list (\<lambda>l. mapInsert (sz s x - m) (Suc (pnext s)) (remove1 (sz s x, x) l))
        (newNode \<lparr>pointer = (fst (pointer (pnodes s x)), snd (pointer (pnodes s x)) + m), nodeParent = Some x, nodeSize = sz s x - m, nodeCount = 0\<rparr>
          (countUp x (insertUsed p (pnext s)
            (newNode \<lparr>pointer = pointer (pnodes s x), nodeParent = Some x, nodeSize = m, nodeCount = 0\<rparr> (claim x)))))"
proof -
  define need where "need = (mAlign s mod align \<noteq> 0)"
  define want where "want = (if need then k + align - 1 else k)"
  obtain x where x: "lowerBound want (getList list s) = Some (sz s x, x)"
  proof -
    obtain e where e: "lowerBound want (getList list s) = Some e"
      using assms(1) by (auto simp: getFromFreeList_def Let_def need_def want_def split: option.splits)
    then have "fst e = sz s (snd e)" using assms(4) lowerBound_SomeD(1) by blast
    then show thesis using that [of "snd e"] e by (metis prod.collapse)
  qed
  have inl: "(sz s x, x) \<in> set (getList list s)" "want \<le> sz s x" using lowerBound_SomeD [OF x] by auto
  obtain base origin where o: "pointer (pnodes s x) = (base, origin)" by force
  define off where "off = (if need then align_up origin align else origin)"
  define real where "real = (if need then k + off - origin else want)"
  define m where "m = align_up real (mAlign s)"
  have off: "origin \<le> off" "off < origin + align"
    using align_up_ge [OF assms(2), of origin] align_up_less [OF assms(2), of origin] assms(2) by (auto simp: off_def)
  have real: "off + k = origin + real" "real \<le> sz s x" "real \<le> m"
    using off inl(2) align_up_ge [OF assms(3), of real] by (auto simp: real_def want_def m_def off_def split: if_splits)
  have c: "(case par s x of None \<Rightarrow> s | Some q \<Rightarrow> if permit then countUp q s else s) = claim x"
    by (simp add: claim_def split: option.split)
  have cf: "mAlign (claim x) = mAlign s" "pnext (claim x) = pnext s" by (simp_all add: claim_def)
  show thesis
  proof (cases "m \<ge> sz s x \<or> \<not> permit")
    case True
    have "p = (base, off) \<and> s' = changeList list (remove1 (sz s x, x)) (insertUsed p x (claim x))"
      using assms(1) True unfolding getFromFreeList_def Let_def need_def [symmetric] want_def [symmetric] x option.case prod.case o
      unfolding off_def [symmetric] unfolding real_def [symmetric] unfolding c cf m_def [symmetric] by auto
    moreover from this have "block p k \<subseteq> bytes s x" using real off by (auto simp: in_block bytes_def o)
    ultimately show ?thesis using whole inl(1) by blast
  next
    case False
    have "p = (base, off) \<and> s' = changeList list (\<lambda>l. mapInsert (sz s x - m) (Suc (pnext s)) (remove1 (sz s x, x) l))
        (newNode \<lparr>pointer = (base, origin + m), nodeParent = Some x, nodeSize = sz s x - m, nodeCount = 0\<rparr>
          (countUp x (insertUsed p (pnext s)
            (newNode \<lparr>pointer = (base, origin), nodeParent = Some x, nodeSize = m, nodeCount = 0\<rparr> (claim x)))))"
      using assms(1) False unfolding getFromFreeList_def Let_def need_def [symmetric] want_def [symmetric] x option.case prod.case o
      unfolding off_def [symmetric] unfolding real_def [symmetric] unfolding c cf m_def [symmetric] by auto
    moreover from this have "block p k \<subseteq> block (base, origin) m" using real off by (auto simp: in_block)
    ultimately show ?thesis using split [of x m] inl(1) False o by auto
  qed
qed

lemma groups_ok_same:
  assumes "groups_ok s" "users_old s" "extends s t" "mGroups t = mGroups s" "mCurrentFreeList t = mCurrentFreeList s"
  shows "groups_ok t"
proof -
  have "sz t (snd e) = sz s (snd e)" if "l \<in> set (mGroups s)" "e \<in> set l" for l e
  proof -
    have "snd e \<in> set (others s)" using that by (force simp: others_def)
    then show ?thesis using assms(2,3) by (simp add: extends_def users_old_def)
  qed
  then show ?thesis using assms(1,3-5) by (simp add: groups_ok_def extends_def)
qed

lemma pool_invD:
  assumes "pool_inv s A"
  shows "core s (map snd (mUsedList s) @ map snd (concat (mGroups s))) A"
    "merged s (map snd (mUsedList s) @ map snd (concat (mGroups s))) A {}" "groups_ok s" "0 < mAlign s"
  using assms by (auto simp: pool_inv_def others_def groups_ok_def)

lemma take_main:
  assumes "pool_inv s A" "holds s H" "getFromFreeList MainList k True align s = Some (p, s')" "0 < k" "0 < align"
  shows "\<exists>A'. pool_inv s' A' \<and> holds s' ((p, k) # H) \<and> roots s' A' = roots s A"
proof -
  note c = pool_invD [OF assms(1)] and old = pool_users [OF assms(1)]
  let ?rest = "map snd (mUsedList s) @ map snd (concat (mGroups s))"
  have keys: "\<forall>e \<in> set (getList MainList s). fst e = sz s (snd e)" using c(1) by (simp add: core_def)
  from assms(3) assms(5) c(4) keys show ?thesis
  proof (cases rule: getFromFreeList_cases)
    case (whole x)
    have s': "s' = changeList MainList (remove1 (sz s x, x)) (insertUsed p x (claimed x s))" using whole(3) by simp
    have t: "core s' (x # ?rest) A" "merged s' (x # ?rest) A {}"
      by (rule take_core [OF c(1,2), of "sz s x"], use whole(1) in \<open>simp_all add: s'\<close>)+
    have e: "extends s s'" by (simp add: s' extends_def)
    have b: "bytes s' x = bytes s x" by (simp add: s' bytes_def)
    have "pool_inv s' A \<and> holds s' ((p, k) # H)"
    proof (rule handed_out [OF old assms(2) e t _ assms(4)])
      show "groups_ok s'" by (rule groups_ok_same [OF c(3) old e]) (simp_all add: s')
    qed (use whole(2) b in \<open>simp_all add: s'\<close>)
    moreover have "roots s' A = roots s A" by (rule roots_same [OF e]) (use c(1) in \<open>simp_all add: core_def s'\<close>)
    ultimately show ?thesis by blast
  next
    case (split x m)
    define t where "t = changeList MainList (remove1 (sz s x, x)) (claimed x s)"
    have ct: "core t (x # ?rest) A" "merged t (x # ?rest) A {}"
      by (rule take_core [OF c(1,2), of "sz s x"], use split(2) in \<open>simp_all add: t_def\<close>)+
    have x: "x \<in> A" "cnt t x = 0" using core_leaf_count [OF ct(1), of x] by auto
    then have lt: "x < pnext s" using c(1) by (simp add: core_def)
    have tf: "pnext t = pnext s" "mTotalSize t = mTotalSize s" "mFreeList t = remove1 (sz s x, x) (mFreeList s)"
      "pnodes t = pnodes (claimed x s)" "sz t x = sz s x" "pointer (pnodes t x) = pointer (pnodes s x)"
      by (simp_all add: t_def)
    have cx: "nodeCount_update (\<lambda>c. c + 1) (pnodes (claimed x s) x) = (pnodes t x)\<lparr>nodeCount := 1\<rparr>"
      using x(2) unfolding tf(4) by simp
    have N: "pnodes s' = (pnodes t)(x := (pnodes t x)\<lparr>nodeCount := 1\<rparr>,
        pnext t := \<lparr>pointer = pointer (pnodes t x), nodeParent = Some x, nodeSize = m, nodeCount = 0\<rparr>,
        Suc (pnext t) := \<lparr>pointer = (fst (pointer (pnodes t x)), snd (pointer (pnodes t x)) + m), nodeParent = Some x,
          nodeSize = sz t x - m, nodeCount = 0\<rparr>)"
      using lt cx unfolding split(5) tf by (simp add: pnodes_countUp fun_upd_twist)
    have F: "mFreeList s' = mapInsert (sz t x - m) (Suc (pnext t)) (mFreeList t)" "pnext s' = Suc (Suc (pnext t))"
      "mTotalSize s' = mTotalSize t" unfolding split(5) tf by simp_all
    have u: "core s' (pnext t # ?rest) (A \<union> {pnext t, Suc (pnext t)})" "merged s' (pnext t # ?rest) (A \<union> {pnext t, Suc (pnext t)}) {}"
      by (rule cut_core [OF ct _ N F], use split(3) tf in simp)+
    have e: "extends s s'" unfolding extends_def N F tf by (simp add: split(5))
    have b: "bytes s' (pnext t) = block (pointer (pnodes s x)) m" unfolding bytes_def N using tf lt by simp
    have "pool_inv s' (A \<union> {pnext t, Suc (pnext t)}) \<and> holds s' ((p, k) # H)"
    proof (rule handed_out [OF old assms(2) e u _ assms(4)])
      show "groups_ok s'" by (rule groups_ok_same [OF c(3) old e]) (simp_all add: split(5))
      show "block p k \<subseteq> bytes s' (pnext t)" unfolding b by (rule split(4))
      show "mUsedList s' = (if p \<in> fst ` set (mUsedList s) then mUsedList s else (p, pnext t) # mUsedList s)"
        by (simp add: split(5) tf)
    qed (simp add: split(5))
    moreover have "roots s' (A \<union> {pnext t, Suc (pnext t)}) = roots s A"
    proof (rule roots_same [OF e])
      have "par s' (pnext t) = Some x" "par s' (Suc (pnext t)) = Some x" unfolding N by simp_all
      moreover have "par s' n = par s n" if "n \<in> A" for n using e that c(1) by (simp add: extends_def core_def)
      ultimately show "{n \<in> A \<union> {pnext t, Suc (pnext t)}. par s' n = None} = {n \<in> A. par s n = None}" by auto
    qed (use c(1) in \<open>simp add: core_def\<close>)
    ultimately show ?thesis by blast
  qed
qed

text \<open>A list of a group loses or gets an entry.\<close>

lemma group_removed:
  assumes "g < length xs" "e \<in> set (xs ! g)"
  shows "mset (map snd (concat xs)) = add_mset (snd e) (mset (map snd (concat (xs[g := remove1 e (xs ! g)]))))"
proof -
  have "mset (concat xs) = add_mset e (mset (concat (xs[g := remove1 e (xs ! g)])))"
    using mset_concat_update [OF assms(1), of "remove1 e (xs ! g)"] assms(2)
    by (metis (no_types) add_mset_remove_trivial_eq add_right_imp_eq mset_remove1 set_mset_mset union_mset_add_mset_left union_mset_add_mset_right)
  then show ?thesis by (simp add: mset_map)
qed

lemma group_added:
  assumes "g < length xs"
  shows "mset (map snd (concat (xs[g := mapInsert k n (xs ! g)]))) = add_mset n (mset (map snd (concat xs)))"
proof -
  have "mset (concat (xs[g := mapInsert k n (xs ! g)])) = add_mset (k, n) (mset (concat xs))"
    using mset_concat_update [OF assms, of "mapInsert k n (xs ! g)"] by (simp add: mset_mapInsert)
  then show ?thesis by (simp add: mset_map)
qed

lemma take_group:
  assumes "pool_inv s A" "holds s H" "getFromFreeList (Group g) k False align s = Some (p, s')" "0 < k" "0 < align" "mCurrentFreeList s = Some g"
  shows "\<exists>A'. pool_inv s' A' \<and> holds s' ((p, k) # H) \<and> roots s' A' = roots s A"
proof -
  note c = pool_invD [OF assms(1)] and old = pool_users [OF assms(1)]
  have g: "g < length (mGroups s)" using c(3) assms(6) by (simp add: groups_ok_def)
  have keys: "\<forall>e \<in> set (getList (Group g) s). fst e = sz s (snd e)" using c(3) nth_mem [OF g] by (simp add: groups_ok_def)
  from assms(3) assms(5) c(4) keys show ?thesis
  proof (cases rule: getFromFreeList_cases)
    case (whole x)
    have s': "s' = changeList (Group g) (remove1 (sz s x, x)) (insertUsed p x s)" using whole(3) by simp
    let ?xs = "(mGroups s)[g := remove1 (sz s x, x) (mGroups s ! g)]"
    have m: "mset (map snd (mUsedList s) @ map snd (concat (mGroups s))) = mset (x # map snd (mUsedList s) @ map snd (concat ?xs))"
      using group_removed [OF g, of "(sz s x, x)"] whole(1) by simp
    have t: "core s' (x # map snd (mUsedList s) @ map snd (concat ?xs)) A" "merged s' (x # map snd (mUsedList s) @ map snd (concat ?xs)) A {}"
      by (rule core_fields [OF core_mset [OF c(1) m]], simp_all add: s')
        (rule merged_fields [OF merged_mset [OF c(2) m]], simp_all add: s')
    have e: "extends s s'" by (simp add: s' extends_def)
    have b: "bytes s' x = bytes s x" by (simp add: s' bytes_def)
    have "pool_inv s' A \<and> holds s' ((p, k) # H)"
    proof (rule handed_out [OF old assms(2) e t _ assms(4)])
      show "groups_ok s'" using c(3) g unfolding groups_ok_def s'
        by (auto dest!: set_update_subset_insert [THEN subsetD] dest: notin_set_remove1 nth_mem)
    qed (use whole(2) b in \<open>simp_all add: s'\<close>)
    moreover have "roots s' A = roots s A" by (rule roots_same [OF e]) (use c(1) in \<open>simp_all add: core_def s'\<close>)
    ultimately show ?thesis by blast
  qed simp
qed

section \<open>New chunks\<close>

lemma block_start: "0 < k \<Longrightarrow> p \<in> block p k"
  by (simp add: in_block)

lemma block_mono: "j \<le> k \<Longrightarrow> block p j \<subseteq> block p k"
  by (auto simp: in_block)

lemma align_up_le: "a dvd t \<Longrightarrow> 0 < a \<Longrightarrow> k \<le> t \<Longrightarrow> align_up k a \<le> t"
proof -
  assume a: "a dvd t" "0 < a" "k \<le> t"
  then have "align_up k a < t + a" "a dvd align_up k a" using align_up_less [of a k] align_up_dvd by auto
  then show ?thesis using a(1) by (metis dvd_add_right_iff dvd_imp_le less_le_not_le linorder_not_le nat_dvd_not_less
      le_add_diff_inverse less_diff_conv2 nat_le_linear add.commute dvd_diff_nat zero_less_diff)
qed

lemma setUsed_fields [simp]:
  "pnodes (setUsed p n s) = pnodes s" "mFreeList (setUsed p n s) = mFreeList s" "mGroups (setUsed p n s) = mGroups s"
  "pnext (setUsed p n s) = pnext s" "mTotalSize (setUsed p n s) = mTotalSize s" "mAlign (setUsed p n s) = mAlign s"
  "mCurrentFreeList (setUsed p n s) = mCurrentFreeList s" "mMinAllocSize (setUsed p n s) = mMinAllocSize s"
  by (simp_all add: setUsed_def)

lemma changeNode_fields [simp]:
  "pnodes (changeNode n f s) = (pnodes s)(n := f (pnodes s n))" "mFreeList (changeNode n f s) = mFreeList s"
  "mGroups (changeNode n f s) = mGroups s" "pnext (changeNode n f s) = pnext s" "mTotalSize (changeNode n f s) = mTotalSize s"
  "mAlign (changeNode n f s) = mAlign s" "mCurrentFreeList (changeNode n f s) = mCurrentFreeList s"
  "mMinAllocSize (changeNode n f s) = mMinAllocSize s" "mUsedList (changeNode n f s) = mUsedList s"
  by (simp_all add: changeNode_def)

lemma allocNew_inv:
  assumes "pool_inv s A" "holds s H" "0 < k" "\<And>m. m \<in> A \<Longrightarrow> par s m = None \<Longrightarrow> bytes s m \<inter> block q (allocSize k s) = {}"
  shows "\<exists>A'. pool_inv (allocNew k q s) A' \<and> holds (allocNew k q s) ((q, k) # H) \<and>
    roots (allocNew k q s) A' = insert (pnext s, q, allocSize k s) (roots s A)"
proof -
  note c = pool_invD [OF assms(1)] and old = pool_users [OF assms(1)]
  let ?rest = "map snd (mUsedList s) @ map snd (concat (mGroups s))" and ?r = "pnext s" and ?n = "allocSize k s"
  define u where "u = newNode \<lparr>pointer = q, nodeParent = None, nodeSize = ?n, nodeCount = 0\<rparr> (s\<lparr>mTotalSize := mTotalSize s + ?n\<rparr>)"
  have u: "core u (?r # ?rest) (insert ?r A)" "merged u (?r # ?rest) (insert ?r A) {}"
    by (rule root_core [OF c(1,2) assms(4)], simp_all add: u_def)+
  have eu: "extends s u" by (simp add: u_def extends_def)
  have bu: "bytes u ?r = block q ?n" by (simp add: u_def bytes_def)
  have kn: "k \<le> ?n" by (simp add: allocSize_def)
  have roots: "roots t B = insert (?r, q, ?n) (roots s A)"
    if "extends s t" "{n \<in> B. par t n = None} = insert ?r {n \<in> A. par s n = None}" "pointer (pnodes t ?r) = q" "sz t ?r = ?n" for t B
  proof -
    have "roots t A = roots s A" by (rule roots_same [OF that(1)]) (use that(1) c(1) in \<open>auto simp: core_def extends_def\<close>)
    moreover have "{n \<in> A. par t n = None} = {n \<in> A. par s n = None}" using that(1) c(1) by (auto simp: core_def extends_def)
    ultimately show ?thesis using that(2-4) by (simp add: roots_def)
  qed
  have new: "?r \<notin> A" "\<forall>n \<in> A. n < ?r" using c(1) by (auto simp: core_def)
  show ?thesis
  proof (cases "?n > k")
    case False
    then have e: "allocNew k q s = setUsed q ?r u" unfolding allocNew_def Let_def u_def by simp
    let ?t = "allocNew k q s"
    have t: "core ?t (?r # ?rest) (insert ?r A)" "merged ?t (?r # ?rest) (insert ?r A) {}" unfolding e
      by (rule core_fields [OF u(1)], simp_all) (rule merged_fields [OF u(2)], simp_all)
    have et: "extends s ?t" unfolding e using eu by (simp add: extends_def)
    have "bytes ?t ?r = block q ?n" unfolding e using bu by (simp add: bytes_def)
    then have b: "block q k \<subseteq> bytes ?t ?r" using block_mono [OF kn] by simp
    have "q \<notin> fst ` set (mUsedList s)" by (rule key_fresh [OF old et t(1) subsetD [OF b block_start [OF assms(3)]]])
    then have U: "mUsedList ?t = (if q \<in> fst ` set (mUsedList s) then mUsedList s else (q, ?r) # mUsedList s)"
      unfolding e setUsed_def u_def by (auto simp: filter_id_conv)
    have "groups_ok ?t" by (rule groups_ok_same [OF c(3) old et]) (simp_all add: e u_def)
    then have "pool_inv ?t (insert ?r A) \<and> holds ?t ((q, k) # H)"
      by (intro handed_out [OF old assms(2) et t b assms(3) U]) (simp_all add: e u_def)
    moreover have "roots ?t (insert ?r A) = insert (?r, q, ?n) (roots s A)"
      by (rule roots [OF et]) (use new in \<open>auto simp: e u_def\<close>)
    ultimately show ?thesis by blast
  next
    case True
    let ?m = "align_up k (mAlign s)" and ?t = "allocNew k q s"
    have min: "mMinAllocSize s \<noteq> 0" "?n = mMinAllocSize s" using True by (auto simp: allocSize_def max_def split: if_splits)
    then have g: "mGroups s = []" "mCurrentFreeList s = None" "mAlign s dvd ?n" "?n < 2 ^ 64"
      using c(3) by (cases "mCurrentFreeList s"; auto simp: groups_ok_def)+
    have m: "?m \<le> ?n" using align_up_le [OF g(3) c(4)] True by simp
    have rest: "(?n + 18446744073709551616 - ?m) mod 18446744073709551616 = ?n - ?m"
    proof -
      have "?n + 18446744073709551616 - ?m = (?n - ?m) + 18446744073709551616" using m by (rule diff_add_assoc2)
      moreover have "(?n - ?m) mod 18446744073709551616 = ?n - ?m"
        by (rule mod_less) (use g(4) in simp)
      ultimately show ?thesis by (simp only: mod_add_self2)
    qed
    have t: "?t = changeList MainList (mapInsert (?n - ?m) (Suc (pnext u)))
        (newNode \<lparr>pointer = (fst q, snd q + ?m), nodeParent = Some ?r, nodeSize = ?n - ?m, nodeCount = 0\<rparr>
          (changeNode ?r (nodeCount_update (\<lambda>_. 1)) (insertUsed q (pnext u)
            (newNode \<lparr>pointer = q, nodeParent = Some ?r, nodeSize = ?m, nodeCount = 0\<rparr> u))))"
      using True g(2) unfolding allocNew_def Let_def u_def by (simp add: rest targetList_def)
    have uf: "pnext u = Suc ?r" "sz u ?r = ?n" "pointer (pnodes u ?r) = q" "mGroups u = mGroups s" by (simp_all add: u_def)
    have N: "pnodes ?t = (pnodes u)(?r := (pnodes u ?r)\<lparr>nodeCount := 1\<rparr>,
        pnext u := \<lparr>pointer = pointer (pnodes u ?r), nodeParent = Some ?r, nodeSize = ?m, nodeCount = 0\<rparr>,
        Suc (pnext u) := \<lparr>pointer = (fst (pointer (pnodes u ?r)), snd (pointer (pnodes u ?r)) + ?m), nodeParent = Some ?r,
          nodeSize = sz u ?r - ?m, nodeCount = 0\<rparr>)"
      unfolding t uf by (simp add: fun_upd_twist uf)
    have F: "mFreeList ?t = mapInsert (sz u ?r - ?m) (Suc (pnext u)) (mFreeList u)" "pnext ?t = Suc (Suc (pnext u))"
      "mTotalSize ?t = mTotalSize u" unfolding t uf by (simp_all add: uf)
    have v: "core ?t (pnext u # ?rest) (insert ?r A \<union> {pnext u, Suc (pnext u)})"
        "merged ?t (pnext u # ?rest) (insert ?r A \<union> {pnext u, Suc (pnext u)}) {}"
      by (rule cut_core [OF u _ N F], use m uf in simp)+
    have e: "extends s ?t" unfolding extends_def N F uf by (simp add: t u_def)
    have b: "bytes ?t (pnext u) = block q ?m" unfolding bytes_def N by (simp add: uf)
    have "pool_inv ?t (insert ?r A \<union> {pnext u, Suc (pnext u)}) \<and> holds ?t ((q, k) # H)"
    proof (rule handed_out [OF old assms(2) e v _ assms(3)])
      show "groups_ok ?t" by (rule groups_ok_same [OF c(3) old e]) (simp_all add: t u_def)
      show "block q k \<subseteq> bytes ?t (pnext u)" unfolding b by (rule block_mono [OF align_up_ge [OF c(4)]])
      show "mUsedList ?t = (if q \<in> fst ` set (mUsedList s) then mUsedList s else (q, pnext u) # mUsedList s)" by (simp add: t u_def)
    qed (simp add: t u_def)
    moreover have "roots ?t (insert ?r A \<union> {pnext u, Suc (pnext u)}) = insert (?r, q, ?n) (roots s A)"
    proof (rule roots [OF e])
      have "par ?t (pnext u) = Some ?r" "par ?t (Suc (pnext u)) = Some ?r" "par ?t ?r = None" unfolding N uf by (simp_all add: u_def)
      moreover have "par ?t n = par s n" if "n \<in> A" for n using e that new by (simp add: extends_def)
      ultimately show "{n \<in> insert ?r A \<union> {pnext u, Suc (pnext u)}. par ?t n = None} = insert ?r {n \<in> A. par s n = None}" by auto
    qed (simp_all add: N uf)
    ultimately show ?thesis by blast
  qed
qed

section \<open>Giving memory back\<close>

lemma users_filtered:
  assumes "distinct (map fst l)" "(p, n) \<in> set l"
  shows "mset l = add_mset (p, n) (mset (filter (\<lambda>e. fst e \<noteq> p) l))"
  using assms
proof (induction l)
  case (Cons e l)
  show ?case
  proof (cases "fst e = p")
    case True
    then have np: "p \<notin> fst ` set l" using Cons.prems(1) by auto
    then have "(p, n) \<notin> set l" by force
    then have "e = (p, n)" using Cons.prems(2) by simp
    have "filter (\<lambda>e. fst e \<noteq> p) l = l" by (intro filter_True) (use np in force)
    then show ?thesis using \<open>e = (p, n)\<close> by simp
  qed (use Cons in auto)
qed simp

lemma holds_fewer:
  assumes "holds s H" "mUsedList t = filter (\<lambda>e. fst e \<noteq> p) (mUsedList s)" "\<And>n. n \<in> set (others s) \<Longrightarrow> bytes t n = bytes s n"
  shows "holds t (filter (\<lambda>h. fst h \<noteq> p) H)"
proof -
  have "block q j \<subseteq> bytes t n" if "(q, j) \<in> set H" "(q, n) \<in> set (mUsedList s)" for q j n
  proof -
    have "n \<in> set (others s)" using that by (force simp: others_def)
    then show ?thesis using holdsD [OF assms(1) that] assms(3) by simp
  qed
  moreover have "distinct (map fst (filter (\<lambda>h. fst h \<noteq> p) H))" using assms(1) unfolding holds_def by (meson distinct_map_filter)
  moreover have "fst ` set (filter (\<lambda>h. fst h \<noteq> p) H) = fst ` set (mUsedList t)"
  proof -
    have "fst ` set (filter (\<lambda>e. fst e \<noteq> p) l) = fst ` set l - {p}" for l :: "((nat \<times> nat) \<times> nat) list" by force
    then show ?thesis using assms(1,2) by (simp add: holds_def)
  qed
  ultimately show ?thesis unfolding holds_def assms(2) by auto
qed

lemma same_users_groups: "same_users s t \<Longrightarrow> groups_ok s \<Longrightarrow> users_old s \<Longrightarrow> groups_ok t"
  using groups_ok_same [of s t] by (simp add: same_users_def)

lemma pool_free_inv:
  assumes "pool_inv s A" "holds s H" "p \<in> fst ` set H"
  shows "fst (pool_free p s)" "\<exists>A'. pool_inv (snd (pool_free p s)) A' \<and> holds (snd (pool_free p s)) (filter (\<lambda>h. fst h \<noteq> p) H) \<and>
    roots (snd (pool_free p s)) A' = roots s A"
proof -
  note c = pool_invD [OF assms(1)] and old = pool_users [OF assms(1)]
  have "p \<in> fst ` set (mUsedList s)" using assms(2,3) by (simp add: holds_def)
  then obtain n where m: "map_of (mUsedList s) p = Some n" by (metis domD dom_map_of_conv_image_fst)
  then have n: "(p, n) \<in> set (mUsedList s)" by (rule map_of_SomeD)
  let ?U = "filter (\<lambda>e. fst e \<noteq> p) (mUsedList s)"
  define s1 where "s1 = s\<lparr>mUsedList := ?U\<rparr>"
  have U: "mset (map snd (mUsedList s)) = add_mset n (mset (map snd ?U))"
  proof -
    have "mset (mUsedList s) = add_mset (p, n) (mset ?U)"
      using users_filtered [OF _ n] old by (simp add: users_old_def used_ok_def)
    then have "image_mset snd (mset (mUsedList s)) = image_mset snd (add_mset (p, n) (mset ?U))" by (simp only:)
    then show ?thesis by (simp only: mset_map image_mset_add_mset snd_conv)
  qed
  have b1: "bytes s1 = bytes s" by (simp add: s1_def bytes_def fun_eq_iff)
  have used: "used_ok s1" using old unfolding users_old_def used_ok_def b1 by (auto simp: s1_def distinct_map_filter)
  have o: "set (others s1) \<subseteq> set (others s)" by (auto simp: s1_def others_def)
  have old1: "users_old s1" using used old o by (auto simp: users_old_def s1_def)
  have g1: "groups_ok s1" using c(3) by (simp add: groups_ok_def s1_def)
  have e: "pool_free p s = (True, returnMemory (targetList s1) n (mCurrentFreeList s1 = None) s1)"
    using m by (simp add: pool_free_def Let_def s1_def targetList_def)
  then show "fst (pool_free p s)" by simp
  let ?t = "returnMemory (targetList s1) n (mCurrentFreeList s1 = None) s1"
  have core1: "core s1 (map snd (mUsedList s) @ map snd (concat (mGroups s))) A" "merged s1 (map snd (mUsedList s) @ map snd (concat (mGroups s))) A {}"
    by (rule core_fields [OF c(1)], simp_all add: s1_def) (rule merged_fields [OF c(2)], simp_all add: s1_def)
  show "\<exists>A'. pool_inv (snd (pool_free p s)) A' \<and> holds (snd (pool_free p s)) (filter (\<lambda>h. fst h \<noteq> p) H) \<and>
    roots (snd (pool_free p s)) A' = roots s A"
  proof (cases "mCurrentFreeList s")
    case None
    have m: "mset (map snd (mUsedList s) @ map snd (concat (mGroups s))) = mset (n # others s1)"
      using U by (simp add: others_def s1_def)
    have t: "?t = returnMemory MainList n True s1" using None by (simp add: targetList_def s1_def)
    obtain A' where A': "core ?t (others s1) A'" "merged ?t (others s1) A' {}" "same_users s1 ?t"
      "{m \<in> A'. par s1 m = None} = {m \<in> A. par s1 m = None}"
      unfolding t using returnMemory_core [OF core_mset [OF core1(1) m] merged_mset [OF core1(2) m]] by blast
    have b: "bytes ?t k = bytes s k" if "k \<in> set (others s)" for k
      using A'(3) b1 old that extends_bytes [of s1 ?t k] by (simp add: same_users_def users_old_def s1_def)
    have "others ?t = others s1" "mUsedList ?t = ?U" using A'(3) by (simp_all add: same_users_def others_def s1_def)
    moreover have "used_ok ?t"
    proof -
      have "bytes ?t (snd e) = bytes s1 (snd e)" if "e \<in> set ?U" for e
        using b [of "snd e"] that b1 by (force simp: others_def)
      then show ?thesis using used \<open>mUsedList ?t = ?U\<close> by (simp add: used_ok_def s1_def)
    qed
    moreover have "groups_ok ?t" by (rule same_users_groups [OF A'(3) g1 old1])
    ultimately have "pool_inv ?t A'" using A' by (simp add: pool_inv_def)
    moreover have "holds ?t (filter (\<lambda>h. fst h \<noteq> p) H)" by (rule holds_fewer [OF assms(2) \<open>mUsedList ?t = ?U\<close> b])
    moreover have "roots ?t A' = roots s A"
    proof (rule roots_same)
      have x: "par ?t n = par s n" if "n < pnext s" for n using A'(3) that by (simp add: same_users_def extends_def s1_def)
      show "extends s ?t" using A'(3) by (simp add: same_users_def extends_def s1_def)
      show "\<forall>n \<in> A. n < pnext s" using c(1) by (simp add: core_def)
      moreover have "\<forall>n \<in> A'. n < pnext s" using A'(1,3) by (simp add: core_def same_users_def s1_def)
      ultimately show "{n \<in> A'. par ?t n = None} = {n \<in> A. par s n = None}" using A'(4) x by (auto simp: s1_def)
    qed
    ultimately show ?thesis using e by auto
  next
    case (Some g)
    then have g: "g < length (mGroups s)" using c(3) by (simp add: groups_ok_def)
    have keys: "\<forall>e \<in> set (mGroups s ! g). fst e = sz s (snd e)" using c(3) nth_mem [OF g] by (simp add: groups_ok_def)
    have t: "?t = changeList (Group g) (mapInsert (sz s n) n) s1"
      using Some by (simp add: targetList_def s1_def returnMemory_def Let_def split: option.split)
    have f: "mUsedList ?t = ?U" "mGroups ?t = (mGroups s)[g := mapInsert (sz s n) n (mGroups s ! g)]" "pnodes ?t = pnodes s"
      "mFreeList ?t = mFreeList s" "pnext ?t = pnext s" "mTotalSize ?t = mTotalSize s" "mCurrentFreeList ?t = mCurrentFreeList s"
      "mAlign ?t = mAlign s" "mMinAllocSize ?t = mMinAllocSize s"
      unfolding t by (simp_all add: s1_def)
    have m: "mset (map snd (mUsedList s) @ map snd (concat (mGroups s))) = mset (others ?t)"
      using U group_added [OF g, of "sz s n" n] by (simp add: others_def f)
    have "core ?t (others ?t) A" "merged ?t (others ?t) A {}"
      by (rule core_fields [OF core_mset [OF c(1) m]], simp_all add: f) (rule merged_fields [OF merged_mset [OF c(2) m]], simp_all add: f)
    moreover have bt: "bytes ?t = bytes s" using f(3) by (rule bytes_fields)
    have "mUsedList s1 = ?U" by (simp add: s1_def)
    then have "used_ok ?t" using used unfolding used_ok_def bt b1 f(1) by simp
    moreover have "groups_ok ?t" using c(3) g keys unfolding groups_ok_def f
      by (auto dest!: set_update_subset_insert [THEN subsetD])
    ultimately have "pool_inv ?t A" by (simp add: pool_inv_def)
    moreover have "holds ?t (filter (\<lambda>h. fst h \<noteq> p) H)" by (rule holds_fewer [OF assms(2) f(1)]) (simp add: bt)
    moreover have "roots ?t A = roots s A" by (simp only: roots_def f(3))
    ultimately show ?thesis using e by auto
  qed
qed

lemma returned_core:
  assumes "core s (map snd es @ rest) A" "merged s (map snd es @ rest) A {}"
  shows "\<exists>A'. core (fold (\<lambda>e. returnMemory MainList (snd e) True) es s) rest A' \<and>
    merged (fold (\<lambda>e. returnMemory MainList (snd e) True) es s) rest A' {} \<and>
    same_users s (fold (\<lambda>e. returnMemory MainList (snd e) True) es s) \<and> {n \<in> A'. par s n = None} = {n \<in> A. par s n = None}"
  using assms
proof (induction es arbitrary: s A)
  case Nil
  then show ?case using same_users_refl by auto
next
  case (Cons e es)
  obtain A1 where 1: "core (returnMemory MainList (snd e) True s) (map snd es @ rest) A1"
    "merged (returnMemory MainList (snd e) True s) (map snd es @ rest) A1 {}" "same_users s (returnMemory MainList (snd e) True s)"
    "{n \<in> A1. par s n = None} = {n \<in> A. par s n = None}"
    using returnMemory_core [of s "snd e" "map snd es @ rest"] Cons.prems by auto
  let ?s = "returnMemory MainList (snd e) True s"
  let ?t = "fold (\<lambda>e. returnMemory MainList (snd e) True) es ?s"
  obtain A' where A': "core ?t rest A'" "merged ?t rest A' {}" "same_users ?s ?t" "{n \<in> A'. par ?s n = None} = {n \<in> A1. par ?s n = None}"
    using Cons.IH [OF 1(1,2)] by blast
  have "{n \<in> A'. par s n = None} = {n \<in> A. par s n = None}"
  proof -
    have b: "n < pnext s" if "n \<in> A' \<or> n \<in> A1" for n
      using that A'(1,3) 1(1,3) by (auto simp: core_def same_users_def)
    have "par ?s n = par s n" if "n < pnext s" for n using 1(3) that by (simp add: same_users_def extends_def)
    then have same: "n \<in> A' \<or> n \<in> A1 \<Longrightarrow> par ?s n = par s n" for n using b by blast
    have "n \<in> A' \<and> par s n = None \<longleftrightarrow> n \<in> A1 \<and> par s n = None" for n
      using same [of n] eqset_imp_iff [OF A'(4), of n] by auto
    then have "{n \<in> A'. par s n = None} = {n \<in> A1. par s n = None}" by blast
    then show ?thesis using 1(4) by (rule trans)
  qed
  then show ?case using A' same_users_trans [OF 1(3)] by auto
qed

lemma holds_same:
  assumes "holds s H" "mUsedList t = mUsedList s" "\<And>n. n \<in> set (others s) \<Longrightarrow> bytes t n = bytes s n"
  shows "holds t H"
proof -
  have "block q j \<subseteq> bytes t n" if "(q, j) \<in> set H" "(q, n) \<in> set (mUsedList s)" for q j n
  proof -
    have "n \<in> set (others s)" using that by (force simp: others_def)
    then show ?thesis using holdsD [OF assms(1) that] assms(3) by simp
  qed
  then show ?thesis using assms(1) by (intro holdsI) (simp_all add: holds_def assms(2))
qed

lemma barrierEnd_inv:
  assumes "pool_inv s A" "holds s H" "mCurrentFreeList s = None"
  shows "\<exists>A'. pool_inv (pool_barrierEnd s) A' \<and> holds (pool_barrierEnd s) H \<and> roots (pool_barrierEnd s) A' = roots s A"
proof -
  note c = pool_invD [OF assms(1)] and old = pool_users [OF assms(1)]
  let ?f = "fold (\<lambda>e. returnMemory MainList (snd e) True) (concat (mGroups s)) s" and ?t = "pool_barrierEnd s"
  have m: "mset (map snd (mUsedList s) @ map snd (concat (mGroups s))) = mset (map snd (concat (mGroups s)) @ map snd (mUsedList s))" by simp
  obtain A' where A': "core ?f (map snd (mUsedList s)) A'" "merged ?f (map snd (mUsedList s)) A' {}" "same_users s ?f"
    "{n \<in> A'. par s n = None} = {n \<in> A. par s n = None}"
    using returned_core [OF core_mset [OF c(1) m] merged_mset [OF c(2) m]] by blast
  have f: "mUsedList ?t = mUsedList s" "mGroups ?t = []" "mCurrentFreeList ?t = None" "pnodes ?t = pnodes ?f" "pnext ?t = pnext s"
    "mFreeList ?t = mFreeList ?f" "mTotalSize ?t = mTotalSize ?f" "mAlign ?t = mAlign s" "mMinAllocSize ?t = mMinAllocSize s"
    using A'(3) assms(3) by (simp_all add: pool_barrierEnd_def same_users_def extends_def)
  have b: "bytes ?t n = bytes s n" if "n \<in> set (others s)" for n
    using extends_bytes [of s ?f n] A'(3) old that bytes_fields [OF f(4)] by (simp add: same_users_def users_old_def)
  have o: "others ?t = map snd (mUsedList s)" by (simp add: others_def f)
  have "core ?t (others ?t) A'" "merged ?t (others ?t) A' {}"
    unfolding o using core_fields [OF A'(1) f(4,6) _ f(7)] merged_fields [OF A'(2) f(4,6)] f(5) A'(3) by (auto simp: same_users_def)
  moreover have "used_ok ?t"
  proof -
    have "fst e \<in> bytes ?t (snd e)" if "e \<in> set (mUsedList s)" for e
    proof -
      have "snd e \<in> set (others s)" using that by (force simp: others_def)
      then show ?thesis using b old that by (simp add: users_old_def used_ok_def)
    qed
    then show ?thesis using old by (simp add: users_old_def used_ok_def f)
  qed
  moreover have "groups_ok ?t" using c(3) unfolding groups_ok_def f by auto
  ultimately have "pool_inv ?t A'" by (simp add: pool_inv_def)
  moreover have "holds ?t H" by (rule holds_same [OF assms(2) f(1) b])
  moreover have "roots ?t A' = roots s A"
  proof (rule roots_same)
    have x: "par ?t n = par s n" if "n < pnext s" for n using A'(3) that f(4) by (simp add: same_users_def extends_def)
    show "extends s ?t" using A'(3) f by (simp add: same_users_def extends_def)
    show "\<forall>n \<in> A. n < pnext s" using c(1) by (simp add: core_def)
    moreover have "\<forall>n \<in> A'. n < pnext s" using A'(1,3) by (simp add: core_def same_users_def)
    ultimately show "{n \<in> A'. par ?t n = None} = {n \<in> A. par s n = None}" using A'(4) x by auto
  qed
  ultimately show ?thesis by blast
qed

lemma group_inv:
  assumes "pool_inv s A" "holds s H"
  shows "pool_inv (pool_endGroup s) A \<and> holds (pool_endGroup s) H"
    "mMinAllocSize s = 0 \<Longrightarrow> pool_inv (pool_beginGroup s) A \<and> holds (pool_beginGroup s) H"
proof -
  note c = pool_invD [OF assms(1)] and old = pool_users [OF assms(1)]
  have b: "bytes (pool_endGroup s) = bytes s" "bytes (pool_beginGroup s) = bytes s"
    by (simp_all add: bytes_def fun_eq_iff pool_endGroup_def pool_beginGroup_def)
  have h: "holds (pool_endGroup s) H" by (rule holds_same [OF assms(2)]) (simp_all only: b, simp_all add: pool_endGroup_def)
  have h': "holds (pool_beginGroup s) H" by (rule holds_same [OF assms(2)]) (simp_all only: b, simp_all add: pool_beginGroup_def)
  have o: "others (pool_endGroup s) = others s" "others (pool_beginGroup s) = others s"
    by (simp_all add: others_def pool_endGroup_def pool_beginGroup_def)
  have "core (pool_endGroup s) (others s) A" "core (pool_beginGroup s) (others s) A"
    "merged (pool_endGroup s) (others s) A {}" "merged (pool_beginGroup s) (others s) A {}"
    using core_fields [of s "others s" A] merged_fields [of s "others s" A "{}"] assms(1)
    by (auto simp: pool_inv_def pool_endGroup_def pool_beginGroup_def)
  moreover have "used_ok (pool_endGroup s)" "used_ok (pool_beginGroup s)"
    using old unfolding users_old_def used_ok_def b by (simp_all add: pool_endGroup_def pool_beginGroup_def)
  moreover have "groups_ok (pool_endGroup s)" "mMinAllocSize s = 0 \<Longrightarrow> groups_ok (pool_beginGroup s)"
    using c(3) by (auto simp: groups_ok_def pool_endGroup_def pool_beginGroup_def)
  ultimately show "pool_inv (pool_endGroup s) A \<and> holds (pool_endGroup s) H"
    "mMinAllocSize s = 0 \<Longrightarrow> pool_inv (pool_beginGroup s) A \<and> holds (pool_beginGroup s) H"
    using h h' o by (simp_all add: pool_inv_def)
qed

section \<open>Releasing\<close>

lemma forest_drop_all:
  assumes "finite X" "forest P A L F R C" "X \<subseteq> F" "\<And>x. x \<in> X \<Longrightarrow> P x = None"
  shows "forest P (A - X) (L - X) (F - X) R C"
  using assms
proof (induction X rule: finite_induct)
  case (insert x X)
  have "forest P (A - X) (L - X) (F - X) R C" by (rule insert.IH [OF insert.prems(1)]) (use insert.prems(2,3) in auto)
  moreover have "x \<in> F - X" "P x = None" using insert.prems(2,3) insert.hyps(2) by simp_all
  ultimately have "forest P (A - X - {x}) (L - X - {x}) (F - X - {x}) R C" by (rule forest_drop)
  then show ?case unfolding Diff_insert [of A x X] Diff_insert [of L x X] Diff_insert [of F x X] .
qed simp

lemma release_inv:
  assumes "pool_inv s A" "holds s H" "mGroups s = []"
  defines "X \<equiv> {n \<in> set (freeNodes s). par s n = None}"
  shows "pool_inv (pool_release False s) (A - X) \<and> holds (pool_release False s) H"
    "pool_inv (pool_release True s) {} \<and> holds (pool_release True s) []"
proof -
  note c = pool_invD [OF assms(1)] and old = pool_users [OF assms(1)]
  let ?t = "pool_release False s" and ?root = "\<lambda>e :: nat \<times> nat. par s (snd e) = None" and ?rest = "map snd (mUsedList s)"
  have cur: "mCurrentFreeList s = None" using c(3) assms(3) by (cases "mCurrentFreeList s") (auto simp: groups_ok_def)
  have f: "mUsedList ?t = mUsedList s" "mGroups ?t = []" "mCurrentFreeList ?t = None" "pnodes ?t = pnodes s" "pnext ?t = pnext s"
    "mFreeList ?t = filter (\<lambda>e. \<not> ?root e) (mFreeList s)" "mAlign ?t = mAlign s" "mMinAllocSize ?t = mMinAllocSize s"
    using assms(3) cur by (simp_all add: pool_release_def Let_def)
  have c1: "core s ?rest A" "merged s ?rest A {}" using c(1,2) assms(3) by simp_all
  then have fo: "forest (par s) A (set (freeNodes s @ ?rest)) (set (freeNodes s)) (bytes s) (cnt s)"
    and dist: "distinct (freeNodes s @ ?rest)" and keys: "\<forall>e \<in> set (mFreeList s). fst e = sz s (snd e)"
    and tot: "mTotalSize s = sum (sz s) {n \<in> A. par s n = None}" and fin: "finite A"
    by (auto simp: core_def forest_def tree_shaped_def)
  have inA: "set (freeNodes s) \<subseteq> A" using core_leaf_count(2) [OF c1(1)] by auto
  have free: "set (freeNodes ?t) = set (freeNodes s) - X" by (auto simp: f X_def)
  have E: "set (freeNodes ?t @ ?rest) = set (freeNodes s @ ?rest) - X" using dist free by (auto simp: X_def)
  have fin_X: "finite X" by (simp add: X_def)
  have "forest (par s) (A - X) (set (freeNodes s @ ?rest) - X) (set (freeNodes s) - X) (bytes s) (cnt s)"
    by (rule forest_drop_all [OF fin_X fo]) (auto simp: X_def)
  then have fo': "forest (par ?t) (A - X) (set (freeNodes ?t @ ?rest)) (set (freeNodes ?t)) (bytes ?t) (cnt ?t)"
    unfolding E free bytes_fields [OF f(4)] unfolding f(4) .
  have dist': "distinct (freeNodes ?t @ ?rest)" using dist by (auto simp: f(6) distinct_map inj_on_def)
  have sumX: "sum_list (map fst (filter ?root (mFreeList s))) = sum (sz s) X"
  proof -
    have "map fst (filter ?root (mFreeList s)) = map (sz s) (map snd (filter ?root (mFreeList s)))" using keys by simp
    moreover have "distinct (map snd (filter ?root (mFreeList s)))" using dist by (auto simp: distinct_map inj_on_def)
    moreover have "set (map snd (filter ?root (mFreeList s))) = X" by (auto simp: X_def)
    ultimately show ?thesis by (metis sum.distinct_set_conv_list)
  qed
  have fl: "foldl (\<lambda>t e. t - fst e) a l = a - sum_list (map fst l)" for a :: nat and l :: "(nat \<times> nat) list"
    by (induction l arbitrary: a) simp_all
  have tot': "mTotalSize ?t = sum (sz ?t) {n \<in> A - X. par ?t n = None}"
  proof -
    have X: "X \<subseteq> {n \<in> A. par s n = None}" using inA by (auto simp: X_def)
    have "{n \<in> A - X. par s n = None} = {n \<in> A. par s n = None} - X" by auto
    moreover have "sum (sz s) ({n \<in> A. par s n = None} - X) = sum (sz s) {n \<in> A. par s n = None} - sum (sz s) X"
      by (rule sum_diff_nat [OF fin_X X])
    ultimately have "sum (sz s) {n \<in> A - X. par s n = None} = mTotalSize s - sum (sz s) X" by (simp only: tot)
    moreover have "mTotalSize ?t = mTotalSize s - sum (sz s) X"
      using sumX by (simp add: pool_release_def Let_def fl)
    ultimately show ?thesis by (simp only: f(4))
  qed
  have core': "core ?t ?rest (A - X)"
    using fo' dist' tot' c1(1) unfolding core_def f(4,5,6) by (auto simp: sorted_filter)
  have merged': "merged ?t ?rest (A - X) {}" using c1(2) E unfolding merged_def f(4) by auto
  have o: "others ?t = ?rest" by (simp add: others_def f)
  have "used_ok ?t" using old unfolding users_old_def used_ok_def bytes_fields [OF f(4)] f(1) by simp
  moreover have "groups_ok ?t" using c(3) unfolding groups_ok_def f by auto
  moreover have "holds ?t H" by (rule holds_same [OF assms(2) f(1)]) (simp add: bytes_fields [OF f(4)])
  ultimately show "pool_inv ?t (A - X) \<and> holds ?t H" using core' merged' o by (simp add: pool_inv_def)
  let ?u = "pool_release True s"
  have u: "mUsedList ?u = []" "mGroups ?u = []" "mFreeList ?u = []" "mTotalSize ?u = 0" "mCurrentFreeList ?u = None"
    "mAlign ?u = mAlign s" "mMinAllocSize ?u = mMinAllocSize s"
    using assms(3) cur by (simp_all add: pool_release_def)
  have "core ?u [] {}" "merged ?u [] {} {}" by (simp_all add: core_def merged_def u forest_def tree_shaped_def)
  moreover have "used_ok ?u" "holds ?u []" by (simp_all add: used_ok_def holds_def u)
  moreover have "groups_ok ?u" using c(3) unfolding groups_ok_def u by auto
  ultimately show "pool_inv ?u {} \<and> holds ?u []" by (simp add: pool_inv_def others_def u)
qed

end
