(* ===== verification/Eager_Results.thy ===== *)
theory Eager_Results
  imports Eager_Operations
begin

text \<open>
  The properties of the eager pool over whole histories of operations, and the cases outside their
  hypotheses in which memory is handed out twice.
\<close>

section \<open>Histories\<close>

text \<open>Two blocks of the allocator below do not overlap; a chunk that it answers overlaps none that the pool has.\<close>

definition apart :: "nat \<times> nat \<Rightarrow> nat \<Rightarrow> nat \<times> nat \<Rightarrow> nat \<Rightarrow> bool" where
  "apart p k q j \<longleftrightarrow> fst p \<noteq> fst q \<or> snd p + k \<le> snd q \<or> snd q + j \<le> snd p"

definition fresh_answer :: "nat \<Rightarrow> (nat \<times> nat) option \<Rightarrow> Pool \<Rightarrow> bool" where
  "fresh_answer k answer s = (case answer of None \<Rightarrow> True
     | Some q \<Rightarrow> list_all (\<lambda>(r, j). apart r j q (allocSize k s)) (chunks s))"

text \<open>
  What clients do: they ask for a positive size, free what they hold, release when no group is open, and use
  groups only in a pool without a minimal chunk size. The steps of \<open>pback\<close> ask for no memory.
\<close>

inductive pback :: "Pool \<times> Held \<Rightarrow> Pool \<times> Held \<Rightarrow> bool" where
  free: "p \<in> fst ` set H \<Longrightarrow> pback (s, H) (snd (pool_free p s), filter (\<lambda>h. fst h \<noteq> p) H)"
| releaseAll: "mGroups s = [] \<Longrightarrow> pback (s, H) (pool_release True s, [])"
| release: "mGroups s = [] \<Longrightarrow> pback (s, H) (pool_release False s, H)"
| beginGroup: "mMinAllocSize s = 0 \<Longrightarrow> pback (s, H) (pool_beginGroup s, H)"
| endGroup: "pback (s, H) (pool_endGroup s, H)"
| barrierEnd: "mCurrentFreeList s = None \<Longrightarrow> pback (s, H) (pool_barrierEnd s, H)"

inductive pstep :: "Pool \<times> Held \<Rightarrow> Pool \<times> Held \<Rightarrow> bool" where
  alloc: "pool_alloc k separate align answer s = (Some p, t) \<Longrightarrow> 0 < k \<Longrightarrow> fresh_answer k answer s \<Longrightarrow> pstep (s, H) (t, (p, k) # H)"
| failed: "pool_alloc k separate align answer s = (None, t) \<Longrightarrow> pstep (s, H) (t, H)"
| settle: "pback x y \<Longrightarrow> pstep x y"

definition pool_params :: "nat \<Rightarrow> nat \<Rightarrow> bool" where
  "pool_params align minAllocSize \<longleftrightarrow> 0 < align \<and> (minAllocSize \<noteq> 0 \<longrightarrow> align dvd minAllocSize \<and> minAllocSize < 2 ^ 64)"

section \<open>What is referenced\<close>

lemma ancestors_step:
  assumes "tree_shaped (par s) A L R"
  shows "c \<in> set (ancestors fuel s e) \<Longrightarrow> par s c = Some n \<Longrightarrow> e \<in> A \<Longrightarrow> e < fuel \<Longrightarrow> n \<in> set (ancestors fuel s e)"
proof (induction fuel arbitrary: e)
  case (Suc fuel)
  note d = tree_shapedD(3) [OF assms]
  show ?case
  proof (cases "c = e")
    case True
    then have "n < e" using d Suc.prems(2,3) by blast
    then obtain f where "fuel = Suc f" using Suc.prems(4) by (cases fuel) auto
    then show ?thesis using True Suc.prems(2) by simp
  next
    case False
    then obtain p where p: "par s e = Some p" "c \<in> set (ancestors fuel s p)"
      using Suc.prems(1) by (cases "par s e") auto
    then have "p \<in> A" "p < fuel" using d [OF Suc.prems(3) p(1)] Suc.prems(4) by auto
    then show ?thesis using Suc.IH [OF p(2) Suc.prems(2)] p(1) by simp
  qed
qed simp

lemma ancestors_in:
  assumes "tree_shaped (par s) A L R"
  shows "e \<in> A \<Longrightarrow> set (ancestors fuel s e) \<subseteq> A"
proof (induction fuel arbitrary: e)
  case (Suc fuel)
  show ?case
  proof (cases "par s e")
    case (Some p)
    then have "p \<in> A" using tree_shapedD(3) [OF assms Suc.prems Some] by blast
    then show ?thesis using Suc.IH Suc.prems Some by simp
  qed (use Suc.prems in simp)
qed simp

lemma ancestors_cover:
  assumes "tree_shaped (par s) A L R" "n \<in> A" "\<forall>m \<in> A. m < b"
  shows "\<exists>e \<in> L. n \<in> set (ancestors b s e)"
  using assms(2)
proof (induction "b - n" arbitrary: n rule: less_induct)
  case less
  note d = tree_shapedD [OF assms(1)]
  show ?case
  proof (cases "n \<in> L")
    case True
    then have "n \<in> set (ancestors b s n)" using less.prems assms(3) by (cases b) auto
    then show ?thesis using True by blast
  next
    case False
    then obtain c where c: "c \<in> A" "par s c = Some n" using d(4) less.prems by blast
    then have "n < c" "c < b" using d(3) assms(3) by blast+
    then obtain e where e: "e \<in> L" "c \<in> set (ancestors b s e)" using less.hyps [of c] c(1) by force
    moreover have "e \<in> A" "e < b" using e(1) d(2) assms(3) by blast+
    ultimately show ?thesis using ancestors_step [OF assms(1) e(2) c(2)] by blast
  qed
qed

lemma referenced_nodes:
  assumes "pool_inv s A"
  shows "set (referenced s) = A"
proof -
  let ?L = "set (freeNodes s @ others s)"
  have t: "tree_shaped (par s) A ?L (bytes s)" and b: "\<forall>m \<in> A. m < pnext s"
    using assms by (auto simp: pool_inv_def core_def forest_def)
  have "set (entries s) = ?L" by (auto simp: entries_def others_def)
  then have r: "set (referenced s) = (\<Union>e \<in> ?L. set (ancestors (pnext s) s e))" unfolding referenced_def by simp
  show ?thesis
  proof (intro equalityI subsetI)
    fix n assume "n \<in> set (referenced s)"
    then obtain e where e: "e \<in> ?L" "n \<in> set (ancestors (pnext s) s e)" unfolding r by (rule UN_E)
    have "e \<in> A" by (rule subsetD [OF tree_shapedD(2) [OF t] e(1)])
    from subsetD [OF ancestors_in [OF t this] e(2)] show "n \<in> A" .
  next
    fix n assume "n \<in> A"
    then obtain e where "e \<in> ?L" "n \<in> set (ancestors (pnext s) s e)" using ancestors_cover [OF t _ b, of n] by (auto elim!: bexE simp del: set_append)
    then show "n \<in> set (referenced s)" unfolding r by (rule UN_I)
  qed
qed

lemma chunks_roots:
  assumes "pool_inv s A"
  shows "set (chunks s) = snd ` roots s A"
    "sum_list (map snd (chunks s)) = sum (sz s) {n \<in> A. par s n = None}"
proof -
  let ?l = "filter (\<lambda>n. par s n = None) (referenced s)"
  have l: "set ?l = {n \<in> A. par s n = None}" "distinct ?l" using referenced_nodes [OF assms] by (auto simp: referenced_def)
  show "set (chunks s) = snd ` roots s A"
    unfolding chunks_def roots_def set_map l(1) image_image snd_conv ..
  have "map snd (chunks s) = map (sz s) ?l" by (simp add: chunks_def comp_def)
  then show "sum_list (map snd (chunks s)) = sum (sz s) {n \<in> A. par s n = None}"
    using l by (metis sum.distinct_set_conv_list)
qed

section \<open>The invariant over histories\<close>

lemma apart_disjoint: "apart p k q j \<Longrightarrow> block p k \<inter> block q j = {}"
  by (auto simp: apart_def in_block)

lemma reuse_inv:
  assumes "pool_inv s A" "holds s H" "reuse k al s = Some (p, t)" "0 < k" "0 < al"
  shows "\<exists>A'. pool_inv t A' \<and> holds t ((p, k) # H) \<and> roots t A' = roots s A"
proof (cases "case mCurrentFreeList s of Some g \<Rightarrow> getFromFreeList (Group g) k False al s | None \<Rightarrow> None")
  case None
  then have "getFromFreeList MainList k True al s = Some (p, t)" using assms(3) by (simp add: reuse_def)
  then show ?thesis using take_main [OF assms(1,2) _ assms(4,5)] by blast
next
  case (Some r')
  then obtain g where g: "mCurrentFreeList s = Some g" "getFromFreeList (Group g) k False al s = Some (p, t)"
    using assms(3) by (auto simp: reuse_def split: option.splits)
  then show ?thesis using take_group [OF assms(1,2) _ assms(4,5)] by blast
qed

lemma pool_alloc_cases:
  assumes "pool_alloc k separate align answer s = (Some p, t)"
  defines "al \<equiv> if align = 0 then mAlign s else align"
  obtains (reused) "\<not> separate" "reuse k al s = Some (p, t)"
  | (asked) "answer = Some p" "t = allocNew k p s" "(if separate then None else reuse k al s) = None"
  using assms(1) unfolding pool_alloc_def Let_def al_def [symmetric]
  by (cases "if separate then None else reuse k al s") (auto split: option.splits if_splits)

lemma pool_alloc_inv:
  assumes "pool_inv s A" "holds s H" "pool_alloc k separate align answer s = (Some p, t)" "0 < k" "fresh_answer k answer s"
  shows "\<exists>A'. pool_inv t A' \<and> holds t ((p, k) # H)"
  using assms(3)
proof (cases rule: pool_alloc_cases)
  case reused
  moreover have "0 < (if align = 0 then mAlign s else align)" using pool_invD(4) [OF assms(1)] by simp
  ultimately show ?thesis using reuse_inv [OF assms(1,2) _ assms(4)] by blast
next
  case asked
  have "bytes s m \<inter> block p (allocSize k s) = {}" if "m \<in> A" "par s m = None" for m
  proof -
    have "(pointer (pnodes s m), sz s m) \<in> set (chunks s)" using chunks_roots(1) [OF assms(1)] that by (force simp: roots_def)
    then have "apart (pointer (pnodes s m)) (sz s m) p (allocSize k s)"
      using assms(5) asked(1) by (auto simp: fresh_answer_def list_all_iff)
    then show ?thesis unfolding bytes_def by (rule apart_disjoint)
  qed
  from allocNew_inv [OF assms(1,2,4) this] show ?thesis using asked by blast
qed

lemma pool_alloc_failed: "pool_alloc k separate align answer s = (None, t) \<Longrightarrow> t = s"
  by (auto simp: pool_alloc_def Let_def split: option.splits if_splits prod.splits)

lemma roots_nodes: "pnodes t = pnodes s \<Longrightarrow> B \<subseteq> A \<Longrightarrow> roots t B \<subseteq> roots s A"
  by (auto simp: roots_def)

lemma pback_inv:
  assumes "pback (s, H) (t, K)" "pool_inv s A" "holds s H"
  shows "\<exists>A'. pool_inv t A' \<and> holds t K \<and> roots t A' \<subseteq> roots s A"
  using assms(1)
proof (cases rule: pback.cases)
  case (free p)
  then show ?thesis using pool_free_inv(2) [OF assms(2,3)] by fastforce
next
  case barrierEnd
  then show ?thesis using barrierEnd_inv [OF assms(2,3)] by fastforce
next
  case releaseAll
  then show ?thesis using release_inv(2) [OF assms(2,3)] by (auto simp: roots_def)
next
  case release
  moreover have "roots (pool_release False s) (A - X) \<subseteq> roots s A" for X
    by (rule roots_nodes) (auto simp: pool_release_def Let_def)
  ultimately show ?thesis using release_inv(1) [OF assms(2,3)] by blast
next
  case beginGroup
  moreover have "roots (pool_beginGroup s) A \<subseteq> roots s A" by (rule roots_nodes) (auto simp: pool_beginGroup_def)
  ultimately show ?thesis using group_inv(2) [OF assms(2,3)] by blast
next
  case endGroup
  moreover have "roots (pool_endGroup s) A \<subseteq> roots s A" by (rule roots_nodes) (auto simp: pool_endGroup_def)
  ultimately show ?thesis using group_inv(1) [OF assms(2,3)] by blast
qed

lemma pstep_inv:
  assumes "pstep (s, H) (t, K)" "pool_inv s A" "holds s H"
  shows "\<exists>A'. pool_inv t A' \<and> holds t K"
  using assms(1)
proof (cases rule: pstep.cases)
  case (alloc k separate align answer p)
  then show ?thesis using pool_alloc_inv [OF assms(2,3)] by blast
next
  case (failed k separate align answer)
  then show ?thesis using pool_alloc_failed assms(2,3) by blast
next
  case settle
  then show ?thesis using pback_inv [OF _ assms(2,3)] by blast
qed

lemma init_inv:
  assumes "pool_params align minAllocSize"
  shows "pool_inv (initPool align minAllocSize) {} \<and> holds (initPool align minAllocSize) []"
  using assms by (simp add: pool_inv_def core_def merged_def forest_def tree_shaped_def used_ok_def groups_ok_def holds_def
    initPool_def others_def pool_params_def)

lemma history_inv:
  assumes "pool_params align minAllocSize" "pstep\<^sup>*\<^sup>* (initPool align minAllocSize, []) (s, H)"
  obtains A where "pool_inv s A" "holds s H"
proof -
  have "\<exists>A. pool_inv (fst x) A \<and> holds (fst x) (snd x)" if "pstep\<^sup>*\<^sup>* (initPool align minAllocSize, []) x" for x
    using that
  proof (induction rule: rtranclp_induct)
    case base
    then show ?case using init_inv [OF assms(1)] by auto
  next
    case (step x y)
    then show ?case using pstep_inv [of "fst x" "snd x" "fst y" "snd y"] by auto
  qed
  from this [OF assms(2)] show ?thesis using that by auto
qed

lemma held_node:
  assumes "pool_inv s A" "holds s H" "(r, i) \<in> set H"
  shows "\<exists>n. (r, n) \<in> set (mUsedList s) \<and> n \<in> set (others s) \<and> block r i \<subseteq> bytes s n"
proof -
  have "r \<in> fst ` set (mUsedList s)" using assms(2,3) by (force simp: holds_def)
  then obtain n where "(r, n) \<in> set (mUsedList s)" by force
  then show ?thesis using holdsD [OF assms(2,3)] by (force simp: others_def)
qed

lemma held_apart:
  assumes "pool_inv s A" "holds s H" "(p, k) \<in> set H" "(q, j) \<in> set H" "(p, k) \<noteq> (q, j)"
  shows "block p k \<inter> block q j = {}"
proof -
  obtain m n where m: "(p, m) \<in> set (mUsedList s)" "m \<in> set (others s)" "block p k \<subseteq> bytes s m"
    and n: "(q, n) \<in> set (mUsedList s)" "n \<in> set (others s)" "block q j \<subseteq> bytes s n"
    using held_node [OF assms(1-3)] held_node [OF assms(1,2,4)] by blast
  have c: "core s (others s) A" using assms(1) by (simp add: pool_inv_def)
  have "p \<noteq> q" using assms(2-5) by (auto simp: holds_def dest: eq_key_imp_eq_value)
  moreover have "distinct (map snd (mUsedList s))" using c by (simp add: core_def others_def)
  ultimately have "m \<noteq> n" using m(1) n(1) inj_onD [of snd "set (mUsedList s)" "(p, m)" "(q, n)"] by (auto simp: distinct_map)
  then have "bytes s m \<inter> bytes s n = {}" using leaves_disjoint [OF c, of m n] m(2) n(2) by simp
  then show ?thesis using m(3) n(3) by blast
qed

lemma held_in_chunk:
  assumes "pool_inv s A" "holds s H" "(p, k) \<in> set H"
  shows "\<exists>(r, m) \<in> set (chunks s). block p k \<subseteq> block r m"
proof -
  obtain m where m: "m \<in> set (others s)" "block p k \<subseteq> bytes s m" using held_node [OF assms] by blast
  have t: "tree_shaped (par s) A (set (freeNodes s @ others s)) (bytes s)" using assms(1) by (simp add: pool_inv_def core_def forest_def)
  obtain r where "r \<in> A" "par s r = None" "bytes s m \<subseteq> bytes s r"
    using root_covers [OF t, of m] tree_shapedD(2) [OF t] m(1) by auto
  then show ?thesis
    unfolding chunks_roots(1) [OF assms(1)] roots_def image_image snd_conv using m(2) by (auto simp: bytes_def)
qed

lemma release_empties:
  assumes "pool_inv s A" "holds s []" "mGroups s = []"
  shows "entries (pool_release False s) = [] \<and> mTotalSize (pool_release False s) = 0 \<and>
    set (onReleased s (pool_release False s)) = fst ` set (chunks s)"
proof -
  let ?t = "pool_release False s"
  note A = assms(1,2)
  have o: "others s = []" using A(2) assms(3) by (simp add: holds_def others_def)
  have c: "forest (par s) A (set (freeNodes s)) (set (freeNodes s)) (bytes s) (cnt s)" "merged s [] A {}"
    using A(1) by (simp_all add: pool_inv_def o core_def)
  have "n \<in> A \<Longrightarrow> n \<notin> set (freeNodes s) \<Longrightarrow> cnt s n \<noteq> 0" for n using c(2) by (auto simp: merged_def)
  note f = all_free [OF c(1) refl this]
  then have X: "A - {n \<in> set (freeNodes s). par s n = None} = {}" by auto
  have t: "pool_inv ?t {}" using release_inv(1) [OF A assms(3)] unfolding X by simp
  have "set (referenced ?t) = {}" by (rule referenced_nodes [OF t])
  moreover have "set (entries ?t) = {}" using t f by (auto simp: pool_inv_def core_def forest_def tree_shaped_def entries_def others_def)
  moreover have "mTotalSize ?t = 0" using t by (simp add: pool_inv_def core_def)
  moreover have "set (onReleased s ?t) = fst ` set (chunks s)"
    using \<open>set (referenced ?t) = {}\<close> by (simp add: onReleased_def chunks_def image_image)
  ultimately show ?thesis by simp
qed

section \<open>Properties\<close>


text \<open>
  \<^verbatim>\<open>totalSize\<close> of the eager pool is the sum of the sizes of the chunks that it has.
\<close>

theorem eager_total:
  assumes "pool_params align minAllocSize" "pstep\<^sup>*\<^sup>* (initPool align minAllocSize, []) (s, H)"
  shows "mTotalSize s = sum_list (map snd (chunks s))"
proof -
  obtain A where A: "pool_inv s A" "holds s H" by (rule history_inv [OF assms])
  then show ?thesis using chunks_roots(2) [OF A(1)] by (simp add: pool_inv_def core_def)
qed


section \<open>A history\<close>

text \<open>
  A chunk of 256 bytes is requested and freed, 64 bytes of it are taken, 100 more, and a separate chunk of 10.
\<close>

definition w_alloc :: "nat \<Rightarrow> bool \<Rightarrow> (nat \<times> nat) option \<Rightarrow> Pool \<times> Held \<Rightarrow> Pool \<times> Held" where
  "w_alloc k separate answer x = (case pool_alloc k separate 0 answer (fst x) of
     (None, t) \<Rightarrow> (t, snd x) | (Some p, t) \<Rightarrow> (t, (p, k) # snd x))"

definition w_free :: "nat \<times> nat \<Rightarrow> Pool \<times> Held \<Rightarrow> Pool \<times> Held" where
  "w_free p x = (snd (pool_free p (fst x)), filter (\<lambda>h. fst h \<noteq> p) (snd x))"

definition w_pool :: "Pool \<times> Held" where
  "w_pool = w_alloc 10 True (Some (2, 0)) (w_alloc 100 False None (w_alloc 64 False None
     (w_free (1, 0) (w_alloc 256 False (Some (1, 0)) (initPool 64 0, [])))))"

lemma w_alloc_step: "fresh_answer k answer (fst x) \<Longrightarrow> 0 < k \<Longrightarrow> pstep x (w_alloc k separate answer x)"
  using pstep.alloc [of k separate 0 answer "fst x"] pstep.failed [of k separate 0 answer "fst x"]
  by (cases x) (auto simp: w_alloc_def split: prod.split option.split)

lemma w_free_step: "p \<in> fst ` set (snd x) \<Longrightarrow> pstep x (w_free p x)"
  using pstep.settle [OF pback.free, of p "snd x" "fst x"] by (simp add: w_free_def)

lemma w_history: "pstep\<^sup>*\<^sup>* (initPool 64 0, []) w_pool" "pstep\<^sup>*\<^sup>* (initPool 64 0, []) (w_free (2, 0) (w_free (1, 64) (w_free (1, 0) w_pool)))"
proof -
  let ?x1 = "w_alloc 256 False (Some (1, 0)) (initPool 64 0, [])"
  let ?x3 = "w_alloc 64 False None (w_free (1, 0) ?x1)"
  let ?x4 = "w_alloc 100 False None ?x3"
  have e: "fresh_answer 256 (Some (1, 0)) (initPool 64 0)" "(1, 0) \<in> fst ` set (snd ?x1)" "fresh_answer 10 (Some (2, 0)) (fst ?x4)"
    "fresh_answer k None s" for k s by code_simp+
  have 1: "pstep (initPool 64 0, []) ?x1" by (rule w_alloc_step) (unfold fst_conv, rule e(1), simp)
  have 2: "pstep ?x1 (w_free (1, 0) ?x1)" by (rule w_free_step [OF e(2)])
  have 3: "pstep (w_free (1, 0) ?x1) ?x3" by (rule w_alloc_step) (simp_all add: e)
  have 4: "pstep ?x3 ?x4" by (rule w_alloc_step) (simp_all add: e)
  have 5: "pstep ?x4 w_pool" unfolding w_pool_def by (rule w_alloc_step [OF e(3)]) simp
  show w: "pstep\<^sup>*\<^sup>* (initPool 64 0, []) w_pool"
    using 1 2 3 4 5 by (meson rtranclp.rtrancl_into_rtrancl rtranclp.rtrancl_refl)
  have f: "(1, 0) \<in> fst ` set (snd w_pool)" "(1, 64) \<in> fst ` set (snd (w_free (1, 0) w_pool))"
    "(2, 0) \<in> fst ` set (snd (w_free (1, 64) (w_free (1, 0) w_pool)))" by code_simp+
  show "pstep\<^sup>*\<^sup>* (initPool 64 0, []) (w_free (2, 0) (w_free (1, 64) (w_free (1, 0) w_pool)))"
    using w w_free_step [OF f(1)] w_free_step [OF f(2)] w_free_step [OF f(3)] by (meson rtranclp.rtrancl_into_rtrancl)
qed

lemma w_here: "pstep\<^sup>*\<^sup>* (initPool 64 0, []) (fst w_pool, snd w_pool)"
  using w_history(1) by simp


theorem eager_total_witness: "mTotalSize (fst w_pool) = sum_list (map snd (chunks (fst w_pool))) \<and> mTotalSize (fst w_pool) = 266"
proof -
  have "mTotalSize (fst w_pool) = sum_list (map snd (chunks (fst w_pool)))"
    by (rule eager_total [OF _ w_here]) (simp add: pool_params_def)
  moreover have "mTotalSize (fst w_pool) = 266" by code_simp
  ultimately show ?thesis by simp
qed


section \<open>Outside the hypotheses\<close>

lemmas pool_eval = pool_alloc_def reuse_def getFromFreeList_def lowerBound_def initPool_def allocNew_def allocSize_def newNode_def
      insertUsed_def changeNode_def targetList_def mapInsert_def align_up_def UP_DIV_sz_def countUp_def Let_def

text \<open>
  C37. With a minimal chunk size, memory is handed out twice. In a group, the rest of a new chunk is put into
  the group's list without being counted; when the barrier ends, returning it makes the chunk look free while
  its first part is held. And a minimal size that is no multiple of the alignment can leave a rest of less than
  nothing: the node in the free list then has \<^verbatim>\<open>size_t(-1)\<close> bytes, and serves a request of a million.
\<close>

theorem eager_min_size_overlap:
  "(let (p, s) = pool_alloc 64 False 0 (Some (1, 0)) (pool_beginGroup (initPool 64 256))
    in p = Some (1, 0) \<and> fst (pool_alloc 256 False 0 None (pool_barrierEnd (pool_endGroup s))) = Some (1, 0)) \<and>
   (let (p, s) = pool_alloc 250 False 0 (Some (1, 0)) (initPool 64 255)
    in p = Some (1, 0) \<and> mFreeList s = [(2 ^ 64 - 1, 2)] \<and> fst (pool_alloc 1000000 False 0 None s) = Some (1, 256))"
proof
  show "let (p, s) = pool_alloc 64 False 0 (Some (1, 0)) (pool_beginGroup (initPool 64 256))
    in p = Some (1, 0) \<and> fst (pool_alloc 256 False 0 None (pool_barrierEnd (pool_endGroup s))) = Some (1, 0)"
    by (simp add: pool_eval pool_beginGroup_def pool_endGroup_def pool_barrierEnd_def returnMemory_def countDown_def)
  show "let (p, s) = pool_alloc 250 False 0 (Some (1, 0)) (initPool 64 255)
    in p = Some (1, 0) \<and> mFreeList s = [(2 ^ 64 - 1, 2)] \<and> fst (pool_alloc 1000000 False 0 None s) = Some (1, 256)"
    by (simp add: pool_eval)
qed

end
