(* ===== verification/Eager_Nested.thy ===== *)
theory Eager_Nested
  imports Eager_Results
begin

text \<open>
  Pools over pools: \<^verbatim>\<open>RecurseAllocator\<close> makes one \<^verbatim>\<open>EagerBufferAllocator\<close> the source of the chunks of another
  (\<^verbatim>\<open>source/core/BufferAllocator.cpp\<close>). A locale states what a pool relies on in the allocator below, and what
  follows for a pool over any such allocator; it is interpreted on the pool itself.
\<close>

section \<open>The allocator of a parent pool\<close>

text \<open>\<open>answer\<close> is what the allocator below the parent would answer.\<close>

definition recurse_onAlloc :: "(nat \<times> nat) option \<Rightarrow> nat \<Rightarrow> nat \<Rightarrow> Pool \<Rightarrow> (nat \<times> nat) option \<times> Pool" where
  "recurse_onAlloc answer k align s = pool_alloc k False align answer s"

definition recurse_onRelease :: "nat \<times> nat \<Rightarrow> Pool \<Rightarrow> Pool" where
  "recurse_onRelease p s = snd (pool_free p s)"

text \<open>
  The operations of a pool together with the state of the allocator below: \<^verbatim>\<open>alloc\<close> calls \<open>onAlloc\<close> when nothing
  can be reused, every other operation calls \<open>onRelease\<close> for each chunk that it drops.
\<close>

definition asks :: "nat \<Rightarrow> bool \<Rightarrow> nat \<Rightarrow> Pool \<Rightarrow> bool" where
  "asks k separate align c \<longleftrightarrow> fst (pool_alloc k separate align None c) = None"

definition alloc_from :: "(nat \<Rightarrow> nat \<Rightarrow> 's \<Rightarrow> (nat \<times> nat) option \<times> 's) \<Rightarrow> nat \<Rightarrow> bool \<Rightarrow> nat \<Rightarrow> Pool \<times> 's \<Rightarrow>
    (nat \<times> nat) option \<times> Pool \<times> 's" where
  "alloc_from onAlloc k separate align x =
     (let c = fst x; s = snd x in
      if asks k separate align c then
        (let (answer, s) = onAlloc (allocSize k c) (if align = 0 then mAlign c else align) s;
             (p, c) = pool_alloc k separate align answer c
         in (p, c, s))
      else (let (p, c) = pool_alloc k separate align None c in (p, c, s)))"

definition drop_to :: "(nat \<times> nat \<Rightarrow> 's \<Rightarrow> 's) \<Rightarrow> Pool \<Rightarrow> Pool \<times> 's \<Rightarrow> Pool \<times> 's" where
  "drop_to onRelease c' x = (c', fold onRelease (onReleased (fst x) c') (snd x))"

lemma pool_alloc_asks:
  assumes "asks k separate align c"
  shows "pool_alloc k separate align answer c = (case answer of None \<Rightarrow> (None, c) | Some q \<Rightarrow> (Some q, allocNew k q c))"
  using assms unfolding asks_def pool_alloc_def Let_def by (auto split: option.splits if_splits)

text \<open>
  A history of a pool over an allocator: \<open>K\<close> is held from the pool, \<open>L\<close> is out of the allocator below, to the
  pool and to others. Others do not give back the chunks of the pool.
\<close>

inductive over :: "('a \<Rightarrow> nat \<Rightarrow> nat \<Rightarrow> 's \<Rightarrow> (nat \<times> nat) option \<times> 's) \<Rightarrow> (nat \<times> nat \<Rightarrow> 's \<Rightarrow> 's) \<Rightarrow> (nat \<Rightarrow> 'a \<Rightarrow> 's \<Rightarrow> bool) \<Rightarrow>
    ('s \<times> Held \<Rightarrow> 's \<times> Held \<Rightarrow> bool) \<Rightarrow> Pool \<times> Held \<times> 's \<times> Held \<Rightarrow> Pool \<times> Held \<times> 's \<times> Held \<Rightarrow> bool"
  for onAlloc onRelease fair step where
  alloc: "alloc_from (onAlloc a) k separate align (c, s) = (Some p, c', t) \<Longrightarrow> 0 < k \<Longrightarrow> fair (allocSize k c) a s \<Longrightarrow>
    over onAlloc onRelease fair step (c, K, s, L) (c', (p, k) # K, t, if asks k separate align c then (p, allocSize k c) # L else L)"
| failed: "alloc_from (onAlloc a) k separate align (c, s) = (None, c', t) \<Longrightarrow>
    over onAlloc onRelease fair step (c, K, s, L) (c', K, t, L)"
| dropped: "pback (c, K) (c', K') \<Longrightarrow> drop_to onRelease c' (c, s) = (c', t) \<Longrightarrow>
    over onAlloc onRelease fair step (c, K, s, L) (c', K', t, filter (\<lambda>h. fst h \<notin> set (onReleased c c')) L)"
| below: "step (s, L) (t, M) \<Longrightarrow> set (chunks c) \<subseteq> set M \<Longrightarrow> over onAlloc onRelease fair step (c, K, s, L) (c, K, t, M)"

lemma in_roots: "n \<in> A \<Longrightarrow> par c n = None \<Longrightarrow> (n, pointer (pnodes c n), sz c n) \<in> roots c A"
  by (simp add: roots_def)

text \<open>The chunks that a step drops, by their addresses.\<close>

lemma released_chunks:
  assumes "pool_inv c A" "pool_inv c' A'" "inj_on (fst \<circ> snd) (roots c A)" "roots c' A' \<subseteq> roots c A"
  shows "distinct (onReleased c c')" "set (onReleased c c') \<subseteq> (fst \<circ> snd) ` roots c A"
    "(n, p, k) \<in> roots c' A' \<Longrightarrow> p \<notin> set (onReleased c c')"
proof -
  let ?X = "{n \<in> A. par c n = None \<and> n \<notin> A'}"
  let ?l = "filter (\<lambda>n. par c n = None \<and> n \<notin> set (referenced c')) (referenced c)"
  have l: "set ?l = ?X" "distinct ?l"
    using referenced_nodes [OF assms(1)] referenced_nodes [OF assms(2)] by (auto simp: referenced_def)
  have inj: "m = n" if "m \<in> A" "n \<in> A" "par c m = None" "par c n = None" "pointer (pnodes c m) = pointer (pnodes c n)" for m n
    using inj_onD [OF assms(3) _ in_roots [OF that(1,3)] in_roots [OF that(2,4)]] that(5) by simp
  have "inj_on (\<lambda>n. pointer (pnodes c n)) (set ?l)" unfolding l(1) by (rule inj_onI) (use inj in auto)
  then show "distinct (onReleased c c')" unfolding onReleased_def using l(2) by (simp add: distinct_map)
  have s: "set (onReleased c c') = (\<lambda>n. pointer (pnodes c n)) ` ?X" unfolding onReleased_def set_map l(1) ..
  then show "set (onReleased c c') \<subseteq> (fst \<circ> snd) ` roots c A" by (force simp: roots_def)
  assume n: "(n, p, k) \<in> roots c' A'"
  then have "n \<in> A'" "n \<in> A" "par c n = None" "p = pointer (pnodes c n)" using assms(4) by (auto simp: roots_def)
  then show "p \<notin> set (onReleased c c')" unfolding s using inj by auto
qed

section \<open>What a pool relies on\<close>

text \<open>
  \<open>ok s L\<close>: the blocks \<open>L\<close> are out. They do not overlap, have different addresses, and stay out over every \<open>step\<close>
  that the clients of the allocator take; a request and a release are such steps.
\<close>

locale chunk_source =
  fixes onAlloc :: "'a \<Rightarrow> nat \<Rightarrow> nat \<Rightarrow> 's \<Rightarrow> (nat \<times> nat) option \<times> 's"
    and onRelease :: "nat \<times> nat \<Rightarrow> 's \<Rightarrow> 's"
    and fair :: "nat \<Rightarrow> 'a \<Rightarrow> 's \<Rightarrow> bool"
    and ok :: "'s \<Rightarrow> Held \<Rightarrow> bool"
    and step :: "'s \<times> Held \<Rightarrow> 's \<times> Held \<Rightarrow> bool"
  assumes ok_step: "step (s, L) (t, M) \<Longrightarrow> ok s L \<Longrightarrow> ok t M"
    and ok_apart: "ok s L \<Longrightarrow> (p, k) \<in> set L \<Longrightarrow> (q, j) \<in> set L \<Longrightarrow> (p, k) \<noteq> (q, j) \<Longrightarrow> block p k \<inter> block q j = {}"
    and ok_keys: "ok s L \<Longrightarrow> distinct (map fst L)"
    and alloc_step: "onAlloc a k align s = (Some p, t) \<Longrightarrow> 0 < k \<Longrightarrow> fair k a s \<Longrightarrow> step (s, L) (t, (p, k) # L)"
    and fail_step: "onAlloc a k align s = (None, t) \<Longrightarrow> step (s, L) (t, L)"
    and release_step: "p \<in> fst ` set L \<Longrightarrow> step (s, L) (onRelease p s, filter (\<lambda>h. fst h \<noteq> p) L)"
begin

lemma releases:
  assumes "ok s L" "distinct ps" "set ps \<subseteq> fst ` set L"
  shows "ok (fold onRelease ps s) (filter (\<lambda>h. fst h \<notin> set ps) L)"
  using assms
proof (induction ps arbitrary: s L)
  case (Cons p ps)
  let ?L = "filter (\<lambda>h. fst h \<noteq> p) L"
  have "ok (onRelease p s) ?L" using ok_step [OF release_step Cons.prems(1)] Cons.prems(3) by simp
  moreover have "set ps \<subseteq> fst ` set ?L" using Cons.prems(2,3) by force
  ultimately have "ok (fold onRelease ps (onRelease p s)) (filter (\<lambda>h. fst h \<notin> set ps) ?L)"
    using Cons.prems(2) by (intro Cons.IH) simp_all
  moreover have "filter (\<lambda>h. fst h \<notin> set ps) ?L = filter (\<lambda>h. fst h \<notin> set (p # ps)) L" by (auto intro: filter_cong)
  ultimately show ?case by simp
qed simp

text \<open>A pool whose chunks are out: what is held from it, and what is out below.\<close>

definition backed :: "Pool \<Rightarrow> Held \<Rightarrow> 's \<Rightarrow> Held \<Rightarrow> bool" where
  "backed c K s L \<longleftrightarrow> (\<exists>A. pool_inv c A \<and> holds c K \<and> ok s L \<and> snd ` roots c A \<subseteq> set L \<and> inj_on (fst \<circ> snd) (roots c A))"

lemma backedI:
  "pool_inv c A \<Longrightarrow> holds c K \<Longrightarrow> ok s L \<Longrightarrow> snd ` roots c A \<subseteq> set L \<Longrightarrow> inj_on (fst \<circ> snd) (roots c A) \<Longrightarrow> backed c K s L"
  unfolding backed_def by blast

lemma backedE:
  assumes "backed c K s L"
  obtains A where "pool_inv c A" "holds c K" "ok s L" "snd ` roots c A \<subseteq> set L" "inj_on (fst \<circ> snd) (roots c A)"
  using assms unfolding backed_def by blast

lemma backed_step: "backed c K s L \<Longrightarrow> step (s, L) (t, M) \<Longrightarrow> set (chunks c) \<subseteq> set M \<Longrightarrow> backed c K t M"
  unfolding backed_def using ok_step chunks_roots(1) by metis

lemma backed_alloc:
  assumes "backed c K s L" "alloc_from (onAlloc a) k separate align (c, s) = (Some p, c', t)" "0 < k" "fair (allocSize k c) a s"
  shows "backed c' ((p, k) # K) t (if asks k separate align c then (p, allocSize k c) # L else L)"
proof -
  obtain A where A: "pool_inv c A" "holds c K" "ok s L" "snd ` roots c A \<subseteq> set L" "inj_on (fst \<circ> snd) (roots c A)"
    by (rule backedE [OF assms(1)])
  show ?thesis
  proof (cases "asks k separate align c")
    case False
    then have "pool_alloc k separate align None c = (Some p, c')" "t = s"
      using assms(2) by (auto simp: alloc_from_def Let_def split: prod.splits)
    from this(1) have "reuse k (if align = 0 then mAlign c else align) c = Some (p, c')" by (rule pool_alloc_cases) simp_all
    moreover have "0 < (if align = 0 then mAlign c else align)" using pool_invD(4) [OF A(1)] by simp
    ultimately obtain A' where "pool_inv c' A'" "holds c' ((p, k) # K)" "roots c' A' = roots c A"
      using reuse_inv [OF A(1,2) _ assms(3)] by blast
    then have "backed c' ((p, k) # K) s L" using A(3-5) by (metis backedI)
    then show ?thesis using False \<open>t = s\<close> by simp
  next
    case True
    let ?n = "allocSize k c"
    obtain answer where o: "onAlloc a ?n (if align = 0 then mAlign c else align) s = (answer, t)"
        "pool_alloc k separate align answer c = (Some p, c')"
      using assms(2) True by (auto simp: alloc_from_def Let_def split: prod.splits)
    have p: "answer = Some p" "c' = allocNew k p c" using o(2) True unfolding pool_alloc_asks [OF True] by (auto split: option.splits)
    have "0 < ?n" using assms(3) by (simp add: allocSize_def less_max_iff_disj)
    from ok_step [OF alloc_step [OF o(1) [unfolded p] this assms(4)] A(3)] have "ok t ((p, ?n) # L)" .
    note new = this ok_keys [OF this]
    have r: "(pointer (pnodes c m), sz c m) \<in> set L" if "m \<in> A" "par c m = None" for m
      using A(4) in_roots [OF that] by force
    have "bytes c m \<inter> block p ?n = {}" if "m \<in> A" "par c m = None" for m
      unfolding bytes_def by (rule ok_apart [OF new(1)]) (use r [OF that] new(2) in force)+
    from allocNew_inv [OF A(1,2) assms(3) this] obtain A' where A': "pool_inv c' A'" "holds c' ((p, k) # K)"
      "roots c' A' = insert (pnext c, p, ?n) (roots c A)" unfolding p(2) by blast
    have "p \<notin> (fst \<circ> snd) ` roots c A" using new(2) A(4) by force
    then have "inj_on (fst \<circ> snd) (roots c' A')" unfolding A'(3) using A(5) by auto
    moreover have sub: "snd ` roots c' A' \<subseteq> set ((p, ?n) # L)" unfolding A'(3) using A(4) by (simp add: subset_insertI2)
    ultimately have "backed c' ((p, k) # K) t ((p, ?n) # L)" using A'(1,2) sub new(1) by (intro backedI)
    then show ?thesis using True by simp
  qed
qed

lemma backed_failed:
  assumes "backed c K s L" "alloc_from (onAlloc a) k separate align (c, s) = (None, c', t)"
  shows "backed c' K t L"
proof -
  have a: "asks k separate align c"
  proof (rule ccontr)
    assume n: "\<not> asks k separate align c"
    then have "fst (pool_alloc k separate align None c) = None"
      using assms(2) by (simp add: alloc_from_def Let_def split_beta)
    then show False using n by (simp add: asks_def)
  qed
  obtain answer where o: "onAlloc a (allocSize k c) (if align = 0 then mAlign c else align) s = (answer, t)"
      "pool_alloc k separate align answer c = (None, c')"
    using assms(2) a by (auto simp: alloc_from_def Let_def split: prod.splits)
  then have "answer = None" "c' = c" unfolding pool_alloc_asks [OF a] by (auto split: option.splits)
  moreover obtain A where A: "pool_inv c A" "holds c K" "ok s L" "snd ` roots c A \<subseteq> set L" "inj_on (fst \<circ> snd) (roots c A)"
    by (rule backedE [OF assms(1)])
  moreover have "ok t L" using o(1) A(3) \<open>answer = None\<close> by (auto intro: ok_step [OF fail_step])
  ultimately show ?thesis by (auto intro: backedI)
qed

lemma backed_dropped:
  assumes "backed c K s L" "pback (c, K) (c', K')" "drop_to onRelease c' (c, s) = (c', t)"
  shows "backed c' K' t (filter (\<lambda>h. fst h \<notin> set (onReleased c c')) L)"
proof -
  obtain A where A: "pool_inv c A" "holds c K" "ok s L" "snd ` roots c A \<subseteq> set L" "inj_on (fst \<circ> snd) (roots c A)"
    by (rule backedE [OF assms(1)])
  obtain A' where A': "pool_inv c' A'" "holds c' K'" "roots c' A' \<subseteq> roots c A" using pback_inv [OF assms(2) A(1,2)] by blast
  note d = released_chunks [OF A(1) A'(1) A(5) A'(3)]
  have t: "t = fold onRelease (onReleased c c') s" using assms(3) by (simp add: drop_to_def)
  have "fst ` snd ` roots c A \<subseteq> fst ` set L" using A(4) by (rule image_mono)
  then have "set (onReleased c c') \<subseteq> fst ` set L" using d(2) by (auto simp: image_comp)
  from releases [OF A(3) d(1) this] have "ok t (filter (\<lambda>h. fst h \<notin> set (onReleased c c')) L)" unfolding t .
  moreover have "snd ` roots c' A' \<subseteq> set (filter (\<lambda>h. fst h \<notin> set (onReleased c c')) L)" using A(4) A'(3) d(3) by force
  moreover have "inj_on (fst \<circ> snd) (roots c' A')" by (rule inj_on_subset [OF A(5) A'(3)])
  ultimately show ?thesis using A'(1,2) by (intro backedI)
qed

lemma backed_over:
  assumes "over onAlloc onRelease fair step (c, K, s, L) (c', K', t, M)" "backed c K s L"
  shows "backed c' K' t M"
  using assms(1)
proof (cases rule: over.cases)
  case (alloc a k separate align p)
  show ?thesis unfolding alloc(1,2) by (rule backed_alloc [OF assms(2) alloc(3-5)])
next
  case (failed a k separate align)
  show ?thesis unfolding failed(1,2) by (rule backed_failed [OF assms(2) failed(3)])
next
  case dropped
  show ?thesis unfolding dropped(1) by (rule backed_dropped [OF assms(2) dropped(2,3)])
next
  case below
  show ?thesis unfolding below(1,2) by (rule backed_step [OF assms(2) below(3,4)])
qed

lemma backed_history:
  assumes "(over onAlloc onRelease fair step)\<^sup>*\<^sup>* (c, K, s, L) x" "backed c K s L"
  shows "case x of (c', K', t, M) \<Rightarrow> backed c' K' t M"
  using assms(1)
proof (induction rule: rtranclp_induct)
  case base
  then show ?case using assms(2) by simp
next
  case (step x y)
  obtain c1 K1 s1 L1 where x: "x = (c1, K1, s1, L1)" by (cases x)
  obtain c2 K2 s2 L2 where y: "y = (c2, K2, s2, L2)" by (cases y)
  show ?case using backed_over [OF step.hyps(2) [unfolded x y]] step.IH by (simp add: x y)
qed

text \<open>
  What is held from a pool overlaps nothing else that is held from it and nothing that others hold from the
  allocator below.
\<close>

lemma backed_apart:
  assumes "backed c K s L" "(p, k) \<in> set K" "(q, j) \<in> set K - {(p, k)} \<union> (set L - set (chunks c))"
  shows "block p k \<inter> block q j = {}"
proof -
  obtain A where A: "pool_inv c A" "holds c K" "ok s L" "snd ` roots c A \<subseteq> set L" using assms(1) by (auto simp: backed_def)
  show ?thesis
  proof (cases "(q, j) \<in> set K - {(p, k)}")
    case True
    then show ?thesis using held_apart [OF A(1,2) assms(2)] by blast
  next
    case False
    then have q: "(q, j) \<in> set L" "(q, j) \<notin> set (chunks c)" using assms(3) by blast+
    obtain r m where r: "(r, m) \<in> set (chunks c)" "block p k \<subseteq> block r m" using held_in_chunk [OF A(1,2) assms(2)] by blast
    have "(r, m) \<in> set L" "(r, m) \<noteq> (q, j)" using r(1) q(2) A(4) chunks_roots(1) [OF A(1)] by auto
    then show ?thesis using ok_apart [OF A(3) _ q(1)] r(2) by blast
  qed
qed

end

section \<open>The pool as such an allocator\<close>

definition pool_ok :: "Pool \<Rightarrow> Held \<Rightarrow> bool" where
  "pool_ok s L \<longleftrightarrow> (\<exists>A. pool_inv s A \<and> holds s L)"

interpretation nested: chunk_source recurse_onAlloc recurse_onRelease fresh_answer pool_ok pstep
proof unfold_locales
  show "pool_ok t M" if "pstep (s, L) (t, M)" "pool_ok s L" for s L t M
    using that pstep_inv unfolding pool_ok_def by blast
  show "block p k \<inter> block q j = {}" if "pool_ok s L" "(p, k) \<in> set L" "(q, j) \<in> set L" "(p, k) \<noteq> (q, j)" for s L p k q j
    using that held_apart unfolding pool_ok_def by blast
  show "distinct (map fst L)" if "pool_ok s L" for s L using that by (auto simp: pool_ok_def holds_def)
  show "pstep (s, L) (t, (p, k) # L)" if "recurse_onAlloc a k align s = (Some p, t)" "0 < k" "fresh_answer k a s" for a k align s p t L
    using that pstep.alloc unfolding recurse_onAlloc_def by blast
  show "pstep (s, L) (t, L)" if "recurse_onAlloc a k align s = (None, t)" for a k align s t L
    using that pstep.failed unfolding recurse_onAlloc_def by blast
  show "pstep (s, L) (recurse_onRelease p s, filter (\<lambda>h. fst h \<noteq> p) L)" if "p \<in> fst ` set L" for p s L
    unfolding recurse_onRelease_def by (rule pstep.settle [OF pback.free [OF that]])
qed

lemma init_backed:
  assumes "pool_params align minAllocSize" "pool_ok s L"
  shows "nested.backed (initPool align minAllocSize) [] s L"
proof -
  have "pool_inv (initPool align minAllocSize) {}" "holds (initPool align minAllocSize) []" using init_inv [OF assms(1)] by simp_all
  then show ?thesis using assms(2) by (rule nested.backedI) (simp_all add: roots_def)
qed

lemma nested_backed:
  assumes "pool_params align minAllocSize" "pool_params align' minAllocSize'"
    and "(over recurse_onAlloc recurse_onRelease fresh_answer pstep)\<^sup>*\<^sup>*
      (initPool align minAllocSize, [], initPool align' minAllocSize', []) (c, K, s, L)"
  shows "nested.backed c K s L"
proof -
  have "pool_ok (initPool align' minAllocSize') []" using init_inv [OF assms(2)] by (auto simp: pool_ok_def)
  from nested.backed_history [OF assms(3) init_backed [OF assms(1) this]] show ?thesis by simp
qed

section \<open>Properties\<close>


text \<open>
  When nothing is held from the upper pool and it has no groups, releasing it leaves in the lower pool exactly
  what the other clients hold there.
\<close>

theorem nested_returns_all:
  assumes "pool_params align minAllocSize" "pool_params align' minAllocSize'"
    and "(over recurse_onAlloc recurse_onRelease fresh_answer pstep)\<^sup>*\<^sup>*
      (initPool align minAllocSize, [], initPool align' minAllocSize', []) (c, [], s, L)"
    and "mGroups c = []" "drop_to recurse_onRelease (pool_release False c) (c, s) = (c', t)"
  shows "entries c' = [] \<and> fst ` set (mUsedList t) = fst ` set L - fst ` set (chunks c)"
proof -
  note b = nested_backed [OF assms(1-3)]
  have c': "c' = pool_release False c" using assms(5) by (simp add: drop_to_def)
  obtain A where A: "pool_inv c A" "holds c []" by (rule nested.backedE [OF b])
  note r = release_empties [OF A assms(4)]
  have "nested.backed c' [] t (filter (\<lambda>h. fst h \<notin> set (onReleased c c')) L)"
    using nested.backed_dropped [OF b pback.release [OF assms(4)] assms(5) [unfolded c']] unfolding c' .
  then have "pool_ok t (filter (\<lambda>h. fst h \<notin> set (onReleased c c')) L)" by (rule nested.backedE)
  then have "fst ` set (mUsedList t) = fst ` set (filter (\<lambda>h. fst h \<notin> set (onReleased c c')) L)" by (auto simp: pool_ok_def holds_def)
  also have "\<dots> = fst ` set L - set (onReleased c c')" by auto
  finally show ?thesis using r unfolding c' by simp
qed

section \<open>A history of two pools\<close>

text \<open>
  Below, the history \<^const>\<open>w_pool\<close> of the eager pool; above, 64 bytes are requested and freed, and 16 and 32 bytes
  are taken of their chunk.
\<close>

definition w_up :: "nat \<Rightarrow> Pool \<times> Held \<times> Pool \<times> Held \<Rightarrow> Pool \<times> Held \<times> Pool \<times> Held" where
  "w_up k x = (case x of (c, K, s, L) \<Rightarrow> (case alloc_from (recurse_onAlloc None) k False 0 (c, s) of
     (None, c', t) \<Rightarrow> (c', K, t, L)
   | (Some p, c', t) \<Rightarrow> (c', (p, k) # K, t, if asks k False 0 c then (p, allocSize k c) # L else L)))"

definition w_drop :: "nat \<times> nat \<Rightarrow> Pool \<times> Held \<times> Pool \<times> Held \<Rightarrow> Pool \<times> Held \<times> Pool \<times> Held" where
  "w_drop p x = (case x of (c, K, s, L) \<Rightarrow> let c' = snd (pool_free p c) in
     (c', filter (\<lambda>h. fst h \<noteq> p) K, snd (drop_to recurse_onRelease c' (c, s)), filter (\<lambda>h. fst h \<notin> set (onReleased c c')) L))"

definition w_upper :: "Pool \<times> Held \<times> Pool \<times> Held" where
  "w_upper = w_up 32 (w_up 16 (w_drop (1, 192) (w_up 64 (initPool 16 0, [], fst w_pool, snd w_pool))))"

abbreviation pools_step where "pools_step \<equiv> over recurse_onAlloc recurse_onRelease fresh_answer pstep"

lemma w_up_step: "0 < k \<Longrightarrow> pools_step x (w_up k x)"
proof (cases x)
  case (fields c K s L)
  assume k: "0 < k"
  obtain r c' t where r: "alloc_from (recurse_onAlloc None) k False 0 (c, s) = (r, c', t)" by (rule prod_cases3)
  have f: "fresh_answer n None u" for n u by (simp add: fresh_answer_def)
  show ?thesis
  proof (cases r)
    case None
    show ?thesis unfolding fields w_up_def by (simp add: r None) (rule over.failed [where onAlloc = recurse_onAlloc and a = None, OF r [unfolded None]])
  next
    case (Some p)
    show ?thesis using over.alloc [where onAlloc = recurse_onAlloc and a = None and fair = fresh_answer, OF r [unfolded Some] k f] unfolding fields w_up_def by (simp add: r Some)
  qed
qed

lemma w_drop_step: "p \<in> fst ` set (fst (snd x)) \<Longrightarrow> pools_step x (w_drop p x)"
proof (cases x)
  case (fields c K s L)
  assume "p \<in> fst ` set (fst (snd x))"
  then have "pback (c, K) (snd (pool_free p c), filter (\<lambda>h. fst h \<noteq> p) K)" by (intro pback.free) (simp add: fields)
  moreover have "drop_to recurse_onRelease c' y = (c', snd (drop_to recurse_onRelease c' y))" for c' y by (simp add: drop_to_def)
  ultimately show ?thesis unfolding fields w_drop_def Let_def prod.case by (rule over.dropped)
qed

lemma below_steps:
  assumes "pstep\<^sup>*\<^sup>* y z" "chunks c = []"
  shows "pools_step\<^sup>*\<^sup>* (c, K, y) (c, K, z)"
  using assms(1)
proof (induction rule: rtranclp_induct)
  case (step y z)
  have "pools_step (c, K, y) (c, K, z)" using over.below [where c = c and step = pstep and s = "fst y" and L = "snd y" and t = "fst z" and M = "snd z"] step.hyps(2) assms(2) by simp
  then show ?case using step.IH by simp
qed simp

lemma w_over: "pools_step\<^sup>*\<^sup>* (initPool 16 0, [], initPool 64 0, []) w_upper"
proof -
  let ?x0 = "(initPool 16 0, [], fst w_pool, snd w_pool)"
  have "chunks (initPool 16 0) = []" by code_simp
  then have 0: "pools_step\<^sup>*\<^sup>* (initPool 16 0, [], initPool 64 0, []) ?x0"
    using below_steps [OF w_history(1)] by (simp add: prod.collapse)
  have "(1, 192) \<in> fst ` set (fst (snd (w_up 64 ?x0)))" by code_simp
  then have "pools_step (w_up 64 ?x0) (w_drop (1, 192) (w_up 64 ?x0))" by (rule w_drop_step)
  moreover have "pools_step x (w_up 64 x)" "pools_step x (w_up 16 x)" "pools_step x (w_up 32 x)" for x
    by (rule w_up_step; simp)+
  ultimately show ?thesis unfolding w_upper_def using 0 by (meson rtranclp.rtrancl_into_rtrancl)
qed


end
